(* ===== verification/Prelude.thy ===== *)
theory Prelude
  imports
    Main
    "HOL-Library.Char_ord"
    "HOL-Library.List_Lexorder"
    "HOL-Library.Product_Lexorder"
begin

text \<open>
  Shared vocabulary and automation of the development.

  \<^item> The types every component uses: instants and durations in nanoseconds, identifiers, and
    the sentinel errors of the Go packages as values of one datatype.
  \<^item> The shape of an operation on the store: it returns an error or a result together with
    the state it leaves, and \<open>tx\<close> restores the tables of a transaction that failed
    (\<^verbatim>\<open>Store.tx\<close> in \<^verbatim>\<open>internal/store/store.go\<close>).
  \<^item> The SQL fragments the store is written in: a table is the list of its rows in rowid
    order, \<open>rows_where\<close> is \<^verbatim>\<open>SELECT ... WHERE\<close>, \<open>update_where\<close> is
    \<^verbatim>\<open>UPDATE ... WHERE\<close> and \<open>latest_by\<close> is
    \<^verbatim>\<open>ORDER BY k DESC LIMIT 1\<close> over an index scanned backwards, where equal keys
    come out in descending rowid order.
\<close>

named_theorems store_simps \<open>unfolding rules of the store operations\<close>
named_theorems inv_intros \<open>preservation lemmas of the store invariant\<close>

section \<open>Time, identifiers and errors\<close>

text \<open>
  An instant is a number of nanoseconds; 0 is Go's zero \<^verbatim>\<open>time.Time\<close>, so
  \<^verbatim>\<open>IsZero\<close> is equality with 0. Every timestamp column is fixed-width UTC text, whose
  byte order is time order, so the SQL comparisons are comparisons of instants.
\<close>

type_synonym time = int
type_synonym duration = int
type_synonym ident = string

definition is_zero_time :: "time \<Rightarrow> bool" where
  "is_zero_time t \<longleftrightarrow> t = 0"

definition millisecond :: duration where "millisecond = 1000000"
definition second :: duration where "second = 1000000000"

text \<open>
  \<^verbatim>\<open>time.Time.Truncate\<close> rounds down to a multiple of the duration since the zero time.
\<close>

definition truncate_to :: "duration \<Rightarrow> time \<Rightarrow> time" where
  "truncate_to d t = (if d \<le> 0 then t else t - t mod d)"

lemma truncate_to_le: "truncate_to d t \<le> t"
  by (simp add: truncate_to_def)

lemma truncate_to_gt: "0 < d \<Longrightarrow> t < truncate_to d t + d"
  by (simp add: truncate_to_def algebra_simps)

lemma truncate_to_mono: "t \<le> u \<Longrightarrow> truncate_to d t \<le> truncate_to d u"
proof (cases "d \<le> 0")
  case False
  assume "t \<le> u"
  then have "t div d \<le> u div d" using False by (simp add: zdiv_mono1)
  then have "d * (t div d) \<le> d * (u div d)" using False by simp
  then show ?thesis using False by (simp add: truncate_to_def minus_mod_eq_mult_div)
qed (simp add: truncate_to_def)

datatype err =
    ErrNotFound
  | ErrUnreadableMessage
  | ErrExtractionSettled
  | ErrIdentityHeld
  | ErrLeaseNotHeld
  | ErrRunNotActive
  | ErrClaimTaken
  | ErrClaimWindowClosed
  | ErrPooledPolicyMissing
  | ErrNoIdentityAvailable
  | ErrUnsupportedKind
  | ErrInvalidArgument
  | ErrConstraint
  | ErrSeal
  | ErrSeedFailed
  | ErrBusStopped
  | ErrBadPattern
  | ErrNoProject
  | ErrMultipleProjects
  | ErrOther

section \<open>Tables as lists of rows\<close>

definition rows_where :: "('r \<Rightarrow> bool) \<Rightarrow> 'r list \<Rightarrow> 'r list" where
  [simp]: "rows_where P rows = filter P rows"

definition find_row :: "('r \<Rightarrow> bool) \<Rightarrow> 'r list \<Rightarrow> 'r option" where
  "find_row P rows = find P rows"

definition update_where :: "('r \<Rightarrow> bool) \<Rightarrow> ('r \<Rightarrow> 'r) \<Rightarrow> 'r list \<Rightarrow> 'r list" where
  "update_where P f rows = map (\<lambda>r. if P r then f r else r) rows"

definition affected :: "('r \<Rightarrow> bool) \<Rightarrow> 'r list \<Rightarrow> nat" where
  "affected P rows = length (filter P rows)"

fun latest_by :: "('r \<Rightarrow> 'k::linorder) \<Rightarrow> 'r list \<Rightarrow> 'r option" where
  "latest_by k [] = None"
| "latest_by k (r # rs) =
     (case latest_by k rs of
        None \<Rightarrow> Some r
      | Some q \<Rightarrow> if k q < k r then Some r else Some q)"

lemma find_row_Some:
  "find_row P rows = Some r \<Longrightarrow> r \<in> set rows \<and> P r"
  by (auto simp: find_row_def find_Some_iff)

lemma find_row_None: "find_row P rows = None \<longleftrightarrow> (\<forall>r\<in>set rows. \<not> P r)"
  by (auto simp: find_row_def find_None_iff)

lemma find_row_append:
  "find_row P (xs @ ys) = (case find_row P xs of None \<Rightarrow> find_row P ys | Some r \<Rightarrow> Some r)"
  by (induction xs) (auto simp: find_row_def)

lemma find_row_map:
  assumes "\<And>r. P (f r) = P r"
  shows "find_row P (map f rows) = map_option f (find_row P rows)"
  using assms by (induction rows) (auto simp: find_row_def)

lemma find_row_unique:
  assumes "distinct (map k rows)" and "r \<in> set rows"
  shows "find_row (\<lambda>x. k x = k r) rows = Some r"
  using assms by (induction rows) (auto simp: find_row_def image_iff)

lemma map_update_where:
  assumes "\<And>r. k (f r) = k r"
  shows "map k (update_where P f rows) = map k rows"
  using assms by (simp add: update_where_def)

lemma set_update_where:
  "r \<in> set (update_where P f rows) \<longleftrightarrow> (\<exists>q\<in>set rows. r = (if P q then f q else q))"
  by (auto simp: update_where_def)

lemma update_where_clears:
  "(\<And>r. P r \<Longrightarrow> \<not> P (f r)) \<Longrightarrow> r \<in> set (update_where P f rows) \<Longrightarrow> \<not> P r"
  by (auto simp: update_where_def)

lemma update_where_hit:
  "r \<in> set rows \<Longrightarrow> (if P r then f r else r) \<in> set (update_where P f rows)"
  by (simp add: update_where_def)

lemma length_update_where [simp]: "length (update_where P f rows) = length rows"
  by (simp add: update_where_def)

lemma update_where_none: "\<forall>r\<in>set rows. \<not> P r \<Longrightarrow> update_where P f rows = rows"
  by (induction rows) (auto simp: update_where_def)

lemma affected_0: "affected P rows = 0 \<longleftrightarrow> (\<forall>r\<in>set rows. \<not> P r)"
  by (simp add: affected_def filter_empty_conv)

lemma affected_by_key:
  assumes "distinct (map k rows)"
  shows "affected (\<lambda>r. k r = x \<and> P r) rows \<le> 1"
proof -
  have "length (filter (\<lambda>r. k r = x) rows) \<le> 1"
    using assms
  proof (induction rows)
    case (Cons r rows)
    have "k r = x \<Longrightarrow> filter (\<lambda>q. k q = x) rows = []"
      using Cons.prems by (auto simp: filter_empty_conv image_iff)
    with Cons show ?case by auto
  qed simp
  moreover have "length (filter (\<lambda>r. k r = x \<and> P r) rows) \<le> length (filter (\<lambda>r. k r = x) rows)"
    by (induction rows) auto
  ultimately show ?thesis by (simp add: affected_def)
qed

lemma latest_by_None [simp]: "latest_by k rows = None \<longleftrightarrow> rows = []"
  by (cases rows) (auto split: option.splits)

lemma latest_by_in: "latest_by k rows = Some r \<Longrightarrow> r \<in> set rows"
  by (induction rows arbitrary: r) (auto split: option.splits if_splits)

lemma latest_by_max: "latest_by k rows = Some r \<Longrightarrow> q \<in> set rows \<Longrightarrow> k q \<le> k r"
  by (induction rows arbitrary: r q)
     (fastforce split: option.splits if_splits)+

lemma latest_by_last:
  assumes "sorted_wrt (\<lambda>a b. k a \<le> k b) rows" and "rows \<noteq> []"
  shows "latest_by k rows = Some (last rows)"
  using assms
proof (induction rows)
  case (Cons r rows)
  show ?case
  proof (cases "rows = []")
    case False
    then have "k r \<le> k (last rows)" using Cons.prems by simp
    with Cons False show ?thesis by (simp add: leD)
  qed simp
qed simp

lemma sorted_wrt_filterI: "sorted_wrt R xs \<Longrightarrow> sorted_wrt R (filter P xs)"
  by (induction xs) auto

lemma sorted_wrt_pair:
  assumes "sorted_wrt R xs" and "x \<in> set xs" and "y \<in> set xs"
  shows "x = y \<or> R x y \<or> R y x"
  using assms by (induction xs) auto

lemma sorted_wrt_last:
  "sorted_wrt R xs \<Longrightarrow> x \<in> set xs \<Longrightarrow> x = last xs \<or> R x (last xs)"
proof (induction xs)
  case (Cons y ys)
  then show ?case by (cases "ys = []") auto
qed simp


lemma sorted_wrt_distinct: "sorted_wrt (\<lambda>x y. f x \<noteq> f y) xs \<Longrightarrow> distinct (map f xs)"
  by (induction xs) auto


lemma distinct_at_most_one:
  assumes "distinct xs" and "\<And>x y. x \<in> set xs \<Longrightarrow> y \<in> set xs \<Longrightarrow> x = y"
  shows "length xs \<le> 1"
proof (cases xs)
  case (Cons x ys)
  then have "set ys \<subseteq> {}" using assms by fastforce
  then show ?thesis using Cons by simp
qed simp

lemma distinct_exactly_one: "distinct xs \<Longrightarrow> set xs = {x} \<Longrightarrow> xs = [x]"
proof (cases xs)
  case (Cons y ys)
  assume "distinct xs" and "set xs = {x}"
  with Cons show ?thesis by (cases ys) auto
qed simp

lemma distinct_of_key: "distinct (map k rows) \<Longrightarrow> distinct rows"
  by (simp add: distinct_map)

end
