(* ===== verification/StoreModel.thy ===== *)
theory StoreModel
  imports Prelude
begin

text \<open>
  The data of \<^verbatim>\<open>internal/store\<close>: the rows of the tables
  (\<^verbatim>\<open>models.go\<close>, \<^verbatim>\<open>schema_v3.sql\<close> to \<^verbatim>\<open>schema_v5.sql\<close>), the store
  itself with its clock and random source, and the transaction wrapper.

  What the program reads from outside is a field of the store: \<open>now_src\<close> is the
  \<^verbatim>\<open>now\<close> function of \<^verbatim>\<open>Store\<close> (the n-th call reads \<open>now_src n\<close>, with no
  assumption on it, so a wall clock may step backwards), \<open>wall_src\<close> is
  \<^verbatim>\<open>time.Now\<close> as the lease service calls it, and \<open>id_src\<close> are the identifiers
  \<^verbatim>\<open>NewID\<close> draws. The sealer is the interface \<^verbatim>\<open>BlobSealer\<close> the store is opened
  with; it is a field of the store too.
\<close>

section \<open>Enumerations of the schema\<close>

datatype run_state = RunActive | RunComplete | RunFailed | RunExpired
datatype lease_state = LeaseHeld | LeaseReleased | LeaseExpired | LeaseFailed
datatype seed_state = SeedPending | SeedSeeded | SeedFailed | SeedSkipped
datatype mode = ModeEphemeral | ModePooled | ModeOther string
datatype suspect = SuspectNone | SuspectCooldown | SuspectAfterRelease
  | SuspectPredatesLease | SuspectOriginUnknown
datatype extraction_state = ExtractionPending | ExtractionSuccess | ExtractionFailed
datatype claim_kind = ClaimEmailOTP | ClaimMagicLink | ClaimTOTP | ClaimOther string
datatype recipient_kind = RecipientTo | RecipientCC | RecipientBCC | RecipientEnvelope

section \<open>Rows\<close>

record run =
  run_id :: ident
  run_project :: ident
  run_token_hash :: string
  run_state :: run_state
  run_fail_reason :: string
  run_checkpoint_at :: time
  run_started_at :: time
  run_expires_at :: time
  run_ended_at :: "time option"

record identity =
  idn_id :: ident
  idn_project :: ident
  idn_persona :: ident
  idn_addr :: string
  idn_role :: string
  idn_mode :: mode
  idn_cooldown_until :: "time option"
  idn_created_at :: time

record lease =
  ls_id :: ident
  ls_run :: ident
  ls_identity :: ident
  ls_role :: string
  ls_state :: lease_state
  ls_seed_state :: seed_state
  ls_fingerprint :: string
  ls_acquired_at :: time
  ls_expires_at :: time
  ls_released_at :: "time option"
  ls_in_cooldown :: bool

record message =
  msg_id :: ident
  msg_project :: ident
  msg_from :: string
  msg_subject :: string
  msg_channel :: string
  msg_raw_ref :: string
  msg_html_ref :: string
  msg_body :: string
  msg_extracted :: "string option"
  msg_quarantined :: bool
  msg_received_at :: time
  msg_extraction_state :: extraction_state
  msg_recipients :: "(string \<times> recipient_kind) list"

record binding =
  bd_message :: ident
  bd_lease :: ident
  bd_run :: ident
  bd_identity :: ident
  bd_addr :: string
  bd_bound_at :: time
  bd_suspect :: suspect

record claim =
  cl_id :: ident
  cl_lease :: ident
  cl_run :: ident
  cl_kind :: claim_kind
  cl_message :: "ident option"
  cl_key :: string
  cl_claimed_at :: time
  cl_expires_at :: time

text \<open>
  \<^verbatim>\<open>Run.Active\<close>, \<^verbatim>\<open>Lease.Held\<close>, \<^verbatim>\<open>Lease.Claimable\<close> and
  \<^verbatim>\<open>Binding.Clean\<close> of \<^verbatim>\<open>models.go\<close>.
\<close>

definition run_active :: "run \<Rightarrow> bool" where
  "run_active r \<longleftrightarrow> run_state r = RunActive"

definition lease_held :: "lease \<Rightarrow> bool" where
  "lease_held l \<longleftrightarrow> ls_state l = LeaseHeld"

definition lease_claimable :: "lease \<Rightarrow> bool" where
  "lease_claimable l \<longleftrightarrow>
     ls_state l = LeaseHeld \<and> (ls_seed_state l = SeedSeeded \<or> ls_seed_state l = SeedSkipped)"

definition binding_clean :: "binding \<Rightarrow> bool" where
  "binding_clean b \<longleftrightarrow> bd_suspect b = SuspectNone"

section \<open>Reason codes and ledger events\<close>

text \<open>
  The claim reason codes of \<^verbatim>\<open>models.go\<close> and the sealed set of events of
  \<^verbatim>\<open>internal/ledger/events.go\<close>. No event has a field a secret value fits in.
\<close>

datatype reason = ReasonOK | ReasonTimeout | ReasonNoBinding | ReasonStaleFiltered
  | ReasonSuspectBinding | ReasonAlreadyClaimed | ReasonExpired | ReasonLeaseNotHeld
  | ReasonLeaseSeedFailed | ReasonRunNotActive | ReasonExtractionFail

datatype event =
    MailReceived ident string
  | MailQuarantined ident "string list"
  | ExtractionFailedEv ident string
  | LeaseAcquiredEv ident ident string mode string
  | LeaseRefusedEv string mode string
  | LeaseReleasedEv ident ident string
  | SeedSettled ident ident seed_state string string
  | MailBound ident ident ident string suspect
  | MailUnbound ident "string list"
  | ClaimSettled ident ident claim_kind ident reason string
  | BearerChanged string

datatype actor = ActorMCP | ActorREST | ActorFixture | ActorUI | ActorSystem

record ledger_entry =
  le_id :: nat
  le_project :: ident
  le_ts :: time
  le_actor :: actor
  le_run :: ident
  le_persona :: ident
  le_event :: event

section \<open>Projects and personas\<close>

text \<open>
  The rows of \<^verbatim>\<open>schema.sql\<close> and \<^verbatim>\<open>schema_v6.sql\<close> the administration of a
  data directory writes: projects with the digest of their bearer, the allowlist, and the
  personas with their relations, sealed secrets and saved sessions.
\<close>

record project =
  pj_id :: ident
  pj_name :: string
  pj_created_at :: time

record project_row =
  pw_project :: project
  pw_bearer_hash :: "string option"

record allow_row =
  al_project :: ident
  al_pattern :: string
  al_ord :: nat

record persona =
  pe_id :: ident
  pe_project :: ident
  pe_name :: string
  pe_email :: string
  pe_password_enc :: string
  pe_role :: string
  pe_traits :: string
  pe_seed_state :: string
  pe_seed_output :: string
  pe_created_at :: time
  pe_updated_at :: time

record relation =
  re_project :: ident
  re_from :: ident
  re_kind :: string
  re_to :: ident

record secret =
  sc_persona :: ident
  sc_kind :: string
  sc_value_enc :: string
  sc_created_at :: time

record saved_session =
  ss_persona :: ident
  ss_name :: string
  ss_blob_ref :: string
  ss_saved_at :: time
  ss_hint_expires_at :: time

record accounts =
  ac_projects :: "project_row list"
  ac_allowlist :: "allow_row list"
  ac_personas :: "persona list"
  ac_relations :: "relation list"
  ac_secrets :: "secret list"
  ac_sessions :: "saved_session list"

section \<open>The store\<close>

record db =
  db_runs :: "run list"
  db_identities :: "identity list"
  db_leases :: "lease list"
  db_messages :: "message list"
  db_bindings :: "binding list"
  db_claims :: "claim list"
  db_ledger :: "ledger_entry list"
  db_generation :: int
  db_accounts :: accounts

record store =
  tables :: db
  last_now :: time
  now_src :: "nat \<Rightarrow> time"
  now_calls :: nat
  wall_src :: "nat \<Rightarrow> time"
  wall_calls :: nat
  id_src :: "nat \<Rightarrow> ident"
  id_calls :: nat
  seal :: "string \<Rightarrow> string option"
  unseal :: "string \<Rightarrow> string option"

type_synonym 'a op = "store \<Rightarrow> (err + 'a) \<times> store"

abbreviation runs :: "store \<Rightarrow> run list" where "runs s \<equiv> db_runs (tables s)"
abbreviation identities :: "store \<Rightarrow> identity list" where "identities s \<equiv> db_identities (tables s)"
abbreviation leases :: "store \<Rightarrow> lease list" where "leases s \<equiv> db_leases (tables s)"
abbreviation messages :: "store \<Rightarrow> message list" where "messages s \<equiv> db_messages (tables s)"
abbreviation bindings :: "store \<Rightarrow> binding list" where "bindings s \<equiv> db_bindings (tables s)"
abbreviation claims :: "store \<Rightarrow> claim list" where "claims s \<equiv> db_claims (tables s)"
abbreviation accounts_of :: "store \<Rightarrow> accounts" where "accounts_of s \<equiv> db_accounts (tables s)"
abbreviation ledger :: "store \<Rightarrow> ledger_entry list" where "ledger s \<equiv> db_ledger (tables s)"

definition set_runs :: "run list \<Rightarrow> store \<Rightarrow> store" where
  "set_runs rs s = s\<lparr>tables := (tables s)\<lparr>db_runs := rs\<rparr>\<rparr>"
definition set_identities :: "identity list \<Rightarrow> store \<Rightarrow> store" where
  "set_identities is s = s\<lparr>tables := (tables s)\<lparr>db_identities := is\<rparr>\<rparr>"
definition set_leases :: "lease list \<Rightarrow> store \<Rightarrow> store" where
  "set_leases ls s = s\<lparr>tables := (tables s)\<lparr>db_leases := ls\<rparr>\<rparr>"
definition set_messages :: "message list \<Rightarrow> store \<Rightarrow> store" where
  "set_messages ms s = s\<lparr>tables := (tables s)\<lparr>db_messages := ms\<rparr>\<rparr>"
definition set_bindings :: "binding list \<Rightarrow> store \<Rightarrow> store" where
  "set_bindings bs s = s\<lparr>tables := (tables s)\<lparr>db_bindings := bs\<rparr>\<rparr>"
definition set_claims :: "claim list \<Rightarrow> store \<Rightarrow> store" where
  "set_claims cs s = s\<lparr>tables := (tables s)\<lparr>db_claims := cs\<rparr>\<rparr>"
definition set_ledger :: "ledger_entry list \<Rightarrow> store \<Rightarrow> store" where
  "set_ledger es s = s\<lparr>tables := (tables s)\<lparr>db_ledger := es\<rparr>\<rparr>"
definition set_accounts :: "accounts \<Rightarrow> store \<Rightarrow> store" where
  "set_accounts a s = s\<lparr>tables := (tables s)\<lparr>db_accounts := a\<rparr>\<rparr>"
definition set_generation :: "int \<Rightarrow> store \<Rightarrow> store" where
  "set_generation g s = s\<lparr>tables := (tables s)\<lparr>db_generation := g\<rparr>\<rparr>"

text \<open>Two stores with the same rows in the tables that mail, leases and claims live in.\<close>

definition same_rows :: "store \<Rightarrow> store \<Rightarrow> bool" where
  "same_rows s s' \<longleftrightarrow>
     runs s' = runs s \<and> identities s' = identities s \<and> leases s' = leases s \<and>
     messages s' = messages s \<and> bindings s' = bindings s \<and> claims s' = claims s \<and>
     ledger s' = ledger s"

lemma same_rows_tables: "tables s' = tables s \<Longrightarrow> same_rows s s'"
  by (simp add: same_rows_def)

lemma same_rows_trans: "same_rows s t \<Longrightarrow> same_rows t u \<Longrightarrow> same_rows s u"
  by (simp add: same_rows_def)

lemmas set_table_defs = set_runs_def set_identities_def set_leases_def set_messages_def
  set_bindings_def set_claims_def set_ledger_def set_accounts_def set_generation_def

lemma set_table_simps [simp]:
  "runs (set_runs x s) = x" "leases (set_runs x s) = leases s"
  "identities (set_runs x s) = identities s" "messages (set_runs x s) = messages s"
  "bindings (set_runs x s) = bindings s" "claims (set_runs x s) = claims s"
  "ledger (set_runs x s) = ledger s" "last_now (set_runs x s) = last_now s"
  "runs (set_identities x2 s) = runs s" "leases (set_identities x2 s) = leases s"
  "identities (set_identities x2 s) = x2" "messages (set_identities x2 s) = messages s"
  "bindings (set_identities x2 s) = bindings s" "claims (set_identities x2 s) = claims s"
  "ledger (set_identities x2 s) = ledger s" "last_now (set_identities x2 s) = last_now s"
  "runs (set_leases x3 s) = runs s" "leases (set_leases x3 s) = x3"
  "identities (set_leases x3 s) = identities s" "messages (set_leases x3 s) = messages s"
  "bindings (set_leases x3 s) = bindings s" "claims (set_leases x3 s) = claims s"
  "ledger (set_leases x3 s) = ledger s" "last_now (set_leases x3 s) = last_now s"
  "runs (set_messages x4 s) = runs s" "leases (set_messages x4 s) = leases s"
  "identities (set_messages x4 s) = identities s" "messages (set_messages x4 s) = x4"
  "bindings (set_messages x4 s) = bindings s" "claims (set_messages x4 s) = claims s"
  "ledger (set_messages x4 s) = ledger s" "last_now (set_messages x4 s) = last_now s"
  "runs (set_bindings x5 s) = runs s" "leases (set_bindings x5 s) = leases s"
  "identities (set_bindings x5 s) = identities s" "messages (set_bindings x5 s) = messages s"
  "bindings (set_bindings x5 s) = x5" "claims (set_bindings x5 s) = claims s"
  "ledger (set_bindings x5 s) = ledger s" "last_now (set_bindings x5 s) = last_now s"
  "runs (set_claims x6 s) = runs s" "leases (set_claims x6 s) = leases s"
  "identities (set_claims x6 s) = identities s" "messages (set_claims x6 s) = messages s"
  "bindings (set_claims x6 s) = bindings s" "claims (set_claims x6 s) = x6"
  "ledger (set_claims x6 s) = ledger s" "last_now (set_claims x6 s) = last_now s"
  "runs (set_ledger x7 s) = runs s" "leases (set_ledger x7 s) = leases s"
  "identities (set_ledger x7 s) = identities s" "messages (set_ledger x7 s) = messages s"
  "bindings (set_ledger x7 s) = bindings s" "claims (set_ledger x7 s) = claims s"
  "ledger (set_ledger x7 s) = x7" "last_now (set_ledger x7 s) = last_now s"
  by (simp_all add: set_table_defs)

lemma set_accounts_simps [simp]:
  "accounts_of (set_accounts a s) = a" "last_now (set_accounts a s) = last_now s"
  "db_generation (tables (set_accounts a s)) = db_generation (tables s)"
  "same_rows s (set_accounts a s)" "same_rows s (set_generation g s)"
  "accounts_of (set_generation g s) = accounts_of s"
  "db_generation (tables (set_generation g s)) = g"
  by (simp_all add: set_table_defs same_rows_def)

lemma unseal_set_table [simp]:
  "unseal (set_runs x s) = unseal s" "unseal (set_identities x2 s) = unseal s"
  "unseal (set_leases x3 s) = unseal s" "unseal (set_messages x4 s) = unseal s"
  "unseal (set_bindings x5 s) = unseal s" "unseal (set_claims x6 s) = unseal s"
  "unseal (set_ledger x7 s) = unseal s"
  by (simp_all add: set_table_defs)

section \<open>Transactions\<close>

text \<open>
  \<^verbatim>\<open>Store.tx\<close>: the function runs on the open transaction; an error rolls the tables
  back. The clock and the random source are not part of the transaction, so what was drawn
  stays drawn.
\<close>

definition tx :: "'a op \<Rightarrow> 'a op" where
  "tx f s =
     (case f s of
        (Inl e, s') \<Rightarrow> (Inl e, s'\<lparr>tables := tables s\<rparr>)
      | (Inr x, s') \<Rightarrow> (Inr x, s'))"

text \<open>Sequencing of two operations: the second runs only if the first returned no error.\<close>

definition then_op :: "'a op \<Rightarrow> ('a \<Rightarrow> 'b op) \<Rightarrow> 'b op" where
  "then_op f g s = (case f s of (Inl e, s') \<Rightarrow> (Inl e, s') | (Inr x, s') \<Rightarrow> g x s')"

lemma tx_Inl: "tx f s = (Inl e, s') \<Longrightarrow> tables s' = tables s"
  by (auto simp: tx_def split: prod.splits sum.splits)

lemma tx_Inr: "tx f s = (Inr x, s') \<longleftrightarrow> f s = (Inr x, s')"
  by (auto simp: tx_def split: prod.splits sum.splits)

section \<open>Drawing from the environment\<close>

text \<open>\<^verbatim>\<open>NewID\<close> of \<^verbatim>\<open>internal/store/ids.go\<close> and \<^verbatim>\<open>time.Now\<close>.\<close>

definition NewID :: "store \<Rightarrow> ident \<times> store" where
  "NewID s = (id_src s (id_calls s), s\<lparr>id_calls := Suc (id_calls s)\<rparr>)"

definition time_Now :: "store \<Rightarrow> time \<times> store" where
  "time_Now s = (wall_src s (wall_calls s), s\<lparr>wall_calls := Suc (wall_calls s)\<rparr>)"

section \<open>The store clock\<close>

text \<open>
  \<^verbatim>\<open>Store.Now\<close>: the source truncated to a millisecond, or one nanosecond past the last
  stamp when that is later.
\<close>

definition Now :: "store \<Rightarrow> time \<times> store" where
  "Now s =
     (let now = truncate_to millisecond (now_src s (now_calls s));
          stamp = (if \<not> last_now s < now then last_now s + 1 else now)
      in (stamp, s\<lparr>last_now := stamp, now_calls := Suc (now_calls s)\<rparr>))"

lemma Now_strict: "Now s = (t, s') \<Longrightarrow> last_now s < t \<and> last_now s' = t"
  by (auto simp: Now_def Let_def)

lemma Now_frame:
  "Now s = (t, s') \<Longrightarrow> tables s' = tables s"
  "Now s = (t, s') \<Longrightarrow> unseal s' = unseal s"
  "Now s = (t, s') \<Longrightarrow> seal s' = seal s"
  by (auto simp: Now_def Let_def)

lemma NewID_frame:
  "NewID s = (i, s') \<Longrightarrow> tables s' = tables s"
  "NewID s = (i, s') \<Longrightarrow> last_now s' = last_now s"
  by (auto simp: NewID_def)

lemma time_Now_frame:
  "time_Now s = (i, s') \<Longrightarrow> tables s' = tables s"
  "time_Now s = (i, s') \<Longrightarrow> last_now s' = last_now s"
  by (auto simp: time_Now_def)

lemma tables_draw [simp]:
  "tables (snd (Now s)) = tables s"
  "tables (snd (NewID s)) = tables s"
  "tables (snd (time_Now s)) = tables s"
  by (simp_all add: Now_def NewID_def time_Now_def Let_def)


text \<open>The stamps of several readings in a row.\<close>

fun stamps :: "nat \<Rightarrow> store \<Rightarrow> time list" where
  "stamps 0 s = []"
| "stamps (Suc n) s = (case Now s of (t, s1) \<Rightarrow> t # stamps n s1)"

lemma stamps_after: "t \<in> set (stamps n s) \<Longrightarrow> last_now s < t"
proof (induction n arbitrary: s)
  case (Suc n)
  obtain u s1 where now: "Now s = (u, s1)" by (cases "Now s")
  from Suc.prems Suc.IH [of s1] Now_strict [OF now] show ?case by (auto simp: now)
qed simp

end
