(* ===== verification/Addresses.thy ===== *)
theory Addresses
  imports Prelude
begin

text \<open>
  Domains and addresses: \<^verbatim>\<open>internal/store/domain.go\<close>, \<^verbatim>\<open>address.go\<close> and
  \<^verbatim>\<open>ids.go\<close>, and the address the lease service mints
  (\<^verbatim>\<open>internal/personas/lease.go\<close>).

  A Go string is the list of its bytes. The IDNA profile of \<^verbatim>\<open>golang.org/x/net/idna\<close>
  is not part of the repository, so its \<^verbatim>\<open>ToASCII\<close> is the parameter \<open>to_ascii\<close> of
  every definition that canonicalizes a domain; \<open>idna_stable\<close> names what the program relies
  on: the ASCII form of a domain is a fixed point of the profile and is a clean host name.
\<close>

section \<open>String helpers of the standard library\<close>

definition cut_prefix :: "string \<Rightarrow> string \<Rightarrow> string option" where
  "cut_prefix p s = (if take (length p) s = p then Some (drop (length p) s) else None)"

definition trim_prefix :: "string \<Rightarrow> string \<Rightarrow> string" where
  "trim_prefix p s = (case cut_prefix p s of None \<Rightarrow> s | Some r \<Rightarrow> r)"

definition has_suffix :: "string \<Rightarrow> string \<Rightarrow> bool" where
  "has_suffix s q \<longleftrightarrow> length q \<le> length s \<and> drop (length s - length q) s = q"

definition trim_suffix :: "string \<Rightarrow> string \<Rightarrow> string" where
  "trim_suffix q s = (if has_suffix s q then take (length s - length q) s else s)"

text \<open>
  The UTF-8 encodings of the code points \<^verbatim>\<open>unicode.IsSpace\<close> accepts;
  \<^verbatim>\<open>strings.TrimSpace\<close> drops them from both ends.
\<close>

definition space_seqs :: "string list" where
  "space_seqs =
     [[CHR 0x09], [CHR 0x0A], [CHR 0x0B], [CHR 0x0C], [CHR 0x0D], [CHR 0x20],
      [CHR 0xC2, CHR 0x85], [CHR 0xC2, CHR 0xA0], [CHR 0xE1, CHR 0x9A, CHR 0x80],
      [CHR 0xE2, CHR 0x80, CHR 0x80], [CHR 0xE2, CHR 0x80, CHR 0x81],
      [CHR 0xE2, CHR 0x80, CHR 0x82], [CHR 0xE2, CHR 0x80, CHR 0x83],
      [CHR 0xE2, CHR 0x80, CHR 0x84], [CHR 0xE2, CHR 0x80, CHR 0x85],
      [CHR 0xE2, CHR 0x80, CHR 0x86], [CHR 0xE2, CHR 0x80, CHR 0x87],
      [CHR 0xE2, CHR 0x80, CHR 0x88], [CHR 0xE2, CHR 0x80, CHR 0x89],
      [CHR 0xE2, CHR 0x80, CHR 0x8A], [CHR 0xE2, CHR 0x80, CHR 0xA8],
      [CHR 0xE2, CHR 0x80, CHR 0xA9], [CHR 0xE2, CHR 0x80, CHR 0xAF],
      [CHR 0xE2, CHR 0x81, CHR 0x9F], [CHR 0xE3, CHR 0x80, CHR 0x80]]"

fun first_cut :: "string list \<Rightarrow> string \<Rightarrow> string option" where
  "first_cut [] s = None"
| "first_cut (p # ps) s =
     (if p = [] then first_cut ps s
      else case cut_prefix p s of Some r \<Rightarrow> Some r | None \<Rightarrow> first_cut ps s)"

lemma cut_prefix_shorter: "cut_prefix p s = Some r \<Longrightarrow> p \<noteq> [] \<Longrightarrow> length r < length s"
  by (cases s) (auto simp: cut_prefix_def split: if_splits)

lemma first_cut_shorter: "first_cut ps s = Some r \<Longrightarrow> length r < length s"
  by (induction ps s rule: first_cut.induct)
     (auto split: if_splits option.splits dest: cut_prefix_shorter)

function trim_left_of :: "string list \<Rightarrow> string \<Rightarrow> string" where
  "trim_left_of ps s = (case first_cut ps s of None \<Rightarrow> s | Some r \<Rightarrow> trim_left_of ps r)"
  by pat_completeness auto
termination
  by (relation "measure (\<lambda>(ps, s). length s)") (auto dest: first_cut_shorter)

declare trim_left_of.simps [simp del]

definition trim_space :: "string \<Rightarrow> string" where
  "trim_space s =
     rev (trim_left_of (map rev space_seqs) (rev (trim_left_of space_seqs s)))"

fun last_index :: "char \<Rightarrow> string \<Rightarrow> nat option" where
  "last_index c [] = None"
| "last_index c (x # xs) =
     (case last_index c xs of
        Some i \<Rightarrow> Some (Suc i)
      | None \<Rightarrow> if x = c then Some 0 else None)"

definition lower_byte :: "char \<Rightarrow> char" where
  "lower_byte c = (if CHR ''A'' \<le> c \<and> c \<le> CHR ''Z'' then char_of (of_char c + 32 :: nat) else c)"

text \<open>\<^verbatim>\<open>asciiLower\<close>: only the ASCII capitals move.\<close>

definition asciiLower :: "string \<Rightarrow> string" where
  "asciiLower s = map lower_byte s"

section \<open>Canonical domains and the allowlist\<close>

definition WildcardPrefix :: string where
  "WildcardPrefix = ''*.''"

definition CanonicalDomain :: "(string \<Rightarrow> string option) \<Rightarrow> string \<Rightarrow> string option" where
  "CanonicalDomain to_ascii domain =
     (let d = trim_suffix ''.'' (trim_space domain)
      in case to_ascii d of None \<Rightarrow> None | Some ascii \<Rightarrow> Some (asciiLower ascii))"

definition CanonicalDomainPattern :: "(string \<Rightarrow> string option) \<Rightarrow> string \<Rightarrow> string option" where
  "CanonicalDomainPattern to_ascii pattern =
     (let p = trim_space pattern;
          wildcard = (cut_prefix WildcardPrefix p \<noteq> None);
          base = trim_prefix WildcardPrefix p
      in if CHR ''*'' \<in> set base then None
         else case CanonicalDomain to_ascii base of
                None \<Rightarrow> None
              | Some canonical \<Rightarrow> Some (if wildcard then WildcardPrefix @ canonical else canonical))"

definition PatternBaseDomain :: "string \<Rightarrow> string" where
  "PatternBaseDomain pattern = trim_prefix WildcardPrefix (trim_space pattern)"

definition pattern_matches :: "(string \<Rightarrow> string option) \<Rightarrow> string \<Rightarrow> string \<Rightarrow> bool" where
  "pattern_matches to_ascii domain p =
     (let t = trim_space p;
          wildcard = (cut_prefix WildcardPrefix t \<noteq> None);
          base = trim_prefix WildcardPrefix t
      in case CanonicalDomain to_ascii base of
           None \<Rightarrow> False
         | Some canonical \<Rightarrow>
             domain = canonical \<or> (wildcard \<and> has_suffix domain (''.'' @ canonical)))"

definition AllowlistMatches :: "(string \<Rightarrow> string option) \<Rightarrow> string list \<Rightarrow> string \<Rightarrow> bool" where
  "AllowlistMatches to_ascii patterns addr =
     (case last_index (CHR ''@'') addr of
        None \<Rightarrow> False
      | Some at \<Rightarrow>
          (case CanonicalDomain to_ascii (drop (Suc at) addr) of
             None \<Rightarrow> False
           | Some domain \<Rightarrow> list_ex (pattern_matches to_ascii domain) patterns))"

definition NormalizeAddress :: "(string \<Rightarrow> string option) \<Rightarrow> string \<Rightarrow> string" where
  "NormalizeAddress to_ascii addr0 =
     (let addr = trim_space addr0
      in case last_index (CHR ''@'') addr of
           None \<Rightarrow> addr
         | Some at \<Rightarrow>
             (let local = take at addr; domain = drop (Suc at) addr;
                  canonical = (case CanonicalDomain to_ascii domain of
                                 Some c \<Rightarrow> c
                               | None \<Rightarrow> asciiLower (trim_space domain))
              in local @ ''@'' @ canonical))"

text \<open>\<^verbatim>\<open>COLLATE NOCASE\<close>: SQLite folds the ASCII letters before it compares.\<close>

definition nocase_eq :: "string \<Rightarrow> string \<Rightarrow> bool" where
  "nocase_eq a b \<longleftrightarrow> asciiLower a = asciiLower b"

text \<open>\<^verbatim>\<open>ValidID\<close> matches \<^verbatim>\<open>^[0-9a-f]{12}$\<close>.\<close>

definition is_hex_lower :: "char \<Rightarrow> bool" where
  "is_hex_lower c \<longleftrightarrow> (CHR ''0'' \<le> c \<and> c \<le> CHR ''9'') \<or> (CHR ''a'' \<le> c \<and> c \<le> CHR ''f'')"

definition ValidID :: "string \<Rightarrow> bool" where
  "ValidID s \<longleftrightarrow> length s = 12 \<and> list_all is_hex_lower s"

definition hex_digit :: "nat \<Rightarrow> char" where
  "hex_digit n = (if n < 10 then char_of (48 + n) else char_of (87 + n))"

text \<open>\<^verbatim>\<open>hex.EncodeToString\<close> of the random bytes.\<close>

definition hex_encode :: "char list \<Rightarrow> string" where
  "hex_encode bs =
     concat (map (\<lambda>b. [hex_digit (of_char b div 16), hex_digit (of_char b mod 16)]) bs)"

section \<open>Minted addresses\<close>

text \<open>
  \<^verbatim>\<open>sanitizeRole\<close> ranges over the runes of \<^verbatim>\<open>strings.ToLower(role)\<close> and keeps only
  ASCII ones. Two code points outside ASCII have an ASCII lower case: U+0130 (bytes C4 B0),
  which becomes \<^verbatim>\<open>i\<close>, and U+212A (bytes E2 84 AA), which becomes \<^verbatim>\<open>k\<close>. Every
  other byte above 0x7F belongs to a rune the switch drops.
\<close>

fun sanitize_runes :: "string \<Rightarrow> string" where
  "sanitize_runes [] = []"
| "sanitize_runes (c # cs) =
     (if c = CHR 0xC4 \<and> take 1 cs = [CHR 0xB0] then CHR ''i'' # sanitize_runes (drop 1 cs)
      else if c = CHR 0xE2 \<and> take 2 cs = [CHR 0x84, CHR 0xAA]
        then CHR ''k'' # sanitize_runes (drop 2 cs)
      else let r = lower_byte c
           in if (CHR ''a'' \<le> r \<and> r \<le> CHR ''z'') \<or> (CHR ''0'' \<le> r \<and> r \<le> CHR ''9'')
              then r # sanitize_runes cs
              else if r = CHR ''-'' \<or> r = CHR ''_'' then CHR ''-'' # sanitize_runes cs
              else sanitize_runes cs)"

definition sanitizeRole :: "string \<Rightarrow> string" where
  "sanitizeRole role = (let b = sanitize_runes role in if b = [] then ''run'' else b)"

text \<open>
  \<^verbatim>\<open>Service.mintAddress\<close>: \<open>suffix\<close> are the random bytes; \<open>None\<close> is the error
  that the address escaped the allowlisted domain.
\<close>

definition mintAddress ::
  "(string \<Rightarrow> string option) \<Rightarrow> string \<Rightarrow> char list \<Rightarrow> string \<Rightarrow> string option" where
  "mintAddress to_ascii domain suffix role =
     (let addr = sanitizeRole role @ ''-'' @ hex_encode suffix @ ''@'' @ domain
      in if AllowlistMatches to_ascii [domain] addr then Some addr else None)"

section \<open>What the program relies on in the IDNA profile\<close>

definition clean_host :: "string \<Rightarrow> bool" where
  "clean_host h \<longleftrightarrow>
     trim_space h = h \<and> trim_suffix ''.'' h = h \<and> CHR ''@'' \<notin> set h \<and>
     cut_prefix WildcardPrefix h = None"

definition idna_stable :: "(string \<Rightarrow> string option) \<Rightarrow> bool" where
  "idna_stable to_ascii \<longleftrightarrow>
     (\<forall>d a. to_ascii d = Some a \<longrightarrow>
        to_ascii (asciiLower a) = Some (asciiLower a) \<and> clean_host (asciiLower a))"

section \<open>Lemmas\<close>

lemma lower_byte_idem [simp]: "lower_byte (lower_byte c) = lower_byte c"
proof -
  have "lower_byte (lower_byte c) = lower_byte c" if "CHR ''A'' \<le> c \<and> c \<le> CHR ''Z''"
  proof -
    from that have "(of_char c :: nat) \<ge> 65" "(of_char c :: nat) \<le> 90"
      by (auto simp: less_eq_char_def)
    then have "(of_char (char_of (of_char c + 32 :: nat)) :: nat) = of_char c + 32"
      by (simp add: of_char_of)
    with \<open>(of_char c :: nat) \<ge> 65\<close> show ?thesis
      using that by (auto simp: lower_byte_def less_eq_char_def)
  qed
  then show ?thesis by (auto simp: lower_byte_def)
qed

lemma asciiLower_idem [simp]: "asciiLower (asciiLower s) = asciiLower s"
  by (simp add: asciiLower_def)

lemma asciiLower_append [simp]: "asciiLower (a @ b) = asciiLower a @ asciiLower b"
  by (simp add: asciiLower_def)

lemma length_asciiLower [simp]: "length (asciiLower s) = length s"
  by (simp add: asciiLower_def)

lemma last_index_None: "last_index c s = None \<longleftrightarrow> c \<notin> set s"
  by (induction s) (auto split: option.splits)

lemma last_index_Some:
  "last_index c s = Some i \<Longrightarrow>
     i < length s \<and> s ! i = c \<and> c \<notin> set (drop (Suc i) s) \<and> s = take i s @ c # drop (Suc i) s"
proof (induction s arbitrary: i)
  case (Cons x xs)
  then show ?case
    by (auto split: option.splits if_splits simp: last_index_None)
qed simp

lemma last_index_append:
  "c \<notin> set d \<Longrightarrow> last_index c (l @ c # d) = Some (length l)"
proof (induction l)
  case Nil
  then have "last_index c d = None" by (simp add: last_index_None)
  then show ?case by simp
qed simp

lemma has_suffix_iff: "has_suffix s q \<longleftrightarrow> (\<exists>p. s = p @ q)"
proof
  assume "has_suffix s q"
  then have "s = take (length s - length q) s @ q"
    by (metis append_take_drop_id has_suffix_def)
  then show "\<exists>p. s = p @ q" by blast
qed (auto simp: has_suffix_def)

lemma cut_prefix_iff: "cut_prefix p s = Some r \<longleftrightarrow> s = p @ r"
  by (auto simp: cut_prefix_def) (metis append_take_drop_id)

lemma CanonicalDomain_stable:
  assumes "idna_stable to_ascii" and "CanonicalDomain to_ascii d = Some c"
  shows "CanonicalDomain to_ascii c = Some c" and "clean_host c"
proof -
  from assms(2) obtain a where a: "to_ascii (trim_suffix ''.'' (trim_space d)) = Some a"
    and c: "c = asciiLower a"
    by (auto simp: CanonicalDomain_def Let_def split: option.splits)
  from assms(1) a have "to_ascii c = Some c" and "clean_host c"
    unfolding idna_stable_def c by blast+
  then show "CanonicalDomain to_ascii c = Some c" "clean_host c"
    by (auto simp: CanonicalDomain_def clean_host_def c)
qed

lemma trim_left_of_fix: "first_cut ps s = None \<Longrightarrow> trim_left_of ps s = s"
  by (simp add: trim_left_of.simps)

lemma first_cut_trim: "first_cut ps (trim_left_of ps s) = None"
proof (induction ps s rule: trim_left_of.induct)
  case (1 ps s)
  then show ?case by (cases "first_cut ps s") (simp_all add: trim_left_of.simps [of ps s])
qed

text \<open>The characters the mint leaves in a local part: lower case letters, digits and the hyphen.\<close>

definition local_safe :: "char \<Rightarrow> bool" where
  "local_safe c \<longleftrightarrow>
     (CHR ''a'' \<le> c \<and> c \<le> CHR ''z'') \<or> (CHR ''0'' \<le> c \<and> c \<le> CHR ''9'') \<or> c = CHR ''-''"

lemma sanitize_runes_safe: "list_all local_safe (sanitize_runes s)"
proof (induction s rule: sanitize_runes.induct)
  case (2 x xs)
  then show ?case by (auto simp: Let_def local_safe_def less_eq_char_def)
qed simp

lemma sanitizeRole_safe: "list_all local_safe (sanitizeRole r) \<and> sanitizeRole r \<noteq> []"
proof -
  have "list_all local_safe ''run''" by (simp add: local_safe_def less_eq_char_def)
  then show ?thesis by (simp add: sanitizeRole_def Let_def sanitize_runes_safe)
qed

lemma hex_digit_safe: "n < 16 \<Longrightarrow> local_safe (hex_digit n)"
  by (auto simp: hex_digit_def local_safe_def less_eq_char_def of_char_of)

lemma hex_encode_safe: "list_all local_safe (hex_encode bs)"
proof (induction bs)
  case (Cons b bs)
  have "(of_char b :: nat) < 256" by simp
  then have "(of_char b :: nat) div 16 < 16" by presburger
  with Cons show ?case by (simp add: hex_encode_def hex_digit_safe)
qed (simp add: hex_encode_def)

lemma local_safe_no_at: "list_all local_safe s \<Longrightarrow> CHR ''@'' \<notin> set s"
  by (auto simp: list_all_iff local_safe_def less_eq_char_def)

lemma AllowlistMatches_own_domain:
  assumes "idna_stable to_ascii" and "CanonicalDomain to_ascii d = Some c"
  shows "AllowlistMatches to_ascii [c] (l @ ''@'' @ c)"
proof -
  note stable = CanonicalDomain_stable [OF assms]
  then have "CHR ''@'' \<notin> set c" by (simp add: clean_host_def)
  then have "last_index (CHR ''@'') (l @ ''@'' @ c) = Some (length l)"
    using last_index_append by simp
  with stable show ?thesis
    by (simp add: AllowlistMatches_def pattern_matches_def Let_def clean_host_def trim_prefix_def)
qed

lemma NormalizeAddress_canonical:
  assumes "idna_stable to_ascii" and "CanonicalDomain to_ascii d = Some c"
    and "trim_space (l @ ''@'' @ c) = l @ ''@'' @ c"
  shows "NormalizeAddress to_ascii (l @ ''@'' @ c) = l @ ''@'' @ c"
proof -
  note stable = CanonicalDomain_stable [OF assms(1,2)]
  then have "CHR ''@'' \<notin> set c" by (simp add: clean_host_def)
  then have "last_index (CHR ''@'') (l @ ''@'' @ c) = Some (length l)"
    using last_index_append by simp
  with stable assms(3) show ?thesis by (simp add: NormalizeAddress_def Let_def)
qed

end
