(* ===== verification/LedgerEvents.thy ===== *)
theory LedgerEvents
  imports StoreModel Addresses
begin

text \<open>
  The audit trail: \<^verbatim>\<open>internal/ledger/events.go\<close> and
  \<^verbatim>\<open>internal/store/ledger.go\<close>. An event is written with every address redacted,
  because redaction happens when the typed event is marshaled; the model stores the redacted
  event in place of its JSON text.
\<close>

section \<open>Redaction\<close>

text \<open>
  \<^verbatim>\<open>Addr.Redacted\<close>: three bytes of the local part survive; an address with no local
  part before the last \<^verbatim>\<open>@\<close> is hidden altogether.
\<close>

definition Redacted :: "string \<Rightarrow> string" where
  "Redacted addr =
     (case last_index (CHR ''@'') addr of
        None \<Rightarrow> ''[redacted]''
      | Some at \<Rightarrow>
          if at = 0 then ''[redacted]''
          else let local = take at addr; domain = drop (Suc at) addr;
                   shown = (if 3 < length local then take 3 local @ ''...'' else local)
               in shown @ ''@'' @ domain)"

fun marshal_event :: "event \<Rightarrow> event" where
  "marshal_event (MailReceived m from) = MailReceived m (Redacted from)"
| "marshal_event (MailQuarantined m as) = MailQuarantined m (map Redacted as)"
| "marshal_event (LeaseAcquiredEv l i r md a) = LeaseAcquiredEv l i r md (Redacted a)"
| "marshal_event (LeaseReleasedEv l i a) = LeaseReleasedEv l i (Redacted a)"
| "marshal_event (SeedSettled l i st a f) = SeedSettled l i st (Redacted a) f"
| "marshal_event (MailBound m l i a su) = MailBound m l i (Redacted a) su"
| "marshal_event (MailUnbound m as) = MailUnbound m (map Redacted as)"
| "marshal_event (ClaimSettled l c k m r a) = ClaimSettled l c k m r (Redacted a)"
| "marshal_event ev = ev"

fun event_addrs :: "event \<Rightarrow> string list" where
  "event_addrs (MailReceived m from) = [from]"
| "event_addrs (MailQuarantined m as) = as"
| "event_addrs (LeaseAcquiredEv l i r md a) = [a]"
| "event_addrs (LeaseReleasedEv l i a) = [a]"
| "event_addrs (SeedSettled l i st a f) = [a]"
| "event_addrs (MailBound m l i a su) = [a]"
| "event_addrs (MailUnbound m as) = as"
| "event_addrs (ClaimSettled l c k m r a) = [a]"
| "event_addrs ev = []"

section \<open>Writing\<close>

record meta =
  meta_project :: ident
  meta_run :: ident
  meta_persona :: ident

definition AppendLedger :: "ledger_entry \<Rightarrow> nat op" where
  "AppendLedger e s =
     (case (if is_zero_time (le_ts e) then Now s else (le_ts e, s)) of (ts, s1) \<Rightarrow>
       let i = Suc (foldr max (map le_id (ledger s1)) 0);
           row = e\<lparr>le_id := i, le_ts := ts\<rparr>
       in (Inr i, set_ledger (ledger s1 @ [row]) s1))"

definition Write :: "meta \<Rightarrow> event \<Rightarrow> nat op" where
  "Write m ev =
     AppendLedger \<lparr>le_id = 0, le_project = meta_project m, le_ts = 0, le_actor = ActorSystem,
       le_run = meta_run m, le_persona = meta_persona m, le_event = marshal_event ev\<rparr>"

record ledger_filter =
  lf_project :: ident
  lf_run :: ident
  lf_persona :: ident
  lf_since :: time
  lf_limit :: nat

definition ListLedger :: "store \<Rightarrow> ledger_filter \<Rightarrow> ledger_entry list" where
  "ListLedger s f =
     (let rows = sort_key (\<lambda>e. (le_ts e, le_id e))
        (rows_where (\<lambda>e.
            (lf_project f = [] \<or> le_project e = lf_project f) \<and>
            (lf_run f = [] \<or> le_run e = lf_run f) \<and>
            (lf_persona f = [] \<or> le_persona e = lf_persona f) \<and>
            (is_zero_time (lf_since f) \<or> lf_since f < le_ts e)) (ledger s))
      in if 0 < lf_limit f then take (lf_limit f) rows else rows)"

section \<open>Lemmas\<close>

text \<open>What a redacted address may still show: at most three bytes before the ellipsis.\<close>

definition redacted_form :: "string \<Rightarrow> bool" where
  "redacted_form a \<longleftrightarrow>
     a = ''[redacted]'' \<or>
     (\<exists>l d. CHR ''@'' \<notin> set d \<and> l \<noteq> [] \<and> a = l @ ''@'' @ d \<and>
        (length l \<le> 3 \<or> (\<exists>k. length k = 3 \<and> l = k @ ''...'')))"

lemma Redacted_form: "redacted_form (Redacted a)"
proof (cases "last_index (CHR ''@'') a")
  case (Some i)
  note at = last_index_Some [OF Some]
  show ?thesis
  proof (cases "i = 0")
    case False
    let ?l = "if 3 < length (take i a) then take 3 (take i a) @ ''...'' else take i a"
    have "Redacted a = ?l @ ''@'' @ drop (Suc i) a"
      using Some False by (simp add: Redacted_def Let_def)
    moreover have "?l \<noteq> []" using False at by auto
    moreover have "length ?l \<le> 3 \<or> (\<exists>k. length k = 3 \<and> ?l = k @ ''...'')"
      using at by (auto intro: exI [of _ "take 3 a"] simp: take_take min_def)
    ultimately show ?thesis using at unfolding redacted_form_def by blast
  qed (simp add: Some Redacted_def redacted_form_def)
qed (simp add: Redacted_def redacted_form_def)

lemma marshal_event_redacted: "a \<in> set (event_addrs (marshal_event ev)) \<Longrightarrow> redacted_form a"
  by (cases ev) (auto simp: Redacted_form)

lemma AppendLedger_Inr: "AppendLedger e s = (res, s') \<Longrightarrow> \<exists>i. res = Inr i"
  by (auto simp: AppendLedger_def Let_def split: prod.splits)

lemma Write_cases:
  assumes "Write m ev s = (res, s')"
  obtains i ts where "res = Inr i"
    and "tables s' = (tables s)\<lparr>db_ledger := ledger s @ [\<lparr>le_id = i, le_project = meta_project m,
           le_ts = ts, le_actor = ActorSystem, le_run = meta_run m,
           le_persona = meta_persona m, le_event = marshal_event ev\<rparr>]\<rparr>"
    and "last_now s < last_now s'" and "unseal s' = unseal s"
proof -
  obtain ts s1 where now: "Now s = (ts, s1)" by (cases "Now s")
  then have "tables s1 = tables s" "last_now s < last_now s1" "unseal s1 = unseal s"
    using Now_strict [OF now] by (auto dest: Now_frame)
  with assms now show ?thesis
    using that by (auto simp: Write_def AppendLedger_def Let_def is_zero_time_def set_ledger_def)
qed

lemma Write_frame:
  assumes "Write m ev s = (res, s')"
  shows "\<exists>i. res = Inr i" and "runs s' = runs s" and "identities s' = identities s"
    and "leases s' = leases s" and "messages s' = messages s" and "bindings s' = bindings s"
    and "claims s' = claims s" and "last_now s < last_now s'" and "unseal s' = unseal s"
    and "\<exists>i ts. ledger s' = ledger s @ [\<lparr>le_id = i, le_project = meta_project m,
           le_ts = ts, le_actor = ActorSystem, le_run = meta_run m,
           le_persona = meta_persona m, le_event = marshal_event ev\<rparr>]"
  using Write_cases [OF assms] by (metis db.ext_inject db.surjective db.update_convs(7))+

end
