(* ===== verification/Leases.thy ===== *)
theory Leases
  imports StoreModel Addresses
begin

text \<open>
  Identities and leases: \<^verbatim>\<open>internal/store/identities.go\<close> and
  \<^verbatim>\<open>internal/store/leases.go\<close>.

  A lease is exclusive ownership of one identity over the half-open interval from
  \<^verbatim>\<open>acquired_at\<close> to \<^verbatim>\<open>released_at\<close>. The invariant \<open>lease_inv\<close> says that the
  leases of one identity follow each other in time; that at most one is held, and that an
  instant has at most one owner, are consequences of it, proved once in the locale
  \<open>interval_history\<close>.
\<close>

section \<open>Identities\<close>

record new_identity =
  ni_project :: ident
  ni_persona :: ident
  ni_addr :: string
  ni_role :: string
  ni_mode :: mode

text \<open>
  The constraints of the table \<^verbatim>\<open>identities\<close>: the primary key and the address, unique
  under \<^verbatim>\<open>COLLATE NOCASE\<close>.
\<close>

definition identity_conflict :: "identity \<Rightarrow> identity list \<Rightarrow> bool" where
  "identity_conflict i is \<longleftrightarrow>
     list_ex (\<lambda>j. idn_id j = idn_id i \<or> nocase_eq (idn_addr j) (idn_addr i)) is"

definition CreateIdentity ::
  "(string \<Rightarrow> string option) \<Rightarrow> new_identity \<Rightarrow> identity op" where
  "CreateIdentity to_ascii ni s =
     (let mode_ok = (case ni_mode ni of
                       ModeEphemeral \<Rightarrow> ni_persona ni = []
                     | ModePooled \<Rightarrow> ni_persona ni \<noteq> []
                     | ModeOther _ \<Rightarrow> False);
          addr = NormalizeAddress to_ascii (ni_addr ni)
      in if \<not> mode_ok \<or> ni_project ni = [] \<or> addr = [] then (Inl ErrInvalidArgument, s)
         else case NewID s of (i, s1) \<Rightarrow>
              (case Now s1 of (now, s2) \<Rightarrow>
                let row = \<lparr>idn_id = i, idn_project = ni_project ni, idn_persona = ni_persona ni,
                           idn_addr = addr, idn_role = ni_role ni, idn_mode = ni_mode ni,
                           idn_cooldown_until = None, idn_created_at = now\<rparr>
                in if identity_conflict row (identities s2) then (Inl ErrConstraint, s2)
                   else (Inr row, set_identities (identities s2 @ [row]) s2)))"

definition Identity :: "store \<Rightarrow> ident \<Rightarrow> identity option" where
  "Identity s i = find_row (\<lambda>r. idn_id r = i) (identities s)"

definition IdentityByAddr :: "(string \<Rightarrow> string option) \<Rightarrow> store \<Rightarrow> string \<Rightarrow> identity option" where
  "IdentityByAddr to_ascii s addr =
     find_row (\<lambda>r. nocase_eq (idn_addr r) (NormalizeAddress to_ascii addr)) (identities s)"

definition ListPooledIdentities :: "store \<Rightarrow> ident \<Rightarrow> string \<Rightarrow> identity list" where
  "ListPooledIdentities s project role =
     sort_key (\<lambda>r. (idn_created_at r, idn_id r))
       (rows_where (\<lambda>r. idn_project r = project \<and> idn_mode r = ModePooled \<and> idn_role r = role)
         (identities s))"

definition CountPooledIdentities :: "store \<Rightarrow> ident \<Rightarrow> nat" where
  "CountPooledIdentities s project =
     affected (\<lambda>r. idn_project r = project \<and> idn_mode r = ModePooled) (identities s)"

definition SetCooldown :: "ident \<Rightarrow> time \<Rightarrow> store \<Rightarrow> store" where
  "SetCooldown i until s =
     set_identities
       (update_where (\<lambda>r. idn_id r = i \<and> idn_mode r = ModePooled)
         (\<lambda>r. r\<lparr>idn_cooldown_until := Some until\<rparr>) (identities s)) s"

section \<open>Acquiring a lease\<close>

record new_lease =
  nl_run :: ident
  nl_identity :: ident
  nl_role :: string
  nl_ttl :: duration

text \<open>
  The two constraints an insert into \<^verbatim>\<open>leases\<close> can violate: the primary key and the
  partial unique index \<^verbatim>\<open>leases_one_held_per_identity\<close>.
  \<^verbatim>\<open>isUniqueViolation\<close> treats them alike.
\<close>

definition lease_conflict :: "lease \<Rightarrow> lease list \<Rightarrow> bool" where
  "lease_conflict l ls \<longleftrightarrow>
     list_ex (\<lambda>m. ls_id m = ls_id l \<or>
       (ls_identity m = ls_identity l \<and> ls_state m = LeaseHeld \<and> ls_state l = LeaseHeld)) ls"

definition leaseStart :: "ident \<Rightarrow> store \<Rightarrow> time \<times> store" where
  "leaseStart i s =
     (case Now s of (now, s1) \<Rightarrow>
       (case latest_by ls_acquired_at (rows_where (\<lambda>l. ls_identity l = i) (leases s1)) of
          None \<Rightarrow> (now, s1)
        | Some l \<Rightarrow>
            (case ls_released_at l of
               None \<Rightarrow> (now, s1)
             | Some previous \<Rightarrow> (if now < previous then previous else now, s1))))"

definition identityIsCoolingDown :: "store \<Rightarrow> ident \<Rightarrow> time \<Rightarrow> err + bool" where
  "identityIsCoolingDown s i at =
     (case Identity s i of
        None \<Rightarrow> Inl ErrNotFound
      | Some r \<Rightarrow>
          (case idn_cooldown_until r of
             None \<Rightarrow> Inr False
           | Some deadline \<Rightarrow> Inr (at < deadline)))"

definition AcquireLease :: "new_lease \<Rightarrow> lease op" where
  "AcquireLease nl s =
     (if nl_run nl = [] \<or> nl_identity nl = [] then (Inl ErrInvalidArgument, s)
      else if nl_ttl nl \<le> 0 then (Inl ErrInvalidArgument, s)
      else case find_row (\<lambda>r. run_id r = nl_run nl) (runs s) of
        None \<Rightarrow> (Inl ErrNotFound, s)
      | Some r \<Rightarrow>
          if run_state r \<noteq> RunActive then (Inl ErrRunNotActive, s)
          else case leaseStart (nl_identity nl) s of (now, s1) \<Rightarrow>
            (case identityIsCoolingDown s1 (nl_identity nl) now of
               Inl e \<Rightarrow> (Inl e, s1)
             | Inr cooling \<Rightarrow>
                 (case NewID s1 of (i, s2) \<Rightarrow>
                   let l = \<lparr>ls_id = i, ls_run = nl_run nl, ls_identity = nl_identity nl,
                            ls_role = nl_role nl, ls_state = LeaseHeld,
                            ls_seed_state = SeedPending, ls_fingerprint = [],
                            ls_acquired_at = now, ls_expires_at = now + nl_ttl nl,
                            ls_released_at = None, ls_in_cooldown = cooling\<rparr>
                   in if lease_conflict l (leases s2) then (Inl ErrIdentityHeld, s2)
                      else (Inr l, set_leases (leases s2 @ [l]) s2))))"

section \<open>Settling, releasing and expiring\<close>

text \<open>
  Every way a lease ends is one guarded update: the state leaves \<^verbatim>\<open>held\<close> and the end of
  the interval is \<^verbatim>\<open>MAX(?, acquired_at)\<close>.
\<close>

definition end_lease :: "lease_state \<Rightarrow> time \<Rightarrow> lease \<Rightarrow> lease" where
  "end_lease st at l =
     l\<lparr>ls_state := st, ls_released_at := Some (max at (ls_acquired_at l))\<rparr>"

definition held_row :: "ident \<Rightarrow> lease \<Rightarrow> bool" where
  "held_row i l \<longleftrightarrow> ls_id l = i \<and> ls_state l = LeaseHeld"

definition SettleSeed :: "ident \<Rightarrow> seed_state \<Rightarrow> string \<Rightarrow> unit op" where
  "SettleSeed i outcome fingerprint s =
     (if outcome = SeedPending then (Inl ErrInvalidArgument, s)
      else case Now s of (now, s1) \<Rightarrow>
        let f = (\<lambda>l. l\<lparr>ls_seed_state := outcome, ls_fingerprint := fingerprint\<rparr>);
            g = (if outcome = SeedFailed then (\<lambda>l. end_lease LeaseFailed now (f l)) else f)
        in if affected (held_row i) (leases s1) = 1
           then (Inr (), set_leases (update_where (held_row i) g (leases s1)) s1)
           else (Inl ErrLeaseNotHeld, set_leases (update_where (held_row i) g (leases s1)) s1))"

definition ReleaseLease :: "ident \<Rightarrow> unit op" where
  "ReleaseLease i s =
     (case Now s of (now, s1) \<Rightarrow>
       let s2 = set_leases (update_where (held_row i) (end_lease LeaseReleased now) (leases s1)) s1
       in if affected (held_row i) (leases s1) = 1 then (Inr (), s2)
          else (case find_row (\<lambda>l. ls_id l = i) (leases s2) of
                  None \<Rightarrow> (Inl ErrNotFound, s2)
                | Some _ \<Rightarrow> (Inr (), s2)))"

definition releaseRunLeases :: "ident \<Rightarrow> time \<Rightarrow> store \<Rightarrow> store" where
  "releaseRunLeases r at s =
     set_leases
       (update_where (\<lambda>l. ls_run l = r \<and> ls_state l = LeaseHeld) (end_lease LeaseReleased at)
         (leases s)) s"

text \<open>
  \<^verbatim>\<open>ExpireLeases\<close> stamps the clock twice: the first stamp ends the leases, the second
  is the cut-off.
\<close>

definition lease_due :: "time \<Rightarrow> lease \<Rightarrow> bool" where
  "lease_due t l \<longleftrightarrow> ls_state l = LeaseHeld \<and> ls_expires_at l \<le> t"

definition ExpireLeases :: "nat op" where
  "ExpireLeases s =
     (case Now s of (t1, s1) \<Rightarrow>
       (case Now s1 of (t2, s2) \<Rightarrow>
         (Inr (affected (lease_due t2) (leases s2)),
          set_leases (update_where (lease_due t2) (end_lease LeaseExpired t1) (leases s2)) s2)))"

definition Lease :: "store \<Rightarrow> ident \<Rightarrow> lease option" where
  "Lease s i = find_row (\<lambda>l. ls_id l = i) (leases s)"

definition ListRunLeases :: "store \<Rightarrow> ident \<Rightarrow> lease list" where
  "ListRunLeases s r =
     sort_key (\<lambda>l. (ls_acquired_at l, ls_id l)) (rows_where (\<lambda>l. ls_run l = r) (leases s))"

section \<open>Correlation: who owned an address at an instant\<close>

definition covers :: "lease \<Rightarrow> time \<Rightarrow> bool" where
  "covers l at \<longleftrightarrow>
     ls_acquired_at l \<le> at \<and> (case ls_released_at l of None \<Rightarrow> True | Some r \<Rightarrow> at < r)"

definition owns_addr_at :: "identity list \<Rightarrow> string \<Rightarrow> time \<Rightarrow> lease \<Rightarrow> bool" where
  "owns_addr_at is addr at l \<longleftrightarrow>
     list_ex (\<lambda>i. idn_id i = ls_identity l \<and> nocase_eq (idn_addr i) addr) is \<and> covers l at"

definition leaseAt :: "store \<Rightarrow> string \<Rightarrow> time \<Rightarrow> lease option" where
  "leaseAt s addr at =
     latest_by ls_acquired_at (rows_where (owns_addr_at (identities s) addr at) (leases s))"

definition LeaseAt :: "(string \<Rightarrow> string option) \<Rightarrow> store \<Rightarrow> string \<Rightarrow> time \<Rightarrow> lease option" where
  "LeaseAt to_ascii s addr at = leaseAt s (NormalizeAddress to_ascii addr) at"

lemmas lease_ops = CreateIdentity_def SetCooldown_def AcquireLease_def SettleSeed_def
  ReleaseLease_def releaseRunLeases_def ExpireLeases_def


section \<open>The lease invariant\<close>

definition precedes :: "lease \<Rightarrow> lease \<Rightarrow> bool" where
  "precedes a b \<longleftrightarrow>
     (ls_identity a = ls_identity b \<longrightarrow>
        (case ls_released_at a of None \<Rightarrow> False | Some e \<Rightarrow> e \<le> ls_acquired_at b))"

definition lease_row_ok :: "lease \<Rightarrow> bool" where
  "lease_row_ok l \<longleftrightarrow>
     (ls_state l = LeaseHeld \<longleftrightarrow> ls_released_at l = None) \<and>
     (case ls_released_at l of None \<Rightarrow> True | Some e \<Rightarrow> ls_acquired_at l \<le> e) \<and>
     (ls_seed_state l = SeedFailed \<longleftrightarrow> ls_state l = LeaseFailed)"

definition lease_inv :: "lease list \<Rightarrow> bool" where
  "lease_inv ls \<longleftrightarrow>
     sorted_wrt precedes ls \<and> distinct (map ls_id ls) \<and> list_all lease_row_ok ls"

text \<open>
  The contract correlation relies on, apart from the columns that implement it: the rows of a
  history each have a key, a start and possibly an end, and of two rows of one key the earlier
  one has ended before the later one starts.
\<close>

locale interval_history =
  fixes inv :: "'s \<Rightarrow> bool"
    and rows :: "'s \<Rightarrow> 'r list"
    and key :: "'r \<Rightarrow> 'k"
    and start :: "'r \<Rightarrow> int"
    and finish :: "'r \<Rightarrow> int option"
  assumes ordered: "inv s \<Longrightarrow>
      sorted_wrt (\<lambda>a b. key a = key b \<longrightarrow>
        (case finish a of None \<Rightarrow> False | Some e \<Rightarrow> e \<le> start b)) (rows s)"
    and forward: "inv s \<Longrightarrow> r \<in> set (rows s) \<Longrightarrow> finish r = Some e \<Longrightarrow> start r \<le> e"
begin

lemma related:
  assumes "inv s" and "a \<in> set (rows s)" and "b \<in> set (rows s)" and "key a = key b"
  obtains "a = b"
    | e where "finish a = Some e" and "e \<le> start b"
    | e where "finish b = Some e" and "e \<le> start a"
  using sorted_wrt_pair [OF ordered [OF assms(1)] assms(2,3)] assms(4) that
  by (auto split: option.splits)

lemma one_open:
  assumes "inv s" and "a \<in> set (rows s)" and "b \<in> set (rows s)"
    and "key a = key b" and "finish a = None" and "finish b = None"
  shows "a = b"
  using related [OF assms(1-4)] assms(5,6) by auto

lemma one_owner:
  assumes "inv s" and "a \<in> set (rows s)" and "b \<in> set (rows s)" and "key a = key b"
    and "start a \<le> t" and "\<And>e. finish a = Some e \<Longrightarrow> t < e"
    and "start b \<le> t" and "\<And>e. finish b = Some e \<Longrightarrow> t < e"
  shows "a = b"
  using related [OF assms(1-4)] assms(5-8) by (metis leD order_trans)

lemma disjoint:
  assumes "inv s" and "a \<in> set (rows s)" and "b \<in> set (rows s)" and "key a = key b"
    and "a \<noteq> b"
  shows "\<exists>e. (finish a = Some e \<and> e \<le> start b) \<or> (finish b = Some e \<and> e \<le> start a)"
  using related [OF assms(1-4)] assms(5) by auto

text \<open>The end of the last row of a key bounds the end of every row of that key.\<close>

lemma last_row:
  assumes "inv s" and m: "m \<in> set (rows s)" and "key m = k"
    and last: "last (filter (\<lambda>r. key r = k) (rows s)) = l"
  shows "m = l \<or> (\<exists>e. finish m = Some e \<and> e \<le> start l)"
proof -
  let ?R = "\<lambda>a b. key a = key b \<longrightarrow> (case finish a of None \<Rightarrow> False | Some e \<Rightarrow> e \<le> start b)"
  let ?xs = "filter (\<lambda>r. key r = k) (rows s)"
  have "sorted_wrt ?R ?xs" by (rule sorted_wrt_filterI) (rule ordered [OF assms(1)])
  moreover have "m \<in> set ?xs" using assms(2,3) by simp
  ultimately have "m = l \<or> ?R m l" unfolding last [symmetric] by (rule sorted_wrt_last)
  moreover have "key l = k"
  proof -
    have "?xs \<noteq> []" using \<open>m \<in> set ?xs\<close> by force
    then have "last ?xs \<in> set ?xs" by (rule last_in_set)
    then show ?thesis unfolding last by simp
  qed
  ultimately show ?thesis using assms(3) by (auto split: option.splits)
qed

lemma sorted_start:
  assumes "inv s"
  shows "sorted_wrt (\<lambda>a b. start a \<le> start b) (filter (\<lambda>r. key r = k) (rows s))"
proof -
  let ?xs = "filter (\<lambda>r. key r = k) (rows s)"
  have "sorted_wrt (\<lambda>a b. key a = key b \<longrightarrow>
      (case finish a of None \<Rightarrow> False | Some e \<Rightarrow> e \<le> start b)) ?xs"
    by (rule sorted_wrt_filterI) (rule ordered [OF assms])
  then show ?thesis
    by (rule sorted_wrt_mono_rel [rotated])
       (auto split: option.splits dest: forward [OF assms])
qed

end

interpretation lease_rows: interval_history lease_inv "\<lambda>ls. ls" ls_identity ls_acquired_at ls_released_at
  by unfold_locales
     (auto simp: lease_inv_def precedes_def [abs_def] lease_row_ok_def list_all_iff
           split: option.splits)

subsection \<open>Every write of the table keeps the invariant\<close>

lemma lease_inv_update:
  assumes inv: "lease_inv ls"
    and held: "\<And>l. P l \<Longrightarrow> ls_state l = LeaseHeld"
    and frame: "\<And>l. ls_id (f l) = ls_id l" "\<And>l. ls_identity (f l) = ls_identity l"
      "\<And>l. ls_acquired_at (f l) = ls_acquired_at l"
    and ok: "\<And>l. lease_row_ok l \<Longrightarrow> P l \<Longrightarrow> lease_row_ok (f l)"
  shows "lease_inv (update_where P f ls)"
proof -
  let ?g = "\<lambda>l. if P l then f l else l"
  have rows: "\<And>l. l \<in> set ls \<Longrightarrow> lease_row_ok l"
    using inv by (simp add: lease_inv_def list_all_iff)
  have "precedes (?g a) (?g b)" if "a \<in> set ls" and "precedes a b" for a b
    using that rows [OF that(1)] held [of a]
    by (auto simp: precedes_def lease_row_ok_def frame split: option.splits)
  then have "sorted_wrt (\<lambda>a b. precedes (?g a) (?g b)) ls"
    using inv sorted_wrt_mono_rel [of ls precedes] by (auto simp: lease_inv_def)
  then have "sorted_wrt precedes (update_where P f ls)"
    by (simp add: update_where_def sorted_wrt_map)
  moreover have "distinct (map ls_id (update_where P f ls))"
    using inv by (simp add: map_update_where frame lease_inv_def)
  moreover have "list_all lease_row_ok (update_where P f ls)"
    using rows ok by (auto simp: list_all_iff set_update_where)
  ultimately show ?thesis by (simp add: lease_inv_def)
qed

lemma lease_inv_insert:
  assumes "lease_inv ls" and "lease_row_ok l" and "ls_id l \<notin> ls_id ` set ls"
    and "\<And>m. m \<in> set ls \<Longrightarrow> ls_identity m = ls_identity l \<Longrightarrow>
      \<exists>e. ls_released_at m = Some e \<and> e \<le> ls_acquired_at l"
  shows "lease_inv (ls @ [l])"
  using assms by (fastforce simp: lease_inv_def sorted_wrt_append precedes_def)

lemma end_lease_ok:
  "lease_row_ok l \<Longrightarrow> ls_state l = LeaseHeld \<Longrightarrow> st \<noteq> LeaseHeld \<Longrightarrow> st \<noteq> LeaseFailed \<Longrightarrow>
     lease_row_ok (end_lease st t l)"
  by (simp add: lease_row_ok_def end_lease_def)

lemma end_lease_simps [simp]:
  "ls_id (end_lease st t l) = ls_id l"
  "ls_run (end_lease st t l) = ls_run l"
  "ls_identity (end_lease st t l) = ls_identity l"
  "ls_acquired_at (end_lease st t l) = ls_acquired_at l"
  "ls_expires_at (end_lease st t l) = ls_expires_at l"
  "ls_seed_state (end_lease st t l) = ls_seed_state l"
  "ls_state (end_lease st t l) = st"
  "ls_released_at (end_lease st t l) = Some (max t (ls_acquired_at l))"
  by (simp_all add: end_lease_def)

lemma lease_inv_end:
  assumes "lease_inv ls" and "\<And>l. P l \<Longrightarrow> ls_state l = LeaseHeld"
    and "st \<noteq> LeaseHeld" and "st \<noteq> LeaseFailed"
  shows "lease_inv (update_where P (end_lease st t) ls)"
  by (rule lease_inv_update [OF assms(1)]) (use assms in \<open>auto intro: end_lease_ok\<close>)

lemma leaseStart_after:
  assumes inv: "lease_inv (leases s)" and start: "leaseStart i s = (t, s1)"
    and free: "\<And>m. m \<in> set (leases s) \<Longrightarrow> ls_identity m = i \<Longrightarrow> ls_state m \<noteq> LeaseHeld"
    and m: "m \<in> set (leases s)" "ls_identity m = i"
  shows "\<exists>e. ls_released_at m = Some e \<and> e \<le> t"
proof -
  let ?xs = "filter (\<lambda>l. ls_identity l = i) (leases s)"
  have ne: "?xs \<noteq> []" using m by (auto simp: filter_empty_conv)
  then have last_in: "last ?xs \<in> set ?xs" by (rule last_in_set)
  then have l: "last ?xs \<in> set (leases s)" "ls_identity (last ?xs) = i" by auto
  from l inv free have "ls_released_at (last ?xs) \<noteq> None"
    by (auto simp: lease_inv_def list_all_iff lease_row_ok_def)
  then obtain e where e: "ls_released_at (last ?xs) = Some e" by blast
  have latest: "latest_by ls_acquired_at ?xs = Some (last ?xs)"
    by (rule latest_by_last [OF lease_rows.sorted_start [OF inv] ne])
  obtain now s1' where now: "Now s = (now, s1')" by (cases "Now s")
  then have "leases s1' = leases s" by (simp add: Now_frame(1))
  with start latest e now have "e \<le> t" by (auto simp: leaseStart_def split: if_splits)
  moreover have "m = last ?xs \<or> (\<exists>e'. ls_released_at m = Some e' \<and> e' \<le> ls_acquired_at (last ?xs))"
    by (rule lease_rows.last_row [OF inv m refl])
  moreover have "ls_acquired_at (last ?xs) \<le> e"
    using lease_rows.forward [OF inv l(1) e] .
  ultimately show ?thesis using e by auto
qed

lemma leaseStart_frame: "leaseStart i s = (t, s1) \<Longrightarrow> tables s1 = tables s"
  by (auto simp: leaseStart_def split: prod.splits option.splits dest: Now_frame(1))

lemma leaseStart_last_now: "leaseStart i s = (t, s1) \<Longrightarrow> last_now s1 \<le> t \<and> last_now s < last_now s1"
  by (auto simp: leaseStart_def split: prod.splits option.splits dest: Now_strict)


subsection \<open>Every operation keeps the invariant\<close>

lemma AcquireLease_cases:
  assumes "AcquireLease nl s = (res, s')"
  obtains (refused) e where "res = Inl e" and "tables s' = tables s"
  | (granted) r t s1 cooling i l where
      "find_row (\<lambda>r. run_id r = nl_run nl) (runs s) = Some r" and "run_state r = RunActive"
      and "0 < nl_ttl nl"
      and "leaseStart (nl_identity nl) s = (t, s1)"
      and "identityIsCoolingDown s1 (nl_identity nl) t = Inr cooling"
      and "l = \<lparr>ls_id = i, ls_run = nl_run nl, ls_identity = nl_identity nl,
                 ls_role = nl_role nl, ls_state = LeaseHeld,
                 ls_seed_state = SeedPending, ls_fingerprint = [],
                 ls_acquired_at = t, ls_expires_at = t + nl_ttl nl,
                 ls_released_at = None, ls_in_cooldown = cooling\<rparr>"
      and "\<not> lease_conflict l (leases s)"
      and "res = Inr l" and "tables s' = (tables s)\<lparr>db_leases := leases s @ [l]\<rparr>"
      and "last_now s' = last_now s1"
proof -
  obtain t s1 where st: "leaseStart (nl_identity nl) s = (t, s1)"
    by (cases "leaseStart (nl_identity nl) s")
  then have tab: "tables s1 = tables s" by (rule leaseStart_frame)
  obtain i s2 where id: "NewID s1 = (i, s2)" by (cases "NewID s1")
  then have tab2: "tables s2 = tables s" "last_now s2 = last_now s1"
    using tab by (simp_all add: NewID_frame)
  let ?run = "find_row (\<lambda>r. run_id r = nl_run nl) (runs s)"
  show ?thesis
  proof (cases "nl_run nl \<noteq> [] \<and> nl_identity nl \<noteq> [] \<and> 0 < nl_ttl nl \<and>
      (\<exists>r. ?run = Some r \<and> run_state r = RunActive)")
    case False
    then have "(\<exists>e. res = Inl e) \<and> tables s' = tables s"
      using assms by (auto simp: AcquireLease_def split: if_splits option.splits)
    then show ?thesis using refused by blast
  next
    case True
    then obtain r where r: "?run = Some r" "run_state r = RunActive" by blast
    show ?thesis
    proof (cases "identityIsCoolingDown s1 (nl_identity nl) t")
      case (Inl e)
      then have "res = Inl e \<and> tables s' = tables s"
        using assms True r st tab by (simp add: AcquireLease_def)
      then show ?thesis using refused by blast
    next
      case (Inr cooling)
      let ?l = "\<lparr>ls_id = i, ls_run = nl_run nl, ls_identity = nl_identity nl,
                 ls_role = nl_role nl, ls_state = LeaseHeld,
                 ls_seed_state = SeedPending, ls_fingerprint = [],
                 ls_acquired_at = t, ls_expires_at = t + nl_ttl nl,
                 ls_released_at = None, ls_in_cooldown = cooling\<rparr>"
      have run: "(res, s') = (if lease_conflict ?l (leases s) then (Inl ErrIdentityHeld, s2)
                     else (Inr ?l, set_leases (leases s @ [?l]) s2))"
        using assms True r st Inr id tab2
        by (auto simp: AcquireLease_def Let_def split: if_splits)
      show ?thesis
      proof (cases "lease_conflict ?l (leases s)")
        case True
        then show ?thesis using run tab2 refused by simp
      next
        case False
        then have "res = Inr ?l" "s' = set_leases (leases s @ [?l]) s2" using run by simp_all
        then show ?thesis
          using granted [OF r _ st Inr refl False] True tab2 by (simp add: set_leases_def)
      qed
    qed
  qed
qed

lemma AcquireLease_inv [inv_intros]:
  assumes "AcquireLease nl s = (res, s')" and inv: "lease_inv (leases s)"
  shows "lease_inv (leases s')"
  using assms(1)
proof (cases rule: AcquireLease_cases)
  case (granted r t s1 cooling i l)
  have free: "ls_state m \<noteq> LeaseHeld" "ls_id m \<noteq> ls_id l"
    if "m \<in> set (leases s)" and "ls_identity m = nl_identity nl" for m
    using granted(6,7) that by (auto simp: lease_conflict_def list_ex_iff)
  have "lease_inv (leases s @ [l])"
  proof (rule lease_inv_insert [OF inv])
    show "lease_row_ok l" using granted(6) by (simp add: lease_row_ok_def)
    show "ls_id l \<notin> ls_id ` set (leases s)"
      using granted(7) by (auto simp: lease_conflict_def list_ex_iff)
    show "\<exists>e. ls_released_at m = Some e \<and> e \<le> ls_acquired_at l"
      if "m \<in> set (leases s)" "ls_identity m = ls_identity l" for m
      using leaseStart_after [OF inv granted(4) free(1) that(1)] that granted(6) by simp
  qed
  then show ?thesis using granted(9) by simp
qed (use inv in simp)

lemma SettleSeed_inv [inv_intros]:
  assumes "SettleSeed i st fp s = (res, s')" and inv: "lease_inv (leases s)"
  shows "lease_inv (leases s')"
proof -
  have upd: "lease_inv (update_where (held_row i) (\<lambda>l. end_lease LeaseFailed t
        (l\<lparr>ls_seed_state := SeedFailed, ls_fingerprint := fp\<rparr>)) (leases s))" for t
    by (rule lease_inv_update [OF inv]) (auto simp: held_row_def lease_row_ok_def)
  have upd': "st \<noteq> SeedFailed \<Longrightarrow> lease_inv (update_where (held_row i)
        (\<lambda>l. l\<lparr>ls_seed_state := st, ls_fingerprint := fp\<rparr>) (leases s))"
    by (rule lease_inv_update [OF inv]) (auto simp: held_row_def lease_row_ok_def)
  obtain now s1 where now: "Now s = (now, s1)" by (cases "Now s")
  then have "leases s1 = leases s" by (simp add: Now_frame(1))
  with assms(1) now upd upd' inv show ?thesis
    by (auto simp: SettleSeed_def Let_def split: if_splits)
qed

lemma ReleaseLease_inv [inv_intros]:
  assumes "ReleaseLease i s = (res, s')" and inv: "lease_inv (leases s)"
  shows "lease_inv (leases s')"
proof -
  obtain now s1 where now: "Now s = (now, s1)" by (cases "Now s")
  then have "leases s1 = leases s" by (simp add: Now_frame(1))
  moreover have "lease_inv (update_where (held_row i) (end_lease LeaseReleased now) (leases s))"
    by (rule lease_inv_end [OF inv]) (auto simp: held_row_def)
  ultimately show ?thesis
    using assms(1) now by (auto simp: ReleaseLease_def Let_def split: if_splits option.splits)
qed

lemma releaseRunLeases_inv [inv_intros]:
  "lease_inv (leases s) \<Longrightarrow> lease_inv (leases (releaseRunLeases r t s))"
  unfolding releaseRunLeases_def by (auto intro!: lease_inv_end)

lemma ExpireLeases_inv [inv_intros]:
  assumes "ExpireLeases s = (res, s')" and inv: "lease_inv (leases s)"
  shows "lease_inv (leases s')"
proof -
  obtain t1 s1 t2 s2 where now: "Now s = (t1, s1)" "Now s1 = (t2, s2)"
    by (metis surj_pair)
  then have "leases s2 = leases s" by (simp add: Now_frame(1))
  moreover have "lease_inv (update_where (lease_due t2) (end_lease LeaseExpired t1) (leases s))"
    by (rule lease_inv_end [OF inv]) (auto simp: lease_due_def)
  ultimately show ?thesis using assms(1) now by (auto simp: ExpireLeases_def)
qed

lemma CreateIdentity_leases: "CreateIdentity ta ni s = (res, s') \<Longrightarrow> leases s' = leases s"
  by (auto simp: CreateIdentity_def Let_def split: if_splits prod.splits
           dest!: Now_frame(1) NewID_frame(1))

lemma SetCooldown_frame [simp]:
  "leases (SetCooldown i u s) = leases s" "runs (SetCooldown i u s) = runs s"
  "messages (SetCooldown i u s) = messages s" "bindings (SetCooldown i u s) = bindings s"
  "claims (SetCooldown i u s) = claims s" "last_now (SetCooldown i u s) = last_now s"
  by (simp_all add: SetCooldown_def)

section \<open>The identity invariant\<close>

text \<open>Addresses are unique under the collation, and so are the primary keys.\<close>

definition identity_inv :: "identity list \<Rightarrow> bool" where
  "identity_inv is \<longleftrightarrow>
     distinct (map idn_id is) \<and> distinct (map (\<lambda>i. asciiLower (idn_addr i)) is)"

lemma identity_inv_insert:
  "identity_inv is \<Longrightarrow> \<not> identity_conflict i is \<Longrightarrow> identity_inv (is @ [i])"
  by (force simp: identity_inv_def identity_conflict_def list_ex_iff nocase_eq_def)

lemma CreateIdentity_inv [inv_intros]:
  assumes "CreateIdentity ta ni s = (res, s')" and "identity_inv (identities s)"
  shows "identity_inv (identities s')"
proof -
  obtain i s1 now s2 where ns: "NewID s = (i, s1)" "Now s1 = (now, s2)"
    by (metis surj_pair)
  then have "identities s2 = identities s" by (simp add: Now_frame(1) NewID_frame(1))
  with assms ns show ?thesis
    by (auto simp: CreateIdentity_def Let_def intro: identity_inv_insert
             split: if_splits prod.splits)
qed

lemma SetCooldown_inv [inv_intros]:
  "identity_inv (identities s) \<Longrightarrow> identity_inv (identities (SetCooldown i u s))"
  by (simp add: SetCooldown_def identity_inv_def map_update_where)

lemma one_identity_per_addr:
  assumes "identity_inv is" and "i \<in> set is" and "j \<in> set is"
    and "nocase_eq (idn_addr i) a" and "nocase_eq (idn_addr j) a"
  shows "i = j"
  using assms by (auto simp: identity_inv_def nocase_eq_def distinct_map inj_on_def)

lemma owners_same_identity:
  assumes "identity_inv is" and "owns_addr_at is a t l" and "owns_addr_at is a t' m"
  shows "ls_identity l = ls_identity m"
  using assms one_identity_per_addr [OF assms(1)]
  by (auto simp: owns_addr_at_def list_ex_iff) metis

text \<open>The row a correlation query picks is the only row that qualifies.\<close>

lemma owner_unique:
  assumes "lease_inv ls" and "identity_inv is"
    and "l \<in> set ls" and "m \<in> set ls" and "owns_addr_at is a t l" and "owns_addr_at is a t m"
  shows "l = m"
proof (rule lease_rows.one_owner [OF assms(1,3,4)])
  show "ls_identity l = ls_identity m" by (rule owners_same_identity [OF assms(2,5,6)])
qed (use assms(5,6) in \<open>auto simp: owns_addr_at_def covers_def split: option.splits\<close>)

lemma leaseAt_iff:
  assumes "lease_inv (leases s)" and "identity_inv (identities s)"
  shows "leaseAt s a t = Some l \<longleftrightarrow> l \<in> set (leases s) \<and> owns_addr_at (identities s) a t l"
proof
  assume "leaseAt s a t = Some l"
  then show "l \<in> set (leases s) \<and> owns_addr_at (identities s) a t l"
    unfolding leaseAt_def by (auto dest: latest_by_in)
next
  assume l: "l \<in> set (leases s) \<and> owns_addr_at (identities s) a t l"
  then have "leaseAt s a t \<noteq> None" by (auto simp: leaseAt_def filter_empty_conv)
  then obtain m where m: "leaseAt s a t = Some m" by blast
  then have "m \<in> set (leases s) \<and> owns_addr_at (identities s) a t m"
    unfolding leaseAt_def by (auto dest: latest_by_in)
  then have "m = l" using owner_unique [OF assms] l by blast
  with m show "leaseAt s a t = Some l" by simp
qed

end
