(* ===== verification/Messages.thy ===== *)
theory Messages
  imports StoreModel Addresses
begin

text \<open>
  Captured mail: \<^verbatim>\<open>internal/store/messages.go\<close> and \<^verbatim>\<open>cursor.go\<close>. A message
  row is committed with its recipients, its extraction is settled exactly once, a quarantined
  or unreadable row has no by-id answer, and a listing continues from a pair of receive time
  and identifier.

  The body and the extraction are stored sealed; the sealer is the store's \<open>seal\<close> and
  \<open>unseal\<close>. \<open>msg_extracted = None\<close> is the \<^verbatim>\<open>NULL\<close> column.
\<close>

section \<open>Writing a message\<close>

record new_message =
  nm_id :: ident
  nm_project :: ident
  nm_from :: string
  nm_subject :: string
  nm_channel :: string
  nm_raw_ref :: string
  nm_html_ref :: string
  nm_text :: string
  nm_extracted :: string
  nm_quarantined :: bool
  nm_received_at :: time
  nm_recipients :: "(string \<times> recipient_kind) list"

text \<open>
  The recipient rows: \<^verbatim>\<open>INSERT ... ON CONFLICT DO NOTHING\<close> under the key
  \<^verbatim>\<open>(message_id, addr, kind)\<close>, whose address column collates without case.
\<close>

fun insert_recipients ::
  "(string \<Rightarrow> string option) \<Rightarrow> (string \<times> recipient_kind) list \<Rightarrow>
     (string \<times> recipient_kind) list \<Rightarrow> (string \<times> recipient_kind) list" where
  "insert_recipients to_ascii done [] = done"
| "insert_recipients to_ascii done ((a, k) # rs) =
     (let addr = NormalizeAddress to_ascii a
      in if list_ex (\<lambda>(b, k'). nocase_eq b addr \<and> k' = k) done
         then insert_recipients to_ascii done rs
         else insert_recipients to_ascii (done @ [(addr, k)]) rs)"

text \<open>
  \<^verbatim>\<open>Tx.InsertMessage\<close>: the result carries the identifier and the receive time the row
  was given.
\<close>

definition InsertMessage ::
  "(string \<Rightarrow> string option) \<Rightarrow> new_message \<Rightarrow> new_message op" where
  "InsertMessage to_ascii m0 s =
     (case (if nm_id m0 = [] then NewID s else (nm_id m0, s)) of (i, s1) \<Rightarrow>
       let channel = (if nm_channel m0 = [] then ''email'' else nm_channel m0)
       in case (if is_zero_time (nm_received_at m0) then Now s1 else (nm_received_at m0, s1)) of
        (received, s2) \<Rightarrow>
          let m = m0\<lparr>nm_id := i, nm_channel := channel, nm_received_at := received\<rparr>
          in case seal s2 (nm_text m) of
               None \<Rightarrow> (Inl ErrSeal, s2)
             | Some body \<Rightarrow>
                 (case (if nm_extracted m = [] then Some None
                        else map_option Some (seal s2 (nm_extracted m))) of
                    None \<Rightarrow> (Inl ErrSeal, s2)
                  | Some extraction \<Rightarrow>
                      if list_ex (\<lambda>r. msg_id r = i) (messages s2) then (Inl ErrConstraint, s2)
                      else (Inr m, set_messages (messages s2 @
                        [\<lparr>msg_id = i, msg_project = nm_project m, msg_from = nm_from m,
                          msg_subject = nm_subject m, msg_channel = channel,
                          msg_raw_ref = nm_raw_ref m, msg_html_ref = nm_html_ref m,
                          msg_body = body, msg_extracted = extraction,
                          msg_quarantined = nm_quarantined m, msg_received_at = received,
                          msg_extraction_state =
                            (if nm_extracted m = [] then ExtractionPending else ExtractionSuccess),
                          msg_recipients = insert_recipients to_ascii [] (nm_recipients m)\<rparr>]) s2)))"

section \<open>Reading a message\<close>

record message_view =
  mv_row :: message
  mv_text :: string
  mv_extracted :: string
  mv_unreadable :: bool

text \<open>
  \<^verbatim>\<open>scanMessageRow\<close>: either payload failing to open hides both.
\<close>

definition scan_message :: "store \<Rightarrow> message \<Rightarrow> message_view" where
  "scan_message s r =
     (let body = unseal s (msg_body r);
          extraction = (case msg_extracted r of None \<Rightarrow> Some [] | Some x \<Rightarrow> unseal s x)
      in case (body, extraction) of
           (Some b, Some x) \<Rightarrow>
             \<lparr>mv_row = r, mv_text = b, mv_extracted = x, mv_unreadable = False\<rparr>
         | _ \<Rightarrow> \<lparr>mv_row = r, mv_text = [], mv_extracted = [], mv_unreadable = True\<rparr>)"

definition read_message :: "store \<Rightarrow> ident \<Rightarrow> err + message_view" where
  "read_message s i =
     (case find_row (\<lambda>r. msg_id r = i) (messages s) of
        None \<Rightarrow> Inl ErrNotFound
      | Some r \<Rightarrow> Inr (scan_message s r))"

definition unreadableGuard :: "message_view \<Rightarrow> err + message_view" where
  "unreadableGuard v = (if mv_unreadable v then Inl ErrUnreadableMessage else Inr v)"

definition Message :: "store \<Rightarrow> ident \<Rightarrow> err + message_view" where
  "Message s i =
     (case read_message s i of
        Inl e \<Rightarrow> Inl e
      | Inr v \<Rightarrow> if msg_quarantined (mv_row v) then Inl ErrNotFound else unreadableGuard v)"

definition MessageIncludingQuarantined :: "store \<Rightarrow> ident \<Rightarrow> err + message_view" where
  "MessageIncludingQuarantined s i =
     (case read_message s i of Inl e \<Rightarrow> Inl e | Inr v \<Rightarrow> unreadableGuard v)"

section \<open>Listing\<close>

text \<open>
  \<^verbatim>\<open>MessageCursor\<close> as the pair it compares as; its zero value is the unset cursor.
\<close>

record message_filter =
  mf_project :: ident
  mf_to :: string
  mf_since :: time
  mf_cursor :: "time \<times> ident"
  mf_limit :: nat
  mf_quarantined :: bool

definition cursor_is_zero :: "time \<times> ident \<Rightarrow> bool" where
  "cursor_is_zero c \<longleftrightarrow> snd c = [] \<and> is_zero_time (fst c)"

definition CursorFor :: "message \<Rightarrow> time \<times> ident" where
  "CursorFor m = (msg_received_at m, msg_id m)"

definition message_selected ::
  "(string \<Rightarrow> string option) \<Rightarrow> message_filter \<Rightarrow> message \<Rightarrow> bool" where
  "message_selected to_ascii f m \<longleftrightarrow>
     (mf_project f = [] \<or> msg_project m = mf_project f) \<and>
     (mf_quarantined f \<or> \<not> msg_quarantined m) \<and>
     (is_zero_time (mf_since f) \<or> mf_since f < msg_received_at m) \<and>
     (mf_to f = [] \<or>
        list_ex (\<lambda>(a, k). k = RecipientEnvelope \<and> nocase_eq a (NormalizeAddress to_ascii (mf_to f)))
          (msg_recipients m))"

definition newest_first :: "message list \<Rightarrow> message list" where
  "newest_first ms = rev (sort_key CursorFor ms)"

definition ListMessages ::
  "(string \<Rightarrow> string option) \<Rightarrow> store \<Rightarrow> message_filter \<Rightarrow> message_view list" where
  "ListMessages to_ascii s f =
     (let rows = newest_first (rows_where (\<lambda>m. message_selected to_ascii f m \<and>
                   (cursor_is_zero (mf_cursor f) \<or> CursorFor m < mf_cursor f)) (messages s));
          page = (if 0 < mf_limit f then take (mf_limit f) rows else rows)
      in map (scan_message s) page)"

definition ListPendingExtractions :: "store \<Rightarrow> nat \<Rightarrow> message_view list" where
  "ListPendingExtractions s limit =
     (let rows = sort_key CursorFor
        (rows_where (\<lambda>m. msg_extraction_state m = ExtractionPending) (messages s))
      in map (scan_message s) (if 0 < limit then take limit rows else rows))"

section \<open>Settling an extraction\<close>

definition pending_row :: "ident \<Rightarrow> message \<Rightarrow> bool" where
  "pending_row i m \<longleftrightarrow> msg_id m = i \<and> msg_extraction_state m = ExtractionPending"

definition settleExtraction :: "ident \<Rightarrow> (message \<Rightarrow> message) \<Rightarrow> unit op" where
  "settleExtraction i f s =
     (let s1 = set_messages (update_where (pending_row i) f (messages s)) s
      in if affected (pending_row i) (messages s) = 1 then (Inr (), s1)
         else (case find_row (\<lambda>m. msg_id m = i) (messages s1) of
                 None \<Rightarrow> (Inl ErrNotFound, s1)
               | Some _ \<Rightarrow> (Inl ErrExtractionSettled, s1)))"

definition SetExtraction :: "ident \<Rightarrow> string \<Rightarrow> unit op" where
  "SetExtraction i extracted s =
     (if extracted = [] then (Inl ErrInvalidArgument, s)
      else case seal s extracted of
        None \<Rightarrow> (Inl ErrSeal, s)
      | Some sealed \<Rightarrow>
          settleExtraction i (\<lambda>m. m\<lparr>msg_extracted := Some sealed,
                                   msg_extraction_state := ExtractionSuccess\<rparr>) s)"

definition FailExtraction :: "ident \<Rightarrow> unit op" where
  "FailExtraction i s =
     settleExtraction i (\<lambda>m. m\<lparr>msg_extraction_state := ExtractionFailed\<rparr>) s"

section \<open>Deleting\<close>

text \<open>
  \<^verbatim>\<open>DeleteMessage\<close>: bindings and claims reference the message with
  \<^verbatim>\<open>ON DELETE CASCADE\<close>, so they go with it.
\<close>

definition DeleteMessage :: "ident \<Rightarrow> (string \<times> string) op" where
  "DeleteMessage i s =
     (case find_row (\<lambda>m. msg_id m = i) (messages s) of
        None \<Rightarrow> (Inl ErrNotFound, s)
      | Some m \<Rightarrow>
          (Inr (msg_raw_ref m, msg_html_ref m),
           set_claims (filter (\<lambda>c. cl_message c \<noteq> Some i) (claims s))
             (set_bindings (filter (\<lambda>b. bd_message b \<noteq> i) (bindings s))
               (set_messages (filter (\<lambda>r. msg_id r \<noteq> i) (messages s)) s))))"

section \<open>The message invariant\<close>

text \<open>
  Keys are unique, and the extraction column is filled exactly in the success state.
\<close>

definition message_inv :: "message list \<Rightarrow> bool" where
  "message_inv ms \<longleftrightarrow>
     distinct (map msg_id ms) \<and>
     list_all (\<lambda>m. msg_extracted m \<noteq> None \<longleftrightarrow> msg_extraction_state m = ExtractionSuccess) ms"

lemma InsertMessage_cases:
  assumes "InsertMessage ta m0 s = (res, s')"
  obtains (refused) e where "res = Inl e" and "tables s' = tables s"
  | (stored) m row where "res = Inr m" and "msg_id row \<notin> msg_id ` set (messages s)"
      and "msg_id row = nm_id m" and "nm_received_at m = msg_received_at row"
      and "nm_recipients m = nm_recipients m0"
      and "msg_extracted row \<noteq> None \<longleftrightarrow> msg_extraction_state row = ExtractionSuccess"
      and "msg_quarantined row = nm_quarantined m0"
      and "msg_raw_ref row = nm_raw_ref m0"
      and "msg_recipients row = insert_recipients ta [] (nm_recipients m0)"
      and "tables s' = (tables s)\<lparr>db_messages := messages s @ [row]\<rparr>"
proof -
  obtain i s1 where id: "(if nm_id m0 = [] then NewID s else (nm_id m0, s)) = (i, s1)"
    by (metis surj_pair)
  obtain t s2 where now:
    "(if is_zero_time (nm_received_at m0) then Now s1 else (nm_received_at m0, s1)) = (t, s2)"
    by (metis surj_pair)
  have tab: "tables s1 = tables s" "tables s2 = tables s1"
    using id now by (auto split: if_splits dest: NewID_frame Now_frame)
  let ?ch = "if nm_channel m0 = [] then ''email'' else nm_channel m0"
  let ?m = "m0\<lparr>nm_id := i, nm_channel := ?ch, nm_received_at := t\<rparr>"
  let ?ext = "if nm_extracted m0 = [] then Some None else map_option Some (seal s2 (nm_extracted m0))"
  show ?thesis
  proof (cases "seal s2 (nm_text m0) = None \<or> ?ext = None \<or>
                list_ex (\<lambda>r. msg_id r = i) (messages s)")
    case True
    then have "(\<exists>e. res = Inl e) \<and> s' = s2"
      using assms id now tab by (auto simp: InsertMessage_def Let_def split: option.splits if_splits)
    then show ?thesis using tab refused by fastforce
  next
    case False
    then obtain b x where bx: "seal s2 (nm_text m0) = Some b" "?ext = Some x"
      by (metis option.exhaust)
    let ?row = "\<lparr>msg_id = i, msg_project = nm_project m0, msg_from = nm_from m0,
        msg_subject = nm_subject m0, msg_channel = ?ch,
        msg_raw_ref = nm_raw_ref m0, msg_html_ref = nm_html_ref m0, msg_body = b,
        msg_extracted = x, msg_quarantined = nm_quarantined m0, msg_received_at = t,
        msg_extraction_state =
          (if nm_extracted m0 = [] then ExtractionPending else ExtractionSuccess),
        msg_recipients = insert_recipients ta [] (nm_recipients m0)\<rparr>"
    have "res = Inr ?m" and s': "s' = set_messages (messages s @ [?row]) s2"
      using assms id now tab bx False
      by (cases "nm_extracted m0 = []"; auto simp: InsertMessage_def Let_def list_ex_iff)+
    moreover have "x \<noteq> None \<longleftrightarrow> nm_extracted m0 \<noteq> []"
      using bx(2) by (auto split: if_splits)
    ultimately show ?thesis
      using False tab by (intro stored [of ?m ?row]) (auto simp: list_ex_iff set_messages_def)
  qed
qed

lemma message_inv_insert:
  "message_inv ms \<Longrightarrow> msg_id r \<notin> msg_id ` set ms \<Longrightarrow>
     (msg_extracted r \<noteq> None \<longleftrightarrow> msg_extraction_state r = ExtractionSuccess) \<Longrightarrow>
     message_inv (ms @ [r])"
  by (simp add: message_inv_def)

lemma InsertMessage_inv [inv_intros]:
  assumes "InsertMessage ta m0 s = (res, s')" and "message_inv (messages s)"
  shows "message_inv (messages s')"
  using assms(1)
proof (cases rule: InsertMessage_cases)
  case (stored m row)
  with message_inv_insert [OF assms(2) stored(2)] show ?thesis by simp
qed (use assms(2) in simp)

lemma settleExtraction_tables:
  assumes "settleExtraction i f s = (res, s')"
  shows "tables s' = (tables s)\<lparr>db_messages := update_where (pending_row i) f (messages s)\<rparr>"
  using assms
  by (auto simp: settleExtraction_def Let_def set_messages_def split: if_splits option.splits)

lemma message_inv_settle:
  assumes "message_inv ms" and "\<And>m. msg_id (f m) = msg_id m"
    and "\<And>m. msg_extraction_state m = ExtractionPending \<Longrightarrow> msg_extracted m = None \<Longrightarrow>
      msg_extracted (f m) \<noteq> None \<longleftrightarrow> msg_extraction_state (f m) = ExtractionSuccess"
  shows "message_inv (update_where (pending_row i) f ms)"
proof -
  have "msg_extracted (f m) \<noteq> None \<longleftrightarrow> msg_extraction_state (f m) = ExtractionSuccess"
    if "m \<in> set ms" and "pending_row i m" for m
  proof (rule assms(3))
    show pending: "msg_extraction_state m = ExtractionPending"
      using that(2) by (simp add: pending_row_def)
    from that(1) assms(1)
    have "msg_extracted m \<noteq> None \<longleftrightarrow> msg_extraction_state m = ExtractionSuccess"
      by (simp add: message_inv_def list_all_iff)
    with pending show "msg_extracted m = None" by simp
  qed
  moreover have "map msg_id (update_where (pending_row i) f ms) = map msg_id ms"
    by (rule map_update_where) (rule assms(2))
  ultimately show ?thesis
    using assms(1) unfolding message_inv_def list_all_iff by (metis set_update_where)
qed

lemma SetExtraction_cases:
  assumes "SetExtraction i x s = (res, s')"
  obtains (refused) "s' = s" and "res \<noteq> Inr ()"
  | (ran) sealed where "seal s x = Some sealed" and "x \<noteq> []"
      and "settleExtraction i (\<lambda>m. m\<lparr>msg_extracted := Some sealed,
                 msg_extraction_state := ExtractionSuccess\<rparr>) s = (res, s')"
  using assms by (auto simp: SetExtraction_def split: if_splits option.splits)

lemma SetExtraction_inv [inv_intros]:
  assumes "SetExtraction i x s = (res, s')" and "message_inv (messages s)"
  shows "message_inv (messages s')"
  using assms(1)
proof (cases rule: SetExtraction_cases)
  case (ran sealed)
  then show ?thesis
    using assms(2) by (auto simp: settleExtraction_tables intro: message_inv_settle)
qed (use assms(2) in simp)

lemma FailExtraction_inv [inv_intros]:
  assumes "FailExtraction i s = (res, s')" and "message_inv (messages s)"
  shows "message_inv (messages s')"
  using assms by (auto simp: FailExtraction_def settleExtraction_tables intro: message_inv_settle)

lemma DeleteMessage_inv [inv_intros]:
  assumes "DeleteMessage i s = (res, s')" and "message_inv (messages s)"
  shows "message_inv (messages s')"
  using assms
  by (auto simp: DeleteMessage_def message_inv_def list_all_iff distinct_map_filter split: option.splits)

end
