(* ===== verification/Bindings.thy ===== *)
theory Bindings
  imports Leases Messages
begin

text \<open>
  Correlation at ingest: \<^verbatim>\<open>internal/store/bindings.go\<close>. Every envelope recipient is
  resolved to the lease that owned the address when the message arrived, in the transaction
  that stores the message, and the binding records whether it is suspect.
\<close>

section \<open>Suspicion\<close>

record lease_owner =
  ow_lease :: ident
  ow_run :: ident
  ow_identity :: ident
  ow_mode :: mode
  ow_acquired_at :: time
  ow_released_at :: "time option"
  ow_in_cooldown :: bool

definition originGranularity :: duration where
  "originGranularity = second"

definition suspicion :: "lease_owner \<Rightarrow> time \<Rightarrow> suspect" where
  "suspicion ow originAt =
     (if ow_in_cooldown ow then SuspectCooldown
      else if ow_mode ow \<noteq> ModePooled then
        (if ow_released_at ow \<noteq> None then SuspectAfterRelease else SuspectNone)
      else if is_zero_time originAt then SuspectOriginUnknown
      else if originAt < truncate_to originGranularity (ow_acquired_at ow)
        then SuspectPredatesLease
      else if ow_released_at ow \<noteq> None then SuspectAfterRelease
      else SuspectNone)"

text \<open>\<^verbatim>\<open>Tx.leaseAt\<close>: the owning lease joined with the mode of its identity.\<close>

definition owner_of :: "store \<Rightarrow> lease \<Rightarrow> lease_owner" where
  "owner_of s l =
     \<lparr>ow_lease = ls_id l, ow_run = ls_run l, ow_identity = ls_identity l,
      ow_mode = (case Identity s (ls_identity l) of None \<Rightarrow> ModeOther [] | Some i \<Rightarrow> idn_mode i),
      ow_acquired_at = ls_acquired_at l, ow_released_at = ls_released_at l,
      ow_in_cooldown = ls_in_cooldown l\<rparr>"

definition owner_at :: "store \<Rightarrow> string \<Rightarrow> time \<Rightarrow> lease_owner option" where
  "owner_at s addr at = map_option (owner_of s) (leaseAt s addr at)"

section \<open>Binding the recipients of a message\<close>

text \<open>
  The primary key \<^verbatim>\<open>(message_id, lease_id)\<close> and the reference to the message row.
\<close>

definition binding_conflict :: "store \<Rightarrow> binding \<Rightarrow> bool" where
  "binding_conflict s b \<longleftrightarrow>
     list_ex (\<lambda>c. bd_message c = bd_message b \<and> bd_lease c = bd_lease b) (bindings s) \<or>
     \<not> list_ex (\<lambda>m. msg_id m = bd_message b) (messages s)"

text \<open>
  The loop of \<^verbatim>\<open>BindRecipients\<close>. \<open>seen\<close> is its \<^verbatim>\<open>seen\<close> map, which compares the
  normalized addresses byte by byte; the address column the lookup runs on does not.
\<close>

fun bind_loop ::
  "(string \<Rightarrow> string option) \<Rightarrow> ident \<Rightarrow> time \<Rightarrow> time \<Rightarrow> string list \<Rightarrow> string list \<Rightarrow>
     binding list \<Rightarrow> string list \<Rightarrow> (binding list \<times> string list) op" where
  "bind_loop to_ascii m receivedAt originAt [] seen bound unbound s = (Inr (bound, unbound), s)"
| "bind_loop to_ascii m receivedAt originAt (raw # addrs) seen bound unbound s =
     (let addr = NormalizeAddress to_ascii raw
      in if addr = [] then bind_loop to_ascii m receivedAt originAt addrs seen bound unbound s
         else if List.member seen addr
           then bind_loop to_ascii m receivedAt originAt addrs seen bound unbound s
         else case owner_at s addr receivedAt of
           None \<Rightarrow> bind_loop to_ascii m receivedAt originAt addrs (addr # seen) bound
                     (unbound @ [addr]) s
         | Some ow \<Rightarrow>
             (case Now s of (now, s1) \<Rightarrow>
               let b = \<lparr>bd_message = m, bd_lease = ow_lease ow, bd_run = ow_run ow,
                        bd_identity = ow_identity ow, bd_addr = addr, bd_bound_at = now,
                        bd_suspect = suspicion ow originAt\<rparr>
               in if binding_conflict s1 b then (Inl ErrConstraint, s1)
                  else bind_loop to_ascii m receivedAt originAt addrs (addr # seen)
                         (bound @ [b]) unbound (set_bindings (bindings s1 @ [b]) s1)))"

definition BindRecipients ::
  "(string \<Rightarrow> string option) \<Rightarrow> ident \<Rightarrow> string list \<Rightarrow> time \<Rightarrow> time \<Rightarrow>
     (binding list \<times> string list) op" where
  "BindRecipients to_ascii m addrs receivedAt originAt =
     bind_loop to_ascii m receivedAt originAt addrs [] [] []"

definition ListLeaseBindings :: "store \<Rightarrow> ident \<Rightarrow> binding list" where
  "ListLeaseBindings s l =
     sort_key (\<lambda>b. (bd_bound_at b, bd_message b)) (rows_where (\<lambda>b. bd_lease b = l) (bindings s))"

definition ListMessageBindings :: "store \<Rightarrow> ident \<Rightarrow> binding list" where
  "ListMessageBindings s m =
     sort_key bd_lease (rows_where (\<lambda>b. bd_message b = m) (bindings s))"

section \<open>The binding invariant\<close>

text \<open>
  A binding refers to a stored message and to a lease whose run and identity it repeats, the
  message arrived no earlier than the lease began, and a message binds a lease at most once.
\<close>

definition binding_ok :: "lease list \<Rightarrow> message list \<Rightarrow> binding \<Rightarrow> bool" where
  "binding_ok ls ms b \<longleftrightarrow>
     list_ex (\<lambda>m. msg_id m = bd_message b \<and>
       list_ex (\<lambda>l. ls_id l = bd_lease b \<and> ls_run l = bd_run b \<and>
         ls_identity l = bd_identity b \<and> ls_acquired_at l \<le> msg_received_at m) ls) ms"

definition binding_inv :: "store \<Rightarrow> bool" where
  "binding_inv s \<longleftrightarrow>
     distinct (map (\<lambda>b. (bd_message b, bd_lease b)) (bindings s)) \<and>
     list_all (binding_ok (leases s) (messages s)) (bindings s)"

text \<open>
  Ending, settling or adding leases keeps the columns a binding repeats; settling or adding
  messages keeps the receive time.
\<close>

lemma binding_ok_mono:
  assumes "binding_ok ls ms b"
    and "\<And>l. l \<in> set ls \<Longrightarrow> \<exists>l'\<in>set ls'. ls_id l' = ls_id l \<and> ls_run l' = ls_run l \<and>
      ls_identity l' = ls_identity l \<and> ls_acquired_at l' = ls_acquired_at l"
    and "\<And>m. m \<in> set ms \<Longrightarrow> \<exists>m'\<in>set ms'. msg_id m' = msg_id m \<and>
      msg_received_at m' = msg_received_at m"
  shows "binding_ok ls' ms' b"
proof -
  obtain m l where m: "m \<in> set ms" "msg_id m = bd_message b"
    and l: "l \<in> set ls" "ls_id l = bd_lease b" "ls_run l = bd_run b"
      "ls_identity l = bd_identity b" "ls_acquired_at l \<le> msg_received_at m"
    using assms(1) by (auto simp: binding_ok_def list_ex_iff)
  obtain m' where "m' \<in> set ms'" "msg_id m' = msg_id m" "msg_received_at m' = msg_received_at m"
    using assms(3) [OF m(1)] by blast
  moreover obtain l' where "l' \<in> set ls'" "ls_id l' = ls_id l" "ls_run l' = ls_run l"
    "ls_identity l' = ls_identity l" "ls_acquired_at l' = ls_acquired_at l"
    using assms(2) [OF l(1)] by blast
  ultimately show ?thesis using m l unfolding binding_ok_def list_ex_iff by metis
qed

definition lease_frame :: "lease list \<Rightarrow> lease list \<Rightarrow> bool" where
  "lease_frame ls ls' \<longleftrightarrow>
     (\<forall>l\<in>set ls. \<exists>l'\<in>set ls'. ls_id l' = ls_id l \<and> ls_run l' = ls_run l \<and>
        ls_identity l' = ls_identity l \<and> ls_acquired_at l' = ls_acquired_at l)"

lemma lease_frame_refl [simp]: "lease_frame ls ls"
  by (auto simp: lease_frame_def)

lemma lease_frame_append [simp]: "lease_frame ls (ls @ xs)"
  by (auto simp: lease_frame_def)

lemma lease_frame_update:
  assumes "\<And>l. ls_id (f l) = ls_id l" "\<And>l. ls_run (f l) = ls_run l"
    "\<And>l. ls_identity (f l) = ls_identity l" "\<And>l. ls_acquired_at (f l) = ls_acquired_at l"
  shows "lease_frame ls (update_where P f ls)"
  unfolding lease_frame_def
proof
  fix l assume l: "l \<in> set ls"
  show "\<exists>l'\<in>set (update_where P f ls). ls_id l' = ls_id l \<and> ls_run l' = ls_run l \<and>
      ls_identity l' = ls_identity l \<and> ls_acquired_at l' = ls_acquired_at l"
    by (rule bexI [OF _ update_where_hit [OF l, of P f]]) (simp add: assms)
qed

lemma binding_inv_leases:
  assumes "binding_inv s" and "bindings s' = bindings s" and "messages s' = messages s"
    and "lease_frame (leases s) (leases s')"
  shows "binding_inv s'"
  using assms unfolding binding_inv_def lease_frame_def
  by (auto simp: list_all_iff intro: binding_ok_mono)

lemma binding_inv_messages:
  assumes "binding_inv s" and "bindings s' = bindings s" and "leases s' = leases s"
    and "\<And>m. m \<in> set (messages s) \<Longrightarrow> \<exists>m'\<in>set (messages s'). msg_id m' = msg_id m \<and>
      msg_received_at m' = msg_received_at m"
  shows "binding_inv s'"
  using assms unfolding binding_inv_def
  by (auto simp: list_all_iff intro: binding_ok_mono)


section \<open>What binding a message computes\<close>

lemma leaseAt_cong:
  "leases s' = leases s \<Longrightarrow> identities s' = identities s \<Longrightarrow> leaseAt s' a t = leaseAt s a t"
  by (simp add: leaseAt_def)

lemma owner_at_cong:
  "leases s' = leases s \<Longrightarrow> identities s' = identities s \<Longrightarrow> owner_at s' a t = owner_at s a t"
  by (simp add: owner_at_def leaseAt_def owner_of_def [abs_def] Identity_def)

lemma owner_at_Some:
  assumes "owner_at s a t = Some ow"
  obtains l where "l \<in> set (leases s)" and "owns_addr_at (identities s) a t l"
    and "ow = owner_of s l"
  using assms by (auto simp: owner_at_def leaseAt_def dest!: latest_by_in)

lemma owner_at_None:
  "owner_at s a t = None \<longleftrightarrow> (\<forall>l\<in>set (leases s). \<not> owns_addr_at (identities s) a t l)"
  by (simp add: owner_at_def leaseAt_def filter_empty_conv)

text \<open>The binding the loop writes for one address with an owner.\<close>

definition binds_to :: "store \<Rightarrow> ident \<Rightarrow> time \<Rightarrow> time \<Rightarrow> binding \<Rightarrow> bool" where
  "binds_to s m receivedAt originAt b \<longleftrightarrow>
     bd_message b = m \<and>
     (case owner_at s (bd_addr b) receivedAt of
        None \<Rightarrow> False
      | Some ow \<Rightarrow> bd_lease b = ow_lease ow \<and> bd_run b = ow_run ow \<and>
          bd_identity b = ow_identity ow \<and> bd_suspect b = suspicion ow originAt)"

lemma binds_to_cong:
  "leases s' = leases s \<Longrightarrow> identities s' = identities s \<Longrightarrow>
     binds_to s' m rt ot b = binds_to s m rt ot b"
  unfolding binds_to_def by (simp add: owner_at_cong [of s' s])

definition addrs_of :: "(string \<Rightarrow> string option) \<Rightarrow> string list \<Rightarrow> string set" where
  "addrs_of ta raw = {a. a \<noteq> [] \<and> a \<in> NormalizeAddress ta ` set raw}"

lemma addrs_of_simps [simp]:
  "addrs_of ta [] = {}"
  "addrs_of ta (r # rs) =
     (if NormalizeAddress ta r = [] then addrs_of ta rs
      else insert (NormalizeAddress ta r) (addrs_of ta rs))"
  by (auto simp: addrs_of_def)

lemma bind_loop_spec:
  assumes "bind_loop ta m rt ot raw seen bound unbound s = (Inr (bd, ub), s')"
  shows "\<exists>X Y. bd = bound @ X \<and> ub = unbound @ Y \<and>
     tables s' = (tables s)\<lparr>db_bindings := bindings s @ X\<rparr> \<and>
     list_all (binds_to s m rt ot) X \<and> list_all (\<lambda>a. owner_at s a rt = None) Y \<and>
     set (map bd_addr X) \<union> set Y = addrs_of ta raw - set seen"
  using assms
proof (induction raw arbitrary: seen bound unbound s)
  case Nil
  then show ?case by (auto intro!: exI [of _ "[]"])
next
  case (Cons r rs)
  let ?a = "NormalizeAddress ta r"
  show ?case
  proof (cases "?a = [] \<or> ?a \<in> set seen")
    case True
    then have "bind_loop ta m rt ot rs seen bound unbound s = (Inr (bd, ub), s')"
      using Cons.prems by (auto simp: Let_def split: if_splits)
    from Cons.IH [OF this] show ?thesis using True by auto
  next
    case new: False
    show ?thesis
    proof (cases "owner_at s ?a rt")
      case None
      then have "bind_loop ta m rt ot rs (?a # seen) bound (unbound @ [?a]) s = (Inr (bd, ub), s')"
        using Cons.prems new by (simp add: Let_def)
      from Cons.IH [OF this] obtain X Y where "bd = bound @ X" "ub = unbound @ ?a # Y"
        "tables s' = (tables s)\<lparr>db_bindings := bindings s @ X\<rparr>"
        "list_all (binds_to s m rt ot) X" "list_all (\<lambda>a. owner_at s a rt = None) Y"
        "set (map bd_addr X) \<union> set Y = addrs_of ta rs - set (?a # seen)" by auto
      then show ?thesis using new None by (intro exI [of _ X] exI [of _ "?a # Y"]) auto
    next
      case (Some ow)
      obtain now s1 where now: "Now s = (now, s1)" by (cases "Now s")
      then have tab: "tables s1 = tables s" by (simp add: Now_frame(1))
      let ?b = "\<lparr>bd_message = m, bd_lease = ow_lease ow, bd_run = ow_run ow,
                 bd_identity = ow_identity ow, bd_addr = ?a, bd_bound_at = now,
                 bd_suspect = suspicion ow ot\<rparr>"
      let ?s2 = "set_bindings (bindings s @ [?b]) s1"
      have "bind_loop ta m rt ot rs (?a # seen) (bound @ [?b]) unbound ?s2 = (Inr (bd, ub), s')"
        using Cons.prems new Some now tab by (auto simp: Let_def split: if_splits)
      from Cons.IH [OF this] obtain X Y where X: "bd = bound @ ?b # X" "ub = unbound @ Y"
        "tables s' = (tables ?s2)\<lparr>db_bindings := bindings ?s2 @ X\<rparr>"
        "list_all (binds_to ?s2 m rt ot) X" "list_all (\<lambda>a. owner_at ?s2 a rt = None) Y"
        "set (map bd_addr X) \<union> set Y = addrs_of ta rs - set (?a # seen)" by auto
      have same: "leases ?s2 = leases s" "identities ?s2 = identities s" using tab by simp_all
      have "binds_to s m rt ot ?b" using Some by (simp add: binds_to_def)
      moreover have "list_all (binds_to s m rt ot) X"
        using X(4) by (simp add: list_all_iff binds_to_cong [OF same])
      moreover have "list_all (\<lambda>a. owner_at s a rt = None) Y"
        using X(5) by (simp add: list_all_iff owner_at_cong [OF same])
      moreover have "tables s' = (tables s)\<lparr>db_bindings := bindings s @ ?b # X\<rparr>"
        using X(3) tab by (simp add: set_bindings_def)
      ultimately show ?thesis
        using X(1,2,6) new by (intro exI [of _ "?b # X"] exI [of _ Y]) auto
    qed
  qed
qed

text \<open>
  Two recipients that normalize to different spellings of one address (the local part keeps
  its case) both pass the \<^verbatim>\<open>seen\<close> check and resolve to the same lease, so the second
  insert violates the primary key.
\<close>

lemma owner_at_nocase:
  assumes "nocase_eq a b"
  shows "owner_at s a t = owner_at s b t"
proof -
  have "owns_addr_at (identities s) a t = owns_addr_at (identities s) b t"
    using assms by (simp add: fun_eq_iff owns_addr_at_def nocase_eq_def)
  then show ?thesis by (simp add: owner_at_def leaseAt_def)
qed

lemma bind_loop_duplicate:
  assumes "b0 \<in> set (bindings s)" and "bd_message b0 = m" and "bd_lease b0 = ow_lease ow"
    and "NormalizeAddress ta r \<noteq> []" and "NormalizeAddress ta r \<notin> set seen"
    and "owner_at s (NormalizeAddress ta r) rt = Some ow"
  shows "fst (bind_loop ta m rt ot (r # rs) seen bound unbound s) = Inl ErrConstraint"
proof -
  obtain now s1 where now: "Now s = (now, s1)" by (cases "Now s")
  then have "tables s1 = tables s" by (simp add: Now_frame(1))
  then have "binding_conflict s1 \<lparr>bd_message = m, bd_lease = ow_lease ow, bd_run = ow_run ow,
      bd_identity = ow_identity ow, bd_addr = NormalizeAddress ta r, bd_bound_at = now,
      bd_suspect = suspicion ow ot\<rparr>"
    using assms(1-3) by (auto simp: binding_conflict_def list_ex_iff)
  then show ?thesis using assms(4-6) now by (simp add: Let_def)
qed

lemma bind_case_variants:
  assumes "NormalizeAddress ta r1 \<noteq> []" and "NormalizeAddress ta r1 \<noteq> NormalizeAddress ta r2"
    and "nocase_eq (NormalizeAddress ta r1) (NormalizeAddress ta r2)"
    and "owner_at s (NormalizeAddress ta r1) rt \<noteq> None"
  shows "fst (BindRecipients ta m [r1, r2] rt ot s) = Inl ErrConstraint"
proof -
  let ?a = "NormalizeAddress ta r1" and ?b = "NormalizeAddress ta r2"
  obtain ow where ow: "owner_at s ?a rt = Some ow" using assms(4) by blast
  have b: "?b \<noteq> []" using assms(1,3) by (auto simp: nocase_eq_def asciiLower_def)
  obtain now s1 where now: "Now s = (now, s1)" by (cases "Now s")
  then have tab: "tables s1 = tables s" by (simp add: Now_frame(1))
  let ?x = "\<lparr>bd_message = m, bd_lease = ow_lease ow, bd_run = ow_run ow,
             bd_identity = ow_identity ow, bd_addr = ?a, bd_bound_at = now,
             bd_suspect = suspicion ow ot\<rparr>"
  let ?s2 = "set_bindings (bindings s1 @ [?x]) s1"
  have "owner_at ?s2 ?b rt = Some ow"
    using ow owner_at_nocase [OF assms(3)] owner_at_cong [of ?s2 s] tab by simp
  then have "fst (bind_loop ta m rt ot [r2] [?a] [?x] [] ?s2) = Inl ErrConstraint"
    using assms(2) b by (intro bind_loop_duplicate [where ?b0.0 = ?x]) auto
  then show ?thesis
    using assms(1) ow now by (simp add: BindRecipients_def Let_def)
qed

text \<open>
  When no two recipients are spellings of one address and the message is bound nowhere yet,
  the loop cannot fail.
\<close>

definition owner_lease :: "store \<Rightarrow> time \<Rightarrow> string \<Rightarrow> ident option" where
  "owner_lease s t a = map_option ow_lease (owner_at s a t)"

lemma bind_loop_total:
  assumes "list_ex (\<lambda>r. msg_id r = m) (messages s)"
    and "addrs_of ta raw \<union> set seen \<subseteq> A"
    and inj: "\<And>a b x. a \<in> A \<Longrightarrow> b \<in> A \<Longrightarrow> owner_lease s rt a = Some x \<Longrightarrow>
      owner_lease s rt b = Some x \<Longrightarrow> a = b"
    and "\<And>b. b \<in> set (bindings s) \<Longrightarrow> bd_message b = m \<Longrightarrow>
      \<exists>a\<in>set seen. owner_lease s rt a = Some (bd_lease b)"
  shows "\<exists>x. fst (bind_loop ta m rt ot raw seen bound unbound s) = Inr x"
  using assms
proof (induction raw arbitrary: seen bound unbound s)
  case Nil
  then show ?case by simp
next
  case (Cons r rs)
  let ?a = "NormalizeAddress ta r"
  show ?case
  proof (cases "?a = [] \<or> ?a \<in> set seen")
    case True
    have "\<exists>x. fst (bind_loop ta m rt ot rs seen bound unbound s) = Inr x"
      by (rule Cons.IH [OF Cons.prems(1) _ Cons.prems(3,4)])
         (use Cons.prems(2) True in \<open>auto split: if_splits\<close>)
    then show ?thesis using True by (auto simp: Let_def)
  next
    case new: False
    have sub: "addrs_of ta rs \<union> set (?a # seen) \<subseteq> A" using Cons.prems(2) new by auto
    show ?thesis
    proof (cases "owner_at s ?a rt")
      case None
      have "\<exists>x. fst (bind_loop ta m rt ot rs (?a # seen) bound (unbound @ [?a]) s) = Inr x"
        by (rule Cons.IH [OF Cons.prems(1) sub Cons.prems(3)])
           (use Cons.prems(4) in auto)
      then show ?thesis using new None by (simp add: Let_def)
    next
      case (Some ow)
      obtain now s1 where now: "Now s = (now, s1)" by (cases "Now s")
      then have tab: "tables s1 = tables s" by (simp add: Now_frame(1))
      let ?b = "\<lparr>bd_message = m, bd_lease = ow_lease ow, bd_run = ow_run ow,
                 bd_identity = ow_identity ow, bd_addr = ?a, bd_bound_at = now,
                 bd_suspect = suspicion ow ot\<rparr>"
      let ?s2 = "set_bindings (bindings s1 @ [?b]) s1"
      have same: "owner_lease ?s2 rt = owner_lease s rt"
        using tab owner_at_cong [of ?s2 s] by (simp add: owner_lease_def fun_eq_iff)
      have own: "owner_lease s rt ?a = Some (ow_lease ow)" using Some by (simp add: owner_lease_def)
      have fresh: "bd_lease c \<noteq> ow_lease ow" if c: "c \<in> set (bindings s)" "bd_message c = m" for c
      proof
        assume eq: "bd_lease c = ow_lease ow"
        obtain a where a: "a \<in> set seen" "owner_lease s rt a = Some (bd_lease c)"
          using Cons.prems(4) [OF c] by blast
        have "?a = a"
        proof (rule Cons.prems(3) [OF _ _ own])
          show "?a \<in> A" "a \<in> A" using sub a(1) by auto
          show "owner_lease s rt a = Some (ow_lease ow)" using a(2) eq by simp
        qed
        with a(1) new show False by simp
      qed
      have ok: "\<not> binding_conflict s1 ?b"
        using fresh Cons.prems(1) tab by (auto simp: binding_conflict_def list_ex_iff)
      have "\<exists>x. fst (bind_loop ta m rt ot rs (?a # seen) (bound @ [?b]) unbound ?s2) = Inr x"
      proof (rule Cons.IH [OF _ sub])
        show "list_ex (\<lambda>r. msg_id r = m) (messages ?s2)" using Cons.prems(1) tab by simp
        show "a = b" if "a \<in> A" "b \<in> A" "owner_lease ?s2 rt a = Some x"
          "owner_lease ?s2 rt b = Some x" for a b x
          using Cons.prems(3) that unfolding same by blast
        show "\<exists>a\<in>set (?a # seen). owner_lease ?s2 rt a = Some (bd_lease c)"
          if "c \<in> set (bindings ?s2)" "bd_message c = m" for c
        proof (cases "c = ?b")
          case True
          then show ?thesis using own unfolding same by simp
        next
          case False
          then have "c \<in> set (bindings s)" using that tab by simp
          with Cons.prems(4) [OF _ that(2)] show ?thesis unfolding same by auto
        qed
      qed
      then show ?thesis using new Some now ok by (simp add: Let_def)
    qed
  qed
qed

lemma owner_lease_inj:
  assumes "lease_inv (leases s)" and "identity_inv (identities s)"
    and "owner_lease s t a = Some x" and "owner_lease s t b = Some x"
  shows "nocase_eq a b"
proof -
  obtain la where la: "la \<in> set (leases s)" "owns_addr_at (identities s) a t la" "ls_id la = x"
    using assms(3) by (auto simp: owner_lease_def owner_of_def elim!: owner_at_Some)
  obtain lb where lb: "lb \<in> set (leases s)" "owns_addr_at (identities s) b t lb" "ls_id lb = x"
    using assms(4) by (auto simp: owner_lease_def owner_of_def elim!: owner_at_Some)
  have "la = lb"
    using assms(1) la(1,3) lb(1,3) by (auto simp: lease_inv_def distinct_map inj_on_def)
  then obtain i j where "i \<in> set (identities s)" "j \<in> set (identities s)"
    "idn_id i = idn_id j" "nocase_eq (idn_addr i) a" "nocase_eq (idn_addr j) b"
    using la(2) lb(2) by (auto simp: owns_addr_at_def list_ex_iff)
  moreover from this have "i = j"
    using assms(2) by (auto simp: identity_inv_def distinct_map inj_on_def)
  ultimately show ?thesis by (simp add: nocase_eq_def)
qed

lemma BindRecipients_total:
  assumes "lease_inv (leases s)" and "identity_inv (identities s)"
    and "list_ex (\<lambda>r. msg_id r = m) (messages s)"
    and "\<And>b. b \<in> set (bindings s) \<Longrightarrow> bd_message b \<noteq> m"
    and "\<And>a b. a \<in> addrs_of ta raw \<Longrightarrow> b \<in> addrs_of ta raw \<Longrightarrow> nocase_eq a b \<Longrightarrow> a = b"
  shows "\<exists>x. fst (BindRecipients ta m raw rt ot s) = Inr x"
  unfolding BindRecipients_def
  by (rule bind_loop_total [where A = "addrs_of ta raw"])
     (use assms owner_lease_inj [OF assms(1,2)] in auto)


lemma BindRecipients_spec:
  assumes "BindRecipients ta m raw rt ot s = (Inr (bd, ub), s')"
  shows "tables s' = (tables s)\<lparr>db_bindings := bindings s @ bd\<rparr>"
    and "list_all (binds_to s m rt ot) bd" and "list_all (\<lambda>a. owner_at s a rt = None) ub"
    and "set (map bd_addr bd) \<union> set ub = addrs_of ta raw"
  using bind_loop_spec [OF assms [unfolded BindRecipients_def]] by auto

text \<open>
  A binding to a pooled address is clean only when everything about it is proved: the lease
  was not granted during a cooldown, the message says when it was generated, that is no earlier
  than the lease (to the second), and the lease had not been given back.
\<close>

lemma pooled_binding_clean_iff:
  assumes "ow_mode ow = ModePooled"
  shows "suspicion ow originAt = SuspectNone \<longleftrightarrow>
     \<not> ow_in_cooldown ow \<and> \<not> is_zero_time originAt \<and> ow_released_at ow = None \<and>
     ow_acquired_at ow - ow_acquired_at ow mod second \<le> originAt"
  using assms by (auto simp: suspicion_def truncate_to_def originGranularity_def second_def)

end
