(* ===== verification/Runs.thy ===== *)
theory Runs
  imports Leases
begin

text \<open>
  Runs: \<^verbatim>\<open>internal/store/runs.go\<close>. A run is one test execution; ending it moves it to
  one terminal state and releases every lease it holds in the same transaction.

  The random token and its SHA-256 digest are arguments (\<open>token\<close>, \<open>digest\<close>): the bytes
  come from the operating system and the hash from the standard library's \<^verbatim>\<open>crypto/sha256\<close>.
\<close>

section \<open>Creating and reading runs\<close>

definition run_conflict :: "run \<Rightarrow> run list \<Rightarrow> bool" where
  "run_conflict r rs \<longleftrightarrow>
     list_ex (\<lambda>q. run_id q = run_id r \<or> run_token_hash q = run_token_hash r) rs"

definition RunTokenPrefix :: string where "RunTokenPrefix = ''rt_''"

definition CreateRun ::
  "(string \<Rightarrow> string) \<Rightarrow> string \<Rightarrow> ident \<Rightarrow> duration \<Rightarrow> (run \<times> string) op" where
  "CreateRun digest random project ttl s =
     (if project = [] then (Inl ErrInvalidArgument, s)
      else if ttl \<le> 0 then (Inl ErrInvalidArgument, s)
      else let token = RunTokenPrefix @ random
           in case Now s of (now, s1) \<Rightarrow>
             (case NewID s1 of (i, s2) \<Rightarrow>
               let r = \<lparr>run_id = i, run_project = project, run_token_hash = digest token,
                        run_state = RunActive, run_fail_reason = [], run_checkpoint_at = now,
                        run_started_at = now, run_expires_at = now + ttl, run_ended_at = None\<rparr>
               in if run_conflict r (runs s2) then (Inl ErrConstraint, s2)
                  else (Inr (r, token), set_runs (runs s2 @ [r]) s2)))"

definition Run :: "store \<Rightarrow> ident \<Rightarrow> run option" where
  "Run s i = find_row (\<lambda>r. run_id r = i) (runs s)"

definition RunByToken :: "(string \<Rightarrow> string) \<Rightarrow> store \<Rightarrow> string \<Rightarrow> run option" where
  "RunByToken digest s token = find_row (\<lambda>r. run_token_hash r = digest token) (runs s)"

section \<open>Ending runs\<close>

definition active_row :: "ident \<Rightarrow> run \<Rightarrow> bool" where
  "active_row i r \<longleftrightarrow> run_id r = i \<and> run_state r = RunActive"

definition end_run :: "run_state \<Rightarrow> string \<Rightarrow> time \<Rightarrow> run \<Rightarrow> run" where
  "end_run st reason at r =
     r\<lparr>run_state := st, run_fail_reason := reason, run_ended_at := Some at\<rparr>"

text \<open>
  \<^verbatim>\<open>Tx.EndRun\<close>. A state outside the three terminal ones is refused; the model's type
  has one such value, \<open>RunActive\<close>.
\<close>

definition EndRun :: "ident \<Rightarrow> run_state \<Rightarrow> string \<Rightarrow> unit op" where
  "EndRun i st reason s =
     (if st = RunActive then (Inl ErrInvalidArgument, s)
      else case Now s of (now, s1) \<Rightarrow>
        (if affected (active_row i) (runs s1) = 0
         then (case find_row (\<lambda>r. run_id r = i) (runs s1) of
                 None \<Rightarrow> (Inl ErrNotFound, s1)
               | Some r \<Rightarrow> if run_state r = st then (Inr (), s1) else (Inl ErrRunNotActive, s1))
         else (Inr (), releaseRunLeases i now
                 (set_runs (update_where (active_row i) (end_run st reason now) (runs s1)) s1))))"

fun end_all :: "ident list \<Rightarrow> run_state \<Rightarrow> string \<Rightarrow> unit op" where
  "end_all [] st reason s = (Inr (), s)"
| "end_all (i # is) st reason s =
     (case EndRun i st reason s of
        (Inl e, s1) \<Rightarrow> (Inl e, s1)
      | (Inr _, s1) \<Rightarrow> end_all is st reason s1)"

definition run_due :: "time \<Rightarrow> run \<Rightarrow> bool" where
  "run_due t r \<longleftrightarrow> run_state r = RunActive \<and> run_expires_at r \<le> t"

definition ExpireRuns :: "nat op" where
  "ExpireRuns =
     tx (\<lambda>s. case Now s of (now, s1) \<Rightarrow>
        let ids = map run_id (rows_where (run_due now) (runs s1))
        in case end_all ids RunExpired ''run ttl elapsed'' s1 of
             (Inl e, s2) \<Rightarrow> (Inl e, s2)
           | (Inr _, s2) \<Rightarrow> (Inr (length ids), s2))"

section \<open>Lemmas\<close>

lemma releaseRunLeases_frame [simp]:
  "runs (releaseRunLeases r t s) = runs s"
  "identities (releaseRunLeases r t s) = identities s"
  "messages (releaseRunLeases r t s) = messages s"
  "bindings (releaseRunLeases r t s) = bindings s"
  "claims (releaseRunLeases r t s) = claims s"
  "last_now (releaseRunLeases r t s) = last_now s"
  by (simp_all add: releaseRunLeases_def)

text \<open>
  The run invariant: keys are unique, and a run is active exactly when it has not ended.
\<close>

definition run_inv :: "run list \<Rightarrow> bool" where
  "run_inv rs \<longleftrightarrow>
     distinct (map run_id rs) \<and> distinct (map run_token_hash rs) \<and>
     list_all (\<lambda>r. (run_state r = RunActive \<longleftrightarrow> run_ended_at r = None) \<and>
                   run_started_at r < run_expires_at r \<and>
                   run_checkpoint_at r = run_started_at r) rs"

lemma run_inv_insert:
  "run_inv rs \<Longrightarrow> \<not> run_conflict r rs \<Longrightarrow> run_state r = RunActive \<Longrightarrow> run_ended_at r = None \<Longrightarrow>
     run_started_at r < run_expires_at r \<Longrightarrow> run_checkpoint_at r = run_started_at r \<Longrightarrow>
     run_inv (rs @ [r])"
  by (force simp: run_inv_def run_conflict_def list_ex_iff)

lemma run_inv_end:
  "run_inv rs \<Longrightarrow> st \<noteq> RunActive \<Longrightarrow> run_inv (update_where P (end_run st reason t) rs)"
  by (auto simp: run_inv_def map_update_where end_run_def list_all_iff set_update_where)

lemma CreateRun_inv [inv_intros]:
  assumes "CreateRun digest rnd p ttl s = (res, s')" and "run_inv (runs s)"
  shows "run_inv (runs s')"
proof -
  obtain now s1 i s2 where ns: "Now s = (now, s1)" "NewID s1 = (i, s2)" by (metis surj_pair)
  then have "runs s2 = runs s" by (simp add: Now_frame(1) NewID_frame(1))
  with assms ns show ?thesis
    by (auto simp: CreateRun_def Let_def intro!: run_inv_insert split: if_splits)
qed

lemma EndRun_inv [inv_intros]:
  assumes "EndRun i st reason s = (res, s')"
  shows "run_inv (runs s) \<Longrightarrow> run_inv (runs s')"
    and "lease_inv (leases s) \<Longrightarrow> lease_inv (leases s')"
proof -
  obtain now s1 where now: "Now s = (now, s1)" by (cases "Now s")
  then have "tables s1 = tables s" by (simp add: Now_frame(1))
  note ctx = assms now this
  show "run_inv (runs s) \<Longrightarrow> run_inv (runs s')"
    using ctx by (auto simp: EndRun_def intro: run_inv_end split: if_splits option.splits)
  show "lease_inv (leases s) \<Longrightarrow> lease_inv (leases s')"
    using ctx by (auto simp: EndRun_def intro!: releaseRunLeases_inv split: if_splits option.splits)
qed

lemma EndRun_frame:
  assumes "EndRun i st reason s = (res, s')"
  shows "identities s' = identities s" "messages s' = messages s" "bindings s' = bindings s"
    "claims s' = claims s"
proof -
  obtain now s1 where now: "Now s = (now, s1)" by (cases "Now s")
  then have "tables s1 = tables s" by (simp add: Now_frame(1))
  with assms now show "identities s' = identities s" "messages s' = messages s"
    "bindings s' = bindings s" "claims s' = claims s"
    by (auto simp: EndRun_def split: if_splits option.splits)
qed

lemma end_all_inv:
  "end_all is st reason s = (res, s') \<Longrightarrow> run_inv (runs s) \<and> lease_inv (leases s) \<Longrightarrow>
     run_inv (runs s') \<and> lease_inv (leases s')"
proof (induction "is" arbitrary: s)
  case (Cons i "is")
  obtain r s1 where e: "EndRun i st reason s = (r, s1)" by (cases "EndRun i st reason s")
  have "run_inv (runs s1) \<and> lease_inv (leases s1)" using EndRun_inv [OF e] Cons.prems by blast
  with Cons e show ?case by (auto split: sum.splits)
qed simp

lemma end_all_frame:
  "end_all is st reason s = (res, s') \<Longrightarrow>
     identities s' = identities s \<and> messages s' = messages s \<and> bindings s' = bindings s \<and>
     claims s' = claims s"
proof (induction "is" arbitrary: s)
  case (Cons i "is")
  obtain r s1 where e: "EndRun i st reason s = (r, s1)" by (cases "EndRun i st reason s")
  show ?case
  proof (cases r)
    case (Inl err)
    with Cons.prems e have "s' = s1" by simp
    then show ?thesis using EndRun_frame [OF e] by simp
  next
    case (Inr u)
    with Cons.prems e have "end_all is st reason s1 = (res, s')" by simp
    from Cons.IH [OF this] EndRun_frame [OF e] show ?thesis by simp
  qed
qed simp

text \<open>
  Ending a run leaves nothing held behind: whatever the run still holds is released in the
  same step.
\<close>

lemma releaseRunLeases_none_held:
  "l \<in> set (leases (releaseRunLeases i t s)) \<Longrightarrow> ls_run l = i \<Longrightarrow> ls_state l \<noteq> LeaseHeld"
  using update_where_clears [of "\<lambda>l. ls_run l = i \<and> ls_state l = LeaseHeld"
      "end_lease LeaseReleased t" l "leases s"]
  by (auto simp: releaseRunLeases_def)

lemma EndRun_ended:
  assumes run: "EndRun i st reason s = (Inr (), s')" and inv: "run_inv (runs s)"
    and active: "r \<in> set (runs s)" "run_id r = i" "run_state r = RunActive"
  shows "\<exists>r'. Run s' i = Some r' \<and> run_state r' = st"
    and "l \<in> set (leases s') \<Longrightarrow> ls_run l = i \<Longrightarrow> ls_state l \<noteq> LeaseHeld"
proof -
  obtain now s1 where now: "Now s = (now, s1)" by (cases "Now s")
  then have tab: "tables s1 = tables s" by (simp add: Now_frame(1))
  have "affected (active_row i) (runs s) \<noteq> 0"
    using active by (auto simp: affected_0 active_row_def)
  with run now tab have s': "s' = releaseRunLeases i now
      (set_runs (update_where (active_row i) (end_run st reason now) (runs s)) s1)"
    by (auto simp: EndRun_def split: if_splits)
  let ?rs = "update_where (active_row i) (end_run st reason now) (runs s)"
  have "distinct (map run_id ?rs)"
    using inv by (simp add: map_update_where end_run_def run_inv_def)
  moreover have "end_run st reason now r \<in> set ?rs" "run_id (end_run st reason now r) = i"
    using active by (force simp: set_update_where active_row_def, simp add: end_run_def)
  ultimately have "find_row (\<lambda>q. run_id q = i) ?rs = Some (end_run st reason now r)"
    using find_row_unique [of run_id ?rs] by metis
  then show "\<exists>r'. Run s' i = Some r' \<and> run_state r' = st"
    by (simp add: s' Run_def end_run_def)
  show "l \<in> set (leases s') \<Longrightarrow> ls_run l = i \<Longrightarrow> ls_state l \<noteq> LeaseHeld"
    unfolding s' by (rule releaseRunLeases_none_held)
qed

lemma ExpireRuns_inv [inv_intros]:
  assumes "ExpireRuns s = (res, s')" and "run_inv (runs s)" and "lease_inv (leases s)"
  shows "run_inv (runs s') \<and> lease_inv (leases s')"
proof -
  obtain now s1 where now: "Now s = (now, s1)" by (cases "Now s")
  then have tab: "tables s1 = tables s" by (simp add: Now_frame(1))
  obtain r s2 where e: "end_all (map run_id (rows_where (run_due now) (runs s1))) RunExpired
      ''run ttl elapsed'' s1 = (r, s2)" by (metis surj_pair)
  have "run_inv (runs s2) \<and> lease_inv (leases s2)"
    using end_all_inv [OF e] assms(2,3) tab by simp
  with assms now tab e show ?thesis
    by (auto simp: ExpireRuns_def tx_def Let_def split: sum.splits)
qed

end
