(* ===== verification/Claims.thy ===== *)
theory Claims
  imports Bindings Runs
begin

text \<open>
  Claims: \<^verbatim>\<open>internal/store/claims.go\<close>. The candidates of a claim are the messages bound
  to a lease, oldest first, each refused for at most one reason; a claim is recorded once per
  key of a lease and once per message and kind.
\<close>

section \<open>Candidates\<close>

record candidate =
  cd_message :: ident
  cd_received_at :: time
  cd_extracted :: string

record candidate_filter =
  cf_lease :: ident
  cf_kind :: claim_kind
  cf_not_before :: time
  cf_limit :: nat

record rejections =
  rj_suspect :: nat
  rj_already_claimed :: nat
  rj_stale :: nat
  rj_extraction_fail :: nat
  rj_pending :: nat
  rj_bindings :: nat

definition no_rejections :: rejections where
  "no_rejections = \<lparr>rj_suspect = 0, rj_already_claimed = 0, rj_stale = 0,
     rj_extraction_fail = 0, rj_pending = 0, rj_bindings = 0\<rparr>"

text \<open>
  The query: the bindings of the lease joined with their messages, in the order of receive
  time and identifier.
\<close>

definition candidate_rows :: "store \<Rightarrow> candidate_filter \<Rightarrow> (message \<times> binding) list" where
  "candidate_rows s f =
     (let rows = sort_key (\<lambda>(m, b). (msg_received_at m, msg_id m))
        (concat (map (\<lambda>b. map (\<lambda>m. (m, b)) (rows_where (\<lambda>m. msg_id m = bd_message b) (messages s)))
          (rows_where (\<lambda>b. bd_lease b = cf_lease f) (bindings s))))
      in if 0 < cf_limit f then take (cf_limit f) rows else rows)"

definition is_claimed :: "store \<Rightarrow> ident \<Rightarrow> claim_kind \<Rightarrow> bool" where
  "is_claimed s m k \<longleftrightarrow> list_ex (\<lambda>c. cl_message c = Some m \<and> cl_kind c = k) (claims s)"

fun scan_candidates ::
  "store \<Rightarrow> candidate_filter \<Rightarrow> (message \<times> binding) list \<Rightarrow> candidate list \<Rightarrow> rejections \<Rightarrow>
     candidate list \<times> rejections" where
  "scan_candidates s f [] out rj = (out, rj)"
| "scan_candidates s f ((m, b) # rows) out rj0 =
     (let rj = rj0\<lparr>rj_bindings := rj_bindings rj0 + 1\<rparr>
      in if msg_quarantined m then scan_candidates s f rows out rj
         else if bd_suspect b \<noteq> SuspectNone then
           scan_candidates s f rows out (rj\<lparr>rj_suspect := rj_suspect rj + 1\<rparr>)
         else if is_claimed s (msg_id m) (cf_kind f) then
           scan_candidates s f rows out (rj\<lparr>rj_already_claimed := rj_already_claimed rj + 1\<rparr>)
         else if \<not> is_zero_time (cf_not_before f) \<and> msg_received_at m < cf_not_before f then
           scan_candidates s f rows out (rj\<lparr>rj_stale := rj_stale rj + 1\<rparr>)
         else if msg_extraction_state m = ExtractionFailed then
           scan_candidates s f rows out (rj\<lparr>rj_extraction_fail := rj_extraction_fail rj + 1\<rparr>)
         else if msg_extraction_state m \<noteq> ExtractionSuccess then
           scan_candidates s f rows out (rj\<lparr>rj_pending := rj_pending rj + 1\<rparr>)
         else case (case msg_extracted m of None \<Rightarrow> None | Some x \<Rightarrow> unseal s x) of
           None \<Rightarrow> scan_candidates s f rows out
             (rj\<lparr>rj_extraction_fail := rj_extraction_fail rj + 1\<rparr>)
         | Some extracted \<Rightarrow>
             scan_candidates s f rows
               (out @ [\<lparr>cd_message = msg_id m, cd_received_at = msg_received_at m,
                        cd_extracted = extracted\<rparr>]) rj)"

definition ClaimCandidates ::
  "store \<Rightarrow> candidate_filter \<Rightarrow> err + (candidate list \<times> rejections)" where
  "ClaimCandidates s f =
     (if cf_lease f = [] then Inl ErrInvalidArgument
      else Inr (scan_candidates s f (candidate_rows s f) [] no_rejections))"

section \<open>Recording a claim\<close>

record new_claim =
  nc_lease :: ident
  nc_run :: ident
  nc_kind :: claim_kind
  nc_message :: ident
  nc_key :: string
  nc_ttl :: duration
  nc_not_after :: time

definition null_string :: "string \<Rightarrow> string option" where
  "null_string s = (if s = [] then None else Some s)"

text \<open>
  The unique indexes \<^verbatim>\<open>claims_idem\<close> and \<^verbatim>\<open>claims_one_per_message_kind\<close> and the
  primary key; and the references to lease, run and message.
\<close>

definition claims_clash :: "claim \<Rightarrow> claim \<Rightarrow> bool" where
  "claims_clash c d \<longleftrightarrow>
     cl_id c = cl_id d \<or>
     (cl_lease c = cl_lease d \<and> cl_key c = cl_key d) \<or>
     (cl_message c \<noteq> None \<and> cl_message c = cl_message d \<and> cl_kind c = cl_kind d)"

definition claim_dangling :: "store \<Rightarrow> claim \<Rightarrow> bool" where
  "claim_dangling s c \<longleftrightarrow>
     \<not> list_ex (\<lambda>l. ls_id l = cl_lease c) (leases s) \<or>
     \<not> list_ex (\<lambda>r. run_id r = cl_run c) (runs s) \<or>
     (case cl_message c of None \<Rightarrow> False
      | Some m \<Rightarrow> \<not> list_ex (\<lambda>r. msg_id r = m) (messages s))"

definition RecordClaim :: "new_claim \<Rightarrow> claim op" where
  "RecordClaim nc s =
     (if nc_lease nc = [] \<or> nc_run nc = [] \<or> nc_key nc = [] then (Inl ErrInvalidArgument, s)
      else if nc_ttl nc \<le> 0 then (Inl ErrInvalidArgument, s)
      else case Now s of (now, s1) \<Rightarrow>
        let expires0 = now + nc_ttl nc;
            expires = (if \<not> is_zero_time (nc_not_after nc) \<and> nc_not_after nc < expires0
                       then nc_not_after nc else expires0)
        in if \<not> now < expires then (Inl ErrClaimWindowClosed, s1)
           else case NewID s1 of (i, s2) \<Rightarrow>
             let c = \<lparr>cl_id = i, cl_lease = nc_lease nc, cl_run = nc_run nc, cl_kind = nc_kind nc,
                      cl_message = null_string (nc_message nc), cl_key = nc_key nc,
                      cl_claimed_at = now, cl_expires_at = expires\<rparr>
             in if list_ex (claims_clash c) (claims s2) then (Inl ErrClaimTaken, s2)
                else if claim_dangling s2 c then (Inl ErrConstraint, s2)
                else (Inr c, set_claims (claims s2 @ [c]) s2))"

definition ClaimByKey :: "store \<Rightarrow> ident \<Rightarrow> string \<Rightarrow> claim option" where
  "ClaimByKey s l k = find_row (\<lambda>c. cl_lease c = l \<and> cl_key c = k) (claims s)"

definition ListRunClaims :: "store \<Rightarrow> ident \<Rightarrow> claim list" where
  "ListRunClaims s r =
     sort_key (\<lambda>c. (cl_claimed_at c, cl_id c)) (rows_where (\<lambda>c. cl_run c = r) (claims s))"

section \<open>The claim invariant\<close>

definition claim_inv :: "claim list \<Rightarrow> bool" where
  "claim_inv cs \<longleftrightarrow>
     sorted_wrt (\<lambda>c d. \<not> claims_clash c d) cs \<and>
     list_all (\<lambda>c. cl_claimed_at c < cl_expires_at c) cs"

lemma claims_clash_sym: "claims_clash c d \<longleftrightarrow> claims_clash d c"
  by (auto simp: claims_clash_def)

lemma claim_inv_insert:
  "claim_inv cs \<Longrightarrow> \<not> list_ex (claims_clash c) cs \<Longrightarrow> cl_claimed_at c < cl_expires_at c \<Longrightarrow>
     claim_inv (cs @ [c])"
  by (auto simp: claim_inv_def sorted_wrt_append list_ex_iff claims_clash_sym [of _ c])

lemma claim_inv_filter: "claim_inv cs \<Longrightarrow> claim_inv (filter P cs)"
  by (auto simp: claim_inv_def list_all_iff intro: sorted_wrt_filterI)

lemma claims_unique:
  assumes "claim_inv cs" and "c \<in> set cs" and "d \<in> set cs" and "claims_clash c d"
  shows "c = d"
  using assms sorted_wrt_pair [of "\<lambda>c d. \<not> claims_clash c d" cs c d]
  by (auto simp: claim_inv_def claims_clash_sym)

lemma RecordClaim_cases:
  assumes "RecordClaim nc s = (res, s')"
  obtains (refused) e where "res = Inl e" and "tables s' = tables s"
  | (recorded) now i c where
      "c = \<lparr>cl_id = i, cl_lease = nc_lease nc, cl_run = nc_run nc, cl_kind = nc_kind nc,
                      cl_message = null_string (nc_message nc), cl_key = nc_key nc,
                      cl_claimed_at = now, cl_expires_at =
                        (if \<not> is_zero_time (nc_not_after nc) \<and> nc_not_after nc < now + nc_ttl nc
                         then nc_not_after nc else now + nc_ttl nc)\<rparr>"
      and "now < cl_expires_at c" and "last_now s < now" and "0 < nc_ttl nc"
      and "\<not> list_ex (claims_clash c) (claims s)" and "\<not> claim_dangling s c"
      and "res = Inr c" and "tables s' = (tables s)\<lparr>db_claims := claims s @ [c]\<rparr>"
      and "unseal s' = unseal s"
proof -
  obtain now s1 where now: "Now s = (now, s1)" by (cases "Now s")
  obtain i s2 where i: "NewID s1 = (i, s2)" by (cases "NewID s1")
  have tab: "tables s1 = tables s" "tables s2 = tables s" "last_now s < now"
    "unseal s2 = unseal s"
    using now i Now_strict [OF now] by (auto dest: Now_frame NewID_frame simp: NewID_def)
  let ?exp = "if \<not> is_zero_time (nc_not_after nc) \<and> nc_not_after nc < now + nc_ttl nc
      then nc_not_after nc else now + nc_ttl nc"
  let ?c = "\<lparr>cl_id = i, cl_lease = nc_lease nc, cl_run = nc_run nc, cl_kind = nc_kind nc,
                      cl_message = null_string (nc_message nc), cl_key = nc_key nc,
                      cl_claimed_at = now, cl_expires_at = ?exp\<rparr>"
  have dang: "claim_dangling s2 ?c = claim_dangling s ?c"
    using tab by (simp add: claim_dangling_def split: option.split)
  show ?thesis
  proof (cases "nc_lease nc = [] \<or> nc_run nc = [] \<or> nc_key nc = [] \<or> nc_ttl nc \<le> 0 \<or>
      \<not> now < ?exp \<or> list_ex (claims_clash ?c) (claims s) \<or> claim_dangling s ?c")
    case True
    then have "(\<exists>e. res = Inl e) \<and> tables s' = tables s"
      using assms now i tab dang unfolding RecordClaim_def Let_def by (auto split: if_split_asm)
    then show ?thesis using refused by blast
  next
    case False
    then have "res = Inr ?c \<and> s' = set_claims (claims s @ [?c]) s2"
      using assms now i tab dang unfolding RecordClaim_def Let_def by (auto split: if_split_asm)
    then show ?thesis
      using recorded [OF refl] False tab by (auto simp: set_claims_def)
  qed
qed

lemma RecordClaim_inv [inv_intros]:
  assumes "RecordClaim nc s = (res, s')" and "claim_inv (claims s)"
  shows "claim_inv (claims s')"
  using assms(1)
proof (cases rule: RecordClaim_cases)
  case (recorded now i c)
  then have "cl_claimed_at c < cl_expires_at c" by simp
  with recorded(5,8) claim_inv_insert [OF assms(2)] show ?thesis by simp
qed (use assms(2) in simp)

section \<open>What a candidate is\<close>

text \<open>A row passes when none of the refusals of the switch applies.\<close>

definition passes :: "store \<Rightarrow> candidate_filter \<Rightarrow> message \<times> binding \<Rightarrow> bool" where
  "passes s f = (\<lambda>(m, b).
     \<not> msg_quarantined m \<and> bd_suspect b = SuspectNone \<and>
     \<not> is_claimed s (msg_id m) (cf_kind f) \<and>
     (is_zero_time (cf_not_before f) \<or> cf_not_before f \<le> msg_received_at m) \<and>
     msg_extraction_state m = ExtractionSuccess \<and>
     (case msg_extracted m of None \<Rightarrow> False | Some x \<Rightarrow> unseal s x \<noteq> None))"

definition as_candidate :: "store \<Rightarrow> message \<times> binding \<Rightarrow> candidate" where
  "as_candidate s = (\<lambda>(m, b).
     \<lparr>cd_message = msg_id m, cd_received_at = msg_received_at m,
      cd_extracted = the (case msg_extracted m of None \<Rightarrow> None | Some x \<Rightarrow> unseal s x)\<rparr>)"

lemma scan_candidates_fst:
  "fst (scan_candidates s f rows out rj) = out @ map (as_candidate s) (filter (passes s f) rows)"
proof (induction s f rows out rj rule: scan_candidates.induct)
  case (2 s f m b rows out rj0)
  then show ?case
    by (cases "msg_extracted m")
       (auto simp: Let_def passes_def as_candidate_def not_less split: option.splits)
qed simp

text \<open>Every row is accounted for: it is a candidate, quarantined, or counted once.\<close>

definition rj_total :: "rejections \<Rightarrow> nat" where
  "rj_total rj = rj_suspect rj + rj_already_claimed rj + rj_stale rj + rj_extraction_fail rj +
     rj_pending rj"

lemma scan_candidates_count:
  "rj_total (snd (scan_candidates s f rows out rj)) + length (filter (passes s f) rows) +
     length (filter (\<lambda>(m, b). msg_quarantined m) rows) = rj_total rj + length rows \<and>
   rj_bindings (snd (scan_candidates s f rows out rj)) = rj_bindings rj + length rows"
proof (induction s f rows out rj rule: scan_candidates.induct)
  case (2 s f m b rows out rj0)
  then show ?case
    by (cases "msg_extracted m")
       (auto simp: Let_def passes_def rj_total_def not_less split: option.splits)
qed simp

lemma candidate_rows_in:
  "(m, b) \<in> set (candidate_rows s f) \<Longrightarrow>
     m \<in> set (messages s) \<and> b \<in> set (bindings s) \<and> bd_lease b = cf_lease f \<and>
     msg_id m = bd_message b"
  by (auto simp: candidate_rows_def Let_def split: if_splits dest: in_set_takeD)

lemma candidate_rows_all:
  "cf_limit f = 0 \<Longrightarrow> set (candidate_rows s f) =
     {(m, b). m \<in> set (messages s) \<and> b \<in> set (bindings s) \<and> bd_lease b = cf_lease f \<and>
        msg_id m = bd_message b}"
  by (auto simp: candidate_rows_def Let_def)

lemma candidate_rows_sorted:
  "sorted (map (\<lambda>(m, b). (msg_received_at m, msg_id m)) (candidate_rows s f))"
  by (simp add: candidate_rows_def Let_def sorted_sort_key take_map [symmetric] sorted_wrt_take)

lemma ClaimCandidates_in:
  assumes "ClaimCandidates s f = Inr (cands, rj)" and "c \<in> set cands"
  obtains m b where "m \<in> set (messages s)" and "b \<in> set (bindings s)"
    and "bd_lease b = cf_lease f" and "bd_message b = msg_id m"
    and "passes s f (m, b)" and "c = as_candidate s (m, b)"
proof -
  have cands: "cands = map (as_candidate s) (filter (passes s f) (candidate_rows s f))"
    using assms(1) scan_candidates_fst [of s f "candidate_rows s f" "[]" no_rejections]
    by (auto simp: ClaimCandidates_def split: if_splits)
  with assms(2) obtain m b where "(m, b) \<in> set (candidate_rows s f)" "passes s f (m, b)"
    "c = as_candidate s (m, b)" by auto
  with candidate_rows_in show ?thesis using that by metis
qed

end
