(* ===== verification/Service.thy ===== *)
theory Service
  imports LedgerEvents Claims
begin

text \<open>
  The lease service: \<^verbatim>\<open>internal/personas/lease.go\<close>. A configuration becomes a service or
  an error; acquiring reserves in one transaction, seeds outside every transaction and settles
  in another; releasing, ending and sweeping give identities back.

  The seeder is an interface the service is built with, so it is a field of the service; what
  the rest of the process does to the store while the seeder runs is the argument
  \<open>meanwhile\<close>.
\<close>

section \<open>Configuration\<close>

record seed_request =
  sq_run :: ident
  sq_lease :: ident
  sq_identity :: ident
  sq_addr :: string
  sq_role :: string
  sq_mode :: mode
  sq_key :: string

record seed_result =
  sr_status :: seed_state
  sr_fingerprint :: string

type_synonym seeder = "seed_request \<Rightarrow> seed_result option"

definition DefaultRunTTL :: duration where "DefaultRunTTL = 1800 * second"
definition DefaultLeaseTTL :: duration where "DefaultLeaseTTL = 1800 * second"
definition DefaultPoolCooldown :: duration where "DefaultPoolCooldown = 60 * second"
definition DefaultClaimTTL :: duration where "DefaultClaimTTL = 120 * second"
definition MinDeliveryLatency :: duration where "MinDeliveryLatency = second"

record config =
  cfg_store :: bool
  cfg_project :: ident
  cfg_allowlist :: "string list"
  cfg_seeder :: "seeder option"
  cfg_run_ttl :: duration
  cfg_lease_ttl :: duration
  cfg_pooled :: "duration option"
  cfg_cooldown :: duration
  cfg_claim_ttl :: duration
  cfg_bus :: bool

record service =
  sv_project :: ident
  sv_domain :: string
  sv_seeder :: "seeder option"
  sv_bus :: bool
  sv_pooled :: "duration option"
  sv_run_ttl :: duration
  sv_lease_ttl :: duration
  sv_cooldown :: duration
  sv_claim_ttl :: duration
  sv_to_ascii :: "string \<Rightarrow> string option"

definition resolveCooldown :: "duration option \<Rightarrow> duration \<Rightarrow> err + duration" where
  "resolveCooldown pooled cooldown =
     (if cooldown < 0 then Inl ErrInvalidArgument
      else case pooled of
        None \<Rightarrow> Inr (if cooldown = 0 then DefaultPoolCooldown else cooldown)
      | Some latency \<Rightarrow>
          if latency < MinDeliveryLatency then Inl ErrInvalidArgument
          else if cooldown = 0 then Inr (max DefaultPoolCooldown latency)
          else if cooldown < latency then Inl ErrInvalidArgument
          else Inr cooldown)"

definition default_ttl :: "duration \<Rightarrow> duration \<Rightarrow> duration" where
  "default_ttl d t = (if t \<le> 0 then d else t)"

definition New :: "(string \<Rightarrow> string option) \<Rightarrow> config \<Rightarrow> err + service" where
  "New to_ascii cfg =
     (if \<not> cfg_store cfg \<or> cfg_project cfg = [] then Inl ErrInvalidArgument
      else case cfg_allowlist cfg of
        [] \<Rightarrow> Inl ErrInvalidArgument
      | first # _ \<Rightarrow>
          (case CanonicalDomain to_ascii (PatternBaseDomain first) of
             None \<Rightarrow> Inl ErrInvalidArgument
           | Some domain \<Rightarrow>
               (let run_ttl = default_ttl DefaultRunTTL (cfg_run_ttl cfg);
                    lease_ttl = default_ttl DefaultLeaseTTL (cfg_lease_ttl cfg);
                    claim_ttl = default_ttl DefaultClaimTTL (cfg_claim_ttl cfg)
                in if lease_ttl \<le> claim_ttl then Inl ErrInvalidArgument
                   else case resolveCooldown (cfg_pooled cfg) (cfg_cooldown cfg) of
                     Inl e \<Rightarrow> Inl e
                   | Inr cooldown \<Rightarrow>
                       Inr \<lparr>sv_project = cfg_project cfg, sv_domain = domain,
                            sv_seeder = cfg_seeder cfg, sv_bus = cfg_bus cfg,
                            sv_pooled = cfg_pooled cfg, sv_run_ttl = run_ttl,
                            sv_lease_ttl = lease_ttl, sv_cooldown = cooldown,
                            sv_claim_ttl = claim_ttl, sv_to_ascii = to_ascii\<rparr>)))"

record capabilities =
  cap_long_poll :: bool
  cap_pooled :: bool
  cap_seeder :: bool

definition Capabilities :: "service \<Rightarrow> capabilities" where
  "Capabilities sv =
     \<lparr>cap_long_poll = sv_bus sv, cap_pooled = (sv_pooled sv \<noteq> None),
      cap_seeder = (sv_seeder sv \<noteq> None)\<rparr>"

section \<open>Reserving\<close>

definition service_meta :: "service \<Rightarrow> ident \<Rightarrow> identity \<Rightarrow> meta" where
  "service_meta sv run i =
     \<lparr>meta_project = sv_project sv, meta_run = run, meta_persona = idn_persona i\<rparr>"

definition auditAcquire :: "service \<Rightarrow> ident \<Rightarrow> lease \<Rightarrow> identity \<Rightarrow> nat op" where
  "auditAcquire sv run l i =
     Write (service_meta sv run i)
       (LeaseAcquiredEv (ls_id l) (idn_id i) (ls_role l) (idn_mode i) (idn_addr i))"

definition auditRefusal :: "service \<Rightarrow> ident \<Rightarrow> string \<Rightarrow> mode \<Rightarrow> string \<Rightarrow> nat op" where
  "auditRefusal sv run role md reason =
     Write \<lparr>meta_project = sv_project sv, meta_run = run, meta_persona = []\<rparr>
       (LeaseRefusedEv role md reason)"

definition lease_in_tx :: "service \<Rightarrow> ident \<Rightarrow> string \<Rightarrow> identity \<Rightarrow> (lease \<times> identity) op" where
  "lease_in_tx sv run role i s =
     (case AcquireLease \<lparr>nl_run = run, nl_identity = idn_id i, nl_role = role,
                         nl_ttl = sv_lease_ttl sv\<rparr> s of
        (Inl e, s1) \<Rightarrow> (Inl e, s1)
      | (Inr l, s1) \<Rightarrow>
          (case auditAcquire sv run l i s1 of
             (Inl e, s2) \<Rightarrow> (Inl e, s2)
           | (Inr _, s2) \<Rightarrow> (Inr (l, i), s2)))"

definition reserveEphemeral ::
  "service \<Rightarrow> char list \<Rightarrow> ident \<Rightarrow> string \<Rightarrow> (lease \<times> identity) op" where
  "reserveEphemeral sv suffix run role s =
     (case mintAddress (sv_to_ascii sv) (sv_domain sv) suffix role of
        None \<Rightarrow> (Inl ErrOther, s)
      | Some addr \<Rightarrow>
          tx (\<lambda>s0. case CreateIdentity (sv_to_ascii sv)
                     \<lparr>ni_project = sv_project sv, ni_persona = [], ni_addr = addr,
                      ni_role = role, ni_mode = ModeEphemeral\<rparr> s0 of
                (Inl e, s1) \<Rightarrow> (Inl e, s1)
              | (Inr i, s1) \<Rightarrow> lease_in_tx sv run role i s1) s)"

definition cooling_down :: "time \<Rightarrow> identity \<Rightarrow> bool" where
  "cooling_down now i \<longleftrightarrow>
     (case idn_cooldown_until i of
        None \<Rightarrow> False
      | Some until \<Rightarrow> \<not> is_zero_time until \<and> now < until)"

fun pooled_loop ::
  "service \<Rightarrow> ident \<Rightarrow> string \<Rightarrow> time \<Rightarrow> identity list \<Rightarrow> (lease \<times> identity) op" where
  "pooled_loop sv run role now [] s = (Inl ErrNoIdentityAvailable, s)"
| "pooled_loop sv run role now (c # cs) s =
     (if cooling_down now c then pooled_loop sv run role now cs s
      else case tx (lease_in_tx sv run role c) s of
        (Inr x, s1) \<Rightarrow> (Inr x, s1)
      | (Inl e, s1) \<Rightarrow>
          if e = ErrIdentityHeld then pooled_loop sv run role now cs s1 else (Inl e, s1))"

definition reservePooled :: "service \<Rightarrow> ident \<Rightarrow> string \<Rightarrow> (lease \<times> identity) op" where
  "reservePooled sv run role s =
     (case sv_pooled sv of
        None \<Rightarrow>
          (case auditRefusal sv run role ModePooled ''pooled_policy_missing'' s of
             (Inl e, s1) \<Rightarrow> (Inl e, s1)
           | (Inr _, s1) \<Rightarrow> (Inl ErrPooledPolicyMissing, s1))
      | Some _ \<Rightarrow>
          (case time_Now s of (now, s1) \<Rightarrow>
             pooled_loop sv run role now (ListPooledIdentities s (sv_project sv) role) s1))"

definition reserve ::
  "service \<Rightarrow> char list \<Rightarrow> ident \<Rightarrow> string \<Rightarrow> mode \<Rightarrow> (lease \<times> identity) op" where
  "reserve sv suffix run role md s =
     (case md of
        ModeEphemeral \<Rightarrow> reserveEphemeral sv suffix run role s
      | ModePooled \<Rightarrow> reservePooled sv run role s
      | ModeOther _ \<Rightarrow> (Inl ErrInvalidArgument, s))"

section \<open>Seeding and settling\<close>

text \<open>The status and whether the seeder failed.\<close>

definition seed_call :: "service \<Rightarrow> ident \<Rightarrow> lease \<Rightarrow> identity \<Rightarrow> seed_result \<times> bool" where
  "seed_call sv run l i =
     (case sv_seeder sv of
        None \<Rightarrow> (\<lparr>sr_status = SeedSkipped, sr_fingerprint = []\<rparr>, False)
      | Some f \<Rightarrow>
          (case f \<lparr>sq_run = run, sq_lease = ls_id l, sq_identity = idn_id i,
                   sq_addr = idn_addr i, sq_role = ls_role l, sq_mode = idn_mode i,
                   sq_key = ls_id l\<rparr> of
             None \<Rightarrow> (\<lparr>sr_status = SeedFailed, sr_fingerprint = []\<rparr>, True)
           | Some r \<Rightarrow>
               if sr_status r = SeedSeeded \<or> sr_status r = SeedSkipped then (r, False)
               else (\<lparr>sr_status = SeedFailed, sr_fingerprint = []\<rparr>, True)))"

definition settle_tx ::
  "service \<Rightarrow> ident \<Rightarrow> lease \<Rightarrow> identity \<Rightarrow> seed_result \<Rightarrow> bool \<Rightarrow> unit op" where
  "settle_tx sv run l i r failed s =
     (let st = (if failed then SeedFailed else sr_status r)
      in case SettleSeed (ls_id l) st (sr_fingerprint r) s of
           (Inl e, s1) \<Rightarrow> if e = ErrLeaseNotHeld then (Inr (), s1) else (Inl e, s1)
         | (Inr _, s1) \<Rightarrow>
             (let s2 = (if st = SeedFailed \<and> idn_mode i = ModePooled
                        then (case time_Now s1 of (w, s') \<Rightarrow>
                                SetCooldown (idn_id i) (w + sv_cooldown sv) s')
                        else s1)
              in case Write (service_meta sv run i)
                     (SeedSettled (ls_id l) (idn_id i) st (idn_addr i) (sr_fingerprint r)) s2 of
                   (Inl e, s3) \<Rightarrow> (Inl e, s3)
                 | (Inr _, s3) \<Rightarrow> (Inr (), s3)))"

definition settle :: "service \<Rightarrow> ident \<Rightarrow> lease \<Rightarrow> identity \<Rightarrow> seed_result \<Rightarrow> bool \<Rightarrow> unit op" where
  "settle sv run l i r failed = tx (settle_tx sv run l i r failed)"

section \<open>Acquire\<close>

record grant =
  gr_lease :: ident
  gr_identity :: ident
  gr_addr :: string
  gr_role :: string
  gr_mode :: mode
  gr_seed_state :: seed_state
  gr_expires_at :: time

definition Acquire ::
  "service \<Rightarrow> char list \<Rightarrow> (store \<Rightarrow> store) \<Rightarrow> ident \<Rightarrow> string \<Rightarrow> mode \<Rightarrow> grant op" where
  "Acquire sv suffix meanwhile run role md s =
     (case reserve sv suffix run role md s of
        (Inl e, s1) \<Rightarrow> (Inl e, s1)
      | (Inr (l, i), s1) \<Rightarrow>
          (case seed_call sv run l i of (r, failed) \<Rightarrow>
             (case settle sv run l i r failed (meanwhile s1) of
                (Inl e, s2) \<Rightarrow> (Inl e, s2)
              | (Inr _, s2) \<Rightarrow>
                  if failed then (Inl ErrSeedFailed, s2)
                  else (Inr \<lparr>gr_lease = ls_id l, gr_identity = idn_id i, gr_addr = idn_addr i,
                             gr_role = ls_role l, gr_mode = idn_mode i,
                             gr_seed_state = sr_status r, gr_expires_at = ls_expires_at l\<rparr>, s2))))"

section \<open>Giving identities back\<close>

definition release_tx :: "service \<Rightarrow> ident \<Rightarrow> ident \<Rightarrow> identity \<Rightarrow> unit op" where
  "release_tx sv run lid i s =
     (case ReleaseLease lid s of
        (Inl e, s1) \<Rightarrow> (Inl e, s1)
      | (Inr _, s1) \<Rightarrow>
          (let s2 = (if idn_mode i = ModePooled
                     then (case time_Now s1 of (w, s') \<Rightarrow>
                             SetCooldown (idn_id i) (w + sv_cooldown sv) s')
                     else s1)
           in case Write (service_meta sv run i) (LeaseReleasedEv lid (idn_id i) (idn_addr i)) s2 of
                (Inl e, s3) \<Rightarrow> (Inl e, s3)
              | (Inr _, s3) \<Rightarrow> (Inr (), s3)))"

definition Release :: "service \<Rightarrow> ident \<Rightarrow> ident \<Rightarrow> unit op" where
  "Release sv run lid s =
     (case Lease s lid of
        None \<Rightarrow> (Inl ErrNotFound, s)
      | Some l \<Rightarrow>
          (case Identity s (ls_identity l) of
             None \<Rightarrow> (Inl ErrNotFound, s)
           | Some i \<Rightarrow> tx (release_tx sv run lid i) s))"

text \<open>\<^verbatim>\<open>Store.EndRun\<close> and \<^verbatim>\<open>Service.EndRun\<close>.\<close>

definition ServiceEndRun :: "ident \<Rightarrow> run_state \<Rightarrow> string \<Rightarrow> unit op" where
  "ServiceEndRun i st reason = tx (EndRun i st reason)"

definition ServiceCreateRun ::
  "service \<Rightarrow> (string \<Rightarrow> string) \<Rightarrow> string \<Rightarrow> (run \<times> string) op" where
  "ServiceCreateRun sv digest random =
     tx (CreateRun digest random (sv_project sv) (sv_run_ttl sv))"

definition Sweep :: "(nat \<times> nat) op" where
  "Sweep s =
     (case ExpireRuns s of
        (Inl e, s1) \<Rightarrow> (Inl e, s1)
      | (Inr n, s1) \<Rightarrow>
          (case tx ExpireLeases s1 of
             (Inl e, s2) \<Rightarrow> (Inl e, s2)
           | (Inr m, s2) \<Rightarrow> (Inr (n, m), s2)))"

section \<open>Lemmas\<close>

lemma resolveCooldown_floor:
  "resolveCooldown (Some latency) c = Inr d \<Longrightarrow> MinDeliveryLatency \<le> latency \<and> latency \<le> d"
  by (auto simp: resolveCooldown_def split: if_splits)

text \<open>What a constructed service guarantees about its own parameters.\<close>

definition service_ok :: "service \<Rightarrow> bool" where
  "service_ok sv \<longleftrightarrow>
     sv_project sv \<noteq> [] \<and> 0 < sv_run_ttl sv \<and> 0 < sv_claim_ttl sv \<and>
     sv_claim_ttl sv < sv_lease_ttl sv \<and> 0 < sv_cooldown sv \<and>
     (case sv_pooled sv of None \<Rightarrow> True
      | Some latency \<Rightarrow> MinDeliveryLatency \<le> latency \<and> latency \<le> sv_cooldown sv)"

lemma ttl_positive [simp]:
  "0 < DefaultRunTTL" "0 < DefaultLeaseTTL" "0 < DefaultClaimTTL" "0 < DefaultPoolCooldown"
  "0 < MinDeliveryLatency"
  by (simp_all add: DefaultRunTTL_def DefaultLeaseTTL_def DefaultClaimTTL_def
      DefaultPoolCooldown_def MinDeliveryLatency_def second_def)

lemma resolveCooldown_pos: "resolveCooldown p c = Inr d \<Longrightarrow> 0 < d"
  using ttl_positive(4,5)
  by (auto simp: resolveCooldown_def less_max_iff_disj split: if_splits option.splits)

lemma New_service_ok:
  assumes "New ta cfg = Inr sv"
  shows "service_ok sv"
proof -
  from assms obtain d where "resolveCooldown (cfg_pooled cfg) (cfg_cooldown cfg) = Inr d"
    and "sv_cooldown sv = d" and "sv_pooled sv = cfg_pooled cfg"
    by (auto simp: New_def Let_def split: if_splits list.splits option.splits sum.splits)
  then have "0 < sv_cooldown sv" and "case sv_pooled sv of None \<Rightarrow> True
      | Some latency \<Rightarrow> MinDeliveryLatency \<le> latency \<and> latency \<le> sv_cooldown sv"
    using resolveCooldown_pos resolveCooldown_floor by (auto split: option.splits)
  moreover from assms have "sv_project sv \<noteq> []" "0 < sv_run_ttl sv" "0 < sv_claim_ttl sv"
    "sv_claim_ttl sv < sv_lease_ttl sv"
    by (auto simp: New_def Let_def default_ttl_def
             split: if_splits list.splits option.splits sum.splits)
  ultimately show ?thesis by (simp add: service_ok_def)
qed

end
