(* ===== verification/ExtractModel.thy ===== *)
theory ExtractModel
  imports Prelude
begin

text \<open>
  The data of \<^verbatim>\<open>internal/extract/extract.go\<close> and its span arithmetic: the result of an
  extraction, the choice of the best link, and the sorted disjoint ranges that keep the digits
  of a URL out of the code scan.

  Offsets and lengths are byte counts of a string that fits in memory, so they are natural
  numbers or, where the source subtracts, integers.
\<close>

section \<open>Input and results\<close>

record extract_input =
  in_subject :: string
  in_text :: string
  in_html :: string

datatype link_kind = KindVerify | KindMagic | KindReset | KindOther

record link =
  lk_url :: string
  lk_kind :: link_kind
  lk_actionable :: bool

record result =
  rs_otp_best :: string
  rs_otp_candidates :: "string list"
  rs_links :: "link list"
  rs_verify_link_best :: string

fun first_link_of :: "link_kind list \<Rightarrow> link list \<Rightarrow> string" where
  "first_link_of [] ls = []"
| "first_link_of (k # ks) ls =
     (case find_row (\<lambda>l. lk_actionable l \<and> lk_kind l = k) ls of
        Some l \<Rightarrow> lk_url l
      | None \<Rightarrow> first_link_of ks ls)"

definition verifyLinkBest :: "link list \<Rightarrow> string" where
  "verifyLinkBest ls = first_link_of [KindVerify, KindMagic] ls"

section \<open>Spans\<close>

record span =
  sp_start :: nat
  sp_end :: nat

definition span_key :: "span \<Rightarrow> nat \<times> nat" where
  "span_key s = (sp_start s, sp_end s)"

text \<open>
  The loop of \<^verbatim>\<open>mergeSpans\<close>: \<open>cur\<close> is the last span of the output, which the source
  updates in place.
\<close>

fun merge_loop :: "span \<Rightarrow> span list \<Rightarrow> span list" where
  "merge_loop cur [] = [cur]"
| "merge_loop cur (s # rest) =
     (if sp_start s \<le> sp_end cur
      then merge_loop (if sp_end cur < sp_end s then cur\<lparr>sp_end := sp_end s\<rparr> else cur) rest
      else cur # merge_loop s rest)"

definition mergeSpans :: "span list \<Rightarrow> span list" where
  "mergeSpans spans =
     (if length spans < 2 then spans
      else case sort_key span_key spans of
        [] \<Rightarrow> []
      | s # rest \<Rightarrow> merge_loop s rest)"

text \<open>
  \<^verbatim>\<open>sort.Search(n, f)\<close>: binary search for the least index in \<open>[i, j)\<close> where \<open>f\<close>
  holds, given that \<open>f\<close> stays true once true.
\<close>

function search_loop :: "(nat \<Rightarrow> bool) \<Rightarrow> nat \<Rightarrow> nat \<Rightarrow> nat" where
  "search_loop f i j =
     (if i < j then let h = (i + j) div 2
                    in if \<not> f h then search_loop f (h + 1) j else search_loop f i h
      else i)"
  by pat_completeness auto
termination
  by (relation "measure (\<lambda>(f, i, j). j - i)") auto

declare search_loop.simps [simp del]

definition sort_Search :: "nat \<Rightarrow> (nat \<Rightarrow> bool) \<Rightarrow> nat" where
  "sort_Search n f = search_loop f 0 n"

definition inSpans :: "span list \<Rightarrow> span \<Rightarrow> bool" where
  "inSpans spans s =
     (let i = sort_Search (length spans) (\<lambda>i. sp_start s < sp_end (spans ! i))
      in i < length spans \<and> sp_start (spans ! i) < sp_end s)"

section \<open>Binary search\<close>

lemma search_loop_spec:
  assumes "i \<le> j" and "\<And>a b. a \<le> b \<Longrightarrow> b < n \<Longrightarrow> f a \<Longrightarrow> f b" and "j \<le> n"
    and "\<And>k. k < i \<Longrightarrow> \<not> f k" and "\<And>k. j \<le> k \<Longrightarrow> k < n \<Longrightarrow> f k"
  shows "search_loop f i j \<le> n \<and> (\<forall>k<search_loop f i j. \<not> f k) \<and>
         (\<forall>k. search_loop f i j \<le> k \<longrightarrow> k < n \<longrightarrow> f k)"
  using assms
proof (induction f i j rule: search_loop.induct)
  case (1 f i j)
  show ?case
  proof (cases "i < j")
    case False
    then have "search_loop f i j = i" by (simp add: search_loop.simps [of f i j])
    moreover have "i = j" using False "1.prems"(1) by simp
    ultimately show ?thesis using "1.prems" by auto
  next
    case True
    let ?h = "(i + j) div 2"
    have h: "i \<le> ?h" "?h < j" using True by auto
    show ?thesis
    proof (cases "f ?h")
      case False
      have low: "\<not> f k" if "k < ?h + 1" for k
      proof
        assume "f k"
        then have "f ?h" using "1.prems"(2) [of k ?h] that h "1.prems"(3) by simp
        with False show False ..
      qed
      have "search_loop f (?h + 1) j \<le> n \<and> (\<forall>k<search_loop f (?h + 1) j. \<not> f k) \<and>
         (\<forall>k. search_loop f (?h + 1) j \<le> k \<longrightarrow> k < n \<longrightarrow> f k)"
      proof (rule "1.IH"(1) [OF True refl False])
        show "?h + 1 \<le> j" using h by simp
      qed (fact "1.prems"(2) "1.prems"(3) low "1.prems"(5))+
      then show ?thesis using True False by (simp add: search_loop.simps [of f i j] Let_def)
    next
      case fh: True
      have high: "f k" if "?h \<le> k" "k < n" for k using "1.prems"(2) [OF that] fh by simp
      have "\<not> \<not> f ?h" using fh by simp
      have "search_loop f i ?h \<le> n \<and> (\<forall>k<search_loop f i ?h. \<not> f k) \<and>
         (\<forall>k. search_loop f i ?h \<le> k \<longrightarrow> k < n \<longrightarrow> f k)"
      proof (rule "1.IH"(2) [OF True refl \<open>\<not> \<not> f ?h\<close>])
        show "i \<le> ?h" "?h \<le> n" using h "1.prems"(3) by simp_all
      qed (fact "1.prems"(2) "1.prems"(4) high)+
      then show ?thesis using True fh by (simp add: search_loop.simps [of f i j] Let_def)
    qed
  qed
qed

lemma sort_Search_spec:
  assumes "\<And>a b. a \<le> b \<Longrightarrow> b < n \<Longrightarrow> f a \<Longrightarrow> f b"
  shows "sort_Search n f \<le> n" and "k < sort_Search n f \<Longrightarrow> \<not> f k"
    and "sort_Search n f \<le> k \<Longrightarrow> k < n \<Longrightarrow> f k"
  using search_loop_spec [of 0 n n f] assms by (auto simp: sort_Search_def)

section \<open>Spans cover the same bytes after merging\<close>

definition in_span :: "nat \<Rightarrow> span \<Rightarrow> bool" where
  "in_span x s \<longleftrightarrow> sp_start s \<le> x \<and> x < sp_end s"

definition covered :: "span list \<Rightarrow> nat \<Rightarrow> bool" where
  "covered ss x \<longleftrightarrow> list_ex (in_span x) ss"

text \<open>Disjoint and ascending, with a gap between neighbours.\<close>

definition disjoint_ascending :: "span list \<Rightarrow> bool" where
  "disjoint_ascending ss \<longleftrightarrow>
     sorted_wrt (\<lambda>a b. sp_end a < sp_start b) ss \<and> list_all (\<lambda>s. sp_start s \<le> sp_end s) ss"

lemma covered_merge_loop:
  assumes "sp_start cur \<le> sp_end cur" and "\<forall>s\<in>set ss. sp_start cur \<le> sp_start s"
    and "sorted_wrt (\<lambda>a b. sp_start a \<le> sp_start b) ss"
    and "\<forall>s\<in>set ss. sp_start s \<le> sp_end s"
  shows "covered (merge_loop cur ss) x \<longleftrightarrow> in_span x cur \<or> covered ss x"
  using assms
proof (induction cur ss rule: merge_loop.induct)
  case (2 cur s rest)
  show ?case
  proof (cases "sp_start s \<le> sp_end cur")
    case True
    let ?c = "if sp_end cur < sp_end s then cur\<lparr>sp_end := sp_end s\<rparr> else cur"
    have "covered (merge_loop ?c rest) x \<longleftrightarrow> in_span x ?c \<or> covered rest x"
      using "2.prems" by (intro "2.IH"(1) [OF True]) auto
    moreover have "in_span x ?c \<longleftrightarrow> in_span x cur \<or> in_span x s"
      using True "2.prems" by (auto simp: in_span_def)
    ultimately show ?thesis using True by (auto simp: covered_def)
  next
    case False
    then show ?thesis using "2.IH"(2) "2.prems" by (auto simp: covered_def)
  qed
qed (simp add: covered_def)

lemma merge_loop_head:
  "\<forall>s\<in>set ss. sp_start cur \<le> sp_start s \<Longrightarrow> r \<in> set (merge_loop cur ss) \<Longrightarrow>
     sorted_wrt (\<lambda>a b. sp_start a \<le> sp_start b) ss \<Longrightarrow> sp_start cur \<le> sp_start r"
proof (induction cur ss rule: merge_loop.induct)
  case (2 cur s rest)
  then show ?case by (fastforce split: if_splits)
qed simp

lemma merge_loop_disjoint:
  assumes "sp_start cur \<le> sp_end cur" and "\<forall>s\<in>set ss. sp_start cur \<le> sp_start s"
    and "sorted_wrt (\<lambda>a b. sp_start a \<le> sp_start b) ss"
    and "\<forall>s\<in>set ss. sp_start s \<le> sp_end s"
  shows "disjoint_ascending (merge_loop cur ss)"
  using assms
proof (induction cur ss rule: merge_loop.induct)
  case (2 cur s rest)
  show ?case
  proof (cases "sp_start s \<le> sp_end cur")
    case True
    with 2 show ?thesis by auto
  next
    case False
    then have "disjoint_ascending (merge_loop s rest)" using "2.IH"(2) "2.prems" by simp
    moreover have "sp_start s \<le> sp_start r" if "r \<in> set (merge_loop s rest)" for r
      using merge_loop_head [OF _ that] "2.prems" by simp
    ultimately show ?thesis
      using False "2.prems"(1) by (fastforce simp: disjoint_ascending_def)
  qed
qed (simp add: disjoint_ascending_def)

lemma sort_spans_start:
  "sorted_wrt (\<lambda>a b. sp_start a \<le> sp_start b) (sort_key span_key ss)"
proof -
  have "sorted (map span_key (sort_key span_key ss))" by simp
  then show ?thesis
    by (simp add: sorted_map span_key_def)
       (erule sorted_wrt_mono_rel [rotated], auto simp: less_eq_prod_def)
qed

lemma mergeSpans_correct:
  assumes "\<forall>s\<in>set ss. sp_start s \<le> sp_end s"
  shows "disjoint_ascending (mergeSpans ss)" and "covered (mergeSpans ss) x \<longleftrightarrow> covered ss x"
proof -
  have "disjoint_ascending (mergeSpans ss) \<and> (covered (mergeSpans ss) x \<longleftrightarrow> covered ss x)"
  proof (cases "length ss < 2")
    case True
    then show ?thesis using assms
      by (cases ss) (auto simp: mergeSpans_def disjoint_ascending_def)
  next
    case False
    then obtain s rest where so: "sort_key span_key ss = s # rest"
      by (cases "sort_key span_key ss") (auto dest: arg_cong [of _ _ length])
    then have set: "set ss = set (s # rest)" by (metis set_sort)
    have "sorted_wrt (\<lambda>a b. sp_start a \<le> sp_start b) (s # rest)"
      using sort_spans_start [of ss] so by simp
    then have pre: "sp_start s \<le> sp_end s" "\<forall>r\<in>set rest. sp_start s \<le> sp_start r"
      "sorted_wrt (\<lambda>a b. sp_start a \<le> sp_start b) rest" "\<forall>r\<in>set rest. sp_start r \<le> sp_end r"
      using assms set by auto
    have "covered ss x \<longleftrightarrow> in_span x s \<or> covered rest x"
      using set by (auto simp: covered_def list_ex_iff)
    then show ?thesis
      using False so covered_merge_loop [OF pre] merge_loop_disjoint [OF pre]
      by (simp add: mergeSpans_def)
  qed
  then show "disjoint_ascending (mergeSpans ss)" "covered (mergeSpans ss) x \<longleftrightarrow> covered ss x"
    by auto
qed

text \<open>The binary search of \<^verbatim>\<open>inSpans\<close> decides overlap with any span of the list.\<close>

lemma inSpans_iff:
  assumes "disjoint_ascending ss"
  shows "inSpans ss s \<longleftrightarrow> list_ex (\<lambda>r. sp_start s < sp_end r \<and> sp_start r < sp_end s) ss"
proof -
  let ?f = "\<lambda>i. sp_start s < sp_end (ss ! i)"
  let ?i = "sort_Search (length ss) ?f"
  have lt: "sp_end (ss ! a) < sp_start (ss ! b)" if "a < b" "b < length ss" for a b
    using assms that by (auto simp: disjoint_ascending_def sorted_wrt_iff_nth_less)
  have le: "sp_start (ss ! a) \<le> sp_end (ss ! a)" if "a < length ss" for a
    using assms that by (auto simp: disjoint_ascending_def list_all_iff)
  have mono: "?f b" if "a \<le> b" "b < length ss" "?f a" for a b
    using lt [of a b] le [of b] that by (cases "a = b") auto
  have below: "\<not> ?f k" if "k < ?i" for k
    by (rule sort_Search_spec(2) [OF _ that]) (rule mono)
  have above: "?f k" if "?i \<le> k" "k < length ss" for k
    by (rule sort_Search_spec(3) [OF _ that]) (rule mono)
  have "list_ex (\<lambda>r. sp_start s < sp_end r \<and> sp_start r < sp_end s) ss \<longleftrightarrow>
      (\<exists>k<length ss. ?f k \<and> sp_start (ss ! k) < sp_end s)"
    unfolding list_ex_iff by (metis in_set_conv_nth)
  also have "\<dots> \<longleftrightarrow> ?i < length ss \<and> sp_start (ss ! ?i) < sp_end s"
  proof
    assume "\<exists>k<length ss. ?f k \<and> sp_start (ss ! k) < sp_end s"
    then obtain k where k: "k < length ss" "?f k" "sp_start (ss ! k) < sp_end s" by blast
    then have "?i \<le> k" using below by (meson not_le)
    then have "sp_start (ss ! ?i) \<le> sp_start (ss ! k)"
      using lt [of ?i k] le [of ?i] k(1) by (cases "?i = k") auto
    with k \<open>?i \<le> k\<close> show "?i < length ss \<and> sp_start (ss ! ?i) < sp_end s" by linarith
  next
    assume i: "?i < length ss \<and> sp_start (ss ! ?i) < sp_end s"
    moreover from i have "?f ?i" using above by simp
    ultimately show "\<exists>k<length ss. ?f k \<and> sp_start (ss ! k) < sp_end s" by blast
  qed
  finally show ?thesis by (simp add: inSpans_def Let_def)
qed

end
