(* ===== verification/ClaimPath.thy ===== *)
theory ClaimPath
  imports Service ExtractModel
begin

text \<open>
  The claim path of the lease service: \<^verbatim>\<open>internal/personas/claim.go\<close>. The gates refuse
  early, a repeated key is replayed, and otherwise the oldest candidate carrying a value of the
  claimed kind is recorded; a claim with a timeout waits for mail and tries again.

  \<^verbatim>\<open>json.Unmarshal\<close> of an extraction is the argument \<open>dec\<close>. What other requests commit
  while a claim runs is its environment: \<open>env_race\<close> between reading the candidates and
  recording one, \<open>env_wait\<close> before an attempt and while the claim waits; the environment also
  says how many wakeups the waiter is going to receive before its deadline and whether the bus
  still accepts waiters.
\<close>

section \<open>Requests and answers\<close>

record claimed =
  cm_reason :: reason
  cm_claim :: ident
  cm_message :: ident
  cm_value :: string
  cm_waited :: duration

record claim_request =
  cr_lease :: ident
  cr_kind :: claim_kind
  cr_key :: string
  cr_timeout :: duration

record surroundings =
  env_race :: "store \<Rightarrow> store"
  env_wait :: "store \<Rightarrow> store"
  env_wakes :: nat
  env_bus_running :: bool

definition claim_OK :: "claimed \<Rightarrow> bool" where
  "claim_OK c \<longleftrightarrow> cm_reason c = ReasonOK"

definition refusal :: "reason \<Rightarrow> claimed" where
  "refusal r = \<lparr>cm_reason = r, cm_claim = [], cm_message = [], cm_value = [], cm_waited = 0\<rparr>"

section \<open>Gates and bounds\<close>

definition gate :: "run \<Rightarrow> lease \<Rightarrow> reason option" where
  "gate r l =
     (if \<not> run_active r then Some ReasonRunNotActive
      else if \<not> lease_held l then Some ReasonLeaseNotHeld
      else if \<not> lease_claimable l then Some ReasonLeaseSeedFailed
      else None)"

definition lowerBound :: "run \<Rightarrow> lease \<Rightarrow> time" where
  "lowerBound r l =
     (if run_checkpoint_at r < ls_acquired_at l then ls_acquired_at l else run_checkpoint_at r)"

definition endOfGrant :: "run \<Rightarrow> lease \<Rightarrow> time" where
  "endOfGrant r l =
     (if run_expires_at r < ls_expires_at l then run_expires_at r else ls_expires_at l)"

text \<open>
  The bus predicate of a waiting claim; an event is the list of its envelope recipients, or
  \<open>None\<close> when it carries no message.
\<close>

definition matchAddr ::
  "(string \<Rightarrow> string option) \<Rightarrow> string \<Rightarrow> string list option \<Rightarrow> bool" where
  "matchAddr to_ascii addr ev =
     (case ev of
        None \<Rightarrow> False
      | Some rcpts \<Rightarrow>
          list_ex (\<lambda>r. NormalizeAddress to_ascii r = NormalizeAddress to_ascii addr) rcpts)"

section \<open>Values\<close>

definition valueFor :: "(string \<Rightarrow> result option) \<Rightarrow> string \<Rightarrow> claim_kind \<Rightarrow> string" where
  "valueFor dec extracted k =
     (if extracted = [] then []
      else case dec extracted of
        None \<Rightarrow> []
      | Some r \<Rightarrow>
          (case k of
             ClaimEmailOTP \<Rightarrow> rs_otp_best r
           | ClaimMagicLink \<Rightarrow> rs_verify_link_best r
           | ClaimTOTP \<Rightarrow> []
           | ClaimOther _ \<Rightarrow> []))"

definition valueOf ::
  "(string \<Rightarrow> result option) \<Rightarrow> store \<Rightarrow> ident \<Rightarrow> claim_kind \<Rightarrow> err + string" where
  "valueOf dec s m k =
     (if m = [] then Inr []
      else case Message s m of
        Inl e \<Rightarrow> if e = ErrNotFound \<or> e = ErrUnreadableMessage then Inr [] else Inl e
      | Inr v \<Rightarrow> Inr (valueFor dec (mv_extracted v) k))"

section \<open>Replay and take\<close>

definition claim_message_id :: "claim \<Rightarrow> ident" where
  "claim_message_id c = (case cl_message c of None \<Rightarrow> [] | Some m \<Rightarrow> m)"

definition replay ::
  "(string \<Rightarrow> result option) \<Rightarrow> lease \<Rightarrow> claim_request \<Rightarrow> claimed option op" where
  "replay dec l req s =
     (case ClaimByKey s (ls_id l) (cr_key req) of
        None \<Rightarrow> (Inr None, s)
      | Some c \<Rightarrow>
          (case time_Now s of (now, s1) \<Rightarrow>
             if \<not> now < cl_expires_at c
             then (Inr (Some ((refusal ReasonExpired)\<lparr>cm_claim := cl_id c\<rparr>)), s1)
             else case valueOf dec s1 (claim_message_id c) (cr_kind req) of
               Inl e \<Rightarrow> (Inl e, s1)
             | Inr value \<Rightarrow>
                 if value = []
                 then (Inr (Some ((refusal ReasonExtractionFail)\<lparr>cm_claim := cl_id c\<rparr>)), s1)
                 else (Inr (Some \<lparr>cm_reason = ReasonOK, cm_claim = cl_id c,
                                  cm_message = claim_message_id c, cm_value = value,
                                  cm_waited = 0\<rparr>), s1)))"

text \<open>\<open>None\<close> is the empty reason of the source: nothing was eligible.\<close>

fun take_candidates ::
  "service \<Rightarrow> (string \<Rightarrow> result option) \<Rightarrow> (store \<Rightarrow> store) \<Rightarrow> run \<Rightarrow> lease \<Rightarrow> claim_request \<Rightarrow>
     candidate list \<Rightarrow> claimed option op" where
  "take_candidates sv dec race r l req [] s = (Inr None, s)"
| "take_candidates sv dec race r l req (c # cs) s =
     (let value = valueFor dec (cd_extracted c) (cr_kind req)
      in if value = [] then take_candidates sv dec race r l req cs s
         else case RecordClaim \<lparr>nc_lease = ls_id l, nc_run = run_id r, nc_kind = cr_kind req,
                nc_message = cd_message c, nc_key = cr_key req, nc_ttl = sv_claim_ttl sv,
                nc_not_after = endOfGrant r l\<rparr> (race s) of
           (Inr cl, s1) \<Rightarrow>
             (Inr (Some \<lparr>cm_reason = ReasonOK, cm_claim = cl_id cl, cm_message = cd_message c,
                         cm_value = value, cm_waited = 0\<rparr>), s1)
         | (Inl e, s1) \<Rightarrow>
             if e = ErrClaimWindowClosed then (Inr (Some (refusal ReasonLeaseNotHeld)), s1)
             else if e = ErrClaimTaken then
               (case replay dec l req s1 of
                  (Inl e', s2) \<Rightarrow> (Inl e', s2)
                | (Inr (Some a), s2) \<Rightarrow> (Inr (Some a), s2)
                | (Inr None, s2) \<Rightarrow> take_candidates sv dec race r l req cs s2)
             else (Inl e, s1))"

definition claim_filter :: "lease \<Rightarrow> claim_request \<Rightarrow> time \<Rightarrow> candidate_filter" where
  "claim_filter l req lower =
     \<lparr>cf_lease = ls_id l, cf_kind = cr_kind req, cf_not_before = lower, cf_limit = 0\<rparr>"

definition attempt ::
  "service \<Rightarrow> (string \<Rightarrow> result option) \<Rightarrow> (store \<Rightarrow> store) \<Rightarrow> run \<Rightarrow> lease \<Rightarrow> claim_request \<Rightarrow>
     time \<Rightarrow> claimed option op" where
  "attempt sv dec race r l req lower s =
     (case ClaimCandidates s (claim_filter l req lower) of
        Inl e \<Rightarrow> (Inl e, s)
      | Inr (cands, _) \<Rightarrow> take_candidates sv dec race r l req cands s)"

definition explain_reason :: "rejections \<Rightarrow> reason" where
  "explain_reason rj =
     (if 0 < rj_suspect rj then ReasonSuspectBinding
      else if 0 < rj_already_claimed rj then ReasonAlreadyClaimed
      else if 0 < rj_stale rj then ReasonStaleFiltered
      else if 0 < rj_extraction_fail rj then ReasonExtractionFail
      else if rj_bindings rj = 0 then ReasonNoBinding
      else ReasonTimeout)"

definition explain ::
  "service \<Rightarrow> (string \<Rightarrow> result option) \<Rightarrow> (store \<Rightarrow> store) \<Rightarrow> run \<Rightarrow> lease \<Rightarrow> claim_request \<Rightarrow>
     time \<Rightarrow> claimed op" where
  "explain sv dec race r l req lower s =
     (case ClaimCandidates s (claim_filter l req lower) of
        Inl e \<Rightarrow> (Inl e, s)
      | Inr (cands, refused) \<Rightarrow>
          (case take_candidates sv dec race r l req cands s of
             (Inl e, s1) \<Rightarrow> (Inl e, s1)
           | (Inr (Some late), s1) \<Rightarrow> (Inr late, s1)
           | (Inr None, s1) \<Rightarrow> (Inr (refusal (explain_reason refused)), s1)))"

section \<open>The claim\<close>

definition settleClaim ::
  "service \<Rightarrow> lease \<Rightarrow> identity \<Rightarrow> claim_request \<Rightarrow> time \<Rightarrow> claimed \<Rightarrow> claimed op" where
  "settleClaim sv l i req started c s =
     (case time_Now s of (now, s1) \<Rightarrow>
        (case Write (service_meta sv (ls_run l) i)
            (ClaimSettled (ls_id l) (cm_claim c) (cr_kind req) (cm_message c) (cm_reason c)
               (idn_addr i)) s1 of
           (Inl e, s2) \<Rightarrow> (Inl e, s2)
         | (Inr _, s2) \<Rightarrow> (Inr (c\<lparr>cm_waited := now - started\<rparr>), s2)))"

text \<open>
  The loop of \<^verbatim>\<open>Claim\<close> and what follows it. The number counts the wakeups still to
  come; when there are none the wait ends at the deadline.
\<close>

fun claim_loop ::
  "service \<Rightarrow> (string \<Rightarrow> result option) \<Rightarrow> surroundings \<Rightarrow> run \<Rightarrow> lease \<Rightarrow> claim_request \<Rightarrow>
     time \<Rightarrow> bool \<Rightarrow> time \<Rightarrow> nat \<Rightarrow> claimed op" where
  "claim_loop sv dec env r l req lower waiter deadline wakes s =
     (case attempt sv dec (env_race env) r l req lower s of
        (Inl e, s1) \<Rightarrow> (Inl e, s1)
      | (Inr (Some c), s1) \<Rightarrow> (Inr c, s1)
      | (Inr None, s1) \<Rightarrow>
          if \<not> waiter then explain sv dec (env_race env) r l req lower (env_wait env s1)
          else (case time_Now s1 of (now, s2) \<Rightarrow>
            if \<not> now < deadline
            then explain sv dec (env_race env) r l req lower (env_wait env s2)
            else (case wakes of
                    0 \<Rightarrow> explain sv dec (env_race env) r l req lower (env_wait env s2)
                  | Suc n \<Rightarrow>
                      claim_loop sv dec env r l req lower waiter deadline n (env_wait env s2))))"

declare claim_loop.simps [simp del]

definition Claim ::
  "service \<Rightarrow> (string \<Rightarrow> result option) \<Rightarrow> surroundings \<Rightarrow> claim_request \<Rightarrow> claimed op" where
  "Claim sv dec env req s0 =
     (case time_Now s0 of (started, s) \<Rightarrow>
        if cr_kind req = ClaimTOTP then (Inl ErrUnsupportedKind, s)
        else if cr_kind req \<noteq> ClaimEmailOTP \<and> cr_kind req \<noteq> ClaimMagicLink
          then (Inl ErrInvalidArgument, s)
        else if cr_key req = [] then (Inl ErrInvalidArgument, s)
        else case Lease s (cr_lease req) of
          None \<Rightarrow> (Inl ErrNotFound, s)
        | Some l \<Rightarrow>
            (case Identity s (ls_identity l) of
               None \<Rightarrow> (Inl ErrNotFound, s)
             | Some i \<Rightarrow>
                 (case Run s (ls_run l) of
                    None \<Rightarrow> (Inl ErrNotFound, s)
                  | Some r \<Rightarrow>
                      (case gate r l of
                         Some reason \<Rightarrow> settleClaim sv l i req started (refusal reason) s
                       | None \<Rightarrow>
                           (case replay dec l req s of
                              (Inl e, s1) \<Rightarrow> (Inl e, s1)
                            | (Inr (Some c), s1) \<Rightarrow> settleClaim sv l i req started c s1
                            | (Inr None, s1) \<Rightarrow>
                                let waits = sv_bus sv \<and> 0 < cr_timeout req
                                in if waits \<and> \<not> env_bus_running env then (Inl ErrBusStopped, s1)
                                   else (case time_Now s1 of (now, s2) \<Rightarrow>
                                     (case claim_loop sv dec env r l req
                                         (lowerBound r l) waits (now + cr_timeout req)
                                         (env_wakes env) (env_wait env s2) of
                                        (Inl e, s3) \<Rightarrow> (Inl e, s3)
                                      | (Inr c, s3) \<Rightarrow> settleClaim sv l i req started c s3)))))))"


section \<open>What an answer rests on\<close>

text \<open>
  A fresh answer: the value of a readable, accepted message that reached this lease cleanly and
  not before the lower bound, recorded under the key, to expire no later than the grant.
\<close>

definition fresh_answer ::
  "(string \<Rightarrow> result option) \<Rightarrow> run \<Rightarrow> lease \<Rightarrow> claim_request \<Rightarrow> time \<Rightarrow> store \<Rightarrow> claimed \<Rightarrow> bool" where
  "fresh_answer dec r l req lower s c \<longleftrightarrow>
     cm_value c \<noteq> [] \<and>
     (\<exists>m\<in>set (messages s). \<exists>b\<in>set (bindings s). \<exists>x y.
        msg_id m = cm_message c \<and> bd_message b = msg_id m \<and> bd_lease b = ls_id l \<and>
        binding_clean b \<and> \<not> msg_quarantined m \<and>
        (is_zero_time lower \<or> lower \<le> msg_received_at m) \<and>
        msg_extraction_state m = ExtractionSuccess \<and>
        msg_extracted m = Some x \<and> unseal s x = Some y \<and>
        cm_value c = valueFor dec y (cr_kind req)) \<and>
     (\<exists>cl\<in>set (claims s). cl_id cl = cm_claim c \<and> cl_lease cl = ls_id l \<and>
        cl_run cl = run_id r \<and> cl_kind cl = cr_kind req \<and> cl_key cl = cr_key req \<and>
        cl_message cl = null_string (cm_message c) \<and> cl_claimed_at cl < cl_expires_at cl \<and>
        (is_zero_time (endOfGrant r l) \<or> cl_expires_at cl \<le> endOfGrant r l))"

text \<open>A repeated answer: the key was recorded before, and the message is still readable.\<close>

definition replayed_answer ::
  "(string \<Rightarrow> result option) \<Rightarrow> lease \<Rightarrow> claim_request \<Rightarrow> store \<Rightarrow> claimed \<Rightarrow> bool" where
  "replayed_answer dec l req s c \<longleftrightarrow>
     cm_value c \<noteq> [] \<and>
     (\<exists>cl\<in>set (claims s). cl_id cl = cm_claim c \<and> cl_lease cl = ls_id l \<and>
        cl_key cl = cr_key req \<and> cl_message cl = Some (cm_message c)) \<and>
     (\<exists>m\<in>set (messages s). msg_id m = cm_message c \<and> \<not> msg_quarantined m \<and>
        \<not> mv_unreadable (scan_message s m) \<and>
        cm_value c = valueFor dec (mv_extracted (scan_message s m)) (cr_kind req))"

text \<open>
  What a claim needs of the requests that run beside it between its read of the candidates and
  the record it makes: settled messages and bindings are not taken away.
\<close>

definition evidence_kept :: "store \<Rightarrow> store \<Rightarrow> bool" where
  "evidence_kept s s' \<longleftrightarrow>
     unseal s' = unseal s \<and>
     {m \<in> set (messages s). msg_extraction_state m \<noteq> ExtractionPending} \<subseteq> set (messages s') \<and>
     set (bindings s) \<subseteq> set (bindings s')"

lemma evidence_kept_refl [simp]: "evidence_kept s s"
  by (simp add: evidence_kept_def)

lemma evidence_kept_trans [trans]:
  "evidence_kept s t \<Longrightarrow> evidence_kept t u \<Longrightarrow> evidence_kept s u"
  by (auto simp: evidence_kept_def)

lemma evidence_kept_tables:
  "messages s' = messages s \<Longrightarrow> bindings s' = bindings s \<Longrightarrow> unseal s' = unseal s \<Longrightarrow>
     evidence_kept s s'"
  by (simp add: evidence_kept_def)

lemma valueOf_Inr:
  assumes "valueOf dec s m k = Inr v" and "v \<noteq> []"
  obtains r where "r \<in> set (messages s)" and "msg_id r = m" and "\<not> msg_quarantined r"
    and "\<not> mv_unreadable (scan_message s r)" and "m \<noteq> []"
    and "v = valueFor dec (mv_extracted (scan_message s r)) k"
proof -
  from assms obtain w where w: "Message s m = Inr w" "m \<noteq> []" "v = valueFor dec (mv_extracted w) k"
    by (auto simp: valueOf_def split: if_splits sum.splits)
  then obtain r where r: "find_row (\<lambda>r. msg_id r = m) (messages s) = Some r" "w = scan_message s r"
    "\<not> msg_quarantined (mv_row w)" "\<not> mv_unreadable w"
    by (auto simp: Message_def read_message_def unreadableGuard_def
             split: sum.splits option.splits if_splits)
  have "mv_row (scan_message s r) = r"
    by (auto simp: scan_message_def Let_def split: option.splits)
  then show ?thesis using that [of r] r w(2,3) find_row_Some [OF r(1)] by auto
qed

lemma replay_frame:
  assumes "replay dec l req s = (res, s')"
  shows "tables s' = tables s" and "unseal s' = unseal s"
proof -
  have "s' = s \<or> s' = snd (time_Now s)"
    using assms
    by (auto simp: replay_def split: option.splits prod.splits sum.splits if_splits)
  then show "tables s' = tables s" "unseal s' = unseal s"
    by (auto simp: time_Now_def)
qed

lemma replay_OK:
  assumes "replay dec l req s = (Inr (Some c), s')" and "claim_OK c"
  shows "replayed_answer dec l req s' c"
proof -
  obtain now s1 where now: "time_Now s = (now, s1)" by (cases "time_Now s")
  then have same: "tables s1 = tables s" "unseal s1 = unseal s"
    by (auto simp: time_Now_def)
  from assms now obtain cl where cl: "ClaimByKey s (ls_id l) (cr_key req) = Some cl"
    by (auto simp: replay_def split: option.splits)
  with assms now obtain v where v: "valueOf dec s1 (claim_message_id cl) (cr_kind req) = Inr v" "v \<noteq> []"
    and c: "c = \<lparr>cm_reason = ReasonOK, cm_claim = cl_id cl, cm_message = claim_message_id cl,
      cm_value = v, cm_waited = 0\<rparr>" and s': "s' = s1"
    by (auto simp: replay_def claim_OK_def refusal_def split: sum.splits if_splits)
  from v obtain m where m: "m \<in> set (messages s1)" "msg_id m = claim_message_id cl"
    "\<not> msg_quarantined m" "\<not> mv_unreadable (scan_message s1 m)" "claim_message_id cl \<noteq> []"
    "v = valueFor dec (mv_extracted (scan_message s1 m)) (cr_kind req)"
    by (elim valueOf_Inr)
  have "cl \<in> set (claims s1)" "cl_lease cl = ls_id l" "cl_key cl = cr_key req"
    using cl same find_row_Some [of _ "claims s" cl] by (auto simp: ClaimByKey_def)
  moreover have "cl_message cl = Some (claim_message_id cl)"
    using m(5) by (auto simp: claim_message_id_def split: option.splits)
  ultimately show ?thesis
    using m v(2) s' unfolding replayed_answer_def c by auto
qed


section \<open>Taking a candidate\<close>

definition candidate_backed ::
  "store \<Rightarrow> lease \<Rightarrow> time \<Rightarrow> candidate \<Rightarrow> bool" where
  "candidate_backed s l lower c \<longleftrightarrow>
     (\<exists>m\<in>set (messages s). \<exists>b\<in>set (bindings s). \<exists>x.
        msg_id m = cd_message c \<and> bd_message b = msg_id m \<and> bd_lease b = ls_id l \<and>
        binding_clean b \<and> \<not> msg_quarantined m \<and>
        (is_zero_time lower \<or> lower \<le> msg_received_at m) \<and>
        msg_extraction_state m = ExtractionSuccess \<and>
        msg_extracted m = Some x \<and> unseal s x = Some (cd_extracted c))"

lemma candidate_backed_mono:
  assumes "candidate_backed s l lower c" and "evidence_kept s s'"
  shows "candidate_backed s' l lower c"
proof -
  from assms(1) obtain m b x where mb: "m \<in> set (messages s)" "b \<in> set (bindings s)"
    "msg_id m = cd_message c \<and> bd_message b = msg_id m \<and> bd_lease b = ls_id l \<and>
     binding_clean b \<and> \<not> msg_quarantined m \<and>
     (is_zero_time lower \<or> lower \<le> msg_received_at m)"
    "msg_extraction_state m = ExtractionSuccess"
    "msg_extracted m = Some x" "unseal s x = Some (cd_extracted c)"
    unfolding candidate_backed_def by blast
  moreover have "m \<in> set (messages s')" "b \<in> set (bindings s')" "unseal s' = unseal s"
    using assms(2) mb(1,2,4) by (auto simp: evidence_kept_def)
  ultimately show ?thesis
    unfolding candidate_backed_def by (intro bexI [of _ m] bexI [of _ b] exI [of _ x]) simp_all
qed

lemma ClaimCandidates_backed:
  assumes "ClaimCandidates s (claim_filter l req lower) = Inr (cands, rj)" and "c \<in> set cands"
  shows "candidate_backed s l lower c"
proof -
  obtain m b where m: "m \<in> set (messages s)" "b \<in> set (bindings s)" "bd_lease b = ls_id l"
    "bd_message b = msg_id m" "passes s (claim_filter l req lower) (m, b)"
    "c = as_candidate s (m, b)"
    by (rule ClaimCandidates_in [OF assms]) (simp add: claim_filter_def)
  from m(5) obtain x y where "msg_extracted m = Some x" "unseal s x = Some y"
    by (auto simp: passes_def split: option.splits)
  with m show ?thesis
    unfolding candidate_backed_def
    by (intro bexI [of _ m] bexI [of _ b] exI [of _ x])
       (auto simp: passes_def as_candidate_def claim_filter_def binding_clean_def)
qed

lemma RecordClaim_unseal: "RecordClaim nc s = (res, s') \<Longrightarrow> unseal s' = unseal s"
  by (auto simp: RecordClaim_def Let_def set_claims_def Now_def NewID_def split: if_split_asm)

lemma RecordClaim_kept:
  assumes "RecordClaim nc s = (res, s')"
  shows "evidence_kept s s'"
proof (rule evidence_kept_tables)
  show "messages s' = messages s" "bindings s' = bindings s"
    using assms by (cases rule: RecordClaim_cases; simp)+
  show "unseal s' = unseal s" using assms by (rule RecordClaim_unseal)
qed

lemma replay_kept: "replay dec l req s = (res, s') \<Longrightarrow> evidence_kept s s'"
  by (rule evidence_kept_tables) (simp_all add: replay_frame)

lemma recorded_fresh:
  assumes "candidate_backed s l lower c" and "valueFor dec (cd_extracted c) (cr_kind req) \<noteq> []"
    and "RecordClaim \<lparr>nc_lease = ls_id l, nc_run = run_id r, nc_kind = cr_kind req,
           nc_message = cd_message c, nc_key = cr_key req, nc_ttl = ttl,
           nc_not_after = endOfGrant r l\<rparr> s = (Inr cl, s')"
  shows "fresh_answer dec r l req lower s'
     \<lparr>cm_reason = ReasonOK, cm_claim = cl_id cl, cm_message = cd_message c,
      cm_value = valueFor dec (cd_extracted c) (cr_kind req), cm_waited = 0\<rparr>"
proof -
  have "candidate_backed s' l lower c"
    using candidate_backed_mono [OF assms(1) RecordClaim_kept [OF assms(3)]] .
  then obtain m b x where "m \<in> set (messages s')" "b \<in> set (bindings s')"
    "msg_id m = cd_message c" "bd_message b = msg_id m" "bd_lease b = ls_id l"
    "binding_clean b" "\<not> msg_quarantined m" "is_zero_time lower \<or> lower \<le> msg_received_at m"
    "msg_extraction_state m = ExtractionSuccess" "msg_extracted m = Some x"
    "unseal s' x = Some (cd_extracted c)"
    unfolding candidate_backed_def by blast
  then have msg: "\<exists>m\<in>set (messages s'). \<exists>b\<in>set (bindings s'). \<exists>x y.
        msg_id m = cd_message c \<and> bd_message b = msg_id m \<and> bd_lease b = ls_id l \<and>
        binding_clean b \<and> \<not> msg_quarantined m \<and>
        (is_zero_time lower \<or> lower \<le> msg_received_at m) \<and>
        msg_extraction_state m = ExtractionSuccess \<and>
        msg_extracted m = Some x \<and> unseal s' x = Some y \<and>
        valueFor dec (cd_extracted c) (cr_kind req) = valueFor dec y (cr_kind req)"
    by blast
  from assms(3) have "cl \<in> set (claims s') \<and> cl_lease cl = ls_id l \<and>
        cl_run cl = run_id r \<and> cl_kind cl = cr_kind req \<and> cl_key cl = cr_key req \<and>
        cl_message cl = null_string (cd_message c) \<and> cl_claimed_at cl < cl_expires_at cl \<and>
        (is_zero_time (endOfGrant r l) \<or> cl_expires_at cl \<le> endOfGrant r l)"
    by (cases rule: RecordClaim_cases) auto
  with msg assms(2) show ?thesis
    unfolding fresh_answer_def by auto
qed

lemma take_OK:
  assumes "take_candidates sv dec race r l req cands s = (Inr (Some a), s')" and "claim_OK a"
    and "\<forall>c\<in>set cands. candidate_backed s l lower c" and "\<forall>t. evidence_kept t (race t)"
  shows "fresh_answer dec r l req lower s' a \<or> replayed_answer dec l req s' a"
  using assms(1,3)
proof (induction cands arbitrary: s)
  case (Cons c cs)
  let ?v = "valueFor dec (cd_extracted c) (cr_kind req)"
  let ?nc = "\<lparr>nc_lease = ls_id l, nc_run = run_id r, nc_kind = cr_kind req,
                nc_message = cd_message c, nc_key = cr_key req, nc_ttl = sv_claim_ttl sv,
                nc_not_after = endOfGrant r l\<rparr>"
  have raced: "candidate_backed (race s) l lower c"
    using Cons.prems(2) assms(4) candidate_backed_mono by fastforce
  obtain res s1 where rec: "RecordClaim ?nc (race s) = (res, s1)" by (cases "RecordClaim ?nc (race s)")
  show ?case
  proof (cases "?v = []")
    case True
    then show ?thesis using Cons.IH [of s] Cons.prems by simp
  next
    case val: False
    show ?thesis
    proof (cases res)
      case (Inr cl)
      with val rec Cons.prems(1) recorded_fresh [OF raced val rec [unfolded Inr]]
      show ?thesis by auto
    next
      case (Inl e)
      then have taken: "e = ErrClaimTaken"
        using val rec Cons.prems(1) assms(2)
        by (auto simp: refusal_def claim_OK_def split: if_splits)
      obtain rr s2 where rep: "replay dec l req s1 = (rr, s2)" by (cases "replay dec l req s1")
      have kept: "evidence_kept s s2"
        using assms(4) RecordClaim_kept [OF rec] replay_kept [OF rep] evidence_kept_trans by blast
      from val Inl taken rec rep Cons.prems(1)
      have "rr = Inr (Some a) \<and> s' = s2 \<or>
            rr = Inr None \<and> take_candidates sv dec race r l req cs s2 = (Inr (Some a), s')"
        by (auto split: sum.splits option.splits)
      then show ?thesis
      proof
        assume "rr = Inr (Some a) \<and> s' = s2"
        with rep replay_OK assms(2) show ?thesis by blast
      next
        assume "rr = Inr None \<and> take_candidates sv dec race r l req cs s2 = (Inr (Some a), s')"
        moreover have "\<forall>c\<in>set cs. candidate_backed s2 l lower c"
          using Cons.prems(2) candidate_backed_mono [OF _ kept] by simp
        ultimately show ?thesis using Cons.IH by blast
      qed
    qed
  qed
qed simp


section \<open>The whole claim\<close>

definition answered ::
  "(string \<Rightarrow> result option) \<Rightarrow> run \<Rightarrow> lease \<Rightarrow> claim_request \<Rightarrow> time \<Rightarrow> store \<Rightarrow> claimed \<Rightarrow> bool" where
  "answered dec r l req lower s c \<longleftrightarrow>
     fresh_answer dec r l req lower s c \<or> replayed_answer dec l req s c"

lemma scan_message_unseal:
  "unseal s' = unseal s \<Longrightarrow> scan_message s' m = scan_message s m"
  by (cases "msg_extracted m") (simp_all add: scan_message_def)

lemma answered_cong:
  assumes "messages s' = messages s" and "bindings s' = bindings s" and "claims s' = claims s"
    and "unseal s' = unseal s"
  shows "answered dec r l req lower s' c = answered dec r l req lower s c"
  using assms
  by (simp add: answered_def fresh_answer_def replayed_answer_def
      scan_message_unseal [OF assms(4)])

lemma answered_waited [simp]:
  "answered dec r l req lower s (c\<lparr>cm_waited := w\<rparr>) = answered dec r l req lower s c"
  by (simp add: answered_def fresh_answer_def replayed_answer_def)

lemma attempt_OK:
  assumes "attempt sv dec race r l req lower s = (Inr (Some a), s')" and "claim_OK a"
    and "\<forall>t. evidence_kept t (race t)"
  shows "answered dec r l req lower s' a"
proof -
  from assms(1) obtain cands rj where
    cands: "ClaimCandidates s (claim_filter l req lower) = Inr (cands, rj)" and
    take_: "take_candidates sv dec race r l req cands s = (Inr (Some a), s')"
    by (auto simp: attempt_def split: sum.splits)
  have "\<forall>c\<in>set cands. candidate_backed s l lower c"
    using ClaimCandidates_backed [OF cands] by blast
  with take_OK [OF take_ assms(2) _ assms(3)] show ?thesis by (simp add: answered_def)
qed

lemma explain_reason_not_OK: "explain_reason rj \<noteq> ReasonOK"
  by (simp add: explain_reason_def)

lemma explain_OK:
  assumes "explain sv dec race r l req lower s = (Inr a, s')" and "claim_OK a"
    and "\<forall>t. evidence_kept t (race t)"
  shows "answered dec r l req lower s' a"
proof -
  from assms(1) obtain cands rj where
    cands: "ClaimCandidates s (claim_filter l req lower) = Inr (cands, rj)"
    by (auto simp: explain_def split: sum.splits)
  obtain res s1 where t: "take_candidates sv dec race r l req cands s = (res, s1)"
    by (cases "take_candidates sv dec race r l req cands s")
  have "res = Inr (Some a) \<and> s' = s1"
    using assms(1,2) cands t
    by (auto simp: explain_def claim_OK_def refusal_def explain_reason_not_OK
             split: sum.splits option.splits)
  then show ?thesis
    using attempt_OK [of sv dec race r l req lower s a s'] assms(2,3) cands t
    by (simp add: attempt_def)
qed

text \<open>How the loop can leave: through an attempt, or through \<^verbatim>\<open>explain\<close>.\<close>

lemma claim_loop_leaves:
  "claim_loop sv dec env r l req lower waiter deadline wakes s = (res, s') \<Longrightarrow>
     (\<exists>e. res = Inl e) \<or>
     (\<exists>t c. attempt sv dec (env_race env) r l req lower t = (Inr (Some c), s') \<and> res = Inr c) \<or>
     (\<exists>t. explain sv dec (env_race env) r l req lower t = (res, s'))"
proof (induction wakes arbitrary: s)
  case (0 s)
  then show ?case
    unfolding claim_loop.simps [of _ _ _ _ _ _ _ _ _ 0]
    by (auto split: sum.splits option.splits prod.splits if_splits)
next
  case (Suc n s)
  obtain r1 s1 where a: "attempt sv dec (env_race env) r l req lower s = (r1, s1)"
    by (cases "attempt sv dec (env_race env) r l req lower s")
  obtain now s2 where now: "time_Now s1 = (now, s2)" by (cases "time_Now s1")
  show ?case
  proof (cases "r1 = Inr None \<and> waiter \<and> now < deadline")
    case True
    then have "claim_loop sv dec env r l req lower waiter deadline n (env_wait env s2) = (res, s')"
      using Suc.prems a now claim_loop.simps [of _ _ _ _ _ _ _ _ _ "Suc n"] by simp
    then show ?thesis by (rule Suc.IH)
  next
    case False
    with Suc.prems a now show ?thesis
      unfolding claim_loop.simps [of _ _ _ _ _ _ _ _ _ "Suc n"]
      by (auto split: sum.splits option.splits prod.splits if_splits)
  qed
qed

lemma claim_loop_OK:
  assumes "claim_loop sv dec env r l req lower waiter deadline wakes s = (Inr a, s')"
    and "claim_OK a" and "\<forall>t. evidence_kept t (env_race env t)"
  shows "answered dec r l req lower s' a"
  using claim_loop_leaves [OF assms(1)] attempt_OK explain_OK assms(2,3) by blast


lemma settleClaim_frame:
  assumes "settleClaim sv l i req st c s = (res, s')"
  shows "\<exists>w. res = Inr (c\<lparr>cm_waited := w\<rparr>)"
    and "messages s' = messages s" and "bindings s' = bindings s" and "claims s' = claims s"
    and "leases s' = leases s" and "runs s' = runs s" and "identities s' = identities s"
    and "unseal s' = unseal s"
    and "\<exists>n ts. ledger s' = ledger s @ [\<lparr>le_id = n, le_project = sv_project sv, le_ts = ts,
           le_actor = ActorSystem, le_run = ls_run l, le_persona = idn_persona i,
           le_event = ClaimSettled (ls_id l) (cm_claim c) (cr_kind req) (cm_message c)
                        (cm_reason c) (Redacted (idn_addr i))\<rparr>]"
proof -
  obtain now s1 where now: "time_Now s = (now, s1)" by (cases "time_Now s")
  then have tab: "tables s1 = tables s" "unseal s1 = unseal s" by (auto simp: time_Now_def)
  let ?ev = "ClaimSettled (ls_id l) (cm_claim c) (cr_kind req) (cm_message c) (cm_reason c)
               (idn_addr i)"
  obtain r2 s2 where w: "Write (service_meta sv (ls_run l) i) ?ev s1 = (r2, s2)"
    by (cases "Write (service_meta sv (ls_run l) i) ?ev s1")
  note f = Write_frame [OF w]
  from f(1) obtain n where "r2 = Inr n" by blast
  with assms now w have r: "res = Inr (c\<lparr>cm_waited := now - st\<rparr>)" and s': "s' = s2"
    by (simp_all add: settleClaim_def)
  from r show "\<exists>w. res = Inr (c\<lparr>cm_waited := w\<rparr>)" by blast
  show "messages s' = messages s" "bindings s' = bindings s" "claims s' = claims s"
    "leases s' = leases s" "runs s' = runs s" "identities s' = identities s"
    "unseal s' = unseal s"
    using f(2-7,9) tab s' by simp_all
  show "\<exists>n ts. ledger s' = ledger s @ [\<lparr>le_id = n, le_project = sv_project sv, le_ts = ts,
           le_actor = ActorSystem, le_run = ls_run l, le_persona = idn_persona i,
           le_event = ClaimSettled (ls_id l) (cm_claim c) (cr_kind req) (cm_message c)
                        (cm_reason c) (Redacted (idn_addr i))\<rparr>]"
    using f(10) tab s' by (simp add: service_meta_def)
qed

lemma time_Now_tables: "time_Now s = (t, s') \<Longrightarrow> tables s' = tables s \<and> unseal s' = unseal s"
  by (auto simp: time_Now_def)

lemma Claim_cases:
  assumes "Claim sv dec env req s0 = (Inr c, s')"
  obtains (gated) st s l i r reason where "Lease s0 (cr_lease req) = Some l"
      and "Run s0 (ls_run l) = Some r" and "Identity s0 (ls_identity l) = Some i"
      and "gate r l = Some reason" and "tables s = tables s0" and "unseal s = unseal s0"
      and "settleClaim sv l i req st (refusal reason) s = (Inr c, s')"
  | (replayed) st s l i r c0 t where "Lease s0 (cr_lease req) = Some l"
      and "Run s0 (ls_run l) = Some r" and "Identity s0 (ls_identity l) = Some i"
      and "gate r l = None" and "tables s = tables s0" and "unseal s = unseal s0"
      and "replay dec l req s = (Inr (Some c0), t)"
      and "settleClaim sv l i req st c0 t = (Inr c, s')"
  | (looped) st s l i r c0 t t1 waits deadline u where "Lease s0 (cr_lease req) = Some l"
      and "Run s0 (ls_run l) = Some r" and "Identity s0 (ls_identity l) = Some i"
      and "gate r l = None" and "tables s = tables s0" and "unseal s = unseal s0"
      and "replay dec l req s = (Inr None, t)" and "tables t1 = tables s0"
      and "unseal t1 = unseal s0"
      and "waits \<longleftrightarrow> sv_bus sv \<and> 0 < cr_timeout req"
      and "claim_loop sv dec env r l req (lowerBound r l) waits deadline (env_wakes env)
             (env_wait env t1) = (Inr c0, u)"
      and "settleClaim sv l i req st c0 u = (Inr c, s')"
proof -
  obtain st s where s: "time_Now s0 = (st, s)" by (cases "time_Now s0")
  note ts = time_Now_tables [OF s]
  have kinds: "cr_kind req \<noteq> ClaimTOTP" "cr_kind req = ClaimEmailOTP \<or> cr_kind req = ClaimMagicLink"
    "cr_key req \<noteq> []"
    using assms s by (auto simp: Claim_def split: if_split_asm)
  then have nk: "\<not> (cr_kind req \<noteq> ClaimEmailOTP \<and> cr_kind req \<noteq> ClaimMagicLink)" by blast
  note C = assms [unfolded Claim_def, simplified s prod.case kinds(1) nk kinds(3) if_False]
  obtain l where l: "Lease s (cr_lease req) = Some l"
    using C by (cases "Lease s (cr_lease req)") auto
  obtain i where i: "Identity s (ls_identity l) = Some i"
    using C l by (cases "Identity s (ls_identity l)") auto
  obtain r where r: "Run s (ls_run l) = Some r"
    using C l i by (cases "Run s (ls_run l)") auto
  note C2 = C [simplified l i r option.case]
  have rows: "Lease s0 (cr_lease req) = Some l" "Run s0 (ls_run l) = Some r"
    "Identity s0 (ls_identity l) = Some i"
    using l i r ts by (simp_all add: Lease_def Run_def Identity_def)
  show ?thesis
  proof (cases "gate r l")
    case (Some reason)
    with C2 have "settleClaim sv l i req st (refusal reason) s = (Inr c, s')" by simp
    with Some ts show ?thesis by (intro gated [OF rows]) simp_all
  next
    case None
    obtain r1 t where rep: "replay dec l req s = (r1, t)" by (cases "replay dec l req s")
    show ?thesis
    proof (cases r1)
      case (Inl e)
      with C2 None rep show ?thesis by simp
    next
      case (Inr ro)
      show ?thesis
      proof (cases ro)
        case (Some c0)
        with C2 None rep Inr have "settleClaim sv l i req st c0 t = (Inr c, s')" by simp
        with rep Inr Some ts show ?thesis by (intro replayed [OF rows None]) simp_all
      next
        case no: None
        obtain now t1 where t1: "time_Now t = (now, t1)" by (cases "time_Now t")
        let ?w = "sv_bus sv \<and> 0 < cr_timeout req"
        obtain r2 u where lp: "claim_loop sv dec env r l req (lowerBound r l) ?w
            (now + cr_timeout req) (env_wakes env) (env_wait env t1) = (r2, u)"
          by (metis surj_pair)
        have tt: "tables t1 = tables s0" "unseal t1 = unseal s0"
          using time_Now_tables [OF t1] replay_frame [OF rep] ts by simp_all
        from C2 None rep Inr no t1 lp obtain c0 where
          "r2 = Inr c0" "settleClaim sv l i req st c0 u = (Inr c, s')"
          by (auto simp: Let_def split: if_split_asm sum.splits)
        with lp ts rep Inr no show ?thesis by (intro looped [OF rows None _ _ _ tt refl]) simp_all
      qed
    qed
  qed
qed


section \<open>What a claim preserves\<close>

text \<open>
  A property of the tables that recording a claim, appending to the ledger and the other
  requests keep is kept by the whole claim.
\<close>

definition kept_by_claims :: "surroundings \<Rightarrow> (db \<Rightarrow> bool) \<Rightarrow> bool" where
  "kept_by_claims env I \<longleftrightarrow>
     (\<forall>nc s. I (tables s) \<longrightarrow> I (tables (snd (RecordClaim nc s)))) \<and>
     (\<forall>m ev s. I (tables s) \<longrightarrow> I (tables (snd (Write m ev s)))) \<and>
     (\<forall>s. I (tables s) \<longrightarrow> I (tables (env_race env s))) \<and>
     (\<forall>s. I (tables s) \<longrightarrow> I (tables (env_wait env s)))"

lemma take_preserves:
  assumes "kept_by_claims env I" and "I (tables s)"
    and "take_candidates sv dec (env_race env) r l req cands s = (res, s')"
  shows "I (tables s')"
  using assms(2,3)
proof (induction cands arbitrary: s)
  case (Cons c cs)
  let ?nc = "\<lparr>nc_lease = ls_id l, nc_run = run_id r, nc_kind = cr_kind req,
                nc_message = cd_message c, nc_key = cr_key req, nc_ttl = sv_claim_ttl sv,
                nc_not_after = endOfGrant r l\<rparr>"
  obtain r1 s1 where rec: "RecordClaim ?nc (env_race env s) = (r1, s1)"
    by (cases "RecordClaim ?nc (env_race env s)")
  have I1: "I (tables s1)"
    using assms(1) Cons.prems(1) rec unfolding kept_by_claims_def by (metis snd_conv)
  obtain r2 s2 where rep: "replay dec l req s1 = (r2, s2)" by (cases "replay dec l req s1")
  have I2: "I (tables s2)" using I1 replay_frame(1) [OF rep] by simp
  show ?case
  proof (cases "valueFor dec (cd_extracted c) (cr_kind req) = []")
    case True
    then show ?thesis using Cons.IH [OF Cons.prems(1)] Cons.prems(2) by simp
  next
    case False
    show ?thesis
      using Cons.prems(2) False rec rep I1 I2 Cons.IH [OF I2]
      by (auto split: sum.splits option.splits if_splits)
  qed
qed simp

lemma attempt_preserves:
  assumes "kept_by_claims env I" and "I (tables s)"
    and "attempt sv dec (env_race env) r l req lower s = (res, s')"
  shows "I (tables s')"
  using assms take_preserves [OF assms(1,2)]
  by (auto simp: attempt_def split: sum.splits prod.splits)

lemma explain_preserves:
  assumes "kept_by_claims env I" and "I (tables s)"
    and "explain sv dec (env_race env) r l req lower s = (res, s')"
  shows "I (tables s')"
  using assms take_preserves [OF assms(1,2)]
  by (auto simp: explain_def split: sum.splits prod.splits option.splits)

lemma kept_by_claims_wait:
  "kept_by_claims env I \<Longrightarrow> I (tables s) \<Longrightarrow> I (tables (env_wait env s))"
  by (simp add: kept_by_claims_def)

lemma claim_loop_preserves:
  assumes "kept_by_claims env I"
  shows "I (tables s) \<Longrightarrow>
    claim_loop sv dec env r l req lower waiter deadline wakes s = (res, s') \<Longrightarrow> I (tables s')"
proof (induction wakes arbitrary: s)
  case (0 s)
  obtain r1 s1 where a: "attempt sv dec (env_race env) r l req lower s = (r1, s1)"
    by (cases "attempt sv dec (env_race env) r l req lower s")
  obtain now s2 where now: "time_Now s1 = (now, s2)" by (cases "time_Now s1")
  have I: "I (tables s1)" "I (tables s2)" "I (tables (env_wait env s1))"
    "I (tables (env_wait env s2))"
    using attempt_preserves [OF assms 0(1) a] time_Now_tables [OF now]
    by (simp_all add: kept_by_claims_wait [OF assms])
  show ?case
    using 0(2) a now I explain_preserves [OF assms I(3)] explain_preserves [OF assms I(4)]
    unfolding claim_loop.simps [of _ _ _ _ _ _ _ _ _ 0]
    by (auto split: sum.splits option.splits if_splits)
next
  case (Suc n s)
  obtain r1 s1 where a: "attempt sv dec (env_race env) r l req lower s = (r1, s1)"
    by (cases "attempt sv dec (env_race env) r l req lower s")
  obtain now s2 where now: "time_Now s1 = (now, s2)" by (cases "time_Now s1")
  have I: "I (tables s1)" "I (tables s2)" "I (tables (env_wait env s1))"
    "I (tables (env_wait env s2))"
    using attempt_preserves [OF assms Suc.prems(1) a] time_Now_tables [OF now]
    by (simp_all add: kept_by_claims_wait [OF assms])
  show ?case
    using Suc.prems(2) a now I explain_preserves [OF assms I(3)] explain_preserves [OF assms I(4)]
      Suc.IH [OF I(4)]
    unfolding claim_loop.simps [of _ _ _ _ _ _ _ _ _ "Suc n"]
    by (auto split: sum.splits option.splits if_splits)
qed

lemma settleClaim_preserves:
  assumes "kept_by_claims env I" and "I (tables s)" and "settleClaim sv l i req st c s = (res, s')"
  shows "I (tables s')"
proof -
  obtain now s1 where now: "time_Now s = (now, s1)" by (cases "time_Now s")
  let ?ev = "ClaimSettled (ls_id l) (cm_claim c) (cr_kind req) (cm_message c) (cm_reason c)
               (idn_addr i)"
  obtain r2 s2 where w: "Write (service_meta sv (ls_run l) i) ?ev s1 = (r2, s2)"
    by (cases "Write (service_meta sv (ls_run l) i) ?ev s1")
  have "s' = s2" using assms(3) now w by (auto simp: settleClaim_def split: sum.splits)
  moreover have "I (tables (snd (Write (service_meta sv (ls_run l) i) ?ev s1)))"
    using assms(1,2) time_Now_tables [OF now] unfolding kept_by_claims_def by metis
  ultimately show ?thesis using w by simp
qed

lemma Claim_preserves:
  assumes "kept_by_claims env I" and "I (tables s)" and "Claim sv dec env req s = (Inr c, s')"
  shows "I (tables s')"
  using assms(3)
proof (cases rule: Claim_cases)
  case (gated st s1 l i r reason)
  then show ?thesis using settleClaim_preserves [OF assms(1) _ gated(7)] assms(2) by simp
next
  case (replayed st s1 l i r c0 t)
  then show ?thesis
    using settleClaim_preserves [OF assms(1) _ replayed(8)] assms(2) replay_frame(1) by simp
next
  case (looped st s1 l i r c0 t t1 waits deadline u)
  have "I (tables (env_wait env t1))"
    using looped(8) assms(2) by (intro kept_by_claims_wait [OF assms(1)]) simp
  then have "I (tables u)" by (rule claim_loop_preserves [OF assms(1) _ looped(11)])
  then show ?thesis by (rule settleClaim_preserves [OF assms(1) _ looped(12)])
qed


section \<open>Refusals carry nothing\<close>

definition discreet :: "claimed \<Rightarrow> bool" where
  "discreet c \<longleftrightarrow> (claim_OK c \<longleftrightarrow> cm_value c \<noteq> [])"

lemma discreet_refusal [simp]: "r \<noteq> ReasonOK \<Longrightarrow> discreet (refusal r)"
  "r \<noteq> ReasonOK \<Longrightarrow> discreet ((refusal r)\<lparr>cm_claim := i\<rparr>)"
  by (simp_all add: discreet_def refusal_def claim_OK_def)

lemma discreet_waited [simp]: "discreet (c\<lparr>cm_waited := w\<rparr>) = discreet c"
  by (simp add: discreet_def claim_OK_def)

lemma replay_discreet:
  assumes "replay dec l req s = (Inr (Some c), s')"
  shows "discreet c"
proof -
  obtain now s1 where now: "time_Now s = (now, s1)" by (cases "time_Now s")
  from assms obtain cl where cl: "ClaimByKey s (ls_id l) (cr_key req) = Some cl"
    by (auto simp: replay_def split: option.splits)
  show ?thesis
  proof (cases "now < cl_expires_at cl")
    case False
    then show ?thesis using assms now cl by (auto simp: replay_def)
  next
    case True
    then show ?thesis
      using assms now cl
      by (auto simp: replay_def discreet_def claim_OK_def refusal_def split: sum.splits if_splits)
  qed
qed

lemma take_discreet:
  "take_candidates sv dec race r l req cands s = (Inr (Some c), s') \<Longrightarrow> discreet c"
proof (induction cands arbitrary: s)
  case (Cons d cs)
  let ?v = "valueFor dec (cd_extracted d) (cr_kind req)"
  let ?nc = "\<lparr>nc_lease = ls_id l, nc_run = run_id r, nc_kind = cr_kind req,
                nc_message = cd_message d, nc_key = cr_key req, nc_ttl = sv_claim_ttl sv,
                nc_not_after = endOfGrant r l\<rparr>"
  obtain res s1 where rec: "RecordClaim ?nc (race s) = (res, s1)" by (cases "RecordClaim ?nc (race s)")
  obtain rr s2 where rep: "replay dec l req s1 = (rr, s2)" by (cases "replay dec l req s1")
  show ?case
  proof (cases "?v = []")
    case True
    then show ?thesis using Cons by simp
  next
    case False
    then show ?thesis
      using Cons.prems rec rep Cons.IH replay_discreet [of dec l req s1 c s']
      by (auto simp: discreet_def claim_OK_def refusal_def split: sum.splits if_splits option.splits)
  qed
qed simp

lemma attempt_discreet:
  "attempt sv dec race r l req lower s = (Inr (Some c), s') \<Longrightarrow> discreet c"
  by (auto simp: attempt_def split: sum.splits dest: take_discreet)

lemma explain_discreet:
  "explain sv dec race r l req lower s = (Inr c, s') \<Longrightarrow> discreet c"
  by (auto simp: explain_def explain_reason_not_OK split: sum.splits prod.splits option.splits
      dest: take_discreet)

lemma gate_not_OK: "gate r l = Some reason \<Longrightarrow> reason \<noteq> ReasonOK"
  by (auto simp: gate_def split: if_splits)

lemma settleClaim_result:
  "settleClaim sv l i req st c s = (Inr d, s') \<Longrightarrow> \<exists>w. d = c\<lparr>cm_waited := w\<rparr>"
  using settleClaim_frame(1) by fastforce

lemma Claim_discreet:
  assumes "Claim sv dec env req s = (Inr c, s')"
  shows "discreet c"
  using assms
proof (cases rule: Claim_cases)
  case (gated st s1 l i r reason)
  then show ?thesis using settleClaim_result [OF gated(7)] gate_not_OK by auto
next
  case (replayed st s1 l i r c0 t)
  then show ?thesis using settleClaim_result [OF replayed(8)] replay_discreet by auto
next
  case (looped st s1 l i r c0 t t1 waits deadline u)
  have "discreet c0"
    using claim_loop_leaves [OF looped(11)] attempt_discreet explain_discreet by blast
  then show ?thesis using settleClaim_result [OF looped(12)] by auto
qed

text \<open>A key that is already recorded decides the answer without another record.\<close>

lemma replay_found:
  assumes "ClaimByKey s (ls_id l) (cr_key req) = Some cl" and "replay dec l req s = (res, s')"
  shows "res \<noteq> Inr None"
  using assms by (auto simp: replay_def split: prod.splits sum.splits if_splits)

lemma Lease_id: "Lease s i = Some l \<Longrightarrow> ls_id l = i"
  by (auto simp: Lease_def dest: find_row_Some)

lemma ClaimByKey_tables: "tables s' = tables s \<Longrightarrow> ClaimByKey s' l k = ClaimByKey s l k"
  by (simp add: ClaimByKey_def)

lemma Claim_known_key:
  assumes "ClaimByKey s (cr_lease req) (cr_key req) = Some cl"
    and "Claim sv dec env req s = (Inr c, s')"
  shows "claims s' = claims s \<and> messages s' = messages s \<and> bindings s' = bindings s"
  using assms(2)
proof (cases rule: Claim_cases)
  case (gated st s1 l i r reason)
  then show ?thesis using settleClaim_frame(2-4) [OF gated(7)] by simp
next
  case (replayed st s1 l i r c0 t)
  then show ?thesis
    using settleClaim_frame(2-4) [OF replayed(8)] replay_frame(1) [OF replayed(7)] by simp
next
  case (looped st s1 l i r c0 t t1 waits deadline u)
  have "ClaimByKey s1 (ls_id l) (cr_key req) = Some cl"
    using assms(1) Lease_id [OF looped(1)] ClaimByKey_tables [OF looped(5)] by simp
  from replay_found [OF this looped(7)] show ?thesis by simp
qed

text \<open>
  A claim's answer carries a value exactly when its reason is \<^verbatim>\<open>claim_ok\<close>, on every path:
  gates, replay, attempts and the explanation after the deadline.
\<close>

lemma value_iff_ok:
  assumes "Claim sv dec env req s = (Inr c, s')"
  shows "claim_OK c \<longleftrightarrow> cm_value c \<noteq> []"
  using Claim_discreet [OF assms] by (simp add: discreet_def)

end
