(* ===== verification/EventIds.thy ===== *)
theory EventIds
  imports Prelude
begin

text \<open>
  Event identifiers of the bus: \<^verbatim>\<open>internal/sse/id.go\<close>. An identifier is printed as
  \<^verbatim>\<open>generation-seq\<close> and read back from a \<^verbatim>\<open>Last-Event-ID\<close> header; the parser accepts
  decimal digits within the range of \<^verbatim>\<open>int64\<close> and nothing else.
\<close>

section \<open>Identifiers\<close>

datatype event_id = EventID (Generation: int) (Seq: int)

definition zero_id :: event_id where "zero_id = EventID 0 0"

definition id_IsZero :: "event_id \<Rightarrow> bool" where
  "id_IsZero i \<longleftrightarrow> i = zero_id"

instantiation event_id :: linorder
begin

definition less_eq_event_id :: "event_id \<Rightarrow> event_id \<Rightarrow> bool" where
  "less_eq_event_id i j \<longleftrightarrow> (Generation i, Seq i) \<le> (Generation j, Seq j)"

definition less_event_id :: "event_id \<Rightarrow> event_id \<Rightarrow> bool" where
  "less_event_id i j \<longleftrightarrow> (Generation i, Seq i) < (Generation j, Seq j)"

instance
  by intro_classes
     (auto simp: less_eq_event_id_def less_event_id_def event_id.expand less_le_not_le)

end

section \<open>Decimal numbers\<close>

text \<open>\<^verbatim>\<open>strconv.FormatInt(i, 10)\<close> and the digits \<^verbatim>\<open>strconv.ParseInt\<close> reads.\<close>

definition digit_char :: "nat \<Rightarrow> char" where
  "digit_char n = char_of (48 + n)"

fun format_nat :: "nat \<Rightarrow> string" where
  "format_nat n =
     (if n < 10 then [digit_char n] else format_nat (n div 10) @ [digit_char (n mod 10)])"

declare format_nat.simps [simp del]

definition FormatInt :: "int \<Rightarrow> string" where
  "FormatInt i = (if i < 0 then CHR ''-'' # format_nat (nat (- i)) else format_nat (nat i))"

definition is_digit :: "char \<Rightarrow> bool" where
  "is_digit c \<longleftrightarrow> CHR ''0'' \<le> c \<and> c \<le> CHR ''9''"

definition digit_val :: "char \<Rightarrow> nat" where
  "digit_val c = of_char c - 48"

definition decimal_value :: "string \<Rightarrow> nat" where
  "decimal_value s = foldl (\<lambda>n c. 10 * n + digit_val c) 0 s"

definition max_int64 :: int where "max_int64 = 2 ^ 63 - 1"

definition parseIDPart :: "string \<Rightarrow> int option" where
  "parseIDPart s =
     (if s = [] then None
      else if \<not> list_all is_digit s then None
      else if max_int64 < int (decimal_value s) then None
      else Some (int (decimal_value s)))"

section \<open>Printing and parsing\<close>

definition id_String :: "event_id \<Rightarrow> string" where
  "id_String i = FormatInt (Generation i) @ ''-'' @ FormatInt (Seq i)"

text \<open>\<^verbatim>\<open>strings.Cut(s, "-")\<close>.\<close>

fun cut_dash :: "string \<Rightarrow> (string \<times> string) option" where
  "cut_dash [] = None"
| "cut_dash (c # s) =
     (if c = CHR ''-'' then Some ([], s)
      else case cut_dash s of None \<Rightarrow> None | Some (a, b) \<Rightarrow> Some (c # a, b))"

definition ParseEventID :: "string \<Rightarrow> event_id option" where
  "ParseEventID s =
     (case cut_dash s of
        None \<Rightarrow> None
      | Some (g, q) \<Rightarrow>
          (case parseIDPart g of
             None \<Rightarrow> None
           | Some generation \<Rightarrow>
               (case parseIDPart q of
                  None \<Rightarrow> None
                | Some sequence \<Rightarrow> Some (EventID generation sequence))))"

section \<open>Lemmas\<close>

lemma digit_char_digit [simp]: "n < 10 \<Longrightarrow> is_digit (digit_char n)"
  by (simp add: is_digit_def digit_char_def less_eq_char_def)

lemma digit_val_char [simp]: "n < 10 \<Longrightarrow> digit_val (digit_char n) = n"
  by (simp add: digit_val_def digit_char_def)

lemma digit_not_dash: "is_digit c \<Longrightarrow> c \<noteq> CHR ''-''"
  by (auto simp: is_digit_def less_eq_char_def)

lemma decimal_value_snoc [simp]:
  "decimal_value (s @ [c]) = 10 * decimal_value s + digit_val c"
  by (simp add: decimal_value_def)

lemma format_nat_digits: "list_all is_digit (format_nat n)"
  by (induction n rule: format_nat.induct) (subst format_nat.simps, simp)

lemma format_nat_nonempty [simp]: "format_nat n \<noteq> []"
  by (subst format_nat.simps) simp

lemma decimal_value_single [simp]: "decimal_value [c] = digit_val c"
  by (simp add: decimal_value_def)

lemma decimal_value_format [simp]: "decimal_value (format_nat n) = n"
proof (induction n rule: format_nat.induct)
  case (1 n)
  show ?case
  proof (cases "n < 10")
    case True
    then show ?thesis by (simp add: format_nat.simps [of n])
  next
    case False
    then show ?thesis using 1 by (simp add: format_nat.simps [of n])
  qed
qed

lemma parseIDPart_format:
  "0 \<le> i \<Longrightarrow> i \<le> max_int64 \<Longrightarrow> parseIDPart (FormatInt i) = Some i"
  by (simp add: parseIDPart_def FormatInt_def format_nat_digits)

lemma cut_dash_first:
  assumes "\<forall>c\<in>set a. c \<noteq> CHR ''-''"
  shows "cut_dash (a @ ''-'' @ b) = Some (a, b)"
  using assms by (induction a) auto

lemma FormatInt_no_dash: "0 \<le> i \<Longrightarrow> \<forall>c\<in>set (FormatInt i). c \<noteq> CHR ''-''"
  using format_nat_digits [of "nat i"]
  by (auto simp: FormatInt_def list_all_iff digit_not_dash)

lemma ParseEventID_range:
  assumes "ParseEventID s = Some i"
  shows "0 \<le> Generation i \<and> Generation i \<le> max_int64 \<and> 0 \<le> Seq i \<and> Seq i \<le> max_int64"
proof -
  have part: "0 \<le> n \<and> n \<le> max_int64" if "parseIDPart a = Some n" for a n
    using that by (auto simp: parseIDPart_def split: if_splits)
  from assms obtain a b g q where
    "parseIDPart a = Some g" "parseIDPart b = Some q" "i = EventID g q"
    by (auto simp: ParseEventID_def split: option.splits prod.splits)
  then show ?thesis using part by auto
qed

text \<open>What the parser takes: two runs of digits around the first dash.\<close>

lemma cut_dash_Some: "cut_dash s = Some (a, b) \<Longrightarrow> s = a @ ''-'' @ b"
  by (induction s arbitrary: a) (auto split: if_splits option.splits)

lemma ParseEventID_shape:
  assumes "ParseEventID s = Some i"
  obtains a b where "s = a @ ''-'' @ b" and "a \<noteq> []" and "b \<noteq> []"
    and "list_all is_digit a" and "list_all is_digit b"
proof -
  from assms obtain a b where cut: "cut_dash s = Some (a, b)"
    and ab: "parseIDPart a \<noteq> None" "parseIDPart b \<noteq> None"
    by (auto simp: ParseEventID_def split: option.splits prod.splits)
  show ?thesis
  proof (rule that)
    show "s = a @ ''-'' @ b" using cut by (rule cut_dash_Some)
    show "a \<noteq> []" "b \<noteq> []" "list_all is_digit a" "list_all is_digit b"
      using ab by (simp_all add: parseIDPart_def split: if_split_asm)
  qed
qed

text \<open>
  Whatever text a client presents as its last event identifier, the parser answers with a
  pair of non-negative signed 64-bit numbers, read from two non-empty runs of digits around a
  dash, or refuses it.
\<close>

lemma parsed_event_id_in_range:
  assumes "ParseEventID s = Some i"
  shows "0 \<le> Generation i \<and> Generation i < 2 ^ 63 \<and> 0 \<le> Seq i \<and> Seq i < 2 ^ 63 \<and>
     (\<exists>a b. s = a @ ''-'' @ b \<and> a \<noteq> [] \<and> b \<noteq> [] \<and> list_all is_digit a \<and> list_all is_digit b)"
proof -
  have "\<exists>a b. s = a @ ''-'' @ b \<and> a \<noteq> [] \<and> b \<noteq> [] \<and> list_all is_digit a \<and> list_all is_digit b"
    by (rule ParseEventID_shape [OF assms]) blast
  then show ?thesis using ParseEventID_range [OF assms] by (simp add: max_int64_def)
qed

end
