(* ===== verification/Ring.thy ===== *)
theory Ring
  imports EventIds
begin

text \<open>
  The replay ring of the bus: \<^verbatim>\<open>internal/sse/ring.go\<close>. A slice of fixed capacity keeps
  the most recent events; \<open>snapshot\<close> reads them in publish order and \<open>after\<close> answers which
  events follow an identifier, or that the gap cannot be closed.

  The bus uses a ring through what \<open>replay_buffer\<close> promises: its contents are the last events
  added, as many as it has room for.
\<close>

section \<open>Events\<close>

text \<open>
  \<^verbatim>\<open>MessageRef\<close>, \<^verbatim>\<open>Publication\<close> and \<^verbatim>\<open>Event\<close> of \<^verbatim>\<open>bus.go\<close>.
\<close>

record message_ref =
  mr_id :: ident
  mr_project :: ident
  mr_subject :: string
  mr_recipients :: "string list"
  mr_received_at :: time

record publication =
  pb_name :: string
  pb_data :: string
  pb_message :: "message_ref option"

record sse_event =
  ev_id :: event_id
  ev_name :: string
  ev_data :: string
  ev_message :: "message_ref option"

section \<open>The ring\<close>

definition ringSize :: nat where "ringSize = 1024"

record ring =
  rg_events :: "sse_event list"
  rg_next :: nat
  rg_cap :: nat

definition newRing :: "nat \<Rightarrow> ring" where
  "newRing n = \<lparr>rg_events = [], rg_next = 0, rg_cap = n\<rparr>"

definition ring_add :: "ring \<Rightarrow> sse_event \<Rightarrow> ring" where
  "ring_add r e =
     (if length (rg_events r) < rg_cap r then r\<lparr>rg_events := rg_events r @ [e]\<rparr>
      else r\<lparr>rg_events := (rg_events r)[rg_next r := e],
             rg_next := (rg_next r + 1) mod length (rg_events r)\<rparr>)"

definition snapshot :: "ring \<Rightarrow> sse_event list" where
  "snapshot r =
     (if rg_next r = 0 then rg_events r
      else drop (rg_next r) (rg_events r) @ take (rg_next r) (rg_events r))"

definition ring_after :: "ring \<Rightarrow> event_id \<Rightarrow> sse_event list option" where
  "ring_after r i =
     (let all = snapshot r
      in if all = [] then (if Seq i = 0 then Some [] else None)
         else let oldest = Seq (ev_id (hd all)); newest = Seq (ev_id (last all))
              in if Seq i < oldest - 1 \<or> newest < Seq i then None
                 else Some (drop (length all - nat (newest - Seq i)) all))"

section \<open>What a replay buffer promises\<close>

definition last_n :: "nat \<Rightarrow> 'a list \<Rightarrow> 'a list" where
  "last_n n xs = drop (length xs - n) xs"

lemma last_n_simps [simp]:
  "last_n n [] = []" "length (last_n n xs) = min n (length xs)"
  by (simp_all add: last_n_def)

lemma last_n_all: "length xs \<le> n \<Longrightarrow> last_n n xs = xs"
  by (simp add: last_n_def)

lemma last_n_snoc:
  "0 < n \<Longrightarrow> last_n n (xs @ [x]) =
     (if length xs < n then last_n n xs else tl (last_n n xs)) @ [x]"
  by (auto simp: last_n_def drop_Suc Suc_diff_le tl_drop not_less)

locale replay_buffer =
  fixes empty :: 'b
    and add :: "'b \<Rightarrow> 'e \<Rightarrow> 'b"
    and contents :: "'b \<Rightarrow> 'e list"
    and ok :: "'b \<Rightarrow> bool"
    and size :: nat
  assumes room: "0 < size"
    and ok_empty: "ok empty"
    and contents_empty: "contents empty = []"
    and ok_add: "ok b \<Longrightarrow> ok (add b e)"
    and contents_add: "ok b \<Longrightarrow> contents (add b e) =
      (if length (contents b) < size then contents b else tl (contents b)) @ [e]"
begin

lemma ok_added: "ok b \<Longrightarrow> ok (foldl add b es)"
  by (induction es arbitrary: b) (auto intro: ok_add)

text \<open>The contents after any sequence of additions are the most recent ones, in order.\<close>

lemma contents_added: "contents (foldl add empty es) = last_n size es"
proof (induction es rule: rev_induct)
  case (snoc e es)
  have "ok (foldl add empty es)" using ok_empty by (rule ok_added)
  then have "contents (foldl add empty (es @ [e])) =
      (if length (contents (foldl add empty es)) < size then contents (foldl add empty es)
       else tl (contents (foldl add empty es))) @ [e]"
    by (simp add: contents_add)
  then show ?case
    by (simp add: snoc last_n_snoc [OF room] last_n_all)
qed (simp add: contents_empty)

lemma keeps_newest: "es \<noteq> [] \<Longrightarrow> last (contents (foldl add empty es)) = last es"
  using room by (simp add: contents_added last_n_def last_drop)

end

text \<open>The ring's own invariant: it wraps only when it is full.\<close>

definition ring_ok :: "nat \<Rightarrow> ring \<Rightarrow> bool" where
  "ring_ok n r \<longleftrightarrow> rg_cap r = n \<and> length (rg_events r) \<le> n \<and>
     (rg_next r \<noteq> 0 \<longrightarrow> length (rg_events r) = n \<and> rg_next r < n)"

lemma snapshot_add_full:
  assumes "k < length es"
  shows "drop (Suc k) (es[k := e]) @ take (Suc k) (es[k := e]) = tl (drop k es @ take k es) @ [e]"
proof -
  have "drop k es \<noteq> []" using assms by simp
  then have "tl (drop k es @ take k es) = drop (Suc k) es @ take k es"
    by (simp add: drop_Suc tl_drop)
  moreover have "take (Suc k) (es[k := e]) = take k es @ [e]"
    using assms by (simp add: take_Suc_conv_app_nth)
  ultimately show ?thesis by simp
qed

lemma snapshot_ring_add:
  assumes "ring_ok n r" and "0 < n"
  shows "snapshot (ring_add r e) =
    (if length (snapshot r) < n then snapshot r else tl (snapshot r)) @ [e]"
proof (cases "length (rg_events r) < n")
  case True
  then have "rg_next r = 0" using assms(1) by (auto simp: ring_ok_def)
  with True assms(1) show ?thesis by (simp add: ring_add_def snapshot_def ring_ok_def)
next
  case False
  then have full: "length (rg_events r) = n" "rg_cap r = n" "rg_next r < n"
    using assms by (auto simp: ring_ok_def)
  then have add: "ring_add r e = r\<lparr>rg_events := (rg_events r)[rg_next r := e],
      rg_next := (rg_next r + 1) mod n\<rparr>"
    by (simp add: ring_add_def)
  have whole: "snapshot r = drop (rg_next r) (rg_events r) @ take (rg_next r) (rg_events r)"
    by (simp add: snapshot_def)
  have "snapshot (ring_add r e) =
      drop (Suc (rg_next r)) ((rg_events r)[rg_next r := e]) @
      take (Suc (rg_next r)) ((rg_events r)[rg_next r := e])"
  proof (cases "Suc (rg_next r) = n")
    case True
    then show ?thesis using full by (simp add: add snapshot_def)
  next
    case False
    then have "(rg_next r + 1) mod n = Suc (rg_next r)" using full(3) by simp
    then show ?thesis by (simp add: add snapshot_def)
  qed
  also have "\<dots> = tl (snapshot r) @ [e]"
    unfolding whole using full by (intro snapshot_add_full) simp
  finally show ?thesis using full whole by simp
qed

lemma ring_ok_add: "ring_ok n r \<Longrightarrow> 0 < n \<Longrightarrow> ring_ok n (ring_add r e)"
  by (auto simp: ring_ok_def ring_add_def)

interpretation bus_ring: replay_buffer "newRing ringSize" ring_add snapshot "ring_ok ringSize" ringSize
  by unfold_locales
     (auto simp: ringSize_def ring_ok_add snapshot_ring_add, auto simp: newRing_def ring_ok_def snapshot_def)

section \<open>Continuing from an identifier\<close>

text \<open>
  Events numbered one after the other, which is how the bus numbers them.
\<close>

definition numbered :: "int \<Rightarrow> sse_event list \<Rightarrow> bool" where
  "numbered k es \<longleftrightarrow> (\<forall>i<length es. Seq (ev_id (es ! i)) = k + int i)"

lemma numbered_drop: "numbered k es \<Longrightarrow> n \<le> length es \<Longrightarrow> numbered (k + int n) (drop n es)"
  by (auto simp: numbered_def)

lemma numbered_append:
  "numbered k es \<Longrightarrow> Seq (ev_id e) = k + int (length es) \<Longrightarrow> numbered k (es @ [e])"
  by (auto simp: numbered_def nth_append less_Suc_eq)

lemma ring_after_numbered:
  assumes "numbered k (snapshot r)" and "snapshot r \<noteq> []"
  shows "ring_after r i =
    (if k - 1 \<le> Seq i \<and> Seq i < k + int (length (snapshot r))
     then Some (drop (nat (Seq i - (k - 1))) (snapshot r)) else None)"
proof -
  let ?es = "snapshot r"
  have hd: "Seq (ev_id (hd ?es)) = k"
    using assms by (simp add: numbered_def hd_conv_nth)
  have last: "Seq (ev_id (last ?es)) = k + int (length ?es) - 1"
    using assms by (simp add: numbered_def last_conv_nth of_nat_diff Suc_leI)
  have "length ?es - nat (k + int (length ?es) - 1 - Seq i) = nat (Seq i - (k - 1))"
    if "k - 1 \<le> Seq i" and "Seq i < k + int (length ?es)"
    using that by linarith
  then show ?thesis
    using assms(2) by (auto simp: ring_after_def Let_def hd last)
qed

lemma ring_after_empty: "snapshot r = [] \<Longrightarrow> ring_after r i = (if Seq i = 0 then Some [] else None)"
  by (simp add: ring_after_def)

text \<open>
  With the events 1 to \<open>m\<close> published, the ring answers an identifier with exactly what
  followed it, or refuses because some of that is gone.
\<close>

lemma ring_after_published:
  assumes "numbered 1 log" and "r = foldl ring_add (newRing ringSize) log"
  shows "ring_after r i =
    (if int (length log) - int ringSize \<le> Seq i \<and> 0 \<le> Seq i \<and> Seq i \<le> int (length log)
     then Some (drop (nat (Seq i)) log) else None)"
proof (cases "log = []")
  case True
  then show ?thesis
    using assms(2) by (simp add: ring_after_def newRing_def snapshot_def)
next
  case False
  let ?k = "length log - ringSize"
  have snap: "snapshot r = drop ?k log"
    by (simp add: assms(2) bus_ring.contents_added last_n_def)
  have num: "numbered (1 + int ?k) (snapshot r)"
    unfolding snap by (rule numbered_drop [OF assms(1)]) simp
  have ne: "snapshot r \<noteq> []" using False bus_ring.room by (cases log) (auto simp: snap)
  have eq: "nat (Seq i - int ?k) + ?k = nat (Seq i)" if "int ?k \<le> Seq i"
    using that by linarith
  show ?thesis
    unfolding ring_after_numbered [OF num ne] using False
    by (auto simp: snap eq)
qed

end
