(* ===== verification/Bus.thy ===== *)
theory Bus
  imports Ring "HOL-Library.Sublist"
begin

text \<open>
  The in-process event bus: \<^verbatim>\<open>internal/sse/bus.go\<close> and \<^verbatim>\<open>waiters.go\<close>. One goroutine
  owns the subscribers, the waiters and the replay ring, so its loop is a step relation whose
  steps are the cases of its \<^verbatim>\<open>select\<close>, together with what readers do to their channels.

  A subscription or waiter is a pointer in the source; here it carries a key. A channel is the
  list of what is buffered in it and whether it was closed. The fields \<open>sb_taken\<close>,
  \<open>wt_mark\<close> and \<open>bus_log\<close> record history: what a reader has received, how much had been
  published when the waiter was last empty-handed, and everything published.
\<close>

section \<open>State\<close>

definition publishBuffer :: nat where "publishBuffer = 64"
definition subscriberBuffer :: nat where "subscriberBuffer = 64"

record subscription =
  sb_key :: nat
  sb_replay :: "sse_event list"
  sb_reset :: bool
  sb_anchor :: event_id
  sb_buffer :: "sse_event list"
  sb_closed :: bool
  sb_evicted :: bool
  sb_taken :: "sse_event list"

record waiter =
  wt_key :: nat
  wt_match :: "sse_event \<Rightarrow> bool"
  wt_buffer :: "sse_event option"
  wt_closed :: bool
  wt_mark :: nat

record bus =
  bus_generation :: int
  bus_seq :: int
  bus_queue :: "publication list"
  bus_ring :: ring
  bus_subs :: "subscription list"
  bus_waiters :: "waiter list"
  bus_stopped :: bool
  bus_log :: "sse_event list"

definition NewBus :: "int \<Rightarrow> bus" where
  "NewBus g = \<lparr>bus_generation = g, bus_seq = 0, bus_queue = [], bus_ring = newRing ringSize,
     bus_subs = [], bus_waiters = [], bus_stopped = False, bus_log = []\<rparr>"

section \<open>Delivering\<close>

definition sub_deliver :: "sse_event \<Rightarrow> subscription \<Rightarrow> subscription" where
  "sub_deliver e s =
     (if length (sb_buffer s) < subscriberBuffer then s\<lparr>sb_buffer := sb_buffer s @ [e]\<rparr>
      else s\<lparr>sb_evicted := True, sb_closed := True\<rparr>)"

definition waiter_deliver :: "sse_event \<Rightarrow> waiter \<Rightarrow> waiter" where
  "waiter_deliver e w =
     (case wt_buffer w of None \<Rightarrow> w\<lparr>wt_buffer := Some e\<rparr> | Some _ \<Rightarrow> w)"

section \<open>The cases of the loop\<close>

text \<open>\<^verbatim>\<open>Publish\<close>; \<open>None\<close> is a call that blocks because the buffer is full.\<close>

definition Publish :: "publication \<Rightarrow> bus \<Rightarrow> ((err + unit) \<times> bus) option" where
  "Publish p b =
     (if bus_stopped b then Some (Inl ErrBusStopped, b)
      else if length (bus_queue b) < publishBuffer
        then Some (Inr (), b\<lparr>bus_queue := bus_queue b @ [p]\<rparr>)
      else None)"

definition publish_event :: "publication \<Rightarrow> bus \<Rightarrow> bus" where
  "publish_event p b =
     (let n = bus_seq b + 1;
          e = \<lparr>ev_id = EventID (bus_generation b) n, ev_name = pb_name p, ev_data = pb_data p,
               ev_message = pb_message p\<rparr>
      in b\<lparr>bus_seq := n,
           bus_ring := ring_add (bus_ring b) e,
           bus_waiters := map (\<lambda>w. if \<not> wt_closed w \<and> wt_match w e then waiter_deliver e w else w)
             (bus_waiters b),
           bus_subs := map (\<lambda>s. if \<not> sb_closed s then sub_deliver e s else s) (bus_subs b),
           bus_log := bus_log b @ [e]\<rparr>)"

definition run_publish :: "bus \<Rightarrow> bus" where
  "run_publish b =
     (case bus_queue b of
        [] \<Rightarrow> b
      | p # ps \<Rightarrow> publish_event p (b\<lparr>bus_queue := ps\<rparr>))"

definition fresh_key :: "nat list \<Rightarrow> nat" where
  "fresh_key ks = Suc (foldr max ks 0)"

definition new_subscription :: "event_id \<Rightarrow> bus \<Rightarrow> subscription" where
  "new_subscription from b =
     (let s = \<lparr>sb_key = fresh_key (map sb_key (bus_subs b)), sb_replay = [], sb_reset = False,
               sb_anchor = EventID (bus_generation b) (bus_seq b), sb_buffer = [],
               sb_closed = False, sb_evicted = False, sb_taken = []\<rparr>
      in if id_IsZero from then s
         else if Generation from \<noteq> bus_generation b then s\<lparr>sb_reset := True\<rparr>
         else (case ring_after (bus_ring b) from of
                 None \<Rightarrow> s\<lparr>sb_reset := True\<rparr>
               | Some missed \<Rightarrow> s\<lparr>sb_replay := missed\<rparr>))"

definition SubscribeFrom :: "event_id \<Rightarrow> bus \<Rightarrow> (err + subscription) \<times> bus" where
  "SubscribeFrom from b =
     (if bus_stopped b then (Inl ErrBusStopped, b)
      else let s = new_subscription from b
           in (Inr s, b\<lparr>bus_subs := bus_subs b @ [s]\<rparr>))"

definition SubscribeMatch :: "(sse_event \<Rightarrow> bool) \<Rightarrow> bus \<Rightarrow> (err + nat) \<times> bus" where
  "SubscribeMatch m b =
     (if bus_stopped b then (Inl ErrBusStopped, b)
      else let k = fresh_key (map wt_key (bus_waiters b))
           in (Inr k, b\<lparr>bus_waiters := bus_waiters b @
                 [\<lparr>wt_key = k, wt_match = m, wt_buffer = None, wt_closed = False,
                   wt_mark = length (bus_log b)\<rparr>]\<rparr>))"

definition drop_subscription :: "nat \<Rightarrow> bus \<Rightarrow> bus" where
  "drop_subscription k b =
     b\<lparr>bus_subs := update_where (\<lambda>s. sb_key s = k \<and> \<not> sb_closed s)
        (\<lambda>s. s\<lparr>sb_closed := True\<rparr>) (bus_subs b)\<rparr>"

definition drop_waiter :: "nat \<Rightarrow> bus \<Rightarrow> bus" where
  "drop_waiter k b =
     b\<lparr>bus_waiters := update_where (\<lambda>w. wt_key w = k \<and> \<not> wt_closed w)
        (\<lambda>w. w\<lparr>wt_closed := True\<rparr>) (bus_waiters b)\<rparr>"

definition stop_bus :: "bus \<Rightarrow> bus" where
  "stop_bus b =
     b\<lparr>bus_subs := map (\<lambda>s. s\<lparr>sb_closed := True\<rparr>) (bus_subs b),
       bus_waiters := map (\<lambda>w. w\<lparr>wt_closed := True\<rparr>) (bus_waiters b),
       bus_stopped := True\<rparr>"

section \<open>Readers\<close>

text \<open>
  Receiving from a channel: a buffered event comes out first, then a closed channel answers
  that it is closed, and an open empty one blocks, which is \<open>None\<close>.
\<close>

definition recv_sub :: "subscription \<Rightarrow> (sse_event option \<times> subscription) option" where
  "recv_sub s =
     (case sb_buffer s of
        e # es \<Rightarrow> Some (Some e, s\<lparr>sb_buffer := es, sb_taken := sb_taken s @ [e]\<rparr>)
      | [] \<Rightarrow> if sb_closed s then Some (None, s) else None)"

definition Wait :: "nat \<Rightarrow> waiter \<Rightarrow> (sse_event option \<times> waiter) option" where
  "Wait published w =
     (case wt_buffer w of
        Some e \<Rightarrow> Some (Some e, w\<lparr>wt_buffer := None, wt_mark := published\<rparr>)
      | None \<Rightarrow> if wt_closed w then Some (None, w) else None)"

section \<open>Steps\<close>

inductive bus_step :: "bus \<Rightarrow> bus \<Rightarrow> bool" where
  queue: "Publish p b = Some (r, b') \<Longrightarrow> bus_step b b'"
| publish: "\<not> bus_stopped b \<Longrightarrow> bus_step b (run_publish b)"
| subscribe: "SubscribeFrom from b = (r, b') \<Longrightarrow> bus_step b b'"
| match: "SubscribeMatch m b = (r', b') \<Longrightarrow> bus_step b b'"
| drop_sub: "\<not> bus_stopped b \<Longrightarrow> bus_step b (drop_subscription k b)"
| drop_wait: "\<not> bus_stopped b \<Longrightarrow> bus_step b (drop_waiter k b)"
| receive: "i < length (bus_subs b) \<Longrightarrow> recv_sub (bus_subs b ! i) = Some (e, s') \<Longrightarrow>
    bus_step b (b\<lparr>bus_subs := (bus_subs b)[i := s']\<rparr>)"
| wake: "i < length (bus_waiters b) \<Longrightarrow>
    Wait (length (bus_log b)) (bus_waiters b ! i) = Some (e, w') \<Longrightarrow>
    bus_step b (b\<lparr>bus_waiters := (bus_waiters b)[i := w']\<rparr>)"
| stop: "bus_step b (stop_bus b)"

inductive bus_reachable :: "int \<Rightarrow> bus \<Rightarrow> bool" for g where
  start: "bus_reachable g (NewBus g)"
| step: "bus_reachable g b \<Longrightarrow> bus_step b b' \<Longrightarrow> bus_reachable g b'"

section \<open>The bus invariant\<close>

text \<open>
  Events carry the generation and are numbered from one; the ring is what adding them all
  leaves; a subscription has received and buffered exactly the events after its anchor, all of
  them while it is open and an initial part once it was closed; a waiter that a matching event
  has reached since it last came away is holding one.
\<close>

definition sub_ok :: "sse_event list \<Rightarrow> subscription \<Rightarrow> bool" where
  "sub_ok log s \<longleftrightarrow>
     0 \<le> Seq (sb_anchor s) \<and> Seq (sb_anchor s) \<le> int (length log) \<and>
     prefix (sb_taken s @ sb_buffer s) (drop (nat (Seq (sb_anchor s))) log) \<and>
     (\<not> sb_closed s \<longrightarrow> sb_taken s @ sb_buffer s = drop (nat (Seq (sb_anchor s))) log) \<and>
     length (sb_buffer s) \<le> subscriberBuffer"

definition waiter_ok :: "sse_event list \<Rightarrow> waiter \<Rightarrow> bool" where
  "waiter_ok log w \<longleftrightarrow>
     wt_mark w \<le> length log \<and>
     (\<not> wt_closed w \<longrightarrow>
       (wt_buffer w \<noteq> None \<longleftrightarrow> list_ex (wt_match w) (drop (wt_mark w) log))) \<and>
     (case wt_buffer w of None \<Rightarrow> True | Some e \<Rightarrow> wt_match w e \<and> e \<in> set log)"

definition bus_inv :: "bus \<Rightarrow> bool" where
  "bus_inv b \<longleftrightarrow>
     bus_seq b = int (length (bus_log b)) \<and>
     numbered 1 (bus_log b) \<and>
     list_all (\<lambda>e. Generation (ev_id e) = bus_generation b) (bus_log b) \<and>
     bus_ring b = foldl ring_add (newRing ringSize) (bus_log b) \<and>
     list_all (sub_ok (bus_log b)) (bus_subs b) \<and>
     list_all (waiter_ok (bus_log b)) (bus_waiters b) \<and>
     length (bus_queue b) \<le> publishBuffer"


lemma drop_snoc: "k \<le> length xs \<Longrightarrow> drop k (xs @ [x]) = drop k xs @ [x]"
  by simp

lemma sub_ok_deliver:
  assumes "sub_ok log s" and "\<not> sb_closed s"
  shows "sub_ok (log @ [e]) (sub_deliver e s)"
proof -
  let ?k = "nat (Seq (sb_anchor s))"
  have k: "?k \<le> length log" using assms(1) by (simp add: sub_ok_def nat_le_iff)
  have all: "sb_taken s @ sb_buffer s = drop ?k log"
    using assms by (simp add: sub_ok_def)
  have snoc: "sb_taken s @ sb_buffer s @ [e] = drop ?k log @ [e]"
    using all by simp
  show ?thesis
    using assms(1) all
    by (simp add: sub_ok_def sub_deliver_def drop_snoc [OF k] snoc del: drop_append)
qed

lemma sub_ok_log:
  assumes "sub_ok log s" and "sb_closed s"
  shows "sub_ok (log @ [e]) s"
proof -
  have k: "nat (Seq (sb_anchor s)) \<le> length log" using assms(1) by (simp add: sub_ok_def nat_le_iff)
  show ?thesis
    using assms unfolding sub_ok_def drop_snoc [OF k] by simp
qed

lemma waiter_ok_event:
  assumes "waiter_ok log w"
  shows "waiter_ok (log @ [e]) (if \<not> wt_closed w \<and> wt_match w e then waiter_deliver e w else w)"
  using assms
  by (auto simp: waiter_ok_def waiter_deliver_def split: option.splits)

lemma bus_inv_NewBus: "bus_inv (NewBus g)"
  by (simp add: bus_inv_def NewBus_def numbered_def)

lemma bus_inv_publish:
  assumes inv: "bus_inv b"
  shows "bus_inv (publish_event p b)"
proof -
  let ?e = "\<lparr>ev_id = EventID (bus_generation b) (bus_seq b + 1), ev_name = pb_name p,
               ev_data = pb_data p, ev_message = pb_message p\<rparr>"
  have "list_all (sub_ok (bus_log b @ [?e]))
      (map (\<lambda>s. if \<not> sb_closed s then sub_deliver ?e s else s) (bus_subs b))"
    using inv by (auto simp: bus_inv_def list_all_iff sub_ok_deliver sub_ok_log)
  moreover have "list_all (waiter_ok (bus_log b @ [?e]))
      (map (\<lambda>w. if \<not> wt_closed w \<and> wt_match w ?e then waiter_deliver ?e w else w)
        (bus_waiters b))"
    unfolding list_all_iff set_map
  proof
    fix w' assume "w' \<in> (\<lambda>w. if \<not> wt_closed w \<and> wt_match w ?e then waiter_deliver ?e w else w) `
      set (bus_waiters b)"
    then obtain w where "w \<in> set (bus_waiters b)"
      and "w' = (if \<not> wt_closed w \<and> wt_match w ?e then waiter_deliver ?e w else w)" by blast
    then show "waiter_ok (bus_log b @ [?e]) w'"
      using inv waiter_ok_event [of "bus_log b" w ?e] by (simp add: bus_inv_def list_all_iff)
  qed
  moreover have "numbered 1 (bus_log b @ [?e])"
    using inv by (intro numbered_append) (auto simp: bus_inv_def)
  ultimately show ?thesis
    using inv unfolding publish_event_def Let_def bus_inv_def by simp
qed

lemma new_subscription_ok:
  assumes "bus_inv b"
  shows "sub_ok (bus_log b) (new_subscription from b)"
  using assms
  by (auto simp: new_subscription_def Let_def sub_ok_def bus_inv_def split: option.split)

lemma recv_sub_ok:
  assumes "recv_sub s = Some (e, s')" and "sub_ok log s"
  shows "sub_ok log s'"
proof (cases "sb_buffer s")
  case Nil
  then show ?thesis using assms by (simp add: recv_sub_def split: if_splits)
next
  case (Cons x xs)
  then show ?thesis using assms by (auto simp: recv_sub_def sub_ok_def)
qed

lemma Wait_ok:
  assumes "Wait (length log) w = Some (e, w')" and "waiter_ok log w"
  shows "waiter_ok log w'"
  using assms by (auto simp: Wait_def waiter_ok_def split: option.splits if_splits)

lemma list_all_update: "list_all P xs \<Longrightarrow> P x \<Longrightarrow> list_all P (xs[i := x])"
  using set_update_subset_insert [of xs i x] by (auto simp: list_all_iff)

lemma sub_ok_close: "sub_ok log s \<Longrightarrow> sub_ok log (s\<lparr>sb_closed := True\<rparr>)"
  by (simp add: sub_ok_def)

lemma waiter_ok_close: "waiter_ok log w \<Longrightarrow> waiter_ok log (w\<lparr>wt_closed := True\<rparr>)"
  by (cases "wt_buffer w") (simp_all add: waiter_ok_def)

lemma bus_step_inv:
  assumes "bus_step b b'" and inv: "bus_inv b"
  shows "bus_inv b'"
  using assms(1)
proof cases
  case (queue p r)
  then show ?thesis
    using inv by (auto simp: Publish_def bus_inv_def split: if_splits)
next
  case publish
  show ?thesis
  proof (cases "bus_queue b")
    case Nil
    then show ?thesis using publish inv by (simp add: run_publish_def)
  next
    case (Cons p ps)
    have "bus_inv (b\<lparr>bus_queue := ps\<rparr>)" using inv Cons by (simp add: bus_inv_def)
    then show ?thesis using publish Cons by (simp add: run_publish_def bus_inv_publish)
  qed
next
  case (subscribe "from" r)
  then show ?thesis
    using inv new_subscription_ok [OF inv, of "from"]
    by (auto simp: SubscribeFrom_def bus_inv_def Let_def split: if_splits)
next
  case (match m r)
  then show ?thesis
    using inv by (auto simp: SubscribeMatch_def bus_inv_def Let_def waiter_ok_def split: if_splits)
next
  case (drop_sub k)
  then show ?thesis
    using inv by (auto simp: drop_subscription_def bus_inv_def list_all_iff set_update_where sub_ok_close)
next
  case (drop_wait k)
  then show ?thesis
    using inv by (auto simp: drop_waiter_def bus_inv_def list_all_iff set_update_where waiter_ok_close)
next
  case (receive i e s')
  have "sub_ok (bus_log b) (bus_subs b ! i)"
    using inv receive(2) by (simp add: bus_inv_def list_all_length)
  with receive inv recv_sub_ok show ?thesis
    by (auto simp: bus_inv_def intro!: list_all_update)
next
  case (wake i e w')
  have "waiter_ok (bus_log b) (bus_waiters b ! i)"
    using inv wake(2) by (simp add: bus_inv_def list_all_length)
  with wake inv Wait_ok show ?thesis
    by (auto simp: bus_inv_def intro!: list_all_update)
next
  case stop
  then show ?thesis
    using inv by (simp add: stop_bus_def bus_inv_def list_all_iff sub_ok_close waiter_ok_close)
qed

lemma bus_reachable_inv: "bus_reachable g b \<Longrightarrow> bus_inv b"
  by (induction rule: bus_reachable.induct) (auto intro: bus_inv_NewBus bus_step_inv)


section \<open>What a subscriber sees\<close>

inductive_cases bus_stepE: "bus_step b b'"

text \<open>What never changes about a subscription once it was handed out.\<close>

definition sub_frame :: "subscription \<Rightarrow> subscription \<Rightarrow> bool" where
  "sub_frame s t \<longleftrightarrow> sb_key t = sb_key s \<and> sb_replay t = sb_replay s \<and>
     sb_reset t = sb_reset s \<and> sb_anchor t = sb_anchor s \<and> (sb_closed s \<longrightarrow> sb_closed t) \<and>
     prefix (sb_taken s) (sb_taken t)"

lemma sub_frame_refl [simp]: "sub_frame s s"
  by (simp add: sub_frame_def)

lemma sub_frame_trans: "sub_frame s t \<Longrightarrow> sub_frame t u \<Longrightarrow> sub_frame s u"
  by (auto simp: sub_frame_def intro: prefix_order.trans)

definition subs_frame :: "bus \<Rightarrow> bus \<Rightarrow> bool" where
  "subs_frame b b' \<longleftrightarrow>
     bus_generation b' = bus_generation b \<and> prefix (bus_log b) (bus_log b') \<and>
     length (bus_subs b) \<le> length (bus_subs b') \<and>
     (\<forall>i<length (bus_subs b). sub_frame (bus_subs b ! i) (bus_subs b' ! i))"

lemma subs_frame_refl [simp]: "subs_frame b b"
  by (simp add: subs_frame_def)

lemma subs_frame_trans:
  assumes "subs_frame a b" and "subs_frame b c"
  shows "subs_frame a c"
  using assms unfolding subs_frame_def
  by (auto intro: prefix_order.trans sub_frame_trans dest: order_less_le_trans)

lemma subs_frame_same:
  "bus_generation b' = bus_generation b \<Longrightarrow> bus_log b' = bus_log b \<Longrightarrow> bus_subs b' = bus_subs b \<Longrightarrow>
     subs_frame b b'"
  by (simp add: subs_frame_def)

lemma subs_frame_map:
  assumes "\<And>s. sub_frame s (f s)" and "bus_subs b' = map f (bus_subs b)"
    and "bus_generation b' = bus_generation b" and "prefix (bus_log b) (bus_log b')"
  shows "subs_frame b b'"
  using assms by (simp add: subs_frame_def)

lemma sub_deliver_frame: "sub_frame s (sub_deliver e s)"
  by (simp add: sub_deliver_def sub_frame_def)

lemma recv_sub_frame: "recv_sub s = Some (e, s') \<Longrightarrow> sub_frame s s'"
  by (auto simp: recv_sub_def sub_frame_def split: list.splits if_splits)

lemma publish_event_frame: "subs_frame b (publish_event p b)"
  unfolding publish_event_def Let_def
  by (rule subs_frame_map [where f = "\<lambda>s. if \<not> sb_closed s then sub_deliver
        \<lparr>ev_id = EventID (bus_generation b) (bus_seq b + 1), ev_name = pb_name p,
         ev_data = pb_data p, ev_message = pb_message p\<rparr> s else s"])
     (simp_all add: sub_deliver_frame)

lemma bus_step_frame:
  assumes "bus_step b b'"
  shows "subs_frame b b'"
  using assms
proof cases
  case (queue p r)
  then show ?thesis
    by (intro subs_frame_same) (auto simp: Publish_def split: if_splits)
next
  case publish
  show ?thesis
  proof (cases "bus_queue b")
    case (Cons p ps)
    have "subs_frame b (b\<lparr>bus_queue := ps\<rparr>)" by (rule subs_frame_same) simp_all
    then show ?thesis
      using publish Cons subs_frame_trans [OF _ publish_event_frame] by (simp add: run_publish_def)
  qed (use publish in \<open>simp add: run_publish_def\<close>)
next
  case (subscribe "from" r)
  then show ?thesis
    by (auto simp: SubscribeFrom_def Let_def subs_frame_def nth_append split: if_splits)
next
  case (match m r)
  then show ?thesis
    by (intro subs_frame_same) (auto simp: SubscribeMatch_def Let_def split: if_splits)
next
  case (drop_sub k)
  show ?thesis
    unfolding drop_sub drop_subscription_def update_where_def
    by (rule subs_frame_map [where f = "\<lambda>s. if sb_key s = k \<and> \<not> sb_closed s
        then s\<lparr>sb_closed := True\<rparr> else s"]) (simp_all add: sub_frame_def)
next
  case (drop_wait k)
  then show ?thesis by (intro subs_frame_same) (auto simp: drop_waiter_def)
next
  case (receive i e s')
  then show ?thesis
    using recv_sub_frame [OF receive(3)] by (simp add: subs_frame_def nth_list_update)
next
  case (wake i e w')
  then show ?thesis by (intro subs_frame_same) simp_all
next
  case stop
  show ?thesis
    unfolding stop stop_bus_def
    by (rule subs_frame_map [where f = "\<lambda>s. s\<lparr>sb_closed := True\<rparr>"]) (simp_all add: sub_frame_def)
qed

lemma bus_steps_frame: "bus_step\<^sup>*\<^sup>* b b' \<Longrightarrow> subs_frame b b'"
  by (induction rule: rtranclp_induct) (auto intro: subs_frame_trans bus_step_frame)

lemma bus_steps_reachable: "bus_step\<^sup>*\<^sup>* b b' \<Longrightarrow> bus_reachable g b \<Longrightarrow> bus_reachable g b'"
  by (induction rule: rtranclp_induct) (auto intro: bus_reachable.step)

lemma bus_generation_reachable: "bus_reachable g b \<Longrightarrow> bus_generation b = g"
proof (induction rule: bus_reachable.induct)
  case (step b b')
  then show ?case using bus_step_frame [OF step(2)] by (simp add: subs_frame_def)
qed (simp add: NewBus_def)

text \<open>What the bus answers to a client that continues from an identifier of this boot.\<close>

lemma SubscribeFrom_continues:
  assumes "bus_inv b" and "SubscribeFrom from b = (Inr s, b1)"
    and "\<not> id_IsZero from" and "Generation from = bus_generation b"
  shows "b1 = b\<lparr>bus_subs := bus_subs b @ [s]\<rparr>"
    and "sb_anchor s = EventID (bus_generation b) (int (length (bus_log b)))"
    and "sb_reset s \<longleftrightarrow> \<not> (int (length (bus_log b)) - int ringSize \<le> Seq from \<and> 0 \<le> Seq from \<and>
           Seq from \<le> int (length (bus_log b)))"
    and "\<not> sb_reset s \<Longrightarrow> sb_replay s = drop (nat (Seq from)) (bus_log b)"
    and "sb_reset s \<Longrightarrow> sb_replay s = []"
proof -
  have s: "s = new_subscription from b" and b1: "b1 = b\<lparr>bus_subs := bus_subs b @ [s]\<rparr>"
    using assms(2) by (auto simp: SubscribeFrom_def Let_def split: if_splits)
  have after: "ring_after (bus_ring b) from =
    (if int (length (bus_log b)) - int ringSize \<le> Seq from \<and> 0 \<le> Seq from \<and>
        Seq from \<le> int (length (bus_log b))
     then Some (drop (nat (Seq from)) (bus_log b)) else None)"
    using assms(1) by (intro ring_after_published) (simp_all add: bus_inv_def)
  show "b1 = b\<lparr>bus_subs := bus_subs b @ [s]\<rparr>" by (rule b1)
  show "sb_anchor s = EventID (bus_generation b) (int (length (bus_log b)))"
    using assms(1) by (auto simp: s new_subscription_def Let_def bus_inv_def split: option.split)
  show "sb_reset s \<longleftrightarrow> \<not> (int (length (bus_log b)) - int ringSize \<le> Seq from \<and> 0 \<le> Seq from \<and>
           Seq from \<le> int (length (bus_log b)))"
    using assms(3,4) by (auto simp: s new_subscription_def Let_def after)
  show "\<not> sb_reset s \<Longrightarrow> sb_replay s = drop (nat (Seq from)) (bus_log b)"
    and "sb_reset s \<Longrightarrow> sb_replay s = []"
    using assms(3,4) by (auto simp: s new_subscription_def Let_def after split: if_splits)
qed

text \<open>
  Replay and live stream join without a gap or a repetition, however the bus is scheduled
  afterwards.
\<close>

lemma replay_then_live:
  assumes "bus_inv b" and sub: "SubscribeFrom from b = (Inr s, b1)"
    and "\<not> id_IsZero from" and "Generation from = bus_generation b" and "\<not> sb_reset s"
    and frame: "subs_frame b1 b2" and inv2: "bus_inv b2"
    and t: "t = bus_subs b2 ! length (bus_subs b)"
  shows "prefix (sb_replay t @ sb_taken t @ sb_buffer t) (drop (nat (Seq from)) (bus_log b2))"
    and "\<not> sb_closed t \<Longrightarrow>
      sb_replay t @ sb_taken t @ sb_buffer t = drop (nat (Seq from)) (bus_log b2)"
proof -
  note c = SubscribeFrom_continues [OF assms(1) sub assms(3,4)]
  let ?n = "length (bus_log b)" and ?k = "nat (Seq from)"
  have same: "sub_frame s t" and log: "prefix (bus_log b) (bus_log b2)"
    and len: "length (bus_subs b) < length (bus_subs b2)"
    using frame t unfolding subs_frame_def c(1)
    by (auto dest: spec [of _ "length (bus_subs b)"])
  then have replay: "sb_replay t = drop ?k (bus_log b)" and anchor: "nat (Seq (sb_anchor t)) = ?n"
    using c(2,4) assms(5) by (simp_all add: sub_frame_def)
  have k: "?k \<le> ?n" using c(3) assms(5) by (simp add: nat_le_iff)
  from log obtain more where more: "bus_log b2 = bus_log b @ more" by (auto simp: prefix_def)
  have all: "drop ?k (bus_log b2) = drop ?k (bus_log b) @ drop ?n (bus_log b2)"
    using k by (simp add: more)
  have ok: "sub_ok (bus_log b2) t"
    using inv2 len t by (simp add: bus_inv_def list_all_length)
  show "prefix (sb_replay t @ sb_taken t @ sb_buffer t) (drop ?k (bus_log b2))"
    using ok unfolding replay all sub_ok_def anchor by simp
  show "\<not> sb_closed t \<Longrightarrow> sb_replay t @ sb_taken t @ sb_buffer t = drop ?k (bus_log b2)"
    using ok unfolding replay all sub_ok_def anchor by simp
qed

section \<open>What a waiter misses\<close>

text \<open>A wait that blocks has nothing to answer with: no match was published since the last one.\<close>

lemma Wait_blocks:
  assumes "waiter_ok log w" and "Wait n w = None" and "mt \<in> set (drop (wt_mark w) log)"
  shows "\<not> wt_match w mt"
  using assms by (auto simp: Wait_def waiter_ok_def list_ex_iff split: option.splits if_splits)

lemma Wait_wakes:
  assumes "waiter_ok log w" and "\<not> wt_closed w" and "mt \<in> set (drop (wt_mark w) log)"
    and "wt_match w mt"
  obtains e w' where "Wait n w = Some (Some e, w')" and "wt_match w e" and "e \<in> set log"
proof -
  have "list_ex (wt_match w) (drop (wt_mark w) log)" using assms(3,4) by (auto simp: list_ex_iff)
  then obtain e where "wt_buffer w = Some e" "wt_match w e" "e \<in> set log"
    using assms(1,2) by (auto simp: waiter_ok_def split: option.splits)
  then show ?thesis using that by (simp add: Wait_def)
qed

section \<open>Publishing as a step\<close>

lemma published_reachable:
  assumes "bus_reachable g b" and "\<not> bus_stopped b" and "bus_queue b = []"
  shows "bus_reachable g (publish_event p b)"
proof -
  let ?q = "b\<lparr>bus_queue := [p]\<rparr>"
  have "Publish p b = Some (Inr (), ?q)"
    using assms(2,3) by (simp add: Publish_def publishBuffer_def)
  then have "bus_reachable g ?q" using assms(1) by (blast intro: bus_reachable.step bus_step.queue)
  moreover have "bus_step ?q (run_publish ?q)" using assms(2) by (intro bus_step.publish) simp
  moreover have "run_publish ?q = publish_event p b"
    using assms(3) by (cases b) (simp add: run_publish_def)
  ultimately show ?thesis by (metis bus_reachable.step)
qed

end
