(* ===== verification/Hub.thy ===== *)
theory Hub
  imports Bus
begin

text \<open>
  The event stream: \<^verbatim>\<open>internal/sse/hub.go\<close>. A client presents the identifier it last
  saw, receives one reset frame or the events it missed, and then live events, each as one
  frame of text. \<open>stream_decode\<close> is the receiving side, written from the event-stream format
  of the HTML standard and not from this repository: it says what a frame means.
\<close>

section \<open>Frames\<close>

definition LF :: char where "LF = CHR 0x0A"
definition CR :: char where "CR = CHR 0x0D"

lemma LF_CR [simp]: "LF \<noteq> CR" "CR \<noteq> LF"
  by (simp_all add: LF_def CR_def)

definition ResetEventName :: string where "ResetEventName = ''reset''"
definition resetData :: string where "resetData = ''{}''"

text \<open>\<^verbatim>\<open>bytes.Split(data, "\\n")\<close> and \<^verbatim>\<open>bytes.TrimSuffix(line, "\\r")\<close>.\<close>

fun split_lf :: "string \<Rightarrow> string list" where
  "split_lf [] = [[]]"
| "split_lf (c # cs) =
     (if c = LF then [] # split_lf cs
      else case split_lf cs of [] \<Rightarrow> [[c]] | l # ls \<Rightarrow> (c # l) # ls)"

definition trim_cr :: "string \<Rightarrow> string" where
  "trim_cr l = (if l \<noteq> [] \<and> last l = CR then butlast l else l)"

definition fld_id :: string where "fld_id = ''id: ''"
definition fld_event :: string where "fld_event = ''event: ''"
definition fld_data :: string where "fld_data = ''data: ''"

lemmas fields = fld_id_def fld_event_def fld_data_def

definition writeFrame :: "sse_event \<Rightarrow> string" where
  "writeFrame e =
     (fld_id @ id_String (ev_id e)) @ LF # (fld_event @ ev_name e) @ LF #
     concat (map (\<lambda>l. fld_data @ trim_cr l @ [LF]) (split_lf (ev_data e))) @ [LF]"

section \<open>Serving\<close>

text \<open>
  \<^verbatim>\<open>Serve\<close> up to its loop: the frames written before the live events, with the
  subscription the loop then reads.
\<close>

definition serve_from :: "string \<Rightarrow> event_id \<times> bool" where
  "serve_from lastEventID =
     (if lastEventID = [] then (zero_id, False)
      else case ParseEventID lastEventID of
        None \<Rightarrow> (zero_id, True)
      | Some i \<Rightarrow> (i, False))"

definition serve_start :: "string \<Rightarrow> bus \<Rightarrow> (err + (subscription \<times> sse_event list)) \<times> bus" where
  "serve_start lastEventID b =
     (case serve_from lastEventID of (from, malformed) \<Rightarrow>
        (case SubscribeFrom from b of
           (Inl e, b1) \<Rightarrow> (Inl e, b1)
         | (Inr s, b1) \<Rightarrow>
             let reset = (if sb_reset s \<or> malformed
                          then [\<lparr>ev_id = sb_anchor s, ev_name = ResetEventName,
                                 ev_data = resetData, ev_message = None\<rparr>] else [])
             in (Inr (s, reset @ sb_replay s), b1)))"

text \<open>The end of the loop: an evicted client is told so, a stopped bus otherwise.\<close>

definition serve_end :: "subscription \<Rightarrow> err" where
  "serve_end s = (if sb_evicted s then ErrOther else ErrBusStopped)"

section \<open>The receiving side\<close>

fun unify_newlines :: "bool \<Rightarrow> string \<Rightarrow> string" where
  "unify_newlines after_cr [] = []"
| "unify_newlines after_cr (c # cs) =
     (if c = CR then LF # unify_newlines True cs
      else if c = LF \<and> after_cr then unify_newlines False cs
      else c # unify_newlines False cs)"

record received =
  rv_id :: string
  rv_name :: string
  rv_data :: "string list"

definition cut_colon :: "string \<Rightarrow> string \<times> string" where
  "cut_colon l =
     (takeWhile (\<lambda>c. c \<noteq> CHR '':'') l,
      case dropWhile (\<lambda>c. c \<noteq> CHR '':'') l of
        [] \<Rightarrow> []
      | _ # v \<Rightarrow> if v \<noteq> [] \<and> hd v = CHR '' '' then tl v else v)"

definition read_field :: "string \<Rightarrow> received \<Rightarrow> received" where
  "read_field l r =
     (case cut_colon l of (f, v) \<Rightarrow>
        if f = ''data'' then r\<lparr>rv_data := rv_data r @ [v]\<rparr>
        else if f = ''event'' then r\<lparr>rv_name := v\<rparr>
        else if f = ''id'' then r\<lparr>rv_id := v\<rparr>
        else r)"

fun join_lf :: "string list \<Rightarrow> string" where
  "join_lf [] = []"
| "join_lf [l] = l"
| "join_lf (l # ls) = l @ LF # join_lf ls"

text \<open>An unfinished last line is not read; a blank line dispatches what has been read.\<close>

fun read_lines :: "string list \<Rightarrow> received \<Rightarrow> (string \<times> string \<times> string) list" where
  "read_lines [] r = []"
| "read_lines [l] r = []"
| "read_lines (l # m # ls) r =
     (if l = [] then
        (let rest = read_lines (m # ls) (r\<lparr>rv_name := [], rv_data := []\<rparr>)
         in if rv_data r = [] then rest
            else (rv_id r, rv_name r, join_lf (rv_data r)) # rest)
      else read_lines (m # ls) (read_field l r))"

definition stream_decode :: "string \<Rightarrow> (string \<times> string \<times> string) list" where
  "stream_decode s =
     read_lines (split_lf (unify_newlines False s)) \<lparr>rv_id = [], rv_name = [], rv_data = []\<rparr>"

section \<open>Lemmas\<close>

lemma split_lf_nonempty [simp]: "split_lf s \<noteq> []"
  by (cases s) (auto split: list.split)

lemma split_lf_append:
  "LF \<notin> set a \<Longrightarrow> split_lf (a @ LF # b) = a # split_lf b"
  by (induction a) auto

lemma join_split_lf: "join_lf (split_lf s) = s"
proof (induction s)
  case (Cons c s)
  then show ?case
    by (cases "split_lf s"; cases "tl (split_lf s)") auto
qed simp

lemma split_lf_lines: "l \<in> set (split_lf s) \<Longrightarrow> LF \<notin> set l \<and> set l \<subseteq> set s"
proof (induction s arbitrary: l)
  case (Cons c s)
  then show ?case by (cases "split_lf s") (fastforce split: if_splits)+
qed simp

lemma unify_newlines_id: "CR \<notin> set s \<Longrightarrow> unify_newlines False s = s"
  by (induction s) auto

lemma trim_cr_id: "CR \<notin> set l \<Longrightarrow> trim_cr l = l"
  by (metis last_in_set trim_cr_def)

text \<open>Reading the lines of a frame one by one.\<close>

lemma read_lines_field:
  "l \<noteq> [] \<Longrightarrow> ls \<noteq> [] \<Longrightarrow> read_lines (l # ls) r = read_lines ls (read_field l r)"
  by (cases ls) simp_all

lemma read_field_data: "read_field (fld_data @ v) r = r\<lparr>rv_data := rv_data r @ [v]\<rparr>"
  and read_field_event: "read_field (fld_event @ v) r = r\<lparr>rv_name := v\<rparr>"
  and read_field_id: "read_field (fld_id @ v) r = r\<lparr>rv_id := v\<rparr>"
  by (simp_all add: read_field_def cut_colon_def fields)

lemma split_lf_data:
  assumes "\<forall>l\<in>set ls. LF \<notin> set l"
  shows "split_lf (concat (map (\<lambda>l. fld_data @ l @ [LF]) ls) @ rest) =
    map (\<lambda>l. fld_data @ l) ls @ split_lf rest"
  using assms
proof (induction ls)
  case (Cons l ls)
  have "LF \<notin> set (fld_data @ l)" using Cons.prems by (simp add: LF_def fields)
  from split_lf_append [OF this] Cons show ?case by simp
qed simp

lemma read_lines_data:
  assumes "ls' \<noteq> []"
  shows "read_lines (map (\<lambda>l. fld_data @ l) ls @ ls') r =
    read_lines ls' (r\<lparr>rv_data := rv_data r @ ls\<rparr>)"
proof (induction ls arbitrary: r)
  case (Cons l ls)
  let ?rest = "map (\<lambda>l. fld_data @ l) ls @ ls'"
  have "read_lines ((fld_data @ l) # ?rest) r = read_lines ?rest (read_field (fld_data @ l) r)"
    by (rule read_lines_field) (simp_all add: assms fields)
  also have "\<dots> = read_lines ls' (r\<lparr>rv_data := rv_data r @ l # ls\<rparr>)"
    unfolding read_field_data Cons.IH by simp
  finally show ?case by simp
qed simp

lemma id_String_chars: "c \<in> set (id_String i) \<Longrightarrow> is_digit c \<or> c = CHR ''-''"
  using format_nat_digits by (auto simp: id_String_def FormatInt_def list_all_iff split: if_splits)

lemma id_String_one_line: "LF \<notin> set (id_String i)" "CR \<notin> set (id_String i)"
  using id_String_chars [of LF i] id_String_chars [of CR i]
  by (auto simp: is_digit_def LF_def CR_def less_eq_char_def)


text \<open>Events whose name and payload a frame carries unchanged.\<close>

definition frameable :: "sse_event \<Rightarrow> bool" where
  "frameable e \<longleftrightarrow> LF \<notin> set (ev_name e) \<and> CR \<notin> set (ev_name e) \<and> CR \<notin> set (ev_data e)"

definition as_received :: "sse_event \<Rightarrow> string \<times> string \<times> string" where
  "as_received e = (id_String (ev_id e), ev_name e, ev_data e)"

lemma writeFrame_frameable:
  assumes "frameable e"
  shows "writeFrame e = (fld_id @ id_String (ev_id e)) @ LF # (fld_event @ ev_name e) @ LF #
     concat (map (\<lambda>l. fld_data @ l @ [LF]) (split_lf (ev_data e))) @ [LF]"
proof -
  have "trim_cr l = l" if "l \<in> set (split_lf (ev_data e))" for l
    using split_lf_lines [OF that] assms by (intro trim_cr_id) (auto simp: frameable_def)
  then have "map (\<lambda>l. fld_data @ trim_cr l @ [LF]) (split_lf (ev_data e)) =
      map (\<lambda>l. fld_data @ l @ [LF]) (split_lf (ev_data e))" by (intro map_cong) simp_all
  then show ?thesis unfolding writeFrame_def by (simp only:)
qed

lemma read_frame:
  assumes "frameable e" and "rv_name r = []" and "rv_data r = []"
  shows "read_lines (split_lf (writeFrame e @ rest)) r =
    as_received e # read_lines (split_lf rest) (r\<lparr>rv_id := id_String (ev_id e)\<rparr>)"
proof -
  let ?i = "fld_id @ id_String (ev_id e)" and ?n = "fld_event @ ev_name e"
  let ?ls = "split_lf (ev_data e)"
  let ?body = "map (\<lambda>l. fld_data @ l) ?ls @ [] # split_lf rest"
  have i: "LF \<notin> set ?i" using id_String_one_line by (simp add: LF_def fields)
  have n: "LF \<notin> set ?n" using assms(1) by (simp add: frameable_def LF_def fields)
  have d: "\<forall>l\<in>set ?ls. LF \<notin> set l" using split_lf_lines by blast
  have "writeFrame e @ rest = ?i @ LF # (?n @ LF #
      (concat (map (\<lambda>l. fld_data @ l @ [LF]) ?ls) @ LF # rest))"
    unfolding writeFrame_frameable [OF assms(1)] by simp
  then have lines: "split_lf (writeFrame e @ rest) = ?i # ?n # ?body"
    by (simp only: split_lf_append [OF i] split_lf_append [OF n] split_lf_data [OF d]
        split_lf.simps(2) refl if_True)
  obtain q qs where q: "split_lf rest = q # qs" by (cases "split_lf rest") auto
  have "read_lines (?i # ?n # ?body) r = read_lines ?body
      (r\<lparr>rv_id := id_String (ev_id e), rv_name := ev_name e\<rparr>)"
    by (subst read_lines_field, simp_all add: fields [symmetric])
       (simp_all add: fields read_lines_field [of "''event: '' @ ev_name e", simplified]
          read_field_id [unfolded fields, simplified] read_field_event [unfolded fields, simplified])
  also have "\<dots> = as_received e # read_lines (split_lf rest) (r\<lparr>rv_id := id_String (ev_id e)\<rparr>)"
  proof -
    have "r\<lparr>rv_id := i, rv_name := [], rv_data := []\<rparr> = r\<lparr>rv_id := i\<rparr>" for i
      using assms(2,3) by (cases r) simp
    then show ?thesis
      using assms(3)
      by (subst read_lines_data) (simp_all add: q join_split_lf as_received_def Let_def)
  qed
  finally show ?thesis unfolding lines .
qed

lemma read_frames:
  assumes "list_all frameable es" and "rv_name r = []" and "rv_data r = []"
  shows "read_lines (split_lf (concat (map writeFrame es))) r = map as_received es"
  using assms
proof (induction es arbitrary: r)
  case (Cons e es)
  then show ?case by (simp add: read_frame)
qed simp

lemma writeFrame_no_CR:
  assumes "frameable e"
  shows "CR \<notin> set (writeFrame e)"
  using assms split_lf_lines [of _ "ev_data e"] id_String_one_line
  by (auto simp: writeFrame_frameable frameable_def CR_def LF_def fields)

lemma stream_decode_frames:
  assumes "list_all frameable es"
  shows "stream_decode (concat (map writeFrame es)) = map as_received es"
proof -
  have "CR \<notin> set (concat (map writeFrame es))"
    using assms writeFrame_no_CR by (auto simp: list_all_iff)
  then show ?thesis
    using assms by (simp add: stream_decode_def unify_newlines_id read_frames)
qed

text \<open>
  A payload with a carriage return inside a line is cut there by the receiver: what follows
  it is read as a field of its own, here as the identifier of the event.
\<close>

lemma lone_CR_forges_id:
  "stream_decode (writeFrame \<lparr>ev_id = EventID 1 1, ev_name = ''m'',
     ev_data = ''x'' @ [CR] @ ''id: 9-9'', ev_message = None\<rparr>) = [(''9-9'', ''m'', ''x'')]"
  by (simp add: stream_decode_def writeFrame_def id_String_def FormatInt_def format_nat.simps
      digit_char_def trim_cr_def LF_def CR_def read_field_def cut_colon_def Let_def fields)

end
