(* ===== verification/Ingest.thy ===== *)
theory Ingest
  imports Bindings LedgerEvents Hub ExtractModel
begin

text \<open>
  Capturing mail: \<^verbatim>\<open>internal/smtp/ingest.go\<close>, \<^verbatim>\<open>internal/smtp/server.go\<close> and
  \<^verbatim>\<open>internal/store/blob.go\<close>. A delivery writes its blobs, commits the message with its
  audit trail and its bindings in one transaction, and only then is acknowledged; a worker
  settles the extraction once and announces it on the bus.

  What is read from outside the repository is an argument: the MIME reader of the mail library
  (\<open>read_mail\<close>) and the outcome of the file operations behind a blob (\<open>w_io\<close>). The
  extraction engine and \<^verbatim>\<open>json.Marshal\<close> are fields of the pipeline.
\<close>

section \<open>The world a delivery acts on\<close>

datatype io_error = IoFull | IoOther

record world =
  w_store :: store
  w_blobs :: "ident \<Rightarrow> string option"
  w_io :: "nat \<Rightarrow> io_error option"
  w_io_calls :: nat
  w_bus :: bus
  w_stopping :: bool

definition io_step :: "world \<Rightarrow> io_error option \<times> world" where
  "io_step w = (w_io w (w_io_calls w), w\<lparr>w_io_calls := Suc (w_io_calls w)\<rparr>)"

section \<open>Blobs\<close>

datatype blob_error = BlobSealError | BlobIo io_error | BlobBadRef | BlobNotFound | BlobOpenError

text \<open>
  \<^verbatim>\<open>Put\<close>: the first file outcome stands for writing, syncing and renaming the
  temporary file, which is removed on failure; the second for syncing the directory, when the
  name already exists.
\<close>

definition Put :: "string \<Rightarrow> world \<Rightarrow> (blob_error + ident) \<times> world" where
  "Put data w =
     (case seal (w_store w) data of
        None \<Rightarrow> (Inl BlobSealError, w)
      | Some sealed \<Rightarrow>
          (case NewID (w_store w) of (ref, st) \<Rightarrow>
             let w1 = w\<lparr>w_store := st\<rparr>
             in case io_step w1 of
                  (Some e, w2) \<Rightarrow> (Inl (BlobIo e), w2)
                | (None, w2) \<Rightarrow>
                    let w3 = w2\<lparr>w_blobs := (w_blobs w2)(ref \<mapsto> sealed)\<rparr>
                    in case io_step w3 of
                         (Some e, w4) \<Rightarrow> (Inl (BlobIo e), w4)
                       | (None, w4) \<Rightarrow> (Inr ref, w4)))"

definition Get :: "world \<Rightarrow> ident \<Rightarrow> blob_error + string" where
  "Get w ref =
     (if \<not> ValidID ref then Inl BlobBadRef
      else case w_blobs w ref of
        None \<Rightarrow> Inl BlobNotFound
      | Some sealed \<Rightarrow>
          (case unseal (w_store w) sealed of None \<Rightarrow> Inl BlobOpenError | Some d \<Rightarrow> Inr d))"

definition Delete :: "ident \<Rightarrow> world \<Rightarrow> (blob_error + unit) \<times> world" where
  "Delete ref w =
     (if \<not> ValidID ref then (Inl BlobBadRef, w)
      else (Inr (), w\<lparr>w_blobs := (w_blobs w)(ref := None)\<rparr>))"

section \<open>Parsing mail\<close>

text \<open>
  What the mail library returns for a message: the decoded headers, each absent when it did
  not decode, and the parts in order. A part that cannot be read at all ends the walk.
\<close>

datatype mail_part =
    PartUnreadable
  | PartAttachment
  | PartInline "string option" "string option"

record mail_reader =
  mrd_subject :: "string option"
  mrd_subject_raw :: string
  mrd_from :: "string list option"
  mrd_to :: "string list option"
  mrd_cc :: "string list option"
  mrd_date :: "time option"
  mrd_parts :: "mail_part list"

record parsed_message =
  pm_subject :: string
  pm_from :: string
  pm_to :: "string list"
  pm_cc :: "string list"
  pm_text :: string
  pm_html :: string
  pm_origin :: time

definition headerSubject :: "mail_reader \<Rightarrow> string" where
  "headerSubject r = (case mrd_subject r of None \<Rightarrow> mrd_subject_raw r | Some s \<Rightarrow> s)"

definition headerDate :: "mail_reader \<Rightarrow> time" where
  "headerDate r = (case mrd_date r of None \<Rightarrow> 0 | Some d \<Rightarrow> d)"

definition firstAddress :: "string list option \<Rightarrow> string" where
  "firstAddress l = (case l of None \<Rightarrow> [] | Some [] \<Rightarrow> [] | Some (a # _) \<Rightarrow> a)"

definition addressList :: "string list option \<Rightarrow> string list" where
  "addressList l = (case l of None \<Rightarrow> [] | Some as \<Rightarrow> as)"

fun has_prefix :: "string \<Rightarrow> string \<Rightarrow> bool" where
  "has_prefix s [] = True"
| "has_prefix [] (p # ps) = False"
| "has_prefix (c # s) (p # ps) = (c = p \<and> has_prefix s ps)"

fun read_parts :: "mail_part list \<Rightarrow> parsed_message \<Rightarrow> parsed_message" where
  "read_parts [] p = p"
| "read_parts (PartUnreadable # ps) p = p"
| "read_parts (PartAttachment # ps) p = read_parts ps p"
| "read_parts (PartInline body ctype # ps) p =
     (case body of
        None \<Rightarrow> read_parts ps p
      | Some b \<Rightarrow>
          (case ctype of
             None \<Rightarrow> read_parts ps p
           | Some t \<Rightarrow>
               if has_prefix t ''text/html'' \<and> pm_html p = [] then read_parts ps (p\<lparr>pm_html := b\<rparr>)
               else if has_prefix t ''text/plain'' \<and> pm_text p = []
                 then read_parts ps (p\<lparr>pm_text := b\<rparr>)
               else read_parts ps p))"

definition no_message :: parsed_message where
  "no_message = \<lparr>pm_subject = [], pm_from = [], pm_to = [], pm_cc = [], pm_text = [], pm_html = [],
     pm_origin = 0\<rparr>"

definition parseMessage :: "(string \<Rightarrow> mail_reader option) \<Rightarrow> string \<Rightarrow> parsed_message" where
  "parseMessage read_mail raw =
     (case read_mail raw of
        None \<Rightarrow> no_message
      | Some r \<Rightarrow>
          read_parts (mrd_parts r)
            (no_message\<lparr>pm_subject := headerSubject r, pm_from := firstAddress (mrd_from r),
               pm_to := addressList (mrd_to r), pm_cc := addressList (mrd_cc r),
               pm_origin := headerDate r\<rparr>))"

section \<open>The pipeline\<close>

definition input :: "parsed_message \<Rightarrow> extract_input" where
  "input p = \<lparr>in_subject = pm_subject p, in_text = pm_text p, in_html = pm_html p\<rparr>"

text \<open>\<open>ig_extract\<close> answers \<open>None\<close> when the engine panics.\<close>

record ingest =
  ig_project :: ident
  ig_allowlist :: "string list"
  ig_extract :: "extract_input \<Rightarrow> result option"
  ig_encode :: "result \<Rightarrow> string option"
  ig_to_ascii :: "string \<Rightarrow> string option"
  ig_read_mail :: "string \<Rightarrow> mail_reader option"

record delivery =
  dl_from :: string
  dl_recipients :: "string list"
  dl_raw :: string
  dl_received_at :: time

record job =
  jb_message :: ident
  jb_project :: ident
  jb_subject :: string
  jb_recipients :: "string list"
  jb_received_at :: time
  jb_input :: extract_input

datatype deliver_error = OutOfSpace | Temporary

definition quarantine :: "ingest \<Rightarrow> string list \<Rightarrow> bool \<times> string list" where
  "quarantine ig envelope =
     (let off = filter (\<lambda>a. \<not> AllowlistMatches (ig_to_ascii ig) (ig_allowlist ig) a) envelope
      in (off \<noteq> [], off))"

definition fromAddress :: "ingest \<Rightarrow> string \<Rightarrow> string \<Rightarrow> string" where
  "fromAddress ig header envelope =
     NormalizeAddress (ig_to_ascii ig) (if header \<noteq> [] then header else envelope)"

definition recipients ::
  "string list \<Rightarrow> string list \<Rightarrow> string list \<Rightarrow> (string \<times> recipient_kind) list" where
  "recipients envelope tos cc =
     map (\<lambda>a. (a, RecipientEnvelope)) envelope @ map (\<lambda>a. (a, RecipientTo)) tos @
     map (\<lambda>a. (a, RecipientCC)) cc"

definition envelopeAddrs :: "(string \<times> recipient_kind) list \<Rightarrow> string list" where
  "envelopeAddrs rs = map fst (filter (\<lambda>r. snd r = RecipientEnvelope) rs)"

text \<open>\<^verbatim>\<open>classifyWrite\<close> of a blob failure; a database failure is never the full disk.\<close>

definition classifyWrite :: "blob_error \<Rightarrow> deliver_error" where
  "classifyWrite e = (if e = BlobIo IoFull then OutOfSpace else Temporary)"

definition ingest_meta :: "ingest \<Rightarrow> ident \<Rightarrow> meta" where
  "ingest_meta ig run = \<lparr>meta_project = ig_project ig, meta_run = run, meta_persona = []\<rparr>"

definition audit :: "ingest \<Rightarrow> ident \<Rightarrow> string \<Rightarrow> bool \<Rightarrow> string list \<Rightarrow> unit op" where
  "audit ig m envelopeFrom quarantined offList s =
     (case Write (ingest_meta ig []) (MailReceived m envelopeFrom) s of
        (Inl e, s1) \<Rightarrow> (Inl e, s1)
      | (Inr _, s1) \<Rightarrow>
          if \<not> quarantined then (Inr (), s1)
          else (case Write (ingest_meta ig []) (MailQuarantined m offList) s1 of
                  (Inl e, s2) \<Rightarrow> (Inl e, s2)
                | (Inr _, s2) \<Rightarrow> (Inr (), s2)))"

fun write_bound :: "ingest \<Rightarrow> binding list \<Rightarrow> unit op" where
  "write_bound ig [] s = (Inr (), s)"
| "write_bound ig (b # bs) s =
     (case Write (ingest_meta ig (bd_run b))
         (MailBound (bd_message b) (bd_lease b) (bd_identity b) (bd_addr b) (bd_suspect b)) s of
        (Inl e, s1) \<Rightarrow> (Inl e, s1)
      | (Inr _, s1) \<Rightarrow> write_bound ig bs s1)"

definition bind_mail :: "ingest \<Rightarrow> ident \<Rightarrow> time \<Rightarrow> string list \<Rightarrow> time \<Rightarrow> unit op" where
  "bind_mail ig m receivedAt envelope originAt s =
     (case BindRecipients (ig_to_ascii ig) m envelope receivedAt originAt s of
        (Inl e, s1) \<Rightarrow> (Inl e, s1)
      | (Inr (bound, unbound), s1) \<Rightarrow>
          (case write_bound ig bound s1 of
             (Inl e, s2) \<Rightarrow> (Inl e, s2)
           | (Inr _, s2) \<Rightarrow>
               if unbound = [] then (Inr (), s2)
               else (case Write (ingest_meta ig []) (MailUnbound m unbound) s2 of
                       (Inl e, s3) \<Rightarrow> (Inl e, s3)
                     | (Inr _, s3) \<Rightarrow> (Inr (), s3))))"

text \<open>The transaction of \<^verbatim>\<open>Deliver\<close>.\<close>

definition deliver_tx ::
  "ingest \<Rightarrow> new_message \<Rightarrow> string \<Rightarrow> bool \<Rightarrow> string list \<Rightarrow> string list \<Rightarrow> time \<Rightarrow> new_message op" where
  "deliver_tx ig m0 from quarantined offList envelope originAt s =
     (case InsertMessage (ig_to_ascii ig) m0 s of
        (Inl e, s1) \<Rightarrow> (Inl e, s1)
      | (Inr m, s1) \<Rightarrow>
          (case audit ig (nm_id m) from quarantined offList s1 of
             (Inl e, s2) \<Rightarrow> (Inl e, s2)
           | (Inr _, s2) \<Rightarrow>
               (case bind_mail ig (nm_id m) (nm_received_at m) envelope originAt s2 of
                  (Inl e, s3) \<Rightarrow> (Inl e, s3)
                | (Inr _, s3) \<Rightarrow> (Inr m, s3))))"

definition put_html :: "string \<Rightarrow> world \<Rightarrow> (blob_error + ident) \<times> world" where
  "put_html html w = (if html = [] then (Inr [], w) else Put html w)"

text \<open>
  The result is the job handed to a worker, or \<open>None\<close> when a shutdown left the message to
  recovery; either way the session answers 250.
\<close>

definition Deliver :: "ingest \<Rightarrow> delivery \<Rightarrow> world \<Rightarrow> (deliver_error + job option) \<times> world" where
  "Deliver ig d w =
     (let parsed = parseMessage (ig_read_mail ig) (dl_raw d)
      in case Put (dl_raw d) w of
           (Inl e, w1) \<Rightarrow> (Inl (classifyWrite e), w1)
         | (Inr rawRef, w1) \<Rightarrow>
             (case put_html (pm_html parsed) w1 of
                (Inl e, w2) \<Rightarrow> (Inl (classifyWrite e), w2)
              | (Inr htmlRef, w2) \<Rightarrow>
                  (case quarantine ig (dl_recipients d) of (quarantined, offList) \<Rightarrow>
                    let m0 = \<lparr>nm_id = [], nm_project = ig_project ig,
                              nm_from = fromAddress ig (pm_from parsed) (dl_from d),
                              nm_subject = pm_subject parsed, nm_channel = ''email'',
                              nm_raw_ref = rawRef, nm_html_ref = htmlRef,
                              nm_text = pm_text parsed, nm_extracted = [],
                              nm_quarantined = quarantined,
                              nm_received_at = dl_received_at d,
                              nm_recipients = recipients (dl_recipients d) (pm_to parsed)
                                (pm_cc parsed)\<rparr>
                    in case tx (deliver_tx ig m0 (dl_from d) quarantined offList
                              (dl_recipients d) (pm_origin parsed)) (w_store w2) of
                         (Inl e, st) \<Rightarrow> (Inl Temporary, w2\<lparr>w_store := st\<rparr>)
                       | (Inr m, st) \<Rightarrow>
                           (Inr (if w_stopping w2 then None
                                 else Some \<lparr>jb_message = nm_id m, jb_project = nm_project m,
                                        jb_subject = nm_subject m,
                                        jb_recipients = envelopeAddrs (nm_recipients m),
                                        jb_received_at = nm_received_at m,
                                        jb_input = input parsed\<rparr>),
                            w2\<lparr>w_store := st\<rparr>))))"


section \<open>Settling\<close>

text \<open>
  \<^verbatim>\<open>publish\<close>. A full bus makes the call wait until the bus goroutine has taken an event
  from its queue; a stopped bus is logged and nothing more.
\<close>

definition EventMessage :: string where "EventMessage = ''message''"

definition announce :: "publication \<Rightarrow> bus \<Rightarrow> bus" where
  "announce p b =
     (case Publish p b of
        Some (_, b1) \<Rightarrow> b1
      | None \<Rightarrow> (case Publish p (run_publish b) of Some (_, b1) \<Rightarrow> b1 | None \<Rightarrow> b))"

definition publish_job :: "(job \<Rightarrow> string) \<Rightarrow> job \<Rightarrow> world \<Rightarrow> world" where
  "publish_job detail j w =
     w\<lparr>w_bus := announce
        \<lparr>pb_name = EventMessage, pb_data = detail j,
         pb_message = Some \<lparr>mr_id = jb_message j, mr_project = jb_project j,
           mr_subject = jb_subject j, mr_recipients = jb_recipients j,
           mr_received_at = jb_received_at j\<rparr>\<rparr> (w_bus w)\<rparr>"

definition fail_job :: "ingest \<Rightarrow> (job \<Rightarrow> string) \<Rightarrow> job \<Rightarrow> string \<Rightarrow> world \<Rightarrow> world" where
  "fail_job ig detail j cause w =
     (case tx (FailExtraction (jb_message j)) (w_store w) of
        (Inl e, st) \<Rightarrow> w\<lparr>w_store := st\<rparr>
      | (Inr _, st) \<Rightarrow>
          (case Write (ingest_meta ig []) (ExtractionFailedEv (jb_message j) cause) st of
             (_, st1) \<Rightarrow> publish_job detail j (w\<lparr>w_store := st1\<rparr>)))"

definition settle_job :: "ingest \<Rightarrow> (job \<Rightarrow> string) \<Rightarrow> job \<Rightarrow> world \<Rightarrow> world" where
  "settle_job ig detail j w =
     (case ig_extract ig (jb_input j) of
        None \<Rightarrow> fail_job ig detail j ''extraction panicked'' w
      | Some res \<Rightarrow>
          (case ig_encode ig res of
             None \<Rightarrow> fail_job ig detail j ''encode extraction'' w
           | Some encoded \<Rightarrow>
               (case tx (SetExtraction (jb_message j) encoded) (w_store w) of
                  (Inl e, st) \<Rightarrow>
                    if e = ErrExtractionSettled then w\<lparr>w_store := st\<rparr>
                    else fail_job ig detail j ''storing extraction'' (w\<lparr>w_store := st\<rparr>)
                | (Inr _, st) \<Rightarrow> publish_job detail j (w\<lparr>w_store := st\<rparr>))))"

section \<open>Recovery\<close>

definition reread :: "world \<Rightarrow> message_view \<Rightarrow> extract_input option" where
  "reread w v =
     (if mv_unreadable v then None
      else if msg_html_ref (mv_row v) = []
        then Some \<lparr>in_subject = msg_subject (mv_row v), in_text = mv_text v, in_html = []\<rparr>
      else case Get w (msg_html_ref (mv_row v)) of
        Inl _ \<Rightarrow> None
      | Inr html \<Rightarrow>
          Some \<lparr>in_subject = msg_subject (mv_row v), in_text = mv_text v, in_html = html\<rparr>)"

definition pending_job :: "message_view \<Rightarrow> extract_input \<Rightarrow> job" where
  "pending_job v i =
     \<lparr>jb_message = msg_id (mv_row v), jb_project = msg_project (mv_row v),
      jb_subject = msg_subject (mv_row v),
      jb_recipients = envelopeAddrs (msg_recipients (mv_row v)),
      jb_received_at = msg_received_at (mv_row v), jb_input = i\<rparr>"

definition no_input :: extract_input where
  "no_input = \<lparr>in_subject = [], in_text = [], in_html = []\<rparr>"

fun recover_loop :: "ingest \<Rightarrow> (job \<Rightarrow> string) \<Rightarrow> message_view list \<Rightarrow> world \<Rightarrow> world" where
  "recover_loop ig detail [] w = w"
| "recover_loop ig detail (v # vs) w =
     recover_loop ig detail vs
       (case reread w v of
          None \<Rightarrow> fail_job ig detail (pending_job v no_input) ''unreadable'' w
        | Some i \<Rightarrow> settle_job ig detail (pending_job v i) w)"

definition Recover :: "ingest \<Rightarrow> (job \<Rightarrow> string) \<Rightarrow> world \<Rightarrow> world" where
  "Recover ig detail w = recover_loop ig detail (ListPendingExtractions (w_store w) 0) w"

section \<open>The SMTP session\<close>

text \<open>
  \<^verbatim>\<open>session\<close> of \<^verbatim>\<open>server.go\<close>. The deliverer is an interface, so it is an
  argument; \<open>None\<close> is a panic inside it. What the library reads off the wire is the message
  or an error, which is a reply of its own when the message is too large.
\<close>

record session =
  ss_from :: string
  ss_rcpts :: "string list"

datatype smtp_reply = Reply250 | Reply451 | Reply452 | ReplyLibrary nat

datatype read_outcome = ReadAll string | ReadSmtpError nat | ReadFailed

definition new_session :: session where
  "new_session = \<lparr>ss_from = [], ss_rcpts = []\<rparr>"

definition Mail :: "string \<Rightarrow> session \<Rightarrow> session" where
  "Mail from ss = ss\<lparr>ss_from := from\<rparr>"

definition Rcpt :: "string \<Rightarrow> session \<Rightarrow> session" where
  "Rcpt rcpt ss = ss\<lparr>ss_rcpts := ss_rcpts ss @ [rcpt]\<rparr>"

definition Reset :: "session \<Rightarrow> session" where
  "Reset ss = ss\<lparr>ss_from := [], ss_rcpts := []\<rparr>"

definition smtp_reply_of :: "(deliver_error + 'a) \<Rightarrow> smtp_reply" where
  "smtp_reply_of r =
     (case r of Inr _ \<Rightarrow> Reply250 | Inl OutOfSpace \<Rightarrow> Reply452 | Inl Temporary \<Rightarrow> Reply451)"

definition Data ::
  "(delivery \<Rightarrow> world \<Rightarrow> (deliver_error + job option) option \<times> world) \<Rightarrow> time \<Rightarrow>
     read_outcome \<Rightarrow> session \<Rightarrow> world \<Rightarrow> smtp_reply \<times> world" where
  "Data deliver now r ss w =
     (case r of
        ReadSmtpError code \<Rightarrow> (ReplyLibrary code, w)
      | ReadFailed \<Rightarrow> (Reply451, w)
      | ReadAll raw \<Rightarrow>
          (case deliver \<lparr>dl_from = ss_from ss, dl_recipients = ss_rcpts ss, dl_raw = raw,
                         dl_received_at = now\<rparr> w of
             (None, w1) \<Rightarrow> (Reply451, w1)
           | (Some res, w1) \<Rightarrow> (smtp_reply_of res, w1)))"


section \<open>What the transaction of a delivery writes\<close>

definition ledger_only :: "store \<Rightarrow> store \<Rightarrow> bool" where
  "ledger_only s s' \<longleftrightarrow>
     (\<exists>es. tables s' = (tables s)\<lparr>db_ledger := ledger s @ es\<rparr>) \<and> unseal s' = unseal s"

lemma ledger_only_refl [simp]: "ledger_only s s"
  by (auto simp: ledger_only_def intro: exI [of _ "[]"])

lemma ledger_only_trans:
  assumes "ledger_only s t" and "ledger_only t u"
  shows "ledger_only s u"
proof -
  from assms obtain es fs where "tables t = (tables s)\<lparr>db_ledger := ledger s @ es\<rparr>"
    "tables u = (tables t)\<lparr>db_ledger := ledger t @ fs\<rparr>" "unseal u = unseal s"
    by (auto simp: ledger_only_def)
  then have "tables u = (tables s)\<lparr>db_ledger := ledger s @ es @ fs\<rparr> \<and> unseal u = unseal s" by simp
  then show ?thesis unfolding ledger_only_def by blast
qed

lemma Write_ledger_only:
  assumes "Write m ev s = (r, s')"
  shows "(\<exists>n. r = Inr n) \<and> ledger_only s s'"
  using assms by (auto elim!: Write_cases simp: ledger_only_def)

lemma ledger_only_tables:
  assumes "ledger_only s s'"
  shows "runs s' = runs s" "identities s' = identities s" "leases s' = leases s"
    "messages s' = messages s" "bindings s' = bindings s" "claims s' = claims s"
    "unseal s' = unseal s"
  using assms by (auto simp: ledger_only_def)

lemma audit_ledger_only:
  assumes "audit ig m f q off s = (r, s')"
  shows "r = Inr () \<and> ledger_only s s'"
proof -
  obtain r1 s1 where w1: "Write (ingest_meta ig []) (MailReceived m f) s = (r1, s1)"
    by (cases "Write (ingest_meta ig []) (MailReceived m f) s")
  obtain r2 s2 where w2: "Write (ingest_meta ig []) (MailQuarantined m off) s1 = (r2, s2)"
    by (cases "Write (ingest_meta ig []) (MailQuarantined m off) s1")
  show ?thesis
    using assms w1 w2 Write_ledger_only [OF w1] Write_ledger_only [OF w2] ledger_only_trans
    by (auto simp: audit_def split: if_splits)
qed

lemma write_bound_ledger_only:
  "write_bound ig bs s = (r, s') \<Longrightarrow> r = Inr () \<and> ledger_only s s'"
proof (induction bs arbitrary: s)
  case (Cons b bs)
  let ?ev = "MailBound (bd_message b) (bd_lease b) (bd_identity b) (bd_addr b) (bd_suspect b)"
  obtain r1 s1 where w: "Write (ingest_meta ig (bd_run b)) ?ev s = (r1, s1)"
    by (cases "Write (ingest_meta ig (bd_run b)) ?ev s")
  from Write_ledger_only [OF w] obtain n where n: "r1 = Inr n" "ledger_only s s1" by blast
  with Cons.prems w have "write_bound ig bs s1 = (r, s')" by simp
  from Cons.IH [OF this] n(2) show ?case using ledger_only_trans by blast
qed simp

lemma BindRecipients_unseal: "BindRecipients ta m as rt ot s = (r, s') \<Longrightarrow> unseal s' = unseal s"
proof -
  have "unseal (snd (bind_loop ta m rt ot as seen bd ub s)) = unseal s" for seen bd ub
    by (induction ta m rt ot "as" seen bd ub s rule: bind_loop.induct)
       (auto simp: Let_def Now_frame split: option.splits prod.splits)
  then show "BindRecipients ta m as rt ot s = (r, s') \<Longrightarrow> unseal s' = unseal s"
    unfolding BindRecipients_def by (metis snd_conv)
qed

lemma InsertMessage_unseal: "InsertMessage ta m s = (r, s') \<Longrightarrow> unseal s' = unseal s"
  by (auto simp: InsertMessage_def Let_def NewID_def Now_def split: if_splits option.splits)

text \<open>The bindings a stored message got, one per recipient a lease owned.\<close>

definition delivered ::
  "ingest \<Rightarrow> store \<Rightarrow> new_message \<Rightarrow> string list \<Rightarrow> time \<Rightarrow> new_message \<Rightarrow> store \<Rightarrow> bool" where
  "delivered ig s m0 envelope originAt m s' \<longleftrightarrow>
     (\<exists>row bd es.
        tables s' = (tables s)\<lparr>db_messages := messages s @ [row], db_bindings := bindings s @ bd,
                               db_ledger := ledger s @ es\<rparr> \<and>
        msg_id row = nm_id m \<and> msg_id row \<notin> msg_id ` set (messages s) \<and>
        msg_received_at row = nm_received_at m \<and>
        msg_quarantined row = nm_quarantined m0 \<and> msg_raw_ref row = nm_raw_ref m0 \<and>
        (msg_extracted row \<noteq> None \<longleftrightarrow> msg_extraction_state row = ExtractionSuccess) \<and>
        list_all (binds_to s (nm_id m) (nm_received_at m) originAt) bd \<and>
        (\<forall>a\<in>addrs_of (ig_to_ascii ig) envelope.
           a \<in> set (map bd_addr bd) \<or> owner_at s a (nm_received_at m) = None))"

lemma deliver_tx_delivered:
  assumes "deliver_tx ig m0 f q off envelope originAt s = (Inr m, s')"
  shows "delivered ig s m0 envelope originAt m s' \<and> unseal s' = unseal s"
proof -
  obtain r1 s1 where ins: "InsertMessage (ig_to_ascii ig) m0 s = (r1, s1)"
    by (cases "InsertMessage (ig_to_ascii ig) m0 s")
  with assms have r1: "r1 = Inr m"
    by (auto simp: deliver_tx_def split: sum.splits prod.splits)
  obtain r2 s2 where aud: "audit ig (nm_id m) f q off s1 = (r2, s2)"
    by (cases "audit ig (nm_id m) f q off s1")
  note a = audit_ledger_only [OF aud]
  obtain r3 s3 where bnd: "BindRecipients (ig_to_ascii ig) (nm_id m) envelope (nm_received_at m)
      originAt s2 = (r3, s3)" by (metis surj_pair)
  from assms ins r1 aud a bnd obtain bd ub where r3: "r3 = Inr (bd, ub)"
    by (auto simp: deliver_tx_def bind_mail_def split: sum.splits prod.splits)
  obtain r4 s4 where wb: "write_bound ig bd s3 = (r4, s4)" by (cases "write_bound ig bd s3")
  note b = write_bound_ledger_only [OF wb]
  obtain r5 s5 where wu: "Write (ingest_meta ig []) (MailUnbound (nm_id m) ub) s4 = (r5, s5)"
    by (cases "Write (ingest_meta ig []) (MailUnbound (nm_id m) ub) s4")
  from Write_ledger_only [OF wu] obtain n5 where u: "r5 = Inr n5" "ledger_only s4 s5" by blast
  have s': "s' = (if ub = [] then s4 else s5)"
    using assms ins r1 aud a bnd r3 wb b wu u by (auto simp: deliver_tx_def bind_mail_def)
  have tail: "ledger_only s3 s'" using b u ledger_only_trans s' by auto
  note spec = BindRecipients_spec [OF bnd [unfolded r3]]
  from ins [unfolded r1] obtain row where row: "msg_id row \<notin> msg_id ` set (messages s)"
      "msg_id row = nm_id m" "nm_received_at m = msg_received_at row"
      "msg_extracted row \<noteq> None \<longleftrightarrow> msg_extraction_state row = ExtractionSuccess"
      "msg_quarantined row = nm_quarantined m0" "msg_raw_ref row = nm_raw_ref m0"
      "tables s1 = (tables s)\<lparr>db_messages := messages s @ [row]\<rparr>"
    by (cases rule: InsertMessage_cases) auto
  from a obtain es1 where t2: "tables s2 = (tables s1)\<lparr>db_ledger := ledger s1 @ es1\<rparr>"
    by (auto simp: ledger_only_def)
  from tail obtain es2 where t3: "tables s' = (tables s3)\<lparr>db_ledger := ledger s3 @ es2\<rparr>"
    by (auto simp: ledger_only_def)
  have same: "leases s2 = leases s" "identities s2 = identities s"
    using row(7) t2 by simp_all
  have tab: "tables s' = (tables s)\<lparr>db_messages := messages s @ [row],
      db_bindings := bindings s @ bd, db_ledger := ledger s @ es1 @ es2\<rparr>"
    using t3 spec(1) t2 row(7) by simp
  have binds: "list_all (binds_to s (nm_id m) (nm_received_at m) originAt) bd"
    using spec(2) unfolding list_all_iff
    by (simp add: binds_to_cong [OF same])
  have "a \<in> set (map bd_addr bd) \<or> owner_at s a (nm_received_at m) = None"
    if "a \<in> addrs_of (ig_to_ascii ig) envelope" for a
    using that spec(3,4) owner_at_cong [OF same] by (auto simp: list_all_iff)
  with tab row binds have "delivered ig s m0 envelope originAt m s'"
    unfolding delivered_def by (intro exI [of _ row] exI [of _ bd] exI [of _ "es1 @ es2"]) auto
  moreover have "unseal s' = unseal s"
    using InsertMessage_unseal [OF ins] a BindRecipients_unseal [OF bnd] tail
    by (metis ledger_only_tables(7))
  ultimately show ?thesis by simp
qed


section \<open>What an answer to the sender means\<close>

lemma Put_Inr:
  assumes "Put data w = (Inr ref, w')"
  obtains sealed where "seal (w_store w) data = Some sealed"
    and "ref = id_src (w_store w) (id_calls (w_store w))"
    and "w_blobs w' = (w_blobs w)(ref \<mapsto> sealed)"
    and "w_store w' = (w_store w)\<lparr>id_calls := Suc (id_calls (w_store w))\<rparr>"
  using assms
  by (auto simp: Put_def NewID_def io_step_def Let_def split: option.splits)

lemma Put_tables: "Put data w = (r, w') \<Longrightarrow> tables (w_store w') = tables (w_store w)"
  by (auto simp: Put_def NewID_def io_step_def Let_def split: option.splits)

lemma put_html_tables: "put_html h w = (r, w') \<Longrightarrow> tables (w_store w') = tables (w_store w)"
  by (auto simp: put_html_def Put_tables split: if_splits)

lemma Deliver_refused:
  assumes "Deliver ig d w = (Inl e, w')"
  shows "tables (w_store w') = tables (w_store w)"
  using assms
  by (auto simp: Deliver_def Let_def split: sum.splits prod.splits
      dest!: Put_tables put_html_tables tx_Inl)

lemma Put_bus: "Put data w = (r, w') \<Longrightarrow> w_bus w' = w_bus w"
  by (auto simp: Put_def NewID_def io_step_def Let_def split: option.splits)

lemma put_html_bus: "put_html h w = (r, w') \<Longrightarrow> w_bus w' = w_bus w"
  by (auto simp: put_html_def Put_bus split: if_splits)

lemma Deliver_bus:
  assumes "Deliver ig d w = (r, w')"
  shows "w_bus w' = w_bus w"
  using assms
  by (auto simp: Deliver_def Let_def split: sum.splits prod.splits dest!: Put_bus put_html_bus)

lemma Deliver_cases:
  assumes "Deliver ig d w = (Inr j, w')"
  obtains rawRef w1 htmlRef w2 m0 m st where "Put (dl_raw d) w = (Inr rawRef, w1)"
    and "put_html (pm_html (parseMessage (ig_read_mail ig) (dl_raw d))) w1 = (Inr htmlRef, w2)"
    and "nm_raw_ref m0 = rawRef"
    and "nm_quarantined m0 = fst (quarantine ig (dl_recipients d))"
    and "delivered ig (w_store w2) m0 (dl_recipients d)
           (pm_origin (parseMessage (ig_read_mail ig) (dl_raw d))) m st"
    and "unseal st = unseal (w_store w2)" and "w' = w2\<lparr>w_store := st\<rparr>"
proof -
  let ?p = "parseMessage (ig_read_mail ig) (dl_raw d)"
  obtain r1 w1 where p1: "Put (dl_raw d) w = (r1, w1)" by (cases "Put (dl_raw d) w")
  with assms obtain rawRef where r1: "r1 = Inr rawRef"
    by (cases r1) (simp_all add: Deliver_def Let_def)
  obtain r2 w2 where p2: "put_html (pm_html ?p) w1 = (r2, w2)" by (cases "put_html (pm_html ?p) w1")
  with assms p1 r1 obtain htmlRef where r2: "r2 = Inr htmlRef"
    by (cases r2) (simp_all add: Deliver_def Let_def)
  obtain q off where q: "quarantine ig (dl_recipients d) = (q, off)" by (metis surj_pair)
  let ?m0 = "\<lparr>nm_id = [], nm_project = ig_project ig,
                              nm_from = fromAddress ig (pm_from ?p) (dl_from d),
                              nm_subject = pm_subject ?p, nm_channel = ''email'',
                              nm_raw_ref = rawRef, nm_html_ref = htmlRef,
                              nm_text = pm_text ?p, nm_extracted = [],
                              nm_quarantined = q,
                              nm_received_at = dl_received_at d,
                              nm_recipients = recipients (dl_recipients d) (pm_to ?p)
                                (pm_cc ?p)\<rparr>"
  obtain r3 st where t: "tx (deliver_tx ig ?m0 (dl_from d) q off (dl_recipients d) (pm_origin ?p))
      (w_store w2) = (r3, st)" by (metis surj_pair)
  have "\<exists>m. r3 = Inr m \<and> w' = w2\<lparr>w_store := st\<rparr>"
    using assms p1 r1 p2 r2 q t by (auto simp: Deliver_def Let_def split: sum.splits)
  then obtain m where m: "r3 = Inr m" "w' = w2\<lparr>w_store := st\<rparr>" by blast
  from t m(1) have "deliver_tx ig ?m0 (dl_from d) q off (dl_recipients d) (pm_origin ?p)
      (w_store w2) = (Inr m, st)" by (simp add: tx_Inr)
  from deliver_tx_delivered [OF this] show ?thesis
    using that [of rawRef w1 htmlRef w2 ?m0 m st] p1 r1 p2 r2 q m by simp
qed

text \<open>
  An acknowledged message is stored with its raw bytes readable, held back exactly when some
  recipient is outside the allowlist.
\<close>

definition captured :: "ingest \<Rightarrow> delivery \<Rightarrow> world \<Rightarrow> world \<Rightarrow> bool" where
  "captured ig d w w' \<longleftrightarrow>
     (\<exists>row. row \<in> set (messages (w_store w')) \<and>
        msg_id row \<notin> msg_id ` set (messages (w_store w)) \<and>
        Get w' (msg_raw_ref row) = Inr (dl_raw d) \<and>
        (msg_quarantined row \<longleftrightarrow>
           (\<exists>a\<in>set (dl_recipients d). \<not> AllowlistMatches (ig_to_ascii ig) (ig_allowlist ig) a)))"

lemma Deliver_captures:
  assumes run: "Deliver ig d w = (Inr j, w')"
    and fresh: "id_src (w_store w) (id_calls (w_store w)) \<noteq>
      id_src (w_store w) (Suc (id_calls (w_store w)))"
    and ids: "ValidID (id_src (w_store w) (id_calls (w_store w)))"
    and sealer: "\<forall>x y. seal (w_store w) x = Some y \<longrightarrow> unseal (w_store w) y = Some x"
  shows "captured ig d w w'"
proof -
  from run obtain rawRef w1 htmlRef w2 m0 m st where
    p1: "Put (dl_raw d) w = (Inr rawRef, w1)" and
    p2: "put_html (pm_html (parseMessage (ig_read_mail ig) (dl_raw d))) w1 = (Inr htmlRef, w2)" and
    m0: "nm_raw_ref m0 = rawRef" "nm_quarantined m0 = fst (quarantine ig (dl_recipients d))" and
    dv: "delivered ig (w_store w2) m0 (dl_recipients d)
           (pm_origin (parseMessage (ig_read_mail ig) (dl_raw d))) m st"
      "unseal st = unseal (w_store w2)" "w' = w2\<lparr>w_store := st\<rparr>"
    by (rule Deliver_cases)
  from p1 obtain sealed where put: "seal (w_store w) (dl_raw d) = Some sealed"
    "rawRef = id_src (w_store w) (id_calls (w_store w))"
    "w_blobs w1 = (w_blobs w)(rawRef \<mapsto> sealed)"
    "w_store w1 = (w_store w)\<lparr>id_calls := Suc (id_calls (w_store w))\<rparr>"
    by (rule Put_Inr)
  have w2: "w_blobs w2 rawRef = Some sealed \<and> unseal (w_store w2) = unseal (w_store w) \<and>
      tables (w_store w2) = tables (w_store w)"
  proof (cases "pm_html (parseMessage (ig_read_mail ig) (dl_raw d)) = []")
    case True
    then show ?thesis using p2 put by (simp add: put_html_def)
  next
    case False
    with p2 have "Put (pm_html (parseMessage (ig_read_mail ig) (dl_raw d))) w1 = (Inr htmlRef, w2)"
      by (simp add: put_html_def)
    then obtain sealed2 where put2: "htmlRef = id_src (w_store w1) (id_calls (w_store w1))"
      "w_blobs w2 = (w_blobs w1)(htmlRef \<mapsto> sealed2)"
      "w_store w2 = (w_store w1)\<lparr>id_calls := Suc (id_calls (w_store w1))\<rparr>"
      by (rule Put_Inr)
    have "htmlRef \<noteq> rawRef" using fresh put(2,4) put2(1) by simp
    then show ?thesis using put put2 by simp
  qed
  from dv obtain row where row: "row \<in> set (messages st)"
    "msg_id row \<notin> msg_id ` set (messages (w_store w2))"
    "msg_quarantined row = nm_quarantined m0" "msg_raw_ref row = rawRef"
    unfolding delivered_def m0(1) by force
  have "Get w' rawRef = Inr (dl_raw d)"
    using w2 dv(2,3) ids put(1,2) sealer by (simp add: Get_def)
  moreover have "nm_quarantined m0 \<longleftrightarrow>
      (\<exists>a\<in>set (dl_recipients d). \<not> AllowlistMatches (ig_to_ascii ig) (ig_allowlist ig) a)"
    unfolding m0(2) quarantine_def Let_def by (auto simp: filter_empty_conv)
  ultimately show ?thesis
    using row w2 dv(3) unfolding captured_def by (intro exI [of _ row]) auto
qed

end
