(* ===== verification/StoreInv.thy ===== *)
theory StoreInv
  imports ClaimPath Ingest
begin

text \<open>
  The invariant of the whole store and its preservation by every operation.

  Beside the invariants of the single tables: a held lease belongs to an active run, and a claim
  refers to a lease, a run and a message that exist. The lease service and the claim path use
  the store only through its operations, so they are clients of the contract
  \<open>store_contract\<close>: whatever property of the store its operations keep, the service keeps.
\<close>

section \<open>The contract\<close>

definition keeps :: "(store \<Rightarrow> bool) \<Rightarrow> 'a op \<Rightarrow> bool" where
  "keeps I f \<longleftrightarrow> (\<forall>s r s'. I s \<longrightarrow> f s = (r, s') \<longrightarrow> I s')"

lemma keepsI: "(\<And>s r s'. I s \<Longrightarrow> f s = (r, s') \<Longrightarrow> I s') \<Longrightarrow> keeps I f"
  by (auto simp: keeps_def)

lemma keepsD: "keeps I f \<Longrightarrow> f s = (r, s') \<Longrightarrow> I s \<Longrightarrow> I s'"
  by (auto simp: keeps_def)

lemma keeps_tx:
  assumes "\<And>s s'. tables s' = tables s \<Longrightarrow> I s \<Longrightarrow> I s'" and "keeps I f"
  shows "keeps I (tx f)"
proof (rule keepsI)
  fix s r s' assume s: "I s" and run: "tx f s = (r, s')"
  show "I s'"
  proof (cases r)
    case (Inl e)
    then have "tables s' = tables s" using run by (auto dest: tx_Inl)
    then show ?thesis using s by (rule assms(1))
  next
    case (Inr x)
    then have "f s = (Inr x, s')" using run by (simp add: tx_Inr)
    then show ?thesis using assms(2) s by (auto dest: keepsD)
  qed
qed

locale serving_contract =
  fixes I :: "store \<Rightarrow> bool"
  assumes frame: "tables s' = tables s \<Longrightarrow> I s \<Longrightarrow> I s'"
    and create_identity: "keeps I (CreateIdentity ta ni)"
    and set_cooldown: "I s \<Longrightarrow> I (SetCooldown i u s)"
    and acquire_lease: "keeps I (AcquireLease nl)"
    and settle_seed: "keeps I (SettleSeed i st fp)"
    and release_lease: "keeps I (ReleaseLease i)"
    and expire_leases: "keeps I ExpireLeases"
    and create_run: "keeps I (CreateRun digest rnd project ttl)"
    and end_run: "keeps I (EndRun i rst reason)"
    and write_event: "keeps I (Write m ev)"
    and deliver: "keeps I (tx (deliver_tx ig m0 from q off envelope origin))"
    and set_extraction: "keeps I (SetExtraction i x)"
    and fail_extraction: "keeps I (FailExtraction i)"
    and delete_message: "keeps I (DeleteMessage i)"
    and record_claim: "keeps I (RecordClaim nc)"
begin

lemma in_tx: "keeps I f \<Longrightarrow> keeps I (tx f)"
  by (rule keeps_tx [OF frame])

lemma wall: "time_Now s = (t, s') \<Longrightarrow> I s \<Longrightarrow> I s'"
  using frame time_Now_frame(1) by blast

lemma clock: "Now s = (t, s') \<Longrightarrow> I s \<Longrightarrow> I s'"
  using frame Now_frame(1) by blast

lemma fresh_id: "NewID s = (t, s') \<Longrightarrow> I s \<Longrightarrow> I s'"
  using frame NewID_frame(1) by blast

lemma cooled: "I s \<Longrightarrow> I (case time_Now s of (w, s') \<Rightarrow> SetCooldown i (w + d) s')"
  by (auto split: prod.split intro: set_cooldown wall)

lemma end_runs: "keeps I (end_all is st reason)"
proof (rule keepsI)
  show "I s \<Longrightarrow> end_all is st reason s = (r, s') \<Longrightarrow> I s'" for s r s'
    by (induction "is" st reason s rule: end_all.induct)
       (auto split: prod.splits sum.splits dest: keepsD [OF end_run])
qed

lemma expire_runs: "keeps I ExpireRuns"
  unfolding ExpireRuns_def
proof (rule in_tx, rule keepsI)
  fix s :: store and r s'
  assume s: "I s" and run: "(case Now s of (now, s1) \<Rightarrow>
        let ids = map run_id (rows_where (run_due now) (runs s1))
        in case end_all ids RunExpired ''run ttl elapsed'' s1 of
             (Inl e, s2) \<Rightarrow> (Inl e, s2)
           | (Inr _, s2) \<Rightarrow> (Inr (length ids), s2)) = (r, s')"
  obtain now s1 where now: "Now s = (now, s1)" by (cases "Now s")
  from run now have "\<exists>r1. end_all (map run_id (rows_where (run_due now) (runs s1))) RunExpired
      ''run ttl elapsed'' s1 = (r1, s')"
    by (auto simp: Let_def split: prod.splits sum.splits)
  then show "I s'" using keepsD [OF end_runs] clock [OF now s] by blast
qed

text \<open>The lease service.\<close>

lemma lease_in_tx: "keeps I (lease_in_tx sv run role i)"
  by (rule keepsI)
     (auto simp: lease_in_tx_def auditAcquire_def split: prod.splits sum.splits
       dest!: keepsD [OF acquire_lease] keepsD [OF write_event])

lemma reserve_ephemeral: "keeps I (reserveEphemeral sv rnd run role)"
proof (rule keepsI)
  fix s r s' assume s: "I s" and run: "reserveEphemeral sv rnd run role s = (r, s')"
  have body: "keeps I (\<lambda>s0. case CreateIdentity (sv_to_ascii sv)
                     \<lparr>ni_project = sv_project sv, ni_persona = [], ni_addr = addr,
                      ni_role = role, ni_mode = ModeEphemeral\<rparr> s0 of
                (Inl e, s1) \<Rightarrow> (Inl e, s1)
              | (Inr i, s1) \<Rightarrow> lease_in_tx sv run role i s1)" for addr
    by (rule keepsI)
       (auto split: prod.splits sum.splits dest!: keepsD [OF create_identity]
         dest: keepsD [OF lease_in_tx])
  show "I s'"
    using run s keepsD [OF in_tx [OF body]]
    by (auto simp: reserveEphemeral_def split: option.splits)
qed

lemma pooled: "pooled_loop sv run role now cs s = (r, s') \<Longrightarrow> I s \<Longrightarrow> I s'"
proof (induction cs arbitrary: s)
  case (Cons c cs)
  obtain r1 s1 where t: "tx (lease_in_tx sv run role c) s = (r1, s1)"
    by (cases "tx (lease_in_tx sv run role c) s")
  have s1: "I s1" using keepsD [OF in_tx [OF lease_in_tx] t] Cons.prems(2) .
  show ?case
  proof (cases "cooling_down now c")
    case True
    then show ?thesis using Cons by simp
  next
    case False
    then show ?thesis
      using Cons.prems(1) t s1 Cons.IH [OF _ s1] by (auto split: sum.splits if_splits)
  qed
qed simp

lemma refusal_audit: "keeps I (auditRefusal sv run role md reason)"
  unfolding auditRefusal_def by (rule write_event)

lemma reserve_pooled: "keeps I (reservePooled sv run role)"
  by (rule keepsI)
     (auto simp: reservePooled_def split: option.splits prod.splits sum.splits
       dest: keepsD [OF refusal_audit] pooled intro: wall)

lemma reserve_keeps: "keeps I (reserve sv rnd run role md)"
  by (rule keepsI)
     (auto simp: reserve_def split: mode.splits dest: keepsD [OF reserve_ephemeral]
       keepsD [OF reserve_pooled])

lemma settle_keeps: "keeps I (settle sv run l i sr failed)"
  unfolding settle_def
proof (rule in_tx, rule keepsI)
  fix s r s' assume s: "I s" and run: "settle_tx sv run l i sr failed s = (r, s')"
  let ?st = "if failed then SeedFailed else sr_status sr"
  obtain r1 s1 where ss: "SettleSeed (ls_id l) ?st (sr_fingerprint sr) s = (r1, s1)"
    by (metis surj_pair)
  have s1: "I s1" using keepsD [OF settle_seed ss s] .
  let ?s2 = "if ?st = SeedFailed \<and> idn_mode i = ModePooled
     then (case time_Now s1 of (w, s') \<Rightarrow> SetCooldown (idn_id i) (w + sv_cooldown sv) s') else s1"
  have s2: "I ?s2" using s1 cooled by simp
  obtain r3 s3 where w: "Write (service_meta sv run i)
      (SeedSettled (ls_id l) (idn_id i) ?st (idn_addr i) (sr_fingerprint sr)) ?s2 = (r3, s3)"
    by (metis surj_pair)
  have "I s3" using keepsD [OF write_event w s2] .
  then show "I s'"
    using run ss s1 w unfolding settle_tx_def Let_def by (auto split: sum.splits if_split_asm)
qed

lemma acquire:
  assumes "\<And>s. I s \<Longrightarrow> I (meanwhile s)"
  shows "keeps I (Acquire sv rnd meanwhile run role md)"
proof (rule keepsI)
  fix s r s' assume s: "I s" and run: "Acquire sv rnd meanwhile run role md s = (r, s')"
  obtain r1 s1 where rs: "reserve sv rnd run role md s = (r1, s1)" by (metis surj_pair)
  have s1: "I s1" using keepsD [OF reserve_keeps rs s] .
  show "I s'"
  proof (cases r1)
    case (Inl e)
    then show ?thesis using run rs s1 by (simp add: Acquire_def)
  next
    case (Inr li)
    obtain l i where li: "li = (l, i)" by (cases li)
    obtain sr failed where sc: "seed_call sv run l i = (sr, failed)" by (metis surj_pair)
    obtain r2 s2 where st: "settle sv run l i sr failed (meanwhile s1) = (r2, s2)"
      by (metis surj_pair)
    have "I s2" using keepsD [OF settle_keeps st assms [OF s1]] .
    then show ?thesis
      using run rs Inr li sc st by (auto simp: Acquire_def split: sum.splits if_splits)
  qed
qed

lemma release: "keeps I (Release sv run lid)"
proof (rule keepsI)
  fix s r s' assume s: "I s" and run: "Release sv run lid s = (r, s')"
  have "keeps I (release_tx sv run lid i)" for i
  proof (rule keepsI)
    fix s r s' assume s: "I s" and run: "release_tx sv run lid i s = (r, s')"
    obtain r1 s1 where rl: "ReleaseLease lid s = (r1, s1)" by (metis surj_pair)
    have s1: "I s1" using keepsD [OF release_lease rl s] .
    let ?s2 = "if idn_mode i = ModePooled
      then (case time_Now s1 of (w, s') \<Rightarrow> SetCooldown (idn_id i) (w + sv_cooldown sv) s') else s1"
    have s2: "I ?s2" using s1 cooled by simp
    obtain r3 s3 where w: "Write (service_meta sv run i)
        (LeaseReleasedEv lid (idn_id i) (idn_addr i)) ?s2 = (r3, s3)" by (metis surj_pair)
    have "I s3" using keepsD [OF write_event w s2] .
    then show "I s'"
      using run rl s1 w unfolding release_tx_def Let_def by (auto split: sum.splits)
  qed
  from keepsD [OF in_tx [OF this]] show "I s'"
    using run s by (auto simp: Release_def split: option.splits)
qed

lemma service_end_run: "keeps I (ServiceEndRun i st reason)"
  unfolding ServiceEndRun_def by (rule in_tx [OF end_run])

lemma service_create_run: "keeps I (ServiceCreateRun sv digest rnd)"
  unfolding ServiceCreateRun_def by (rule in_tx [OF create_run])

lemma sweep: "keeps I Sweep"
  by (rule keepsI)
     (auto simp: Sweep_def split: prod.splits sum.splits dest!: keepsD [OF expire_runs]
       keepsD [OF in_tx [OF expire_leases]])

text \<open>The claim path.\<close>

lemma claim:
  assumes "\<And>s. I s \<Longrightarrow> I (env_race env s)" and "\<And>s. I s \<Longrightarrow> I (env_wait env s)"
    and "I s" and "Claim sv dec env req s = (Inr c, s')"
  shows "I s'"
proof -
  let ?J = "\<lambda>d. \<exists>s. tables s = d \<and> I s"
  have J: "?J (tables s) \<longleftrightarrow> I s" for s using frame by metis
  have "kept_by_claims env ?J"
    unfolding kept_by_claims_def J
    using assms(1,2) keepsD [OF record_claim] keepsD [OF write_event] by (metis prod.collapse)
  from Claim_preserves [OF this _ assms(4)] assms(3) show ?thesis unfolding J .
qed

end

text \<open>A property that looks at the tables of mail and leases only survives administration too.\<close>

locale store_contract = serving_contract +
  assumes rows: "same_rows s s' \<Longrightarrow> I s \<Longrightarrow> I s'"
begin

lemma rows_iff: "same_rows s s' \<Longrightarrow> I s \<longleftrightarrow> I s'"
  using rows [of s s'] rows [of s' s] by (auto simp: same_rows_def)

end

section \<open>The invariant\<close>

definition held_active :: "store \<Rightarrow> bool" where
  "held_active s \<longleftrightarrow>
     (\<forall>l\<in>set (leases s). ls_state l = LeaseHeld \<longrightarrow>
        (\<exists>r\<in>set (runs s). run_id r = ls_run l \<and> run_state r = RunActive))"

definition claim_refs :: "store \<Rightarrow> bool" where
  "claim_refs s \<longleftrightarrow>
     (\<forall>c\<in>set (claims s). cl_lease c \<in> ls_id ` set (leases s) \<and> cl_run c \<in> run_id ` set (runs s) \<and>
        (\<forall>m. cl_message c = Some m \<longrightarrow> m \<in> msg_id ` set (messages s)))"

definition store_inv :: "store \<Rightarrow> bool" where
  "store_inv s \<longleftrightarrow>
     lease_inv (leases s) \<and> identity_inv (identities s) \<and> run_inv (runs s) \<and>
     message_inv (messages s) \<and> binding_inv s \<and> claim_inv (claims s) \<and>
     held_active s \<and> claim_refs s"

definition no_accounts :: accounts where
  "no_accounts = \<lparr>ac_projects = [], ac_allowlist = [], ac_personas = [], ac_relations = [],
     ac_secrets = [], ac_sessions = []\<rparr>"

definition empty_db :: db where
  "empty_db = \<lparr>db_runs = [], db_identities = [], db_leases = [], db_messages = [], db_bindings = [],
     db_claims = [], db_ledger = [], db_generation = 0, db_accounts = no_accounts\<rparr>"

lemma store_inv_empty: "tables s = empty_db \<Longrightarrow> store_inv s"
  by (simp add: store_inv_def empty_db_def lease_inv_def identity_inv_def run_inv_def
      message_inv_def binding_inv_def claim_inv_def held_active_def claim_refs_def)

text \<open>An operation that leaves a table alone leaves its part of the invariant alone.\<close>

lemma store_inv_cong:
  assumes "runs s' = runs s" and "identities s' = identities s" and "leases s' = leases s"
    and "messages s' = messages s" and "bindings s' = bindings s" and "claims s' = claims s"
  shows "store_inv s' = store_inv s"
  using assms by (simp add: store_inv_def binding_inv_def held_active_def claim_refs_def)

subsection \<open>Operations on leases\<close>

lemma lease_frame_ids: "lease_frame ls ls' \<Longrightarrow> ls_id ` set ls \<subseteq> ls_id ` set ls'"
proof
  fix i assume "lease_frame ls ls'" and "i \<in> ls_id ` set ls"
  then obtain l l' where "l' \<in> set ls'" "ls_id l' = i" unfolding lease_frame_def by blast
  then show "i \<in> ls_id ` set ls'" by blast
qed

lemma lease_frame_trans: "lease_frame a b \<Longrightarrow> lease_frame b c \<Longrightarrow> lease_frame a c"
  unfolding lease_frame_def by metis

definition lease_side :: "store \<Rightarrow> store \<Rightarrow> bool" where
  "lease_side s s' \<longleftrightarrow> identities s' = identities s \<and> messages s' = messages s \<and>
     bindings s' = bindings s \<and> claims s' = claims s \<and> lease_frame (leases s) (leases s') \<and>
     run_id ` set (runs s) \<subseteq> run_id ` set (runs s')"

lemma store_inv_lease_side:
  assumes inv: "store_inv s" and "lease_side s s'" and "lease_inv (leases s')"
    and "run_inv (runs s')" and "held_active s'"
  shows "store_inv s'"
proof -
  from assms(2) have b: "binding_inv s'"
    using binding_inv_leases [of s s'] inv by (simp add: store_inv_def lease_side_def)
  have "claim_refs s'"
    using assms(2) inv lease_frame_ids [of "leases s" "leases s'"]
    unfolding store_inv_def lease_side_def claim_refs_def by auto
  with b assms show ?thesis by (simp add: store_inv_def lease_side_def)
qed

text \<open>Ending leases can only make fewer of them held.\<close>

definition fewer_held :: "lease list \<Rightarrow> lease list \<Rightarrow> bool" where
  "fewer_held ls ls' \<longleftrightarrow>
     (\<forall>l'\<in>set ls'. ls_state l' = LeaseHeld \<longrightarrow>
        (\<exists>l\<in>set ls. ls_state l = LeaseHeld \<and> ls_run l = ls_run l'))"

lemma held_active_fewer:
  "held_active s \<Longrightarrow> runs s' = runs s \<Longrightarrow> fewer_held (leases s) (leases s') \<Longrightarrow> held_active s'"
  unfolding held_active_def fewer_held_def by metis

lemma fewer_held_refl [simp]: "fewer_held ls ls"
  by (auto simp: fewer_held_def)

lemma fewer_held_update:
  assumes "\<And>l. ls_run (f l) = ls_run l"
    and "\<And>l. P l \<Longrightarrow> ls_state (f l) = LeaseHeld \<Longrightarrow> ls_state l = LeaseHeld"
  shows "fewer_held ls (update_where P f ls)"
  unfolding fewer_held_def
proof (intro ballI impI)
  fix l' assume l': "l' \<in> set (update_where P f ls)" "ls_state l' = LeaseHeld"
  then obtain q where q: "q \<in> set ls" "l' = (if P q then f q else q)"
    unfolding set_update_where by blast
  have "ls_state q = LeaseHeld \<and> ls_run q = ls_run l'"
    using q(2) l'(2) assms by (cases "P q") simp_all
  with q(1) show "\<exists>l\<in>set ls. ls_state l = LeaseHeld \<and> ls_run l = ls_run l'" by blast
qed

lemma end_lease_frame [simp]:
  "ls_run (end_lease st t l) = ls_run l" "ls_id (end_lease st t l) = ls_id l"
  "ls_identity (end_lease st t l) = ls_identity l"
  "ls_acquired_at (end_lease st t l) = ls_acquired_at l"
  "ls_state (end_lease st t l) = st"
  by (simp_all add: end_lease_def)

text \<open>The operations that rewrite lease rows in place.\<close>

lemma lease_rewrite:
  assumes "tables s' = (tables s)\<lparr>db_leases := update_where P f (leases s)\<rparr>"
    and "\<And>l. ls_run (f l) = ls_run l" and "\<And>l. ls_id (f l) = ls_id l"
    and "\<And>l. ls_identity (f l) = ls_identity l" and "\<And>l. ls_acquired_at (f l) = ls_acquired_at l"
    and "\<And>l. P l \<Longrightarrow> ls_state (f l) = LeaseHeld \<Longrightarrow> ls_state l = LeaseHeld"
    and "store_inv s" and "lease_inv (leases s')"
  shows "store_inv s'"
proof (rule store_inv_lease_side [OF assms(7)])
  have "lease_frame (leases s) (update_where P f (leases s))"
    by (rule lease_frame_update) (rule assms(2-5))+
  then show "lease_side s s'"
    using assms(1) by (simp add: lease_side_def)
  have "fewer_held (leases s) (leases s')"
    using fewer_held_update [of f P "leases s", OF assms(2) assms(6)] assms(1) by simp
  then show "held_active s'"
    using assms(1,7) by (auto simp: store_inv_def intro: held_active_fewer [of s s'])
  show "run_inv (runs s')" using assms(1,7) by (simp add: store_inv_def)
qed (rule assms(8))

lemma SettleSeed_store: "keeps store_inv (SettleSeed i st fp)"
proof (rule keepsI)
  fix s r s' assume inv: "store_inv s" and run: "SettleSeed i st fp s = (r, s')"
  obtain now s1 where now: "Now s = (now, s1)" by (cases "Now s")
  then have tab: "tables s1 = tables s" by (simp add: Now_frame(1))
  let ?f = "\<lambda>l. l\<lparr>ls_seed_state := st, ls_fingerprint := fp\<rparr>"
  let ?g = "if st = SeedFailed then (\<lambda>l. end_lease LeaseFailed now (?f l)) else ?f"
  have li: "lease_inv (leases s')"
    using SettleSeed_inv [OF run] inv by (simp add: store_inv_def)
  show "store_inv s'"
  proof (cases "st = SeedPending")
    case True
    then show ?thesis using run inv by (simp add: SettleSeed_def)
  next
    case False
    then have "tables s' = (tables s)\<lparr>db_leases := update_where (held_row i) ?g (leases s)\<rparr>"
      using run now tab
      by (cases "affected (held_row i) (leases s) = 1")
         (auto simp: SettleSeed_def Let_def set_leases_def simp del: One_nat_def)
    then show ?thesis
      by (rule lease_rewrite [OF _ _ _ _ _ _ inv li]) (auto simp: held_row_def)
  qed
qed

lemma ReleaseLease_store: "keeps store_inv (ReleaseLease i)"
proof (rule keepsI)
  fix s r s' assume inv: "store_inv s" and run: "ReleaseLease i s = (r, s')"
  obtain now s1 where now: "Now s = (now, s1)" by (cases "Now s")
  then have tab: "tables s1 = tables s" by (simp add: Now_frame(1))
  have "tables s' = (tables s)\<lparr>db_leases :=
      update_where (held_row i) (end_lease LeaseReleased now) (leases s)\<rparr>"
    using run now tab
    by (auto simp: ReleaseLease_def Let_def set_leases_def split: if_splits option.splits)
  moreover have "lease_inv (leases s')"
    using ReleaseLease_inv [OF run] inv by (simp add: store_inv_def)
  ultimately show "store_inv s'"
    by (elim lease_rewrite [OF _ _ _ _ _ _ inv]) auto
qed

lemma ExpireLeases_store: "keeps store_inv ExpireLeases"
proof (rule keepsI)
  fix s r s' assume inv: "store_inv s" and run: "ExpireLeases s = (r, s')"
  obtain t1 s1 t2 s2 where now: "Now s = (t1, s1)" "Now s1 = (t2, s2)" by (metis surj_pair)
  then have tab: "tables s2 = tables s" by (simp add: Now_frame(1))
  have "tables s' = (tables s)\<lparr>db_leases :=
      update_where (lease_due t2) (end_lease LeaseExpired t1) (leases s)\<rparr>"
    using run now tab by (auto simp: ExpireLeases_def set_leases_def)
  moreover have "lease_inv (leases s')"
    using ExpireLeases_inv [OF run] inv by (simp add: store_inv_def)
  ultimately show "store_inv s'"
    by (elim lease_rewrite [OF _ _ _ _ _ _ inv]) auto
qed

lemma AcquireLease_store: "keeps store_inv (AcquireLease nl)"
proof (rule keepsI)
  fix s r s' assume inv: "store_inv s" and run: "AcquireLease nl s = (r, s')"
  have li: "lease_inv (leases s')"
    using AcquireLease_inv [OF run] inv by (simp add: store_inv_def)
  from run show "store_inv s'"
  proof (cases rule: AcquireLease_cases)
    case (refused e)
    then show ?thesis using inv store_inv_cong [of s' s] by simp
  next
    case (granted rr t s1 cooling i l)
    have "held_active s'"
      using inv granted(2,6,9) find_row_Some [OF granted(1)]
      by (auto simp: store_inv_def held_active_def)
    then show ?thesis
      using granted(9) li inv
      by (intro store_inv_lease_side [OF inv]) (auto simp: lease_side_def store_inv_def)
  qed
qed

lemma EndRun_store: "keeps store_inv (EndRun i st reason)"
proof (rule keepsI)
  fix s r s' assume inv: "store_inv s" and run: "EndRun i st reason s = (r, s')"
  obtain now s1 where now: "Now s = (now, s1)" by (cases "Now s")
  then have tab: "tables s1 = tables s" by (simp add: Now_frame(1))
  let ?rs = "update_where (active_row i) (end_run st reason now) (runs s)"
  let ?P = "\<lambda>l. ls_run l = i \<and> ls_state l = LeaseHeld"
  let ?ls = "update_where ?P (end_lease LeaseReleased now) (leases s)"
  note inv' = EndRun_inv [OF run]
  show "store_inv s'"
  proof (cases "tables s' = tables s")
    case True
    then show ?thesis using inv store_inv_cong [of s' s] by simp
  next
    case False
    then have t: "tables s' = (tables s)\<lparr>db_runs := ?rs, db_leases := ?ls\<rparr>"
      using run now tab
      by (auto simp: EndRun_def releaseRunLeases_def set_leases_def set_runs_def
          split: if_splits option.splits)
    show ?thesis
    proof (rule store_inv_lease_side [OF inv])
      have "map run_id ?rs = map run_id (runs s)"
        by (rule map_update_where) (simp add: end_run_def)
      then have "run_id ` set ?rs = run_id ` set (runs s)" by (metis set_map)
      then show "lease_side s s'"
        using t by (simp add: lease_side_def lease_frame_update)
      show "held_active s'"
        unfolding held_active_def
      proof (intro ballI impI)
        fix l assume l: "l \<in> set (leases s')" "ls_state l = LeaseHeld"
        then have "l \<in> set ?ls" using t by simp
        then obtain p where p: "p \<in> set (leases s)"
          "l = (if ?P p then end_lease LeaseReleased now p else p)"
          unfolding set_update_where by blast
        have "\<not> ?P p" using p(2) l(2) by (cases "?P p") simp_all
        with p have old: "l \<in> set (leases s)" and other: "ls_run l \<noteq> i" using l(2) by auto
        then obtain q where q: "q \<in> set (runs s)" "run_id q = ls_run l" "run_state q = RunActive"
          using inv l(2) by (auto simp: store_inv_def held_active_def)
        then have "q \<in> set ?rs"
          using other by (auto simp: set_update_where active_row_def intro!: bexI [of _ q])
        then show "\<exists>r\<in>set (runs s'). run_id r = ls_run l \<and> run_state r = RunActive"
          using q t by auto
      qed
    qed (use inv inv' in \<open>simp_all add: store_inv_def\<close>)
  qed
qed

lemma CreateRun_store: "keeps store_inv (CreateRun digest rnd project ttl)"
proof (rule keepsI)
  fix s r s' assume inv: "store_inv s" and run: "CreateRun digest rnd project ttl s = (r, s')"
  obtain now s1 i s2 where ns: "Now s = (now, s1)" "NewID s1 = (i, s2)" by (metis surj_pair)
  then have tab: "tables s2 = tables s" by (simp add: Now_frame(1) NewID_frame(1))
  have "runs s' = runs s \<or> (\<exists>q. runs s' = runs s @ [q])" and same: "leases s' = leases s"
    "identities s' = identities s" "messages s' = messages s" "bindings s' = bindings s"
    "claims s' = claims s"
    using run ns tab
    by (auto simp: CreateRun_def Let_def Now_frame(1) split: if_splits)
  then have runs: "set (runs s) \<subseteq> set (runs s')" by auto
  show "store_inv s'"
  proof (rule store_inv_lease_side [OF inv])
    show "lease_side s s'" using same runs by (auto simp: lease_side_def)
    show "lease_inv (leases s')" using same inv by (simp add: store_inv_def)
    show "run_inv (runs s')" using CreateRun_inv [OF run] inv by (simp add: store_inv_def)
    show "held_active s'"
      using same runs inv unfolding store_inv_def held_active_def by (metis subsetD)
  qed
qed


subsection \<open>Operations on identities, the ledger and claims\<close>

lemma CreateIdentity_store: "keeps store_inv (CreateIdentity ta ni)"
proof (rule keepsI)
  fix s r s' assume inv: "store_inv s" and run: "CreateIdentity ta ni s = (r, s')"
  obtain i s1 now s2 where ns: "NewID s = (i, s1)" "Now s1 = (now, s2)" by (metis surj_pair)
  then have tab: "tables s2 = tables s" by (simp add: Now_frame(1) NewID_frame(1))
  have "runs s' = runs s \<and> leases s' = leases s \<and> messages s' = messages s \<and>
      bindings s' = bindings s \<and> claims s' = claims s"
    using run ns tab by (auto simp: CreateIdentity_def Let_def split: if_splits)
  moreover have "identity_inv (identities s')"
    using CreateIdentity_inv [OF run] inv by (simp add: store_inv_def)
  ultimately show "store_inv s'"
    using inv by (simp add: store_inv_def binding_inv_def held_active_def claim_refs_def)
qed

lemma SetCooldown_store: "store_inv s \<Longrightarrow> store_inv (SetCooldown i u s)"
  using SetCooldown_inv [of s i u]
  by (simp add: store_inv_def binding_inv_def held_active_def claim_refs_def)

lemma Write_store: "keeps store_inv (Write m ev)"
proof (rule keepsI)
  fix s r s' assume "store_inv s" and "Write m ev s = (r, s')"
  with Write_frame [OF this(2)] show "store_inv s'" by (simp add: store_inv_cong [of s' s])
qed

lemma list_ex_key: "list_ex (\<lambda>r. k r = x) rows \<longleftrightarrow> x \<in> k ` set rows"
  by (auto simp: list_ex_iff image_iff)

lemma not_dangling:
  "\<not> claim_dangling s c \<longleftrightarrow>
     cl_lease c \<in> ls_id ` set (leases s) \<and> cl_run c \<in> run_id ` set (runs s) \<and>
     (\<forall>m. cl_message c = Some m \<longrightarrow> m \<in> msg_id ` set (messages s))"
  by (cases "cl_message c") (simp_all add: claim_dangling_def list_ex_key conj_ac)

lemma RecordClaim_store: "keeps store_inv (RecordClaim nc)"
proof (rule keepsI)
  fix s r s' assume inv: "store_inv s" and run: "RecordClaim nc s = (r, s')"
  have ci: "claim_inv (claims s')" using RecordClaim_inv [OF run] inv by (simp add: store_inv_def)
  from run show "store_inv s'"
  proof (cases rule: RecordClaim_cases)
    case (refused e)
    then show ?thesis using inv store_inv_cong [of s' s] by simp
  next
    case (recorded now i c)
    have "claim_refs s'"
      using inv recorded(6,8) unfolding not_dangling by (simp add: store_inv_def claim_refs_def)
    with ci inv recorded(8) show ?thesis
      by (simp add: store_inv_def binding_inv_def held_active_def)
  qed
qed

subsection \<open>Operations on messages\<close>

lemma message_rewrite:
  assumes inv: "store_inv s"
    and t: "tables s' = (tables s)\<lparr>db_messages := update_where P f (messages s)\<rparr>"
    and ids: "\<And>m. msg_id (f m) = msg_id m" and times: "\<And>m. msg_received_at (f m) = msg_received_at m"
    and mi: "message_inv (messages s')"
  shows "store_inv s'"
proof -
  have "\<exists>m'\<in>set (messages s'). msg_id m' = msg_id m \<and> msg_received_at m' = msg_received_at m"
    if "m \<in> set (messages s)" for m
    using update_where_hit [OF that, of P f] ids times t by (intro bexI) auto
  then have "binding_inv s'"
    using binding_inv_messages [of s s'] inv t by (simp add: store_inv_def)
  moreover have "msg_id ` set (messages s') = msg_id ` set (messages s)"
    using arg_cong [OF map_update_where [of msg_id f P "messages s", OF ids], of set] t by simp
  ultimately show ?thesis
    using inv t mi by (simp add: store_inv_def held_active_def claim_refs_def)
qed


lemma settleExtraction_store:
  assumes "store_inv s" and "settleExtraction i f s = (r, s')"
    and "\<And>m. msg_id (f m) = msg_id m" and "\<And>m. msg_received_at (f m) = msg_received_at m"
    and "message_inv (messages s')"
  shows "store_inv s'"
  using message_rewrite [OF assms(1) settleExtraction_tables [OF assms(2)] assms(3,4,5)] .

lemma SetExtraction_store: "keeps store_inv (SetExtraction i x)"
proof (rule keepsI)
  fix s r s' assume inv: "store_inv s" and run: "SetExtraction i x s = (r, s')"
  have mi: "message_inv (messages s')"
    using SetExtraction_inv [OF run] inv by (simp add: store_inv_def)
  from run show "store_inv s'"
  proof (cases rule: SetExtraction_cases)
    case (ran sealed)
    show ?thesis by (rule settleExtraction_store [OF inv ran(3) _ _ mi]) simp_all
  qed (use inv in simp)
qed

lemma FailExtraction_store: "keeps store_inv (FailExtraction i)"
proof (rule keepsI)
  fix s r s' assume inv: "store_inv s" and run: "FailExtraction i s = (r, s')"
  have mi: "message_inv (messages s')"
    using FailExtraction_inv [OF run] inv by (simp add: store_inv_def)
  show "store_inv s'"
    by (rule settleExtraction_store [OF inv run [unfolded FailExtraction_def] _ _ mi]) simp_all
qed

lemma DeleteMessage_store: "keeps store_inv (DeleteMessage i)"
proof (rule keepsI)
  fix s r s' assume inv: "store_inv s" and run: "DeleteMessage i s = (r, s')"
  show "store_inv s'"
  proof (cases "find_row (\<lambda>m. msg_id m = i) (messages s)")
    case None
    then show ?thesis using run inv by (simp add: DeleteMessage_def)
  next
    case (Some m)
    then have t: "tables s' = (tables s)\<lparr>db_messages := filter (\<lambda>r. msg_id r \<noteq> i) (messages s),
        db_bindings := filter (\<lambda>b. bd_message b \<noteq> i) (bindings s),
        db_claims := filter (\<lambda>c. cl_message c \<noteq> Some i) (claims s)\<rparr>"
      using run by (auto simp: DeleteMessage_def set_table_defs)
    have "binding_ok (leases s) (filter (\<lambda>r. msg_id r \<noteq> i) (messages s)) b"
      if "binding_ok (leases s) (messages s) b" and "bd_message b \<noteq> i" for b
      using that by (auto simp: binding_ok_def list_ex_iff)
    then have "binding_inv s'"
      using inv t by (auto simp: store_inv_def binding_inv_def list_all_iff distinct_map_filter)
    moreover have "claim_refs s'"
      using inv t by (auto simp: store_inv_def claim_refs_def)
    ultimately show ?thesis
      using inv t DeleteMessage_inv [OF run] claim_inv_filter
      by (simp add: store_inv_def held_active_def)
  qed
qed

lemma binds_to_ok:
  assumes "binds_to s m rt ot b"
  shows "\<exists>l\<in>set (leases s). ls_id l = bd_lease b \<and> ls_run l = bd_run b \<and>
     ls_identity l = bd_identity b \<and> ls_acquired_at l \<le> rt"
proof -
  from assms obtain ow where ow: "owner_at s (bd_addr b) rt = Some ow"
    and b: "bd_lease b = ow_lease ow" "bd_run b = ow_run ow" "bd_identity b = ow_identity ow"
    by (auto simp: binds_to_def split: option.splits)
  from ow obtain l where "l \<in> set (leases s)" "owns_addr_at (identities s) (bd_addr b) rt l"
    "ow = owner_of s l" by (rule owner_at_Some)
  with b show ?thesis
    by (intro bexI [of _ l]) (auto simp: owner_of_def owns_addr_at_def covers_def)
qed


lemma bind_loop_distinct:
  assumes "bind_loop ta m rt ot raw seen bound unbound s = (Inr x, s')"
    and "distinct (map (\<lambda>b. (bd_message b, bd_lease b)) (bindings s))"
  shows "distinct (map (\<lambda>b. (bd_message b, bd_lease b)) (bindings s'))"
  using assms
proof (induction raw arbitrary: seen bound unbound s)
  case (Cons r rs)
  let ?a = "NormalizeAddress ta r"
  show ?case
  proof (cases "?a = [] \<or> ?a \<in> set seen")
    case True
    then have "bind_loop ta m rt ot rs seen bound unbound s = (Inr x, s')"
      using Cons.prems(1) by (auto simp: Let_def split: if_splits)
    then show ?thesis using Cons.IH Cons.prems(2) by blast
  next
    case new: False
    show ?thesis
    proof (cases "owner_at s ?a rt")
      case None
      then have "bind_loop ta m rt ot rs (?a # seen) bound (unbound @ [?a]) s = (Inr x, s')"
        using Cons.prems(1) new by (simp add: Let_def)
      then show ?thesis using Cons.IH Cons.prems(2) by blast
    next
      case (Some ow)
      obtain now s1 where now: "Now s = (now, s1)" by (cases "Now s")
      then have tab: "tables s1 = tables s" by (simp add: Now_frame(1))
      let ?b = "\<lparr>bd_message = m, bd_lease = ow_lease ow, bd_run = ow_run ow,
                        bd_identity = ow_identity ow, bd_addr = ?a, bd_bound_at = now,
                        bd_suspect = suspicion ow ot\<rparr>"
      let ?s2 = "set_bindings (bindings s1 @ [?b]) s1"
      have free: "\<not> binding_conflict s1 ?b" and
        next_: "bind_loop ta m rt ot rs (?a # seen) (bound @ [?b]) unbound ?s2 = (Inr x, s')"
        using Cons.prems(1) new Some now by (auto simp: Let_def split: if_splits)
      have "distinct (map (\<lambda>b. (bd_message b, bd_lease b)) (bindings ?s2))"
        using Cons.prems(2) free tab by (auto simp: binding_conflict_def list_ex_iff)
      then show ?thesis by (rule Cons.IH [OF next_])
    qed
  qed
qed simp

lemma deliver_distinct:
  assumes "deliver_tx ig m0 f q off envelope originAt s = (Inr m, s')"
    and "distinct (map (\<lambda>b. (bd_message b, bd_lease b)) (bindings s))"
  shows "distinct (map (\<lambda>b. (bd_message b, bd_lease b)) (bindings s'))"
proof -
  obtain r1 s1 where ins: "InsertMessage (ig_to_ascii ig) m0 s = (r1, s1)"
    by (cases "InsertMessage (ig_to_ascii ig) m0 s")
  have b1: "bindings s1 = bindings s" using ins by (cases rule: InsertMessage_cases) simp_all
  have r1: "r1 = Inr m"
    using assms(1) ins by (auto simp: deliver_tx_def split: sum.splits prod.splits)
  obtain r2 s2 where aud: "audit ig (nm_id m) f q off s1 = (r2, s2)"
    by (cases "audit ig (nm_id m) f q off s1")
  note a = audit_ledger_only [OF aud]
  obtain r3 s3 where bnd: "BindRecipients (ig_to_ascii ig) (nm_id m) envelope (nm_received_at m)
      originAt s2 = (r3, s3)" by (metis surj_pair)
  from assms(1) ins r1 aud a bnd obtain bd ub where r3: "r3 = Inr (bd, ub)"
    by (auto simp: deliver_tx_def bind_mail_def split: sum.splits prod.splits)
  obtain r4 s4 where wb: "write_bound ig bd s3 = (r4, s4)" by (cases "write_bound ig bd s3")
  obtain r5 s5 where wu: "Write (ingest_meta ig []) (MailUnbound (nm_id m) ub) s4 = (r5, s5)"
    by (cases "Write (ingest_meta ig []) (MailUnbound (nm_id m) ub) s4")
  have "ledger_only s3 s4" "ledger_only s4 s5" "r4 = Inr ()"
    using write_bound_ledger_only [OF wb] Write_ledger_only [OF wu] by blast+
  moreover have "s' = s4 \<or> s' = s5"
    using assms(1) ins r1 aud a bnd r3 wb wu calculation(3)
    by (auto simp: deliver_tx_def bind_mail_def split: if_splits sum.splits)
  ultimately have "bindings s' = bindings s3" by (metis ledger_only_tables(5))
  moreover have "bindings s2 = bindings s" using a b1 by (metis ledger_only_tables(5))
  ultimately show ?thesis
    using bind_loop_distinct [OF bnd [unfolded r3 BindRecipients_def]] assms(2) by simp
qed

lemma deliver_store:
  assumes inv: "store_inv s" and run: "deliver_tx ig m0 f q off envelope originAt s = (Inr m, s')"
  shows "store_inv s'"
proof -
  from deliver_tx_delivered [OF run] obtain row bd es where
    t: "tables s' = (tables s)\<lparr>db_messages := messages s @ [row], db_bindings := bindings s @ bd,
                               db_ledger := ledger s @ es\<rparr>"
    and row: "msg_id row = nm_id m" "msg_id row \<notin> msg_id ` set (messages s)"
      "msg_received_at row = nm_received_at m"
      "msg_extracted row \<noteq> None \<longleftrightarrow> msg_extraction_state row = ExtractionSuccess"
    and bd: "list_all (binds_to s (nm_id m) (nm_received_at m) originAt) bd"
    unfolding delivered_def by blast
  have mi: "message_inv (messages s')"
    using message_inv_insert [OF _ row(2,4)] inv t by (simp add: store_inv_def)
  have old: "binding_ok (leases s) (messages s @ [row]) b"
    if "binding_ok (leases s) (messages s) b" for b
    using that by (auto simp: binding_ok_def)
  have new: "binding_ok (leases s) (messages s @ [row]) b" if "b \<in> set bd" for b
  proof -
    from bd that have b: "binds_to s (nm_id m) (nm_received_at m) originAt b"
      by (simp add: list_all_iff)
    then have "bd_message b = nm_id m" by (simp add: binds_to_def)
    with binds_to_ok [OF b] row(1,3) show ?thesis by (auto simp: binding_ok_def list_ex_iff)
  qed
  have "binding_inv s'"
    using inv t old new deliver_distinct [OF run]
    by (auto simp: store_inv_def binding_inv_def list_all_iff)
  moreover have "claim_refs s'"
    using inv t by (auto simp: store_inv_def claim_refs_def)
  ultimately show ?thesis
    using inv t mi by (simp add: store_inv_def held_active_def)
qed


lemma Deliver_tx_store: "keeps store_inv (tx (deliver_tx ig m0 f q off envelope originAt))"
proof (rule keepsI)
  fix s r s' assume inv: "store_inv s" and run: "tx (deliver_tx ig m0 f q off envelope originAt) s = (r, s')"
  show "store_inv s'"
  proof (cases r)
    case (Inl e)
    then show ?thesis using run inv tx_Inl store_inv_cong [of s' s] by metis
  next
    case (Inr m)
    then show ?thesis using run deliver_store [OF inv] by (simp add: tx_Inr)
  qed
qed

interpretation store_rows: store_contract store_inv
proof unfold_locales
  show "tables s' = tables s \<Longrightarrow> store_inv s \<Longrightarrow> store_inv s'" for s s'
    using store_inv_cong [of s' s] by simp
  show "same_rows s s' \<Longrightarrow> store_inv s \<Longrightarrow> store_inv s'" for s s'
    using store_inv_cong [of s' s] by (simp add: same_rows_def)
qed (simp_all add: CreateIdentity_store SetCooldown_store AcquireLease_store SettleSeed_store
      ReleaseLease_store ExpireLeases_store CreateRun_store EndRun_store Write_store
      Deliver_tx_store SetExtraction_store FailExtraction_store DeleteMessage_store
      RecordClaim_store)

end
