(* ===== verification/SideViews.thy ===== *)
theory SideViews
  imports StoreInv
begin

text \<open>
  Which tables an operation leaves alone. A \<open>side_view\<close> is anything read off the tables that does
  not look at identities, leases, messages, bindings and claims; every operation on those tables
  leaves it as it was. The runs, the ledger and the administration are such views, and each
  inherits the lemmas proved here once.
\<close>

definition leaves :: "(db \<Rightarrow> 'v) \<Rightarrow> 'a op \<Rightarrow> bool" where
  "leaves v f \<longleftrightarrow> (\<forall>s r s'. f s = (r, s') \<longrightarrow> v (tables s') = v (tables s))"

lemma leavesI: "(\<And>s r s'. f s = (r, s') \<Longrightarrow> v (tables s') = v (tables s)) \<Longrightarrow> leaves v f"
  by (auto simp: leaves_def)

lemma leavesD: "leaves v f \<Longrightarrow> f s = (r, s') \<Longrightarrow> v (tables s') = v (tables s)"
  by (auto simp: leaves_def)

lemma leaves_keeps: "leaves v f \<Longrightarrow> keeps (\<lambda>s. P (v (tables s))) f"
  by (rule keepsI) (auto dest: leavesD)

lemma draw_tables:
  "NewID s = (i, s') \<Longrightarrow> tables s' = tables s" "Now s = (t, s') \<Longrightarrow> tables s' = tables s"
  by (simp_all add: Now_frame(1) NewID_frame(1))

locale side_view =
  fixes v :: "db \<Rightarrow> 'v"
  assumes v_update: "v (d\<lparr>db_identities := a1\<rparr>) = v d" "v (d\<lparr>db_leases := a2\<rparr>) = v d"
    "v (d\<lparr>db_messages := a3\<rparr>) = v d" "v (d\<lparr>db_bindings := a4\<rparr>) = v d"
    "v (d\<lparr>db_claims := a5\<rparr>) = v d"
begin

lemma create_identity: "leaves v (CreateIdentity ta ni)"
proof (rule leavesI)
  fix s r s' assume run: "CreateIdentity ta ni s = (r, s')"
  obtain i s1 now s2 where ns: "NewID s = (i, s1)" "Now s1 = (now, s2)" by (metis surj_pair)
  then have "tables s2 = tables s" by (simp add: draw_tables)
  with run ns show "v (tables s') = v (tables s)"
    by (auto simp: CreateIdentity_def Let_def set_table_defs v_update split: if_splits)
qed

lemma set_cooldown: "v (tables (SetCooldown i u s)) = v (tables s)"
  by (simp add: SetCooldown_def set_table_defs v_update)

lemma acquire_lease: "leaves v (AcquireLease nl)"
  by (rule leavesI, erule AcquireLease_cases) (simp_all add: v_update)

lemma settle_seed: "leaves v (SettleSeed i st fp)"
proof (rule leavesI)
  fix s r s' assume run: "SettleSeed i st fp s = (r, s')"
  obtain now s1 where now: "Now s = (now, s1)" by (cases "Now s")
  with run draw_tables(2) [OF now] show "v (tables s') = v (tables s)"
    by (auto simp: SettleSeed_def Let_def set_table_defs v_update split: if_splits)
qed

lemma release_lease: "leaves v (ReleaseLease i)"
proof (rule leavesI)
  fix s r s' assume run: "ReleaseLease i s = (r, s')"
  obtain now s1 where now: "Now s = (now, s1)" by (cases "Now s")
  with run draw_tables(2) [OF now] show "v (tables s') = v (tables s)"
    by (auto simp: ReleaseLease_def Let_def set_table_defs v_update split: if_splits option.splits)
qed

lemma expire_leases: "leaves v ExpireLeases"
proof (rule leavesI)
  fix s r s' assume run: "ExpireLeases s = (r, s')"
  obtain t1 s1 t2 s2 where now: "Now s = (t1, s1)" "Now s1 = (t2, s2)" by (metis surj_pair)
  then have "tables s2 = tables s" by (simp add: draw_tables)
  with run now show "v (tables s') = v (tables s)"
    by (auto simp: ExpireLeases_def set_table_defs v_update)
qed

lemma settle_extraction: "settleExtraction i f s = (r, s') \<Longrightarrow> v (tables s') = v (tables s)"
  by (drule settleExtraction_tables) (simp add: v_update)

lemma set_extraction: "leaves v (SetExtraction i x)"
  by (rule leavesI, erule SetExtraction_cases) (simp_all add: settle_extraction)

lemma fail_extraction: "leaves v (FailExtraction i)"
  by (rule leavesI) (simp add: FailExtraction_def settle_extraction)

lemma delete_message: "leaves v (DeleteMessage i)"
  by (rule leavesI)
     (auto simp: DeleteMessage_def Let_def set_table_defs v_update split: option.splits)

lemma record_claim: "leaves v (RecordClaim nc)"
  by (rule leavesI, erule RecordClaim_cases) (simp_all add: v_update)

lemma insert_message: "leaves v (InsertMessage ta m)"
  by (rule leavesI, erule InsertMessage_cases) (simp_all add: v_update)

lemma bind_loop_view: "v (tables (snd (bind_loop ta m rt ot as seen bd ub s))) = v (tables s)"
  by (induction ta m rt ot "as" seen bd ub s rule: bind_loop.induct)
     (auto simp: Let_def Now_frame set_table_defs v_update split: option.splits prod.splits)

end

text \<open>A view that does not look at the runs either.\<close>

locale run_side_view = side_view +
  assumes v_runs: "v (d\<lparr>db_runs := a6\<rparr>) = v d"
begin

lemma create_run: "leaves v (CreateRun digest rnd project ttl)"
proof (rule leavesI)
  fix s r s' assume run: "CreateRun digest rnd project ttl s = (r, s')"
  obtain now s1 i s2 where ns: "Now s = (now, s1)" "NewID s1 = (i, s2)" by (metis surj_pair)
  then have "tables s2 = tables s" by (simp add: draw_tables)
  with run ns show "v (tables s') = v (tables s)"
    by (auto simp: CreateRun_def Let_def set_table_defs v_runs split: if_splits)
qed

lemma end_run: "leaves v (EndRun i st reason)"
proof (rule leavesI)
  fix s r s' assume run: "EndRun i st reason s = (r, s')"
  obtain now s1 where now: "Now s = (now, s1)" by (cases "Now s")
  with run draw_tables(2) [OF now] show "v (tables s') = v (tables s)"
    by (auto simp: EndRun_def releaseRunLeases_def set_table_defs v_update v_runs
        split: if_splits option.splits)
qed

end

text \<open>A view that does not look at the ledger: a delivery leaves it alone as well.\<close>

locale ledger_side_view = side_view +
  assumes v_ledger: "v (d\<lparr>db_ledger := a7\<rparr>) = v d"
begin

lemma write_event: "leaves v (Write m ev)"
  by (rule leavesI, erule Write_cases) (simp add: v_ledger)

lemma ledger_only_view: "ledger_only s s' \<Longrightarrow> v (tables s') = v (tables s)"
  by (auto simp: ledger_only_def v_ledger)

lemma deliver: "leaves v (tx (deliver_tx ig m0 f q off envelope originAt))"
proof (rule leavesI)
  fix s r s' assume run: "tx (deliver_tx ig m0 f q off envelope originAt) s = (r, s')"
  show "v (tables s') = v (tables s)"
  proof (cases r)
    case (Inl e)
    then show ?thesis using run by (auto dest: tx_Inl)
  next
    case (Inr m)
    then have d: "deliver_tx ig m0 f q off envelope originAt s = (Inr m, s')"
      using run by (simp add: tx_Inr)
    obtain r1 s1 where ins: "InsertMessage (ig_to_ascii ig) m0 s = (r1, s1)"
      by (cases "InsertMessage (ig_to_ascii ig) m0 s")
    obtain r2 s2 where aud: "audit ig (nm_id m) f q off s1 = (r2, s2)"
      by (cases "audit ig (nm_id m) f q off s1")
    obtain r3 s3 where bnd: "BindRecipients (ig_to_ascii ig) (nm_id m) envelope
        (nm_received_at m) originAt s2 = (r3, s3)" by (metis surj_pair)
    have r1: "r1 = Inr m"
      using d ins by (auto simp: deliver_tx_def split: sum.splits prod.splits)
    have r2: "r2 = Inr ()" "ledger_only s1 s2" using audit_ledger_only [OF aud] by auto
    obtain bd ub where r3: "r3 = Inr (bd, ub)"
      using d ins r1 aud r2(1) bnd
      by (auto simp: deliver_tx_def bind_mail_def split: sum.splits prod.splits)
    obtain r4 s4 where wb: "write_bound ig bd s3 = (r4, s4)" by (cases "write_bound ig bd s3")
    have r4: "r4 = Inr ()" "ledger_only s3 s4" using write_bound_ledger_only [OF wb] by auto
    obtain r5 s5 where wu: "Write (ingest_meta ig []) (MailUnbound (nm_id m) ub) s4 = (r5, s5)"
      by (cases "Write (ingest_meta ig []) (MailUnbound (nm_id m) ub) s4")
    have "s' = s4 \<or> s' = s5"
      using d ins r1 aud r2(1) bnd r3 wb r4(1) wu
      by (auto simp: deliver_tx_def bind_mail_def split: sum.splits if_splits)
    moreover have "v (tables s3) = v (tables s2)"
      using bind_loop_view bnd unfolding BindRecipients_def by (metis snd_conv)
    ultimately show ?thesis
      using leavesD [OF insert_message ins] ledger_only_view [OF r2(2)] ledger_only_view [OF r4(2)]
        leavesD [OF write_event wu] by auto
  qed
qed

end

section \<open>The three views\<close>

interpretation ledger_view: run_side_view db_ledger
  by unfold_locales simp_all

interpretation runs_view: ledger_side_view db_runs
  by unfold_locales simp_all

text \<open>What the administration of the data directory owns.\<close>

definition office :: "db \<Rightarrow> accounts \<times> int" where
  "office d = (db_accounts d, db_generation d)"

interpretation office_view: ledger_side_view office
  by unfold_locales (simp_all add: office_def)

interpretation office_run_view: run_side_view office
  by unfold_locales (simp add: office_def)

interpretation office_rows: serving_contract "\<lambda>s. P (office (tables s))" for P
  by unfold_locales
     (simp_all add: office_view.set_cooldown
       leaves_keeps [OF office_view.create_identity] leaves_keeps [OF office_view.acquire_lease]
       leaves_keeps [OF office_view.settle_seed] leaves_keeps [OF office_view.release_lease]
       leaves_keeps [OF office_view.expire_leases] leaves_keeps [OF office_run_view.create_run]
       leaves_keeps [OF office_run_view.end_run] leaves_keeps [OF office_view.write_event]
       leaves_keeps [OF office_view.deliver] leaves_keeps [OF office_view.set_extraction]
       leaves_keeps [OF office_view.fail_extraction] leaves_keeps [OF office_view.delete_message]
       leaves_keeps [OF office_view.record_claim])

end
