(* ===== verification/AuditTrail.thy ===== *)
theory AuditTrail
  imports SideViews
begin

text \<open>
  The audit trail as a property the whole service keeps: the ledger only grows, and every
  address in it is redacted. Both are proved for the operations of the store and follow for the
  lease service, the claim path and ingest through \<open>store_contract\<close>.
\<close>

section \<open>The trail\<close>

definition redacted_entry :: "ledger_entry \<Rightarrow> bool" where
  "redacted_entry e \<longleftrightarrow> (\<forall>a\<in>set (event_addrs (le_event e)). redacted_form a)"

definition trail :: "ledger_entry list \<Rightarrow> store \<Rightarrow> bool" where
  "trail before s \<longleftrightarrow>
     (\<exists>new. ledger s = before @ new \<and> list_all redacted_entry new)"

lemma trail_refl: "trail (ledger s) s"
  by (simp add: trail_def)

lemma trail_quiet: "leaves db_ledger f \<Longrightarrow> keeps (trail before) f"
  by (rule keepsI) (auto simp: trail_def dest: leavesD)

lemma trail_append:
  assumes "trail before s" and "ledger s' = ledger s @ new" and "list_all redacted_entry new"
  shows "trail before s'"
proof -
  from assms(1) obtain old where "ledger s = before @ old" "list_all redacted_entry old"
    by (auto simp: trail_def)
  with assms(2,3) have "ledger s' = before @ old @ new \<and> list_all redacted_entry (old @ new)"
    by simp
  then show ?thesis unfolding trail_def by blast
qed

lemma Write_trail: "keeps (trail before) (Write m ev)"
proof (rule keepsI)
  fix s r s' assume t: "trail before s" and w: "Write m ev s = (r, s')"
  from Write_frame(10) [OF w] obtain i ts where "ledger s' = ledger s @ [\<lparr>le_id = i,
      le_project = meta_project m, le_ts = ts, le_actor = ActorSystem, le_run = meta_run m,
      le_persona = meta_persona m, le_event = marshal_event ev\<rparr>]" by blast
  then show "trail before s'"
    using marshal_event_redacted by (auto intro!: trail_append [OF t] simp: redacted_entry_def)
qed

lemma audit_trail:
  assumes "audit ig m f q off s = (r, s')" and "trail before s"
  shows "trail before s'"
proof -
  obtain r1 s1 where w1: "Write (ingest_meta ig []) (MailReceived m f) s = (r1, s1)"
    by (cases "Write (ingest_meta ig []) (MailReceived m f) s")
  obtain r2 s2 where w2: "Write (ingest_meta ig []) (MailQuarantined m off) s1 = (r2, s2)"
    by (cases "Write (ingest_meta ig []) (MailQuarantined m off) s1")
  have "trail before s1" "trail before s2"
    using keepsD [OF Write_trail w1] keepsD [OF Write_trail w2] assms(2) by blast+
  then show ?thesis
    using assms(1) w1 w2 by (auto simp: audit_def split: sum.splits if_splits)
qed

lemma write_bound_trail:
  "write_bound ig bs s = (r, s') \<Longrightarrow> trail before s \<Longrightarrow> trail before s'"
proof (induction bs arbitrary: s)
  case (Cons b bs)
  let ?ev = "MailBound (bd_message b) (bd_lease b) (bd_identity b) (bd_addr b) (bd_suspect b)"
  obtain r1 s1 where w: "Write (ingest_meta ig (bd_run b)) ?ev s = (r1, s1)"
    by (cases "Write (ingest_meta ig (bd_run b)) ?ev s")
  have s1: "trail before s1" using keepsD [OF Write_trail w Cons.prems(2)] .
  show ?case
    using Cons.prems(1) w s1 Cons.IH [OF _ s1] by (auto split: sum.splits)
qed simp

lemma deliver_trail: "keeps (trail before) (deliver_tx ig m0 f q off envelope originAt)"
proof (rule keepsI)
  fix s r s'
  assume t: "trail before s" and run: "deliver_tx ig m0 f q off envelope originAt s = (r, s')"
  obtain r1 s1 where ins: "InsertMessage (ig_to_ascii ig) m0 s = (r1, s1)"
    by (cases "InsertMessage (ig_to_ascii ig) m0 s")
  have t1: "trail before s1" using t leavesD [OF ledger_view.insert_message ins] by (simp add: trail_def)
  show "trail before s'"
  proof (cases r1)
    case (Inl e)
    then show ?thesis using run ins t1 by (simp add: deliver_tx_def)
  next
    case (Inr m)
    obtain r2 s2 where aud: "audit ig (nm_id m) f q off s1 = (r2, s2)"
      by (cases "audit ig (nm_id m) f q off s1")
    have t2: "trail before s2" using audit_trail [OF aud t1] .
    have r2: "r2 = Inr ()" using audit_ledger_only [OF aud] by blast
    obtain r3 s3 where bnd: "BindRecipients (ig_to_ascii ig) (nm_id m) envelope
        (nm_received_at m) originAt s2 = (r3, s3)" by (metis surj_pair)
    have "ledger s3 = ledger s2"
      using ledger_view.bind_loop_view bnd unfolding BindRecipients_def by (metis snd_conv)
    then have t3: "trail before s3" using t2 by (simp add: trail_def)
    show ?thesis
    proof (cases r3)
      case (Inl e)
      then show ?thesis using run ins Inr aud r2 bnd t3 by (simp add: deliver_tx_def bind_mail_def)
    next
      case (Inr bu)
      obtain bd ub where bu: "bu = (bd, ub)" by (cases bu)
      obtain r4 s4 where wb: "write_bound ig bd s3 = (r4, s4)" by (cases "write_bound ig bd s3")
      have t4: "trail before s4" using write_bound_trail [OF wb t3] .
      obtain r5 s5 where wu: "Write (ingest_meta ig []) (MailUnbound (nm_id m) ub) s4 = (r5, s5)"
        by (cases "Write (ingest_meta ig []) (MailUnbound (nm_id m) ub) s4")
      have t5: "trail before s5" using keepsD [OF Write_trail wu t4] .
      have "s' = s4 \<or> s' = s5"
        using run ins \<open>r1 = Inr m\<close> aud r2 bnd Inr bu wb wu
        by (auto simp: deliver_tx_def bind_mail_def split: sum.splits if_splits)
      then show ?thesis using t4 t5 by blast
    qed
  qed
qed

lemma trail_frame: "tables s' = tables s \<Longrightarrow> trail before s \<Longrightarrow> trail before s'"
  by (simp add: trail_def)

lemma trail_in_tx: "keeps (trail before) f \<Longrightarrow> keeps (trail before) (tx f)"
  by (rule keeps_tx [OF trail_frame])

interpretation audit_rows: store_contract "trail before" for before
proof unfold_locales
  show "tables s' = tables s \<Longrightarrow> trail before s \<Longrightarrow> trail before s'" for s s'
    by (rule trail_frame)
  show "same_rows s s' \<Longrightarrow> trail before s \<Longrightarrow> trail before s'" for s s'
    by (simp add: trail_def same_rows_def)
  show "trail before s \<Longrightarrow> trail before (SetCooldown i u s)" for s i u
    by (simp add: trail_def SetCooldown_def)
qed (simp_all add: trail_quiet Write_trail trail_in_tx deliver_trail ledger_view.create_identity
      ledger_view.acquire_lease ledger_view.settle_seed ledger_view.release_lease
      ledger_view.expire_leases ledger_view.create_run ledger_view.end_run
      ledger_view.set_extraction ledger_view.fail_extraction ledger_view.delete_message
      ledger_view.record_claim)

end
