(* ===== verification/Accounts.thy ===== *)
theory Accounts
  imports StoreModel Addresses
begin

text \<open>
  The administration of a data directory: projects, their bearers and allowlists
  (\<^verbatim>\<open>internal/store/projects.go\<close>), the event generation
  (\<^verbatim>\<open>internal/store/events.go\<close>) and personas with what hangs off them
  (\<^verbatim>\<open>internal/store/personas.go\<close>). As for run tokens, the random part of a bearer and
  its SHA-256 digest are arguments.
\<close>

section \<open>Projects and bearers\<close>

definition ProjectBearerPrefix :: string where "ProjectBearerPrefix = ''pb_''"

definition has_id :: "ident \<Rightarrow> project_row \<Rightarrow> bool" where
  "has_id i w \<longleftrightarrow> pj_id (pw_project w) = i"

definition set_projects :: "project_row list \<Rightarrow> store \<Rightarrow> store" where
  "set_projects ps s = set_accounts ((accounts_of s)\<lparr>ac_projects := ps\<rparr>) s"

text \<open>The unique index on the digests; a row with no digest conflicts with nothing.\<close>

definition bearer_conflict :: "ident \<Rightarrow> string \<Rightarrow> project_row list \<Rightarrow> bool" where
  "bearer_conflict i h ps \<longleftrightarrow> list_ex (\<lambda>w. \<not> has_id i w \<and> pw_bearer_hash w = Some h) ps"

definition SetProjectBearer_tx :: "(string \<Rightarrow> string) \<Rightarrow> string \<Rightarrow> ident \<Rightarrow> string op" where
  "SetProjectBearer_tx digest random i s =
     (let token = ProjectBearerPrefix @ random;
          ps = ac_projects (accounts_of s)
      in if affected (has_id i) ps = 0 then (Inl ErrNotFound, s)
         else if bearer_conflict i (digest token) ps then (Inl ErrConstraint, s)
         else (Inr token,
               set_projects (update_where (has_id i) (pw_bearer_hash_update (\<lambda>_. Some (digest token))) ps) s))"

definition SetProjectBearer :: "(string \<Rightarrow> string) \<Rightarrow> string \<Rightarrow> ident \<Rightarrow> string op" where
  "SetProjectBearer digest random i = tx (SetProjectBearer_tx digest random i)"

definition RevokeProjectBearer_tx :: "ident \<Rightarrow> unit op" where
  "RevokeProjectBearer_tx i s =
     (let ps = ac_projects (accounts_of s)
      in if affected (has_id i) ps = 0 then (Inl ErrNotFound, s)
         else (Inr (), set_projects (update_where (has_id i) (pw_bearer_hash_update (\<lambda>_. None)) ps) s))"

definition RevokeProjectBearer :: "ident \<Rightarrow> unit op" where
  "RevokeProjectBearer i = tx (RevokeProjectBearer_tx i)"

definition ProjectHasBearer :: "store \<Rightarrow> ident \<Rightarrow> err + bool" where
  "ProjectHasBearer s i =
     (case find_row (has_id i) (ac_projects (accounts_of s)) of
        None \<Rightarrow> Inl ErrNotFound
      | Some w \<Rightarrow> Inr (case pw_bearer_hash w of None \<Rightarrow> False | Some h \<Rightarrow> h \<noteq> []))"

definition scanProject :: "project_row option \<Rightarrow> err + project" where
  "scanProject row = (case row of None \<Rightarrow> Inl ErrNotFound | Some w \<Rightarrow> Inr (pw_project w))"

definition ProjectByBearer :: "(string \<Rightarrow> string) \<Rightarrow> store \<Rightarrow> string \<Rightarrow> err + project" where
  "ProjectByBearer digest s token =
     (if token = [] then Inl ErrNotFound
      else scanProject (find_row (\<lambda>w. pw_bearer_hash w = Some (digest token))
             (ac_projects (accounts_of s))))"

definition project_conflict :: "project \<Rightarrow> project_row list \<Rightarrow> bool" where
  "project_conflict p ps \<longleftrightarrow>
     list_ex (\<lambda>w. pj_id (pw_project w) = pj_id p \<or> pj_name (pw_project w) = pj_name p) ps"

definition CreateProject :: "string \<Rightarrow> project op" where
  "CreateProject name s =
     (case NewID s of (i, s1) \<Rightarrow>
       (case Now s1 of (now, s2) \<Rightarrow>
         let p = \<lparr>pj_id = i, pj_name = name, pj_created_at = now\<rparr>;
             ps = ac_projects (accounts_of s2)
         in if project_conflict p ps then (Inl ErrConstraint, s2)
            else (Inr p, set_projects (ps @ [\<lparr>pw_project = p, pw_bearer_hash = None\<rparr>]) s2)))"

definition ProjectByName :: "store \<Rightarrow> string \<Rightarrow> err + project" where
  "ProjectByName s name =
     scanProject (find_row (\<lambda>w. pj_name (pw_project w) = name) (ac_projects (accounts_of s)))"

definition Project :: "store \<Rightarrow> ident \<Rightarrow> err + project" where
  "Project s i = scanProject (find_row (has_id i) (ac_projects (accounts_of s)))"

definition ListProjects :: "store \<Rightarrow> project list" where
  "ListProjects s =
     sort_key (\<lambda>p. (pj_created_at p, pj_id p)) (map pw_project (ac_projects (accounts_of s)))"

definition SingleProject :: "store \<Rightarrow> err + project" where
  "SingleProject s =
     (case take 2 (ListProjects s) of
        [] \<Rightarrow> Inl ErrNoProject
      | [p] \<Rightarrow> Inr p
      | p # q # _ \<Rightarrow> Inl ErrMultipleProjects)"

section \<open>The allowlist\<close>

definition set_allow :: "allow_row list \<Rightarrow> store \<Rightarrow> store" where
  "set_allow as s = set_accounts ((accounts_of s)\<lparr>ac_allowlist := as\<rparr>) s"

fun canonical_patterns :: "(string \<Rightarrow> string option) \<Rightarrow> string list \<Rightarrow> err + string list" where
  "canonical_patterns to_ascii [] = Inr []"
| "canonical_patterns to_ascii (p # ps) =
     (case CanonicalDomainPattern to_ascii p of
        None \<Rightarrow> Inl ErrBadPattern
      | Some c \<Rightarrow> (case canonical_patterns to_ascii ps of Inl e \<Rightarrow> Inl e | Inr cs \<Rightarrow> Inr (c # cs)))"

text \<open>The insert loop; the key is the project and the pattern, compared without case.\<close>

definition allow_conflict :: "ident \<Rightarrow> string \<Rightarrow> allow_row list \<Rightarrow> bool" where
  "allow_conflict i p as \<longleftrightarrow> list_ex (\<lambda>a. al_project a = i \<and> nocase_eq (al_pattern a) p) as"

definition known_project :: "ident \<Rightarrow> store \<Rightarrow> bool" where
  "known_project i s \<longleftrightarrow> list_ex (has_id i) (ac_projects (accounts_of s))"

fun insert_patterns :: "ident \<Rightarrow> nat \<Rightarrow> string list \<Rightarrow> unit op" where
  "insert_patterns i n [] s = (Inr (), s)"
| "insert_patterns i n (p # ps) s =
     (let as = ac_allowlist (accounts_of s)
      in if allow_conflict i p as \<or> \<not> known_project i s then (Inl ErrConstraint, s)
         else insert_patterns i (Suc n) ps
                (set_allow (as @ [\<lparr>al_project = i, al_pattern = p, al_ord = n\<rparr>]) s))"

definition SetAllowlist :: "(string \<Rightarrow> string option) \<Rightarrow> ident \<Rightarrow> string list \<Rightarrow> unit op" where
  "SetAllowlist to_ascii i patterns s =
     (case canonical_patterns to_ascii patterns of
        Inl e \<Rightarrow> (Inl e, s)
      | Inr canonical \<Rightarrow>
          tx (\<lambda>s. insert_patterns i 0 canonical
                (set_allow (rows_where (\<lambda>a. al_project a \<noteq> i) (ac_allowlist (accounts_of s))) s)) s)"

definition Allowlist :: "store \<Rightarrow> ident \<Rightarrow> string list" where
  "Allowlist s i =
     map al_pattern (sort_key al_ord (rows_where (\<lambda>a. al_project a = i) (ac_allowlist (accounts_of s))))"

section \<open>The event generation\<close>

definition NextEventGeneration :: "store \<Rightarrow> int \<times> store" where
  "NextEventGeneration s =
     (let g = db_generation (tables s) + 1 in (g, set_generation g s))"

section \<open>Personas\<close>

definition set_personas :: "persona list \<Rightarrow> store \<Rightarrow> store" where
  "set_personas ps s = set_accounts ((accounts_of s)\<lparr>ac_personas := ps\<rparr>) s"

definition persona_states :: "string list" where
  "persona_states = [''pending'', ''seeded'', ''failed'', ''orphaned'']"

definition persona_conflict :: "persona \<Rightarrow> persona list \<Rightarrow> bool" where
  "persona_conflict p ps \<longleftrightarrow>
     list_ex (\<lambda>q. pe_id q = pe_id p \<or> nocase_eq (pe_email q) (pe_email p) \<or>
       (pe_project q = pe_project p \<and> pe_name q = pe_name p)) ps"

definition known_persona :: "ident \<Rightarrow> store \<Rightarrow> bool" where
  "known_persona i s \<longleftrightarrow> list_ex (\<lambda>p. pe_id p = i) (ac_personas (accounts_of s))"

definition CreatePersona :: "(string \<Rightarrow> string option) \<Rightarrow> persona \<Rightarrow> persona op" where
  "CreatePersona to_ascii p0 s =
     (case (if pe_id p0 = [] then NewID s else (pe_id p0, s)) of (i, s1) \<Rightarrow>
       (case Now s1 of (now, s2) \<Rightarrow>
         let p = p0\<lparr>pe_id := i,
               pe_traits := (if pe_traits p0 = [] then ''{}'' else pe_traits p0),
               pe_seed_state := (if pe_seed_state p0 = [] then ''pending'' else pe_seed_state p0),
               pe_email := NormalizeAddress to_ascii (pe_email p0),
               pe_created_at := now, pe_updated_at := now\<rparr>;
             ps = ac_personas (accounts_of s2)
         in if pe_seed_state p \<notin> set persona_states \<or> persona_conflict p ps \<or>
               \<not> known_project (pe_project p) s2
            then (Inl ErrConstraint, s2)
            else (Inr p, set_personas (ps @ [p]) s2)))"

definition scanPersona :: "persona option \<Rightarrow> err + persona" where
  "scanPersona row = (case row of None \<Rightarrow> Inl ErrNotFound | Some p \<Rightarrow> Inr p)"

definition Persona :: "store \<Rightarrow> ident \<Rightarrow> err + persona" where
  "Persona s i = scanPersona (find_row (\<lambda>p. pe_id p = i) (ac_personas (accounts_of s)))"

definition PersonaByName :: "store \<Rightarrow> ident \<Rightarrow> string \<Rightarrow> err + persona" where
  "PersonaByName s project name =
     scanPersona (find_row (\<lambda>p. pe_project p = project \<and> pe_name p = name)
       (ac_personas (accounts_of s)))"

definition PersonaByEmail :: "(string \<Rightarrow> string option) \<Rightarrow> store \<Rightarrow> string \<Rightarrow> err + persona" where
  "PersonaByEmail to_ascii s email =
     scanPersona (find_row (\<lambda>p. nocase_eq (pe_email p) (NormalizeAddress to_ascii email))
       (ac_personas (accounts_of s)))"

definition ListPersonas :: "store \<Rightarrow> ident \<Rightarrow> persona list" where
  "ListPersonas s project =
     sort_key pe_name (rows_where (\<lambda>p. pe_project p = project) (ac_personas (accounts_of s)))"

definition expectOne :: "nat \<Rightarrow> err option" where
  "expectOne n = (if n = 0 then Some ErrNotFound else None)"

definition UpdateSeedState :: "ident \<Rightarrow> string \<Rightarrow> string \<Rightarrow> unit op" where
  "UpdateSeedState i state outputRef s =
     (case Now s of (now, s1) \<Rightarrow>
       let ps = ac_personas (accounts_of s1); hit = (\<lambda>p. pe_id p = i)
       in if 0 < affected hit ps \<and> state \<notin> set persona_states then (Inl ErrConstraint, s1)
          else case expectOne (affected hit ps) of
            Some e \<Rightarrow> (Inl e, s1)
          | None \<Rightarrow>
              (Inr (), set_personas
                (update_where hit
                  (\<lambda>p. p\<lparr>pe_seed_state := state, pe_seed_output := outputRef, pe_updated_at := now\<rparr>) ps)
                s1))"

section \<open>Relations, secrets and sessions\<close>

definition SetRelation :: "relation \<Rightarrow> unit op" where
  "SetRelation r s =
     (let rs = ac_relations (accounts_of s)
      in if r \<in> set rs then (Inr (), s)
         else if \<not> known_project (re_project r) s \<or> \<not> known_persona (re_from r) s \<or>
                 \<not> known_persona (re_to r) s
         then (Inl ErrConstraint, s)
         else (Inr (), set_accounts ((accounts_of s)\<lparr>ac_relations := rs @ [r]\<rparr>) s))"

definition Relations :: "store \<Rightarrow> ident \<Rightarrow> relation list" where
  "Relations s project =
     sort_key (\<lambda>r. (re_from r, re_kind r, re_to r))
       (rows_where (\<lambda>r. re_project r = project) (ac_relations (accounts_of s)))"

text \<open>\<^verbatim>\<open>INSERT ... ON CONFLICT (key) DO UPDATE\<close>.\<close>

definition upsert :: "('r \<Rightarrow> 'k) \<Rightarrow> 'r \<Rightarrow> 'r list \<Rightarrow> 'r list" where
  "upsert key r rows =
     (if list_ex (\<lambda>q. key q = key r) rows then update_where (\<lambda>q. key q = key r) (\<lambda>_. r) rows
      else rows @ [r])"

definition secret_key :: "secret \<Rightarrow> ident \<times> string" where
  "secret_key x = (sc_persona x, sc_kind x)"

definition session_key :: "saved_session \<Rightarrow> ident \<times> string" where
  "session_key x = (ss_persona x, ss_name x)"

definition PutSecret :: "ident \<Rightarrow> string \<Rightarrow> string \<Rightarrow> unit op" where
  "PutSecret i kind valueEnc s =
     (case Now s of (now, s1) \<Rightarrow>
       let x = \<lparr>sc_persona = i, sc_kind = kind, sc_value_enc = valueEnc, sc_created_at = now\<rparr>;
           a = accounts_of s1
       in if \<not> known_persona i s1 then (Inl ErrConstraint, s1)
          else (Inr (), set_accounts (a\<lparr>ac_secrets := upsert secret_key x (ac_secrets a)\<rparr>) s1))"

definition Secret :: "store \<Rightarrow> ident \<Rightarrow> string \<Rightarrow> err + secret" where
  "Secret s i kind =
     (case find_row (\<lambda>x. secret_key x = (i, kind)) (ac_secrets (accounts_of s)) of
        None \<Rightarrow> Inl ErrNotFound | Some x \<Rightarrow> Inr x)"

definition PutSession :: "saved_session \<Rightarrow> unit op" where
  "PutSession x0 s =
     (case (if is_zero_time (ss_saved_at x0) then Now s else (ss_saved_at x0, s)) of (saved, s1) \<Rightarrow>
       let x = x0\<lparr>ss_saved_at := saved\<rparr>; a = accounts_of s1
       in if \<not> known_persona (ss_persona x) s1 then (Inl ErrConstraint, s1)
          else (Inr (), set_accounts (a\<lparr>ac_sessions := upsert session_key x (ac_sessions a)\<rparr>) s1))"

definition Session :: "store \<Rightarrow> ident \<Rightarrow> string \<Rightarrow> err + saved_session" where
  "Session s i name =
     (case find_row (\<lambda>x. session_key x = (i, name)) (ac_sessions (accounts_of s)) of
        None \<Rightarrow> Inl ErrNotFound | Some x \<Rightarrow> Inr x)"

section \<open>One administrative transaction\<close>

inductive admin_step ::
  "(string \<Rightarrow> string) \<Rightarrow> (string \<Rightarrow> string option) \<Rightarrow> store \<Rightarrow> store \<Rightarrow> bool" for digest to_ascii where
  creating_project: "CreateProject name s = (r1, s') \<Longrightarrow> admin_step digest to_ascii s s'"
| setting_bearer: "SetProjectBearer digest random i s = (r2, s') \<Longrightarrow> admin_step digest to_ascii s s'"
| revoking_bearer: "RevokeProjectBearer i s = (r3, s') \<Longrightarrow> admin_step digest to_ascii s s'"
| allowing: "SetAllowlist to_ascii i patterns s = (r3, s') \<Longrightarrow> admin_step digest to_ascii s s'"
| booting: "NextEventGeneration s = (r4, s') \<Longrightarrow> admin_step digest to_ascii s s'"
| creating_persona: "CreatePersona to_ascii p s = (r5, s') \<Longrightarrow> admin_step digest to_ascii s s'"
| seeding_persona: "UpdateSeedState i st out s = (r3, s') \<Longrightarrow> admin_step digest to_ascii s s'"
| relating: "SetRelation rel s = (r3, s') \<Longrightarrow> admin_step digest to_ascii s s'"
| storing_secret: "PutSecret i kind v s = (r3, s') \<Longrightarrow> admin_step digest to_ascii s s'"
| saving_session: "PutSession x s = (r3, s') \<Longrightarrow> admin_step digest to_ascii s s'"

lemmas set_account_defs = set_projects_def set_allow_def set_personas_def

lemma same_rows_sets [simp]:
  "same_rows s s" "same_rows s (set_projects ps s)" "same_rows s (set_allow as s)"
  "same_rows s (set_personas qs s)" "same_rows s (set_accounts a s)"
  "same_rows s (s\<lparr>tables := tables s\<rparr>)"
  by (simp_all add: set_account_defs) (simp_all add: same_rows_def)

lemma same_rows_draw:
  "Now s = (t, s') \<Longrightarrow> same_rows s s'" "NewID s = (i, s') \<Longrightarrow> same_rows s s'"
  by (simp_all add: same_rows_tables Now_frame NewID_frame)

lemma same_rows_tx:
  assumes "\<And>r s'. f s = (r, s') \<Longrightarrow> same_rows s s'" and "tx f s = (r, s')"
  shows "same_rows s s'"
proof (cases r)
  case (Inl e)
  then show ?thesis using assms(2) by (auto intro: same_rows_tables dest: tx_Inl)
next
  case (Inr x)
  then show ?thesis using assms by (auto simp: tx_Inr)
qed

lemma insert_patterns_rows: "insert_patterns i n ps s = (r, s') \<Longrightarrow> same_rows s s'"
proof (induction ps arbitrary: n s)
  case (Cons p ps)
  then show ?case
    by (auto simp: Let_def split: if_splits intro: same_rows_trans [OF same_rows_sets(3)])
qed simp

lemma admin_step_rows: "admin_step digest to_ascii s s' \<Longrightarrow> same_rows s s'"
proof (induction rule: admin_step.induct)
  case (creating_project name s r s')
  obtain i s1 now s2 where n: "NewID s = (i, s1)" "Now s1 = (now, s2)" by (metis surj_pair)
  then have "same_rows s s2" by (metis same_rows_draw same_rows_trans)
  then show ?case using creating_project n same_rows_trans [OF _ same_rows_sets(2)]
    by (auto simp: CreateProject_def Let_def split: if_splits)
next
  case (setting_bearer rnd i s r s')
  then show ?case unfolding SetProjectBearer_def
    by (rule same_rows_tx [rotated]) (auto simp: SetProjectBearer_tx_def Let_def split: if_splits)
next
  case (revoking_bearer i s r s')
  then show ?case unfolding RevokeProjectBearer_def
    by (rule same_rows_tx [rotated]) (auto simp: RevokeProjectBearer_tx_def Let_def split: if_splits)
next
  case (allowing i patterns s r s')
  show ?case
  proof (cases "canonical_patterns to_ascii patterns")
    case (Inl e)
    then show ?thesis using allowing by (simp add: SetAllowlist_def)
  next
    case (Inr cs)
    then have "tx (\<lambda>s. insert_patterns i 0 cs
        (set_allow (rows_where (\<lambda>a. al_project a \<noteq> i) (ac_allowlist (accounts_of s))) s)) s = (r, s')"
      using allowing by (simp add: SetAllowlist_def)
    then show ?thesis
      by (rule same_rows_tx [rotated])
         (blast intro: same_rows_trans [OF same_rows_sets(3)] dest: insert_patterns_rows)
  qed
next
  case (booting s r s')
  then show ?case by (auto simp: NextEventGeneration_def Let_def)
next
  case (creating_persona p s r s')
  obtain i s1 now s2 where n: "(if pe_id p = [] then NewID s else (pe_id p, s)) = (i, s1)"
    "Now s1 = (now, s2)" by (metis surj_pair)
  then have "same_rows s s2"
    by (auto split: if_splits intro: same_rows_trans same_rows_draw)
  then show ?case using creating_persona n same_rows_trans [OF _ same_rows_sets(4)]
    by (auto simp: CreatePersona_def Let_def split: if_splits)
next
  case (seeding_persona i st out s r s')
  obtain now s1 where n: "Now s = (now, s1)" by (cases "Now s")
  then show ?case
    using seeding_persona same_rows_draw(1) [OF n] same_rows_trans [OF _ same_rows_sets(4)]
    by (auto simp: UpdateSeedState_def Let_def expectOne_def split: if_splits)
next
  case (relating rel s r s')
  then show ?case by (auto simp: SetRelation_def Let_def split: if_splits)
next
  case (storing_secret i kind v s r s')
  obtain now s1 where n: "Now s = (now, s1)" by (cases "Now s")
  then show ?case
    using storing_secret same_rows_draw(1) [OF n] same_rows_trans [OF _ same_rows_sets(5)]
    by (auto simp: PutSecret_def Let_def split: if_splits)
next
  case (saving_session x s r s')
  obtain now s1 where n: "(if is_zero_time (ss_saved_at x) then Now s else (ss_saved_at x, s)) = (now, s1)"
    by (metis surj_pair)
  then have "same_rows s s1" by (auto split: if_splits intro: same_rows_draw)
  then show ?case
    using saving_session n same_rows_trans [OF _ same_rows_sets(5)]
    by (auto simp: PutSession_def Let_def split: if_splits)
qed

section \<open>Bearers\<close>

text \<open>The unique constraints of the projects table.\<close>

definition project_inv :: "project_row list \<Rightarrow> bool" where
  "project_inv ps \<longleftrightarrow>
     distinct (map (pj_id \<circ> pw_project) ps) \<and> distinct (map (pj_name \<circ> pw_project) ps) \<and>
     distinct (map pw_bearer_hash (filter (\<lambda>w. pw_bearer_hash w \<noteq> None) ps))"

lemma project_inv_bearer:
  assumes "project_inv ps" and "v \<in> set ps" and "w \<in> set ps"
    and "pw_bearer_hash v = Some h" and "pw_bearer_hash w = Some h"
  shows "v = w"
proof -
  have "inj_on pw_bearer_hash (set (filter (\<lambda>w. pw_bearer_hash w \<noteq> None) ps))"
    using assms(1) by (simp add: project_inv_def distinct_map)
  then show ?thesis by (rule inj_onD) (use assms(2-5) in auto)
qed

lemma find_row_update_where:
  assumes "\<And>w. P w \<Longrightarrow> \<not> Q (f w)"
  shows "find_row Q (update_where P f rows) = find_row (\<lambda>w. \<not> P w \<and> Q w) rows"
  using assms by (induction rows) (auto simp: find_row_def update_where_def)

lemma find_row_restrict:
  assumes "\<And>v w. v \<in> set rows \<Longrightarrow> w \<in> set rows \<Longrightarrow> Q v \<Longrightarrow> Q w \<Longrightarrow> v = w"
  shows "find_row (\<lambda>w. \<not> P w \<and> Q w) rows =
     (case find_row Q rows of None \<Rightarrow> None | Some w \<Rightarrow> if P w then None else Some w)"
  using assms
proof (induction rows)
  case (Cons r rows)
  have IH: "find_row (\<lambda>w. \<not> P w \<and> Q w) rows =
     (case find_row Q rows of None \<Rightarrow> None | Some w \<Rightarrow> if P w then None else Some w)"
    by (rule Cons.IH) (use Cons.prems in auto)
  show ?case
  proof (cases "Q r")
    case True
    then have "w = r" if "w \<in> set rows" "Q w" for w
      using Cons.prems [of w r] that by auto
    then have "find_row Q rows = None \<or> find_row Q rows = Some r"
      using find_row_Some [of Q rows] by (cases "find_row Q rows") auto
    with IH True show ?thesis by (auto simp: find_row_def)
  next
    case False
    with IH show ?thesis by (simp add: find_row_def)
  qed
qed (simp add: find_row_def)

lemma project_inv_bearer_change:
  assumes "project_inv ps" and "\<And>h. b = Some h \<Longrightarrow> \<not> bearer_conflict i h ps"
  shows "project_inv (update_where (has_id i) (pw_bearer_hash_update (\<lambda>_. b)) ps)"
  using assms
proof (induction ps)
  case (Cons p ps)
  let ?u = "update_where (has_id i) (pw_bearer_hash_update (\<lambda>_. b))"
  have ids: "map (pj_id \<circ> pw_project) (?u xs) = map (pj_id \<circ> pw_project) xs"
    "map (pj_name \<circ> pw_project) (?u xs) = map (pj_name \<circ> pw_project) xs" for xs
    by (rule map_update_where; simp)+
  have inv: "project_inv ps" using Cons.prems(1) by (simp add: project_inv_def split: if_splits)
  have rest: "project_inv (?u ps)"
    by (rule Cons.IH [OF inv]) (use Cons.prems(2) in \<open>auto simp: bearer_conflict_def\<close>)
  have u: "?u (p # ps) = (if has_id i p then pw_bearer_hash_update (\<lambda>_. b) p else p) # ?u ps"
    by (simp add: update_where_def)
  have none: "\<not> has_id i w" if "has_id i p" "w \<in> set ps" for w
  proof -
    have "\<forall>v\<in>set ps. pj_id (pw_project v) \<noteq> pj_id (pw_project p)"
      using Cons.prems(1) by (auto simp: project_inv_def image_iff)
    with that show ?thesis by (simp add: has_id_def)
  qed
  have new: "pw_bearer_hash w \<noteq> Some h" if h: "pw_bearer_hash (hd (?u (p # ps))) = Some h"
    and w: "w \<in> set (?u ps)" for w h
  proof (cases "has_id i p")
    case True
    then have "b = Some h" "w \<in> set ps" "\<not> has_id i w"
      using h w none by (auto simp: u set_update_where)
    then show ?thesis using Cons.prems(2) by (auto simp: bearer_conflict_def list_ex_iff)
  next
    case False
    then have p: "pw_bearer_hash p = Some h" using h by (simp add: u)
    obtain v where v: "v \<in> set ps" "w = (if has_id i v then pw_bearer_hash_update (\<lambda>_. b) v else v)"
      using w by (auto simp: set_update_where)
    show ?thesis
    proof (cases "has_id i v")
      case True
      then show ?thesis using v(2) Cons.prems(2) p False by (auto simp: bearer_conflict_def)
    next
      case False
      then show ?thesis using v Cons.prems(1) p by (force simp: project_inv_def split: if_splits)
    qed
  qed
  have "distinct (map pw_bearer_hash (filter (\<lambda>w. pw_bearer_hash w \<noteq> None) (?u (p # ps))))"
    using rest new by (auto simp: u project_inv_def split: if_splits)
  then show ?case
    using Cons.prems(1) by (simp add: project_inv_def ids)
qed (simp add: update_where_def)

lemma accounts_set_projects [simp]:
  "accounts_of (set_projects ps s) = (accounts_of s)\<lparr>ac_projects := ps\<rparr>"
  by (simp add: set_projects_def)

lemma ProjectByBearer_after:
  assumes "project_inv (ac_projects (accounts_of s))"
    and "ac_projects (accounts_of s') =
      update_where (has_id i) (pw_bearer_hash_update (\<lambda>_. b)) (ac_projects (accounts_of s))"
    and "b \<noteq> Some (digest t)"
  shows "ProjectByBearer digest s' t =
     (case ProjectByBearer digest s t of Inl e \<Rightarrow> Inl e
      | Inr p \<Rightarrow> if pj_id p = i then Inl ErrNotFound else Inr p)"
proof -
  let ?Q = "\<lambda>w. pw_bearer_hash w = Some (digest t)"
  let ?ps = "ac_projects (accounts_of s)"
  have "find_row ?Q (ac_projects (accounts_of s')) = find_row (\<lambda>w. \<not> has_id i w \<and> ?Q w) ?ps"
    unfolding assms(2) by (rule find_row_update_where) (use assms(3) in simp)
  also have "\<dots> = (case find_row ?Q ?ps of None \<Rightarrow> None | Some w \<Rightarrow> if has_id i w then None else Some w)"
    by (rule find_row_restrict) (rule project_inv_bearer [OF assms(1)])
  finally show ?thesis
    by (auto simp: ProjectByBearer_def scanProject_def has_id_def split: option.split)
qed

lemma SetProjectBearer_ok:
  assumes "SetProjectBearer digest random i s = (Inr token, s')"
  shows "token = ProjectBearerPrefix @ random"
    and "ac_projects (accounts_of s') =
      update_where (has_id i) (pw_bearer_hash_update (\<lambda>_. Some (digest token))) (ac_projects (accounts_of s))"
    and "\<exists>w\<in>set (ac_projects (accounts_of s)). has_id i w"
    and "\<not> bearer_conflict i (digest token) (ac_projects (accounts_of s))"
  using assms
  by (auto simp: SetProjectBearer_def tx_Inr SetProjectBearer_tx_def Let_def affected_0 split: if_splits)

lemma SetProjectBearer_new:
  assumes "SetProjectBearer digest random i s = (Inr token, s')"
  shows "\<exists>p. ProjectByBearer digest s' token = Inr p \<and> pj_id p = i"
proof -
  note ok = SetProjectBearer_ok [OF assms]
  let ?Q = "\<lambda>w. pw_bearer_hash w = Some (digest token)"
  obtain w where w: "w \<in> set (ac_projects (accounts_of s))" "has_id i w" using ok(3) by blast
  then have "pw_bearer_hash_update (\<lambda>_. Some (digest token)) w \<in> set (ac_projects (accounts_of s'))"
    unfolding ok(2) set_update_where by auto
  then obtain v where v: "find_row ?Q (ac_projects (accounts_of s')) = Some v"
    by (cases "find_row ?Q (ac_projects (accounts_of s'))") (auto simp: find_row_None)
  from find_row_Some [OF v] have "has_id i v"
    using ok(4) unfolding ok(2) set_update_where
    by (auto simp: bearer_conflict_def list_ex_iff has_id_def split: if_splits)
  with v show ?thesis
    by (simp add: ProjectByBearer_def scanProject_def has_id_def ok(1) ProjectBearerPrefix_def)
qed

section \<open>The allowlist\<close>

lemma insert_patterns_ok:
  "insert_patterns i n cs s = (Inr (), s') \<Longrightarrow>
     ac_allowlist (accounts_of s') = ac_allowlist (accounts_of s) @
       map (\<lambda>(k, p). \<lparr>al_project = i, al_pattern = p, al_ord = k\<rparr>) (enumerate n cs) \<and>
     distinct (map asciiLower cs) \<and>
     (\<forall>p\<in>set cs. \<not> allow_conflict i p (ac_allowlist (accounts_of s)))"
proof (induction cs arbitrary: n s)
  case (Cons p cs)
  let ?as = "ac_allowlist (accounts_of s)"
  let ?row = "\<lparr>al_project = i, al_pattern = p, al_ord = n\<rparr>"
  have c: "\<not> allow_conflict i p ?as" "insert_patterns i (Suc n) cs (set_allow (?as @ [?row]) s) = (Inr (), s')"
    using Cons.prems by (auto simp: Let_def split: if_splits)
  from Cons.IH [OF c(2)] c(1) show ?case
    by (auto simp: set_allow_def allow_conflict_def nocase_eq_def)
qed simp

lemma set_allowlist_rows:
  assumes "filter (\<lambda>a. al_project a = i) as = []"
  shows "map al_pattern (sort_key al_ord (rows_where (\<lambda>a. al_project a = i)
      (as @ map (\<lambda>(k, p). \<lparr>al_project = i, al_pattern = p, al_ord = k\<rparr>) (enumerate n cs)))) = cs"
proof -
  let ?new = "map (\<lambda>(k, p). \<lparr>al_project = i, al_pattern = p, al_ord = k\<rparr>) (enumerate n cs)"
  have "map al_ord ?new = [n..<n + length cs]"
    by (simp add: comp_def case_prod_beta enumerate_eq_zip)
  then have "sort_key al_ord ?new = ?new" by (simp add: sort_key_id_if_sorted)
  moreover have "filter (\<lambda>a. al_project a = i) ?new = ?new" by (auto simp: filter_id_conv)
  moreover have "map al_pattern ?new = cs"
    by (simp add: comp_def case_prod_beta enumerate_eq_zip)
  ultimately show ?thesis using assms by simp
qed

lemma SetAllowlist_ok:
  assumes "SetAllowlist to_ascii i patterns s = (Inr (), s')"
  shows "\<exists>cs. canonical_patterns to_ascii patterns = Inr cs \<and> distinct (map asciiLower cs) \<and>
     Allowlist s' i = cs \<and> (\<forall>j. j \<noteq> i \<longrightarrow> Allowlist s' j = Allowlist s j)"
proof -
  obtain cs where cs: "canonical_patterns to_ascii patterns = Inr cs"
    using assms by (cases "canonical_patterns to_ascii patterns") (auto simp: SetAllowlist_def)
  let ?keep = "filter (\<lambda>a. al_project a \<noteq> i) (ac_allowlist (accounts_of s))"
  have "insert_patterns i 0 cs (set_allow ?keep s) = (Inr (), s')"
    using assms cs by (simp add: SetAllowlist_def tx_Inr)
  note ins = insert_patterns_ok [OF this]
  let ?new = "map (\<lambda>(k, p). \<lparr>al_project = i, al_pattern = p, al_ord = k\<rparr>) (enumerate 0 cs)"
  have rows: "ac_allowlist (accounts_of s') = ?keep @ ?new"
    using ins by (simp add: set_allow_def)
  have "Allowlist s' i = cs"
    unfolding Allowlist_def rows by (rule set_allowlist_rows) simp
  moreover have "Allowlist s' j = Allowlist s j" if "j \<noteq> i" for j
  proof -
    have "filter (\<lambda>a. al_project a = j) ?new = []" using that by (auto simp: filter_empty_conv)
    moreover have "filter (\<lambda>a. al_project a = j) ?keep =
        filter (\<lambda>a. al_project a = j) (ac_allowlist (accounts_of s))"
      using that by (auto simp: intro: filter_cong)
    ultimately show ?thesis by (simp add: Allowlist_def rows)
  qed
  ultimately show ?thesis using cs ins by blast
qed

lemma SetAllowlist_failed:
  "SetAllowlist to_ascii i patterns s = (Inl e, s') \<Longrightarrow> tables s' = tables s"
  by (auto simp: SetAllowlist_def split: sum.splits dest: tx_Inl)

section \<open>Secrets and sessions\<close>

lemma find_row_upsert:
  "find_row (\<lambda>q. key q = k) (upsert key r rows) =
     (if key r = k then Some r else find_row (\<lambda>q. key q = k) rows)"
proof -
  have "find_row (\<lambda>q. key q = k) (update_where (\<lambda>q. key q = key r) (\<lambda>_. r) rows) =
      (if key r = k \<and> list_ex (\<lambda>q. key q = key r) rows then Some r
       else if key r = k then None else find_row (\<lambda>q. key q = k) rows)"
    by (induction rows) (auto simp: find_row_def update_where_def)
  moreover have "\<not> list_ex (\<lambda>q. key q = key r) rows \<Longrightarrow> key r = k \<Longrightarrow>
      find_row (\<lambda>q. key q = k) rows = None"
    by (auto simp: find_row_None list_ex_iff)
  ultimately show ?thesis by (auto simp: upsert_def find_row_append) (auto simp: find_row_def split: option.split)
qed

section \<open>What administration keeps\<close>

text \<open>The generation never goes back, and only a boot moves it.\<close>

lemma insert_patterns_frame:
  "insert_patterns i n ps s = (r, s') \<Longrightarrow>
     ac_projects (accounts_of s') = ac_projects (accounts_of s) \<and>
     db_generation (tables s') = db_generation (tables s)"
proof (induction ps arbitrary: n s)
  case (Cons p ps)
  then show ?case by (fastforce simp: Let_def set_allow_def split: if_splits)
qed simp

lemma tx_frame:
  assumes "\<And>r s'. f s = (r, s') \<Longrightarrow> P (tables s')" and "P (tables s)" and "tx f s = (r, s')"
  shows "P (tables s')"
proof (cases r)
  case (Inl e)
  then show ?thesis using assms(2,3) by (auto dest: tx_Inl)
next
  case (Inr x)
  then show ?thesis using assms(1,3) by (auto simp: tx_Inr)
qed

lemma SetAllowlist_frame:
  assumes "SetAllowlist to_ascii i patterns s = (r, s')"
  shows "ac_projects (accounts_of s') = ac_projects (accounts_of s) \<and>
     db_generation (tables s') = db_generation (tables s)"
proof (cases r)
  case (Inl e)
  then show ?thesis using assms SetAllowlist_failed by metis
next
  case (Inr u)
  then obtain cs where "insert_patterns i 0 cs
      (set_allow (filter (\<lambda>a. al_project a \<noteq> i) (ac_allowlist (accounts_of s))) s) = (Inr (), s')"
    using assms by (auto simp: SetAllowlist_def tx_Inr split: sum.splits)
  from insert_patterns_frame [OF this] show ?thesis by (simp add: set_allow_def)
qed

lemma generation_mono:
  "admin_step digest to_ascii s s' \<Longrightarrow> db_generation (tables s) \<le> db_generation (tables s')"
proof (induction rule: admin_step.induct)
  case (allowing i patterns s r s')
  then show ?case by (simp add: SetAllowlist_frame)
next
  case (setting_bearer rnd i s r s')
  then show ?case unfolding SetProjectBearer_def
    by (rule tx_frame [rotated 2])
       (auto simp: SetProjectBearer_tx_def Let_def set_projects_def split: if_splits)
next
  case (revoking_bearer i s r s')
  then show ?case unfolding RevokeProjectBearer_def
    by (rule tx_frame [rotated 2])
       (auto simp: RevokeProjectBearer_tx_def Let_def set_projects_def split: if_splits)
next
  case (creating_persona p s r s')
  obtain i s1 now s2 where n: "(if pe_id p = [] then NewID s else (pe_id p, s)) = (i, s1)"
    "Now s1 = (now, s2)" by (metis surj_pair)
  then have "tables s2 = tables s"
    by (auto simp: NewID_frame(1) Now_frame(1) split: if_splits)
  then show ?case using creating_persona n
    by (auto simp: CreatePersona_def Let_def set_personas_def split: if_splits)
next
  case (saving_session x s r s')
  obtain now s1 where n: "(if is_zero_time (ss_saved_at x) then Now s else (ss_saved_at x, s)) = (now, s1)"
    by (metis surj_pair)
  then have "tables s1 = tables s" by (auto simp: Now_frame(1) split: if_splits)
  then show ?case using saving_session n by (auto simp: PutSession_def Let_def split: if_splits)
qed (auto simp: CreateProject_def NextEventGeneration_def UpdateSeedState_def SetRelation_def
      PutSecret_def expectOne_def Let_def set_projects_def set_personas_def
      dest!: NewID_frame(1) Now_frame(1) split: prod.splits if_splits)

lemma project_inv_insert:
  "project_inv ps \<Longrightarrow> \<not> project_conflict p ps \<Longrightarrow>
     project_inv (ps @ [\<lparr>pw_project = p, pw_bearer_hash = None\<rparr>])"
  by (auto simp: project_inv_def project_conflict_def list_ex_iff)

lemma project_inv_admin:
  "admin_step digest to_ascii s s' \<Longrightarrow> project_inv (ac_projects (accounts_of s)) \<Longrightarrow>
     project_inv (ac_projects (accounts_of s'))"
proof (induction rule: admin_step.induct)
  case (creating_project name s r s')
  obtain i s1 now s2 where n: "NewID s = (i, s1)" "Now s1 = (now, s2)" by (metis surj_pair)
  then have "tables s2 = tables s" by (simp add: Now_frame(1) NewID_frame(1))
  then show ?case using creating_project n project_inv_insert
    by (auto simp: CreateProject_def Let_def split: if_splits)
next
  case (setting_bearer rnd i s r s')
  show ?case
  proof (cases r)
    case (Inl e)
    then show ?thesis using setting_bearer by (auto simp: SetProjectBearer_def dest: tx_Inl)
  next
    case (Inr token)
    then have ok: "SetProjectBearer digest rnd i s = (Inr token, s')" using setting_bearer(1) by simp
    show ?thesis unfolding SetProjectBearer_ok(2) [OF ok]
      by (rule project_inv_bearer_change [OF setting_bearer(2)])
         (use SetProjectBearer_ok(4) [OF ok] in simp)
  qed
next
  case (revoking_bearer i s r s')
  show ?case
  proof (cases r)
    case (Inl e)
    then show ?thesis using revoking_bearer by (auto simp: RevokeProjectBearer_def dest: tx_Inl)
  next
    case (Inr u)
    then have "ac_projects (accounts_of s') =
        update_where (has_id i) (pw_bearer_hash_update (\<lambda>_. None)) (ac_projects (accounts_of s))"
      using revoking_bearer(1)
      by (auto simp: RevokeProjectBearer_def tx_Inr RevokeProjectBearer_tx_def Let_def split: if_splits)
    then show ?thesis using project_inv_bearer_change [OF revoking_bearer(2), of None] by simp
  qed
next
  case (allowing i patterns s r s')
  then show ?case by (simp add: SetAllowlist_frame)
next
  case (creating_persona p s r s')
  obtain i s1 now s2 where n: "(if pe_id p = [] then NewID s else (pe_id p, s)) = (i, s1)"
    "Now s1 = (now, s2)" by (metis surj_pair)
  then have "tables s2 = tables s"
    by (auto simp: NewID_frame(1) Now_frame(1) split: if_splits)
  then show ?case using creating_persona n
    by (auto simp: CreatePersona_def Let_def set_personas_def split: if_splits)
next
  case (saving_session x s r s')
  obtain now s1 where n: "(if is_zero_time (ss_saved_at x) then Now s else (ss_saved_at x, s)) = (now, s1)"
    by (metis surj_pair)
  then have "tables s1 = tables s" by (auto simp: Now_frame(1) split: if_splits)
  then show ?case using saving_session n by (auto simp: PutSession_def Let_def split: if_splits)
qed (auto simp: NextEventGeneration_def UpdateSeedState_def SetRelation_def
      PutSecret_def expectOne_def Let_def set_personas_def
      dest!: NewID_frame(1) Now_frame(1) split: prod.splits if_splits)

end
