(* ===== verification/Machine.thy ===== *)
theory Machine
  imports AuditTrail Accounts
begin

text \<open>
  The server as a state machine over its store. Each step is one transaction some request
  commits, so every interleaving of concurrent requests is a sequence of steps: a claim that
  waits, a lease that is being seeded and a delivery in progress are their transactions with any
  other steps between them. \<open>outside\<close> is everything that leaves the tables alone: reads of the
  clock and of the random source, and a restart of the process.
\<close>

section \<open>Steps\<close>

inductive step :: "service \<Rightarrow> ingest \<Rightarrow> store \<Rightarrow> store \<Rightarrow> bool" for sv ig where
  add_identity: "CreateIdentity (sv_to_ascii sv) ni s = (r, s') \<Longrightarrow> step sv ig s s'"
| start_run: "ServiceCreateRun sv digest rnd s = (r1, s') \<Longrightarrow> step sv ig s s'"
| reserving: "reserve sv rnd run role md s = (r2, s') \<Longrightarrow> step sv ig s s'"
| settling: "settle sv run l i sr failed s = (r3, s') \<Longrightarrow> step sv ig s s'"
| releasing: "Release sv run lid s = (r4, s') \<Longrightarrow> step sv ig s s'"
| ending: "ServiceEndRun i st reason s = (r4, s') \<Longrightarrow> step sv ig s s'"
| expiring_runs: "ExpireRuns s = (r5, s') \<Longrightarrow> step sv ig s s'"
| expiring_leases: "tx ExpireLeases s = (r5, s') \<Longrightarrow> step sv ig s s'"
| delivering: "tx (deliver_tx ig m0 f q off envelope originAt) s = (r6, s') \<Longrightarrow> step sv ig s s'"
| extracting: "tx (SetExtraction m x) s = (r4, s') \<Longrightarrow> step sv ig s s'"
| extract_failing: "tx (FailExtraction m) s = (r4, s') \<Longrightarrow> step sv ig s s'"
| deleting: "tx (DeleteMessage m) s = (r7, s') \<Longrightarrow> step sv ig s s'"
| claiming: "RecordClaim nc s = (r8, s') \<Longrightarrow> step sv ig s s'"
| recording: "Write mt ev s = (r5, s') \<Longrightarrow> step sv ig s s'"
| administering: "admin_step digest (sv_to_ascii sv) s s' \<Longrightarrow> step sv ig s s'"
| outside: "tables s' = tables s \<Longrightarrow> step sv ig s s'"

inductive reachable :: "service \<Rightarrow> ingest \<Rightarrow> store \<Rightarrow> bool" for sv ig where
  fresh: "tables s = empty_db \<Longrightarrow> reachable sv ig s"
| next_step: "reachable sv ig s \<Longrightarrow> step sv ig s s' \<Longrightarrow> reachable sv ig s'"

context serving_contract begin

text \<open>A step that is not administrative keeps what serving keeps.\<close>

lemma step_serves:
  assumes "step sv ig s s'" and "I s"
  shows "I s' \<or> (\<exists>digest. admin_step digest (sv_to_ascii sv) s s')"
  using assms(1)
proof cases
  case (add_identity ni r)
  then show ?thesis using keepsD [OF create_identity] assms(2) by blast
next
  case start_run
  then show ?thesis using keepsD [OF service_create_run] assms(2) by blast
next
  case reserving
  then show ?thesis using keepsD [OF reserve_keeps] assms(2) by blast
next
  case settling
  then show ?thesis using keepsD [OF settle_keeps] assms(2) by blast
next
  case releasing
  then show ?thesis using keepsD [OF release] assms(2) by blast
next
  case ending
  then show ?thesis using keepsD [OF service_end_run] assms(2) by blast
next
  case expiring_runs
  then show ?thesis using keepsD [OF expire_runs] assms(2) by blast
next
  case expiring_leases
  then show ?thesis using keepsD [OF in_tx [OF expire_leases]] assms(2) by blast
next
  case delivering
  then show ?thesis using keepsD [OF deliver] assms(2) by blast
next
  case extracting
  then show ?thesis using keepsD [OF in_tx [OF set_extraction]] assms(2) by blast
next
  case extract_failing
  then show ?thesis using keepsD [OF in_tx [OF fail_extraction]] assms(2) by blast
next
  case deleting
  then show ?thesis using keepsD [OF in_tx [OF delete_message]] assms(2) by blast
next
  case claiming
  then show ?thesis using keepsD [OF record_claim] assms(2) by blast
next
  case recording
  then show ?thesis using keepsD [OF write_event] assms(2) by blast
next
  case administering
  then show ?thesis by blast
next
  case outside
  then show ?thesis using frame assms(2) by blast
qed

end

context store_contract begin

lemma step_keeps: "step sv ig s s' \<Longrightarrow> I s \<Longrightarrow> I s'"
  using step_serves rows [OF admin_step_rows] by blast

lemma steps_keep: "(step sv ig)\<^sup>*\<^sup>* s s' \<Longrightarrow> I s \<Longrightarrow> I s'"
  by (induction rule: rtranclp_induct) (auto intro: step_keeps)

lemma reachable_keeps:
  "reachable sv ig s \<Longrightarrow> (\<And>s0. tables s0 = empty_db \<Longrightarrow> I s0) \<Longrightarrow> I s"
  by (induction rule: reachable.induct) (auto intro: step_keeps)

end

section \<open>What every reachable store satisfies\<close>

lemma reachable_inv: "reachable sv ig s \<Longrightarrow> store_inv s"
  by (erule store_rows.reachable_keeps) (rule store_inv_empty)

lemma reachable_steps: "(step sv ig)\<^sup>*\<^sup>* s s' \<Longrightarrow> reachable sv ig s \<Longrightarrow> reachable sv ig s'"
  by (induction rule: rtranclp_induct) (auto intro: reachable.next_step)

lemma reachable_redacted:
  "reachable sv ig s \<Longrightarrow> e \<in> set (ledger s) \<Longrightarrow> redacted_entry e"
  using audit_rows.reachable_keeps [of sv ig s "[]"]
  by (auto simp: trail_def empty_db_def list_all_iff)

lemma steps_ledger: "(step sv ig)\<^sup>*\<^sup>* s s' \<Longrightarrow> \<exists>new. ledger s' = ledger s @ new"
  using audit_rows.steps_keep [of sv ig s s' "ledger s"] trail_refl [of s]
  by (auto simp: trail_def)


section \<open>Serving never touches the administration\<close>

lemma step_office:
  assumes "step sv ig s s'"
  shows "office (tables s') = office (tables s) \<or> (\<exists>digest. admin_step digest (sv_to_ascii sv) s s')"
  using office_rows.step_serves [OF assms, of "\<lambda>x. x = office (tables s)"] by simp

lemma reachable_project_inv: "reachable sv ig s \<Longrightarrow> project_inv (ac_projects (accounts_of s))"
proof (induction rule: reachable.induct)
  case (fresh s)
  then show ?case by (simp add: project_inv_def empty_db_def no_accounts_def)
next
  case (next_step s s')
  from step_office [OF next_step(2)] next_step(3) show ?case
    by (auto simp: office_def intro: project_inv_admin)
qed

lemma generation_steps:
  "(step sv ig)\<^sup>*\<^sup>* s s' \<Longrightarrow> db_generation (tables s) \<le> db_generation (tables s')"
proof (induction rule: rtranclp_induct)
  case (step t u)
  have "db_generation (tables t) \<le> db_generation (tables u)"
    using step_office [OF step(2)] by (auto simp: office_def intro: generation_mono)
  with step(3) show ?case by simp
qed simp

section \<open>An ended run stays ended\<close>

definition ended :: "ident \<Rightarrow> store \<Rightarrow> bool" where
  "ended i s \<longleftrightarrow> (\<exists>r\<in>set (runs s). run_id r = i \<and> run_state r \<noteq> RunActive)"

lemma runs_alone_ended: "leaves db_runs f \<Longrightarrow> keeps (ended i) f"
  by (rule keepsI) (auto simp: ended_def dest!: leavesD)

lemma CreateRun_ended: "keeps (ended i) (CreateRun digest rnd project ttl)"
proof (rule keepsI)
  fix s r s' assume e: "ended i s" and run: "CreateRun digest rnd project ttl s = (r, s')"
  obtain now s1 j s2 where ns: "Now s = (now, s1)" "NewID s1 = (j, s2)" by (metis surj_pair)
  then have "tables s2 = tables s" "tables s1 = tables s" by (simp_all add: Now_frame(1) NewID_frame(1))
  then have "set (runs s) \<subseteq> set (runs s')"
    using run ns by (auto simp: CreateRun_def Let_def split: if_splits)
  with e show "ended i s'" by (auto simp: ended_def)
qed

lemma EndRun_keeps_ended: "keeps (ended i) (EndRun j st reason)"
proof (rule keepsI)
  fix s r s' assume e: "ended i s" and run: "EndRun j st reason s = (r, s')"
  obtain now s1 where now: "Now s = (now, s1)" by (cases "Now s")
  then have tab: "tables s1 = tables s" by (simp add: Now_frame(1))
  from e obtain q where q: "q \<in> set (runs s)" "run_id q = i" "run_state q \<noteq> RunActive"
    by (auto simp: ended_def)
  then have "q \<in> set (update_where (active_row j) (end_run st reason now) (runs s))"
    using update_where_hit [of q "runs s" "active_row j" "end_run st reason now"]
    by (simp add: active_row_def)
  then have "q \<in> set (runs s')"
    using run now tab q(1) by (auto simp: EndRun_def split: if_splits option.splits)
  with q show "ended i s'" by (auto simp: ended_def)
qed

interpretation ended_rows: store_contract "ended i" for i
proof unfold_locales
  show "tables s' = tables s \<Longrightarrow> ended i s \<Longrightarrow> ended i s'" for s s'
    by (simp add: ended_def)
  show "same_rows s s' \<Longrightarrow> ended i s \<Longrightarrow> ended i s'" for s s'
    by (simp add: ended_def same_rows_def)
  show "ended i s \<Longrightarrow> ended i (SetCooldown j u s)" for s j u
    by (simp add: ended_def)
qed (simp_all add: runs_alone_ended CreateRun_ended EndRun_keeps_ended runs_view.create_identity
      runs_view.acquire_lease runs_view.settle_seed runs_view.release_lease runs_view.expire_leases
      runs_view.write_event runs_view.deliver runs_view.set_extraction runs_view.fail_extraction
      runs_view.delete_message runs_view.record_claim)

text \<open>In a reachable store an ended run holds nothing, and it never will again.\<close>

lemma ended_holds_nothing:
  assumes "store_inv s" and "ended i s" and "l \<in> set (leases s)" and "ls_run l = i"
  shows "ls_state l \<noteq> LeaseHeld"
proof
  assume "ls_state l = LeaseHeld"
  then obtain r where r: "r \<in> set (runs s)" "run_id r = i" "run_state r = RunActive"
    using assms(1,3,4) by (auto simp: store_inv_def held_active_def)
  moreover obtain q where "q \<in> set (runs s)" "run_id q = i" "run_state q \<noteq> RunActive"
    using assms(2) by (auto simp: ended_def)
  moreover have "distinct (map run_id (runs s))" using assms(1) by (simp add: store_inv_def run_inv_def)
  ultimately show False by (metis eq_key_imp_eq_value in_set_conv_nth distinct_map inj_onD)
qed

lemma EndRun_ends:
  assumes "EndRun i st reason s = (Inr (), s')"
  shows "ended i s'"
proof -
  obtain now s1 where now: "Now s = (now, s1)" by (cases "Now s")
  then have tab: "tables s1 = tables s" by (simp add: Now_frame(1))
  have st: "st \<noteq> RunActive" using assms by (auto simp: EndRun_def)
  show ?thesis
  proof (cases "affected (active_row i) (runs s) = 0")
    case True
    then obtain r where "find_row (\<lambda>r. run_id r = i) (runs s) = Some r" "run_state r = st" "s' = s1"
      using assms now tab st by (auto simp: EndRun_def split: option.splits if_splits)
    then show ?thesis using st tab find_row_Some by (fastforce simp: ended_def)
  next
    case False
    then obtain r where r: "r \<in> set (runs s)" "active_row i r" by (auto simp: affected_0)
    then have "end_run st reason now r \<in> set (update_where (active_row i) (end_run st reason now) (runs s))"
      using update_where_hit [of r "runs s" "active_row i" "end_run st reason now"] by simp
    moreover have "run_id (end_run st reason now r) = i \<and> run_state (end_run st reason now r) = st"
      using r(2) by (simp add: end_run_def active_row_def)
    moreover have "runs s' = update_where (active_row i) (end_run st reason now) (runs s)"
      using assms now tab st False by (auto simp: EndRun_def)
    ultimately show ?thesis using st unfolding ended_def by metis
  qed
qed

end
