(* ===== verification/TextScan.thy ===== *)
theory TextScan
  imports ExtractModel "HOL-Library.Sublist"
begin

text \<open>
  How extraction reads text: runes, folding and whole words
  (\<^verbatim>\<open>internal/extract/extract.go\<close>). A string is the list of its bytes, as in Go, and
  the functions of \<^verbatim>\<open>unicode/utf8\<close> the package calls are written out. What comes from the
  Unicode character database and from \<^verbatim>\<open>golang.org/x/text\<close> is the record \<open>unicode\<close>:
  which runes from 128 on are letters or digits, which are combining marks, the lower-casing of a
  string and the two normal forms.
\<close>

section \<open>Runes\<close>

definition RuneError :: nat where "RuneError = 65533"

definition RuneStart :: "char \<Rightarrow> bool" where
  "RuneStart c \<longleftrightarrow> of_char c div (64::nat) \<noteq> 2"

text \<open>The size a leading byte announces and the range of the byte after it.\<close>

definition utf8_first :: "nat \<Rightarrow> (nat \<times> nat \<times> nat) option" where
  "utf8_first b =
     (if 194 \<le> b \<and> b \<le> 223 then Some (2, 128, 191)
      else if b = 224 then Some (3, 160, 191)
      else if b = 237 then Some (3, 128, 159)
      else if 225 \<le> b \<and> b \<le> 239 then Some (3, 128, 191)
      else if b = 240 then Some (4, 144, 191)
      else if b = 244 then Some (4, 128, 143)
      else if 241 \<le> b \<and> b \<le> 243 then Some (4, 128, 191)
      else None)"

definition cont :: "nat \<Rightarrow> bool" where "cont b \<longleftrightarrow> 128 \<le> b \<and> b \<le> 191"

definition DecodeRune :: "string \<Rightarrow> nat \<times> nat" where
  "DecodeRune s =
     (case map of_char s of
        [] \<Rightarrow> (RuneError, 0)
      | b # bs \<Rightarrow>
          if b < 128 then (b, 1)
          else case utf8_first b of
            None \<Rightarrow> (RuneError, 1)
          | Some (sz, lo, hi) \<Rightarrow>
              (case bs of
                 [] \<Rightarrow> (RuneError, 1)
               | b1 # bs1 \<Rightarrow>
                   if length bs < sz - 1 \<or> \<not> (lo \<le> b1 \<and> b1 \<le> hi) then (RuneError, 1)
                   else if sz = 2 then (b mod 32 * 64 + b1 mod 64, 2)
                   else if \<not> cont (bs1 ! 0) then (RuneError, 1)
                   else if sz = 3 then (b mod 16 * 4096 + b1 mod 64 * 64 + bs1 ! 0 mod 64, 3)
                   else if \<not> cont (bs1 ! 1) then (RuneError, 1)
                   else (b mod 8 * 262144 + b1 mod 64 * 4096 + bs1 ! 0 mod 64 * 64 +
                           bs1 ! 1 mod 64, 4)))"

definition DecodeLastRune :: "string \<Rightarrow> nat \<times> nat" where
  "DecodeLastRune s =
     (let n = length s
      in if n = 0 then (RuneError, 0)
         else if of_char (s ! (n - 1)) < (128::nat) then (of_char (s ! (n - 1)), 1)
         else let lim = n - 4;
                  start = (case find (\<lambda>i. RuneStart (s ! i)) (rev [lim..<n - 1]) of
                             Some i \<Rightarrow> i
                           | None \<Rightarrow> lim - 1)
              in case DecodeRune (drop start s) of (r, sz) \<Rightarrow>
                   if start + sz \<noteq> n then (RuneError, 1) else (r, sz))"

definition byte_char :: "nat \<Rightarrow> char" where "byte_char b = char_of b"

definition EncodeRune :: "nat \<Rightarrow> string" where
  "EncodeRune r0 =
     (let r = (if 1114111 < r0 \<or> (55296 \<le> r0 \<and> r0 \<le> 57343) then RuneError else r0)
      in if r < 128 then [byte_char r]
         else if r < 2048 then [byte_char (192 + r div 64), byte_char (128 + r mod 64)]
         else if r < 65536 then [byte_char (224 + r div 4096),
           byte_char (128 + r div 64 mod 64), byte_char (128 + r mod 64)]
         else [byte_char (240 + r div 262144), byte_char (128 + r div 4096 mod 64),
           byte_char (128 + r div 64 mod 64), byte_char (128 + r mod 64)])"

lemma utf8_first_size: "utf8_first b = Some (sz, lo, hi) \<Longrightarrow> 2 \<le> sz \<and> sz \<le> 4"
  by (auto simp: utf8_first_def split: if_splits)

lemma DecodeRune_size:
  assumes "s \<noteq> []"
  shows "0 < snd (DecodeRune s) \<and> snd (DecodeRune s) \<le> length s"
proof -
  obtain c cs where s: "s = c # cs" using assms by (cases s) auto
  show ?thesis
  proof (cases "of_char c < (128::nat)")
    case True
    then show ?thesis by (simp add: s DecodeRune_def)
  next
    case False
    show ?thesis
    proof (cases "utf8_first (of_char c)")
      case None
      then show ?thesis using False by (simp add: s DecodeRune_def)
    next
      case (Some p)
      obtain sz lo hi where p: "p = (sz, lo, hi)" by (cases p) auto
      show ?thesis
        using False Some utf8_first_size [of "of_char c" sz lo hi]
        by (cases cs) (auto simp: s p DecodeRune_def Let_def Suc_le_eq)
    qed
  qed
qed

text \<open>\<^verbatim>\<open>for _, r := range s\<close>.\<close>

function runes :: "string \<Rightarrow> nat list" where
  "runes s = (if s = [] then [] else fst (DecodeRune s) # runes (drop (snd (DecodeRune s)) s))"
  by pat_completeness auto
termination
  by (relation "measure length") (use DecodeRune_size in auto)

declare runes.simps [simp del]

section \<open>Folding\<close>

record unicode =
  uc_word :: "nat \<Rightarrow> bool"
  uc_mark :: "nat \<Rightarrow> bool"
  uc_lower :: "string \<Rightarrow> string"
  uc_nfd :: "string \<Rightarrow> string"
  uc_nfc :: "string \<Rightarrow> string"

definition fold_rune :: "unicode \<Rightarrow> nat \<Rightarrow> string" where
  "fold_rune u r = (if uc_mark u r then [] else if r = 273 then ''d'' else EncodeRune r)"

definition fold_text :: "unicode \<Rightarrow> string \<Rightarrow> string" where
  "fold_text u s = concat (map (fold_rune u) (runes (uc_nfd u (uc_lower u s))))"

section \<open>Words\<close>

definition is_ascii_alnum :: "nat \<Rightarrow> bool" where
  "is_ascii_alnum r \<longleftrightarrow>
     (48 \<le> r \<and> r \<le> 57) \<or> (65 \<le> r \<and> r \<le> 90) \<or> (97 \<le> r \<and> r \<le> 122)"

definition isWordRune :: "unicode \<Rightarrow> nat \<Rightarrow> bool" where
  "isWordRune u r = (if r < 128 then is_ascii_alnum r else uc_word u r)"

definition isWordBoundary :: "unicode \<Rightarrow> string \<Rightarrow> nat \<Rightarrow> nat \<Rightarrow> bool" where
  "isWordBoundary u hay start end' \<longleftrightarrow>
     \<not> (0 < start \<and> isWordRune u (fst (DecodeLastRune (take start hay)))) \<and>
     \<not> (end' < length hay \<and> isWordRune u (fst (DecodeRune (drop end' hay))))"

text \<open>\<^verbatim>\<open>strings.Index\<close> and \<^verbatim>\<open>strings.Contains\<close>.\<close>

fun Index :: "string \<Rightarrow> string \<Rightarrow> nat option" where
  "Index [] w = (if w = [] then Some 0 else None)"
| "Index (c # cs) w = (if prefix w (c # cs) then Some 0 else map_option Suc (Index cs w))"

definition containsAny :: "string \<Rightarrow> string list \<Rightarrow> bool" where
  "containsAny hay needles \<longleftrightarrow> list_ex (\<lambda>n. Index hay n \<noteq> None) needles"

lemma Index_Some:
  "Index s w = Some i \<Longrightarrow> i + length w \<le> length s \<and> prefix w (drop i s) \<and>
     (\<forall>j<i. \<not> prefix w (drop j s))"
proof (induction s arbitrary: i)
  case (Cons c s)
  show ?case
  proof (cases "prefix w (c # s)")
    case True
    then show ?thesis using Cons.prems prefix_length_le [OF True] by simp
  next
    case False
    with Cons.prems obtain k where k: "Index s w = Some k" "i = Suc k" by auto
    have "\<not> prefix w (drop j (c # s))" if "j < i" for j
      using False Cons.IH [OF k(1)] that k(2) by (cases j) auto
    then show ?thesis using Cons.IH [OF k(1)] k(2) by simp
  qed
qed (simp split: if_splits)

lemma Index_None: "Index s w = None \<Longrightarrow> \<not> prefix w (drop j s)"
proof (induction s arbitrary: j)
  case (Cons c s)
  then show ?case by (cases j) (auto split: if_splits)
qed (auto split: if_splits)

lemma containsAny_iff: "containsAny hay needles \<longleftrightarrow> (\<exists>n\<in>set needles. sublist n hay)"
proof -
  have "Index hay n \<noteq> None \<longleftrightarrow> sublist n hay" for n
  proof
    assume "Index hay n \<noteq> None"
    then obtain i where "Index hay n = Some i" by blast
    then have "prefix n (drop i hay)" using Index_Some by blast
    then show "sublist n hay" by (metis append_take_drop_id prefixE sublist_appendI append_assoc)
  next
    assume "sublist n hay"
    then obtain a b where "hay = a @ n @ b" by (auto simp: sublist_def)
    then have "prefix n (drop (length a) hay)" by simp
    then show "Index hay n \<noteq> None" using Index_None by blast
  qed
  then show ?thesis by (simp add: containsAny_def list_ex_iff)
qed

text \<open>
  The loop of \<^verbatim>\<open>findWords\<close> for one word. The guard stands for the slice expression, whose
  bound is only passed by an empty word; the keyword lists have none.
\<close>

function find_word :: "unicode \<Rightarrow> string \<Rightarrow> string \<Rightarrow> nat \<Rightarrow> span list" where
  "find_word u hay w beg =
     (if length hay < beg then []
      else case Index (drop beg hay) w of
        None \<Rightarrow> []
      | Some i \<Rightarrow>
          let start = beg + i; end' = start + length w
          in (if isWordBoundary u hay start end'
              then [\<lparr>sp_start = start, sp_end = end'\<rparr>] else []) @
             find_word u hay w (start + 1))"
  by pat_completeness auto
termination
  by (relation "measure (\<lambda>(u, hay, w, beg). Suc (length hay) - beg)") auto

declare find_word.simps [simp del]

definition findWords :: "unicode \<Rightarrow> string \<Rightarrow> string list \<Rightarrow> span list" where
  "findWords u hay words = concat (map (\<lambda>w. find_word u hay w 0) words)"

text \<open>Every occurrence at a boundary is found, and nothing else.\<close>

definition occurs_at :: "string \<Rightarrow> string \<Rightarrow> nat \<Rightarrow> bool" where
  "occurs_at hay w i \<longleftrightarrow> i \<le> length hay \<and> prefix w (drop i hay)"

lemma occurs_at_length: "occurs_at hay w i \<Longrightarrow> i + length w \<le> length hay"
  by (auto simp: occurs_at_def dest: prefix_length_le)

lemma find_word_set:
  assumes "w \<noteq> []"
  shows "set (find_word u hay w beg) =
     {\<lparr>sp_start = i, sp_end = i + length w\<rparr> |i. beg \<le> i \<and> occurs_at hay w i \<and>
        isWordBoundary u hay i (i + length w)}"
proof (induction u hay w beg rule: find_word.induct)
  case (1 u hay w beg)
  show ?case
  proof (cases "length hay < beg")
    case True
    then show ?thesis by (subst find_word.simps) (auto simp: occurs_at_def)
  next
    case False
    note IH = 1 [OF False]
    show ?thesis
    proof (cases "Index (drop beg hay) w")
      case None
      have "\<not> occurs_at hay w i" if "beg \<le> i" for i
        using Index_None [OF None, of "i - beg"] that by (simp add: occurs_at_def)
      then show ?thesis using None False by (subst find_word.simps) auto
    next
      case (Some k)
      have at: "occurs_at hay w (beg + k)"
        using Index_Some [OF Some] False by (auto simp: occurs_at_def add.commute)
      have before: "\<not> occurs_at hay w i" if "beg \<le> i" "i < beg + k" for i
      proof -
        from that have "i - beg < k" by simp
        then have "\<not> prefix w (drop (i - beg) (drop beg hay))"
          using Index_Some [OF Some] by blast
        then show ?thesis using that(1) by (simp add: occurs_at_def)
      qed
      have pos: "beg \<le> i \<and> occurs_at hay w i \<longleftrightarrow>
          i = beg + k \<or> (beg + k + 1 \<le> i \<and> occurs_at hay w i)" for i
        using at before by (metis Suc_eq_plus1 le_add1 le_trans not_less_eq_eq nat_less_le not_le)
      have first: "i = beg + k" if "\<not> Suc (beg + k) \<le> i" "beg \<le> i" "occurs_at hay w i" for i
        using pos [of i] that by auto
      show ?thesis
        using IH [OF Some refl refl] False Some at
        by (subst find_word.simps) (auto simp: Let_def dest: first)
    qed
  qed
qed

lemma find_word_span:
  "sp \<in> set (find_word u hay w beg) \<Longrightarrow> sp_end sp = sp_start sp + length w"
proof (induction u hay w beg rule: find_word.induct)
  case (1 u hay w beg)
  note found = 1(2) [unfolded find_word.simps [of u hay w beg]]
  show ?case
  proof (cases "length hay < beg")
    case False
    with found show ?thesis
      using 1(1) [OF False _ refl refl]
      by (cases "Index (drop beg hay) w") (auto simp: Let_def split: if_split_asm)
  qed (use found in simp)
qed

end
