(* ===== verification/PlainUrls.thy ===== *)
theory PlainUrls
  imports TextScan Addresses
begin

text \<open>
  URLs written out in running text: the scanners of \<^verbatim>\<open>internal/extract/links.go\<close>.
  Positions are byte offsets. The loops that walk outwards from a mark are \<open>takeWhile\<close> over
  the text on that side of it.
\<close>

section \<open>Bytes\<close>

definition isSchemeByte :: "char \<Rightarrow> bool" where
  "isSchemeByte b \<longleftrightarrow>
     (CHR ''a'' \<le> b \<and> b \<le> CHR ''z'') \<or> (CHR ''A'' \<le> b \<and> b \<le> CHR ''Z'') \<or>
     (CHR ''0'' \<le> b \<and> b \<le> CHR ''9'') \<or> b = CHR ''+'' \<or> b = CHR ''-'' \<or> b = CHR ''.''"

definition isURLTerminator :: "char \<Rightarrow> bool" where
  "isURLTerminator b \<longleftrightarrow>
     b = CHR '' '' \<or> b = CHR ''<'' \<or> b = CHR ''>'' \<or> b = CHR 0x22 \<or> b = CHR 0x27 \<or>
     b = CHR 0x60 \<or> of_char b < (32::nat) \<or> of_char b = (127::nat)"

definition lowerASCII :: "char \<Rightarrow> char" where
  "lowerASCII b =
     (if CHR ''A'' \<le> b \<and> b \<le> CHR ''Z'' then char_of (of_char b + 32 :: nat) else b)"

section \<open>The end of a sentence\<close>

text \<open>
  \<^verbatim>\<open>trimURLTail\<close>. The two tallies count the brackets of the whole text once; a closer that
  is dropped is taken off its tally. The text is reversed, so its last byte is the head.
\<close>

definition sentence_end :: "char \<Rightarrow> bool" where
  "sentence_end c \<longleftrightarrow> c \<in> set ''.,;:!?''"

definition opener :: "nat \<Rightarrow> char" where "opener b = ''([{'' ! b"
definition closer :: "nat \<Rightarrow> char" where "closer b = '')]}'' ! b"

definition bracket_of :: "char \<Rightarrow> nat option" where
  "bracket_of c =
     (if c = CHR '')'' then Some 0 else if c = CHR '']'' then Some 1
      else if c = CHR ''}'' then Some 2 else None)"

fun trim_loop :: "(nat \<Rightarrow> nat) \<Rightarrow> (nat \<Rightarrow> nat) \<Rightarrow> string \<Rightarrow> string" where
  "trim_loop tally closers [] = []"
| "trim_loop tally closers (c # cs) =
     (if sentence_end c then trim_loop tally closers cs
      else case bracket_of c of
        None \<Rightarrow> c # cs
      | Some b \<Rightarrow>
          if closers b \<le> tally b then c # cs
          else trim_loop tally (closers(b := closers b - 1)) cs)"

definition trimURLTail :: "string \<Rightarrow> string" where
  "trimURLTail raw =
     rev (trim_loop (\<lambda>b. count_list raw (opener b)) (\<lambda>b. count_list raw (closer b)) (rev raw))"

text \<open>The version that counts the brackets again at every step.\<close>

fun trim_recount :: "string \<Rightarrow> string" where
  "trim_recount [] = []"
| "trim_recount (c # cs) =
     (if sentence_end c then trim_recount cs
      else case bracket_of c of
        None \<Rightarrow> c # cs
      | Some b \<Rightarrow>
          if count_list (c # cs) (closer b) \<le> count_list (c # cs) (opener b) then c # cs
          else trim_recount cs)"

lemma bracket_of_closer: "bracket_of c = Some b \<Longrightarrow> b < 3 \<and> c = closer b"
  by (auto simp: bracket_of_def closer_def split: if_splits)

lemma brackets_apart:
  "b < 3 \<Longrightarrow> d < 3 \<Longrightarrow> closer b \<noteq> opener d \<and> (closer b = closer d \<longleftrightarrow> b = d)"
  by (auto simp: closer_def opener_def less_Suc_eq numeral_3_eq_3)

lemma sentence_end_no_bracket: "sentence_end c \<Longrightarrow> b < 3 \<Longrightarrow> c \<noteq> opener b \<and> c \<noteq> closer b"
  by (auto simp: sentence_end_def closer_def opener_def less_Suc_eq numeral_3_eq_3)

lemma trim_loop_recount:
  assumes "\<And>b. b < 3 \<Longrightarrow> tally b = count_list cs (opener b)"
    and "\<And>b. b < 3 \<Longrightarrow> closers b = count_list cs (closer b)"
  shows "trim_loop tally closers cs = trim_recount cs"
  using assms
proof (induction cs arbitrary: closers)
  case (Cons c cs)
  show ?case
  proof (cases "sentence_end c")
    case True
    have "trim_loop tally closers cs = trim_recount cs"
      by (rule Cons.IH) (use Cons.prems sentence_end_no_bracket [OF True] in auto)
    then show ?thesis using True by simp
  next
    case False
    show ?thesis
    proof (cases "bracket_of c")
      case None
      then show ?thesis using False by simp
    next
      case (Some b)
      note b = bracket_of_closer [OF Some]
      have "trim_loop tally (closers(b := closers b - 1)) cs = trim_recount cs"
        by (rule Cons.IH) (use Cons.prems b brackets_apart [of b] in auto)
      then show ?thesis using False Some Cons.prems b by simp
    qed
  qed
qed simp

lemma trimURLTail_recount: "trimURLTail raw = rev (trim_recount (rev raw))"
  unfolding trimURLTail_def by (subst trim_loop_recount) simp_all

lemma trim_loop_suffix: "suffix (trim_loop tally closers cs) cs"
proof (induction cs arbitrary: closers)
  case (Cons c cs)
  then show ?case by (auto split: option.split intro: suffix_ConsI)
qed simp

lemma trimURLTail_prefix: "prefix (trimURLTail raw) raw"
  using trim_loop_suffix [of _ _ "rev raw"] by (simp add: trimURLTail_def suffix_to_prefix)

section \<open>URLs with a scheme\<close>

record plain_url =
  pu_url :: string
  pu_at :: span

definition url_end :: "string \<Rightarrow> nat \<Rightarrow> nat" where
  "url_end s i = i + length (takeWhile (\<lambda>b. \<not> isURLTerminator b) (drop i s))"

definition scheme_start :: "string \<Rightarrow> nat \<Rightarrow> nat" where
  "scheme_start s mark = mark - length (takeWhile isSchemeByte (rev (take mark s)))"

definition slice :: "string \<Rightarrow> nat \<Rightarrow> nat \<Rightarrow> string" where
  "slice s i j = take (j - i) (drop i s)"

definition at_url :: "nat \<Rightarrow> string \<Rightarrow> plain_url" where
  "at_url start raw =
     \<lparr>pu_url = raw, pu_at = \<lparr>sp_start = start, sp_end = start + length raw\<rparr>\<rparr>"

lemma url_end_le: "i \<le> length s \<Longrightarrow> url_end s i \<le> length s"
  using length_takeWhile_le [of "\<lambda>b. \<not> isURLTerminator b" "drop i s"] by (simp add: url_end_def)

lemma url_end_ge: "i \<le> url_end s i"
  by (simp add: url_end_def)

function scheme_loop :: "string \<Rightarrow> nat \<Rightarrow> plain_url list" where
  "scheme_loop s beg =
     (case Index (drop beg s) ''://'' of
        None \<Rightarrow> []
      | Some i \<Rightarrow>
          let mark = beg + i;
              start = scheme_start s mark;
              end' = url_end s (mark + 3);
              raw = trimURLTail (slice s start end')
          in (if start = mark \<or> raw = [] then [] else [at_url start raw]) @ scheme_loop s end')"
  by pat_completeness auto
termination
proof (relation "measure (\<lambda>(s, beg). length s - beg)", goal_cases)
  case (2 s beg i mark start end' raw)
  from Index_Some [OF 2(1)] have "i + 3 \<le> length s - beg" by simp
  moreover have "mark + 3 \<le> end'" using 2(4) url_end_ge by simp
  ultimately show ?case using 2(2) by simp
qed simp

declare scheme_loop.simps [simp del]

definition findSchemeURLs :: "string \<Rightarrow> plain_url list" where
  "findSchemeURLs s = scheme_loop s 0"

section \<open>Hosts without a scheme\<close>

definition bareHostPrefix :: string where "bareHostPrefix = ''www.''"

definition www_at_head :: "string \<Rightarrow> bool" where
  "www_at_head s \<longleftrightarrow>
     4 \<le> length s \<and> s ! 3 = CHR ''.'' \<and> lowerASCII (s ! 0) = CHR ''w'' \<and>
     lowerASCII (s ! 1) = CHR ''w'' \<and> lowerASCII (s ! 2) = CHR ''w''"

fun indexBareHostPrefix :: "string \<Rightarrow> nat option" where
  "indexBareHostPrefix [] = None"
| "indexBareHostPrefix (c # cs) =
     (if www_at_head (c # cs) then Some 0 else map_option Suc (indexBareHostPrefix cs))"

definition startsToken :: "unicode \<Rightarrow> string \<Rightarrow> nat \<Rightarrow> bool" where
  "startsToken u s at =
     (if at = 0 then True
      else let r = fst (DecodeLastRune (take at s))
           in \<not> isWordRune u r \<and> r \<noteq> of_char (CHR ''.'') \<and> r \<noteq> of_char (CHR ''@''))"

definition isBareHost :: "string \<Rightarrow> bool" where
  "isBareHost raw \<longleftrightarrow>
     length bareHostPrefix < length raw \<and>
     (let rest = takeWhile (\<lambda>c. c \<notin> set ''/?#'') (drop (length bareHostPrefix) raw)
      in CHR ''.'' \<in> set rest \<and> takeWhile (\<lambda>c. c \<noteq> CHR ''.'') rest \<noteq> [])"

lemma indexBareHostPrefix_Some:
  "indexBareHostPrefix s = Some i \<Longrightarrow> i < length s \<and> www_at_head (drop i s)"
  by (induction s arbitrary: i) (auto split: if_splits)

lemma lowerASCII_letter: "lowerASCII b = CHR ''w'' \<Longrightarrow> \<not> isURLTerminator b"
  by (auto simp: lowerASCII_def isURLTerminator_def less_eq_char_def split: if_splits)

lemma url_end_www:
  assumes "www_at_head (drop i s)"
  shows "i < url_end s i"
proof -
  obtain c cs where c: "drop i s = c # cs" using assms by (cases "drop i s") (auto simp: www_at_head_def)
  then have "\<not> isURLTerminator c" using assms by (intro lowerASCII_letter) (simp add: www_at_head_def)
  then show ?thesis by (simp add: url_end_def c)
qed

function bare_loop :: "unicode \<Rightarrow> string \<Rightarrow> span list \<Rightarrow> nat \<Rightarrow> plain_url list" where
  "bare_loop u s exclude beg =
     (case indexBareHostPrefix (drop beg s) of
        None \<Rightarrow> []
      | Some i \<Rightarrow>
          let start = beg + i;
              end' = url_end s start;
              raw = trimURLTail (slice s start end')
          in (if \<not> startsToken u s start \<or> inSpans exclude \<lparr>sp_start = start, sp_end = end'\<rparr> \<or>
                 \<not> isBareHost raw then [] else [at_url start raw]) @
             bare_loop u s exclude end')"
  by pat_completeness auto
termination
proof (relation "measure (\<lambda>(u, s, exclude, beg). length s - beg)", goal_cases)
  case (2 u s exclude beg i start end' raw)
  from indexBareHostPrefix_Some [OF 2(1)] have "i < length s - beg" "www_at_head (drop start s)"
    using 2(2) by (simp_all add: add.commute)
  moreover from this have "start < end'" using url_end_www 2(3) by simp
  ultimately show ?case using 2(2) by simp
qed simp

declare bare_loop.simps [simp del]

definition findBareHostURLs :: "unicode \<Rightarrow> string \<Rightarrow> span list \<Rightarrow> plain_url list" where
  "findBareHostURLs u s exclude = bare_loop u s exclude 0"

definition findPlainURLs :: "unicode \<Rightarrow> string \<Rightarrow> plain_url list" where
  "findPlainURLs u s =
     (let out = findSchemeURLs s; bare = findBareHostURLs u s (map pu_at out)
      in if bare = [] then out else sort_key (\<lambda>p. sp_start (pu_at p)) (out @ bare))"

section \<open>Ranges\<close>

text \<open>A found URL is the text at its range, and ranges follow one another.\<close>

definition url_ok :: "string \<Rightarrow> plain_url \<Rightarrow> bool" where
  "url_ok s p \<longleftrightarrow>
     sp_start (pu_at p) < sp_end (pu_at p) \<and> sp_end (pu_at p) \<le> length s \<and>
     pu_url p = slice s (sp_start (pu_at p)) (sp_end (pu_at p))"

lemma length_slice: "j \<le> length s \<Longrightarrow> i \<le> j \<Longrightarrow> length (slice s i j) = j - i"
  by (simp add: slice_def)

lemma at_url_ok:
  assumes "i \<le> j" and "j \<le> length s" and "prefix raw (slice s i j)" and "raw \<noteq> []"
  shows "url_ok s (at_url i raw) \<and> sp_end (pu_at (at_url i raw)) \<le> j"
proof -
  have len: "length raw \<le> j - i" using prefix_length_le [OF assms(3)] assms(1,2) by (simp add: length_slice)
  obtain zs where "slice s i j = raw @ zs" using assms(3) by (auto simp: prefix_def)
  then have "raw = take (length raw) (slice s i j)" by simp
  then have "raw = slice s i (i + length raw)"
    using len by (simp add: slice_def min_def)
  with len assms show ?thesis by (auto simp: url_ok_def at_url_def)
qed

lemma scheme_start_le: "scheme_start s mark \<le> mark"
  by (simp add: scheme_start_def)

text \<open>Walking back never passes a byte that cannot be in a scheme.\<close>

lemma scheme_start_stops:
  assumes "k < mark" and "mark \<le> length s" and "\<not> isSchemeByte (s ! k)"
  shows "k < scheme_start s mark"
proof (rule ccontr)
  let ?t = "takeWhile isSchemeByte (rev (take mark s))"
  assume "\<not> k < scheme_start s mark"
  then have n: "mark - Suc k < length ?t" using assms(1,2) by (simp add: scheme_start_def)
  then have "?t ! (mark - Suc k) = rev (take mark s) ! (mark - Suc k)" by (rule takeWhile_nth)
  also have "\<dots> = s ! k" using assms(1,2) by (simp add: rev_nth)
  finally have "isSchemeByte (s ! k)" using n by (metis nth_mem set_takeWhileD)
  with assms(3) show False by simp
qed

lemma terminator_not_scheme: "isURLTerminator b \<Longrightarrow> \<not> isSchemeByte b"
  by (auto simp: isURLTerminator_def isSchemeByte_def less_eq_char_def)

lemma url_end_stops: "url_end s i < length s \<Longrightarrow> isURLTerminator (s ! url_end s i)"
  using nth_length_takeWhile [of "\<lambda>b. \<not> isURLTerminator b" "drop i s"]
  by (auto simp: url_end_def)

definition fresh_start :: "string \<Rightarrow> nat \<Rightarrow> bool" where
  "fresh_start s beg \<longleftrightarrow> beg = 0 \<or> (beg < length s \<longrightarrow> isURLTerminator (s ! beg))"

definition in_order :: "plain_url list \<Rightarrow> bool" where
  "in_order ps \<longleftrightarrow> sorted_wrt (\<lambda>p q. sp_end (pu_at p) \<le> sp_start (pu_at q)) ps"

lemma scheme_loop_ranges:
  "fresh_start s beg \<Longrightarrow> beg \<le> length s \<Longrightarrow>
     list_all (url_ok s) (scheme_loop s beg) \<and> in_order (scheme_loop s beg) \<and>
     list_all (\<lambda>p. beg \<le> sp_start (pu_at p)) (scheme_loop s beg)"
proof (induction s beg rule: scheme_loop.induct)
  case (1 s beg)
  show ?case
  proof (cases "Index (drop beg s) ''://''")
    case None
    then show ?thesis by (subst (1 2 3) scheme_loop.simps) (simp add: in_order_def)
  next
    case (Some i)
    let ?mark = "beg + i"
    let ?start = "scheme_start s ?mark" and ?stop = "url_end s (?mark + 3)"
    let ?raw = "trimURLTail (slice s ?start ?stop)"
    from Index_Some [OF Some] have i: "i + 3 \<le> length s - beg" "prefix ''://'' (drop ?mark s)"
      by (simp_all add: add.commute)
    have e: "?mark + 3 \<le> ?stop" "?stop \<le> length s" using i(1) url_end_ge url_end_le by simp_all
    have colon: "s ! ?mark = CHR '':''"
      using i by (cases "drop ?mark s") (auto simp: hd_drop_conv_nth [symmetric] prefix_Cons)
    have beg: "beg \<le> ?start"
    proof (cases "beg = 0")
      case False
      then have t: "isURLTerminator (s ! beg)" using 1(2) i(1) by (auto simp: fresh_start_def)
      then have "0 < i" using colon by (cases i) (auto simp: isURLTerminator_def)
      then show ?thesis
        using scheme_start_stops [of beg ?mark s] terminator_not_scheme [OF t] e by simp
    qed simp
    have "fresh_start s ?stop" using url_end_stops by (auto simp: fresh_start_def)
    then have rest: "list_all (url_ok s) (scheme_loop s ?stop)" "in_order (scheme_loop s ?stop)"
      "list_all (\<lambda>p. ?stop \<le> sp_start (pu_at p)) (scheme_loop s ?stop)"
      using 1(1) [OF Some refl refl refl refl] e(2) by simp_all
    have head: "url_ok s (at_url ?start ?raw) \<and> sp_end (pu_at (at_url ?start ?raw)) \<le> ?stop"
      if "?raw \<noteq> []"
      using scheme_start_le [of s ?mark] e that
      by (intro at_url_ok trimURLTail_prefix) auto
    have split: "scheme_loop s beg = (if ?start = ?mark \<or> ?raw = [] then [] else [at_url ?start ?raw]) @
        scheme_loop s ?stop"
      by (subst scheme_loop.simps) (simp add: Some Let_def)
    show ?thesis
      using rest head beg e unfolding split
      by (auto simp: in_order_def list_all_iff at_url_def)
  qed
qed

lemma findSchemeURLs_ranges:
  "list_all (url_ok s) (findSchemeURLs s) \<and> in_order (findSchemeURLs s)"
  using scheme_loop_ranges [of s 0] by (simp add: findSchemeURLs_def fresh_start_def)

lemma bare_loop_ok: "list_all (url_ok s) (bare_loop u s exclude beg)"
proof (induction u s exclude beg rule: bare_loop.induct)
  case (1 u s exclude beg)
  show ?case
  proof (cases "indexBareHostPrefix (drop beg s)")
    case None
    then show ?thesis by (subst bare_loop.simps) simp
  next
    case (Some i)
    let ?start = "beg + i" and ?stop = "url_end s (beg + i)"
    let ?raw = "trimURLTail (slice s ?start ?stop)"
    have "url_ok s (at_url ?start ?raw)" if "isBareHost ?raw"
    proof -
      have "?raw \<noteq> []" using that by (auto simp: isBareHost_def bareHostPrefix_def)
      moreover from indexBareHostPrefix_Some [OF Some] have "i < length s - beg" by simp
      then have "?stop \<le> length s" by (intro url_end_le) arith
      ultimately show ?thesis using at_url_ok [OF url_end_ge _ trimURLTail_prefix] by blast
    qed
    then show ?thesis
      using 1 [OF Some refl refl refl] by (subst bare_loop.simps) (simp add: Some Let_def)
  qed
qed

lemma findPlainURLs_ok: "list_all (url_ok s) (findPlainURLs u s)"
  using findSchemeURLs_ranges [of s] bare_loop_ok [of s u _ 0]
  by (auto simp: findPlainURLs_def findBareHostURLs_def Let_def list_all_iff)

lemma findPlainURLs_sorted: "sorted (map (\<lambda>p. sp_start (pu_at p)) (findPlainURLs u s))"
proof -
  have "sorted_wrt (\<lambda>p q. sp_start (pu_at p) \<le> sp_start (pu_at q)) ps"
    if "list_all (url_ok s) ps" "in_order ps" for ps
    using that unfolding in_order_def
    by (induction ps) (force simp: url_ok_def list_all_iff)+
  then have "sorted (map (\<lambda>p. sp_start (pu_at p)) (findSchemeURLs s))"
    using findSchemeURLs_ranges [of s] by (simp add: sorted_map)
  then show ?thesis by (simp add: findPlainURLs_def Let_def)
qed

end
