(* ===== verification/Otp.thy ===== *)
theory Otp
  imports PlainUrls
begin

text \<open>
  One-time codes: \<^verbatim>\<open>internal/extract/otp.go\<close>. Candidates are the runs of four to eight
  digits that stand alone and outside every URL, ranked by how close a keyword is.
\<close>

section \<open>Keywords and weights\<close>

definition otpContextWords :: "string list" where
  "otpContextWords =
     [''code'', ''codes'', ''otp'', ''passcode'', ''pin'',
      ''verification'', ''verify'', ''confirmation'', ''confirm'',
      ''one time'', ''one-time'', ''onetime'', ''security'', ''token'',
      ''ma xac thuc'', ''ma xac nhan'', ''ma xac minh'', ''ma otp'',
      ''ma bao mat'', ''ma kich hoat'', ''ma dang nhap'', ''ma pin'',
      ''ma so'', ''xac thuc'', ''xac nhan'']"

definition scoreNear :: int where "scoreNear = 100"
definition scoreMedium :: int where "scoreMedium = 60"
definition scoreFar :: int where "scoreFar = 30"
definition nearWindow :: nat where "nearWindow = 40"
definition mediumWindow :: nat where "mediumWindow = 80"
definition farWindow :: nat where "farWindow = 160"
definition scoreLeadingWord :: int where "scoreLeadingWord = 15"
definition leadingWindow :: nat where "leadingWindow = 24"
definition scoreSixDigits :: int where "scoreSixDigits = 10"
definition scoreEightDigits :: int where "scoreEightDigits = 4"
definition penaltyYear :: int where "penaltyYear = - 120"
definition minOTPLen :: nat where "minOTPLen = 4"
definition maxOTPLen :: nat where "maxOTPLen = 8"

definition maxContextWordLen :: nat where
  "maxContextWordLen = fold (\<lambda>w longest. if longest < length w then length w else longest)
     otpContextWords 0"

lemmas weights = scoreNear_def scoreMedium_def scoreFar_def scoreLeadingWord_def
  scoreSixDigits_def scoreEightDigits_def penaltyYear_def
lemmas windows = nearWindow_def mediumWindow_def farWindow_def leadingWindow_def

section \<open>Digit runs\<close>

definition isASCIIDigit :: "char \<Rightarrow> bool" where
  "isASCIIDigit b \<longleftrightarrow> CHR ''0'' \<le> b \<and> b \<le> CHR ''9''"

definition run_end :: "string \<Rightarrow> nat \<Rightarrow> nat" where
  "run_end s i = i + length (takeWhile isASCIIDigit (drop i s))"

function digit_loop :: "unicode \<Rightarrow> string \<Rightarrow> nat \<Rightarrow> span list" where
  "digit_loop u s i =
     (if length s \<le> i then []
      else if \<not> isASCIIDigit (s ! i) then digit_loop u s (i + snd (DecodeRune (drop i s)))
      else let e = run_end s i
           in (if isWordBoundary u s i e then [\<lparr>sp_start = i, sp_end = e\<rparr>] else []) @
              digit_loop u s e)"
  by pat_completeness auto
termination
proof (relation "measure (\<lambda>(u, s, i). length s - i)", goal_cases)
  case (2 u s i)
  then have "0 < snd (DecodeRune (drop i s))" using DecodeRune_size [of "drop i s"] by simp
  with 2 show ?case by simp
next
  case (3 u s i e)
  then have "takeWhile isASCIIDigit (drop i s) \<noteq> []"
    by (cases "drop i s") (auto simp: hd_drop_conv_nth [symmetric])
  then have "i < e" using 3(3) by (simp add: run_end_def)
  with 3(1) show ?case by simp
qed simp

declare digit_loop.simps [simp del]

definition digitRuns :: "unicode \<Rightarrow> string \<Rightarrow> span list" where
  "digitRuns u s = digit_loop u s 0"

section \<open>Scores\<close>

definition digit_value :: "char \<Rightarrow> nat" where "digit_value c = of_char c - 48"

text \<open>\<^verbatim>\<open>strconv.Atoi\<close> on a short run of digits.\<close>

definition looksLikeYear :: "string \<Rightarrow> bool" where
  "looksLikeYear code \<longleftrightarrow>
     length code = 4 \<and> list_all isASCIIDigit code \<and>
     (let n = foldl (\<lambda>n c. 10 * n + digit_value c) 0 code in 1900 \<le> n \<and> n \<le> 2099)"

text \<open>
  The loop over the words near a candidate: the distance of the nearest one and whether one
  stands right in front. \<open>None\<close> is the \<^verbatim>\<open>-1\<close> of the source.
\<close>

definition distance :: "span \<Rightarrow> span \<Rightarrow> nat" where
  "distance d w =
     (if sp_end w \<le> sp_start d then sp_start d - sp_end w
      else if sp_end d \<le> sp_start w then sp_start w - sp_end d
      else 0)"

definition leads :: "span \<Rightarrow> span \<Rightarrow> bool" where
  "leads d w \<longleftrightarrow> sp_end w \<le> sp_start d \<and> sp_start d - sp_end w \<le> leadingWindow"

definition nearer :: "span \<Rightarrow> span \<Rightarrow> nat option \<Rightarrow> nat option" where
  "nearer d w nearest =
     (case nearest of None \<Rightarrow> Some (distance d w)
      | Some n \<Rightarrow> Some (if distance d w < n then distance d w else n))"

fun near_loop :: "span \<Rightarrow> nat \<Rightarrow> span list \<Rightarrow> nat option \<Rightarrow> bool \<Rightarrow> nat option \<times> bool" where
  "near_loop d limit [] nearest leading = (nearest, leading)"
| "near_loop d limit (w # ws) nearest leading =
     (if limit < sp_start w then (nearest, leading)
      else near_loop d limit ws (nearer d w nearest) (leading \<or> leads d w))"

definition proximity :: "nat option \<Rightarrow> int" where
  "proximity nearest =
     (case nearest of None \<Rightarrow> 0
      | Some n \<Rightarrow> if n \<le> nearWindow then scoreNear else if n \<le> mediumWindow then scoreMedium
                  else if n \<le> farWindow then scoreFar else 0)"

definition score_of :: "string \<Rightarrow> nat option \<Rightarrow> bool \<Rightarrow> int" where
  "score_of code nearest leading =
     proximity nearest + (if leading then scoreLeadingWord else 0) +
     (if length code = 6 then scoreSixDigits else if length code = 8 then scoreEightDigits else 0) +
     (if looksLikeYear code then penaltyYear else 0)"

definition scoreCandidate :: "string \<Rightarrow> span \<Rightarrow> span list \<Rightarrow> int" where
  "scoreCandidate code d words =
     (let beg = sort_Search (length words)
                  (\<lambda>i. int (sp_start d) - int farWindow - int maxContextWordLen
                         \<le> int (sp_start (words ! i)))
      in case near_loop d (sp_end d + farWindow) (drop beg words) None False of
           (nearest, leading) \<Rightarrow> score_of code nearest leading)"

section \<open>Candidates\<close>

record otp_candidate =
  oc_code :: string
  oc_pos :: nat
  oc_score :: int

text \<open>The removal of repeated codes, which keeps the first, better placed one.\<close>

fun first_of_each :: "string list \<Rightarrow> otp_candidate list \<Rightarrow> otp_candidate list" where
  "first_of_each seen [] = []"
| "first_of_each seen (c # cs) =
     (if oc_code c \<in> set seen then first_of_each seen cs
      else c # first_of_each (oc_code c # seen) cs)"

definition urlSpans :: "unicode \<Rightarrow> string \<Rightarrow> span list" where
  "urlSpans u folded = map pu_at (findPlainURLs u folded)"

definition candidate_at :: "string \<Rightarrow> span list \<Rightarrow> span \<Rightarrow> otp_candidate" where
  "candidate_at folded words d =
     (let code = slice folded (sp_start d) (sp_end d)
      in \<lparr>oc_code = code, oc_pos = sp_start d, oc_score = scoreCandidate code d words\<rparr>)"

definition eligible :: "string \<Rightarrow> span list \<Rightarrow> span \<Rightarrow> bool" where
  "eligible folded exclude d \<longleftrightarrow>
     \<not> length (slice folded (sp_start d) (sp_end d)) < minOTPLen \<and>
     \<not> maxOTPLen < length (slice folded (sp_start d) (sp_end d)) \<and>
     \<not> inSpans exclude d"

definition otpCandidates :: "unicode \<Rightarrow> string \<Rightarrow> span list \<Rightarrow> otp_candidate list" where
  "otpCandidates u folded exclude =
     (let words = sort_key sp_start (findWords u folded otpContextWords);
          merged = mergeSpans exclude;
          found = map (candidate_at folded words)
                    (filter (eligible folded merged) (digitRuns u folded))
      in first_of_each [] (sort_key (\<lambda>c. (- oc_score c, oc_pos c)) found))"


section \<open>Digit runs are the maximal ones\<close>

lemma DecodeRune_tail:
  assumes "0 < k" and "k < snd (DecodeRune s)"
  shows "\<not> isASCIIDigit (s ! k)"
proof -
  have big: "\<not> isASCIIDigit c" if "128 \<le> (of_char c :: nat)" for c
    using that by (auto simp: isASCIIDigit_def less_eq_char_def)
  obtain c cs where s: "s = c # cs" using assms by (cases s) (auto simp: DecodeRune_def)
  show ?thesis
  proof (cases "of_char c < (128::nat) \<or> utf8_first (of_char c) = None \<or> cs = []")
    case True
    then have "snd (DecodeRune s) \<le> 1"
      by (cases "utf8_first (of_char c)") (auto simp: s DecodeRune_def split: prod.splits)
    then show ?thesis using assms by simp
  next
    case False
    then obtain sz lo hi c1 cs1 where p: "utf8_first (of_char c) = Some (sz, lo, hi)"
      "cs = c1 # cs1" by (auto simp: neq_Nil_conv)
    then have "128 \<le> lo" by (auto simp: utf8_first_def split: if_splits)
    have sz: "sz = 2 \<or> sz = 3 \<or> sz = 4" using p(1) by (auto simp: utf8_first_def split: if_splits)
    have "128 \<le> (of_char (s ! k) :: nat)"
    proof -
      consider "k = 1" | "k = 2" | "k = 3" | "4 \<le> k" using assms(1) by linarith
      then show ?thesis
        using assms False p \<open>128 \<le> lo\<close> sz
        by cases (cases cs1; auto simp: s DecodeRune_def Let_def cont_def numeral_2_eq_2
            numeral_3_eq_3 split: if_split_asm)+
    qed
    then show ?thesis by (rule big)
  qed
qed

definition maximal_run :: "string \<Rightarrow> nat \<Rightarrow> nat \<Rightarrow> bool" where
  "maximal_run s a b \<longleftrightarrow>
     a < b \<and> b \<le> length s \<and> (\<forall>k\<in>{a..<b}. isASCIIDigit (s ! k)) \<and>
     (0 < a \<longrightarrow> \<not> isASCIIDigit (s ! (a - 1))) \<and> (b < length s \<longrightarrow> \<not> isASCIIDigit (s ! b))"

lemma run_end_maximal:
  assumes "i < length s" and "isASCIIDigit (s ! i)"
  shows "i < run_end s i" and "run_end s i \<le> length s"
    and "\<And>k. i \<le> k \<Longrightarrow> k < run_end s i \<Longrightarrow> isASCIIDigit (s ! k)"
    and "run_end s i < length s \<Longrightarrow> \<not> isASCIIDigit (s ! run_end s i)"
proof -
  let ?t = "takeWhile isASCIIDigit (drop i s)"
  show "i < run_end s i"
    using assms by (cases "drop i s") (auto simp: run_end_def hd_drop_conv_nth [symmetric])
  show "run_end s i \<le> length s"
    using length_takeWhile_le [of isASCIIDigit "drop i s"] assms(1) by (simp add: run_end_def)
  show "isASCIIDigit (s ! k)" if "i \<le> k" "k < run_end s i" for k
  proof -
    from that have n: "k - i < length ?t" by (simp add: run_end_def)
    then have "?t ! (k - i) = s ! k" using assms(1) that(1) by (simp add: takeWhile_nth)
    with n show ?thesis by (metis nth_mem set_takeWhileD)
  qed
  show "run_end s i < length s \<Longrightarrow> \<not> isASCIIDigit (s ! run_end s i)"
    using nth_length_takeWhile [of isASCIIDigit "drop i s"] by (simp add: run_end_def)
qed

lemma digit_loop_set:
  "(0 < i \<and> i < length s \<longrightarrow> \<not> (isASCIIDigit (s ! (i - 1)) \<and> isASCIIDigit (s ! i))) \<Longrightarrow>
   set (digit_loop u s i) =
     {\<lparr>sp_start = a, sp_end = b\<rparr> |a b. i \<le> a \<and> maximal_run s a b \<and> isWordBoundary u s a b}"
proof (induction u s i rule: digit_loop.induct)
  case (1 u s i)
  show ?case
  proof (cases "length s \<le> i")
    case True
    then show ?thesis by (subst digit_loop.simps) (auto simp: maximal_run_def)
  next
    case inside: False
    show ?thesis
    proof (cases "isASCIIDigit (s ! i)")
      case False
      let ?n = "snd (DecodeRune (drop i s))"
      have n: "0 < ?n" "?n \<le> length s - i" using DecodeRune_size [of "drop i s"] inside by simp_all
      have none: "\<not> isASCIIDigit (s ! k)" if "i \<le> k" "k < i + ?n" for k
        using that False DecodeRune_tail [of "k - i" "drop i s"] inside by (cases "k = i") auto
      have "set (digit_loop u s (i + ?n)) =
          {\<lparr>sp_start = a, sp_end = b\<rparr> |a b. i + ?n \<le> a \<and> maximal_run s a b \<and> isWordBoundary u s a b}"
        using none [of "i + ?n - 1"] n(1) by (intro 1(1) [OF inside False]) auto
      moreover have "i + ?n \<le> a" if "i \<le> a" "maximal_run s a b" for a b
        using that none [of a] by (force simp: maximal_run_def)
      moreover have "digit_loop u s i = digit_loop u s (i + ?n)"
        by (subst digit_loop.simps) (simp add: inside [simplified] False)
      ultimately show ?thesis by auto
    next
      case True
      let ?e = "run_end s i"
      note e = run_end_maximal [OF _ True] 
      have e1: "i < ?e" "?e \<le> length s" "?e < length s \<Longrightarrow> \<not> isASCIIDigit (s ! ?e)"
        "\<And>k. i \<le> k \<Longrightarrow> k < ?e \<Longrightarrow> isASCIIDigit (s ! k)"
        using e inside by auto
      have first: "maximal_run s i ?e" using 1(3) e1 True inside by (auto simp: maximal_run_def)
      have only: "a = i \<and> b = ?e \<or> ?e \<le> a" if "i \<le> a" "maximal_run s a b" for a b
      proof (cases "a < ?e")
        case below: True
        have "a = i"
        proof (rule ccontr)
          assume "a \<noteq> i"
          then have "isASCIIDigit (s ! (a - 1))" using that(1) below e1(4) [of "a - 1"] by simp
          with \<open>a \<noteq> i\<close> that show False by (simp add: maximal_run_def)
        qed
        moreover have "b = ?e"
        proof (rule linorder_cases)
          assume "b < ?e"
          then show ?thesis using that e1(2) e1(4) [of b] by (simp add: maximal_run_def)
        next
          assume "?e < b"
          then show ?thesis using that e1(3) below by (auto simp: maximal_run_def)
        qed simp
        ultimately show ?thesis by simp
      qed simp
      have "set (digit_loop u s ?e) =
          {\<lparr>sp_start = a, sp_end = b\<rparr> |a b. ?e \<le> a \<and> maximal_run s a b \<and> isWordBoundary u s a b}"
        using e1 by (intro 1(2) [OF inside _ refl]) (auto simp: True)
      moreover have "digit_loop u s i = (if isWordBoundary u s i ?e
          then [\<lparr>sp_start = i, sp_end = ?e\<rparr>] else []) @ digit_loop u s ?e"
        by (subst digit_loop.simps) (simp add: inside [simplified] True Let_def)
      ultimately show ?thesis
        using first e1(1) by (auto dest: only)
    qed
  qed
qed

lemma digitRuns_set:
  "set (digitRuns u s) =
     {\<lparr>sp_start = a, sp_end = b\<rparr> |a b. maximal_run s a b \<and> isWordBoundary u s a b}"
  using digit_loop_set [where i = 0] by (simp add: digitRuns_def)


section \<open>Scoring only the neighbourhood\<close>

text \<open>
  The reference: every keyword of the message is looked at, and only its distance counts.
\<close>

definition within :: "span \<Rightarrow> span list \<Rightarrow> nat \<Rightarrow> bool" where
  "within d words t \<longleftrightarrow> (\<exists>w\<in>set words. distance d w \<le> t)"

definition score_reference :: "string \<Rightarrow> span \<Rightarrow> span list \<Rightarrow> int" where
  "score_reference code d words =
     (if within d words nearWindow then scoreNear
      else if within d words mediumWindow then scoreMedium
      else if within d words farWindow then scoreFar else 0) +
     (if \<exists>w\<in>set words. leads d w then scoreLeadingWord else 0) +
     (if length code = 6 then scoreSixDigits else if length code = 8 then scoreEightDigits else 0) +
     (if looksLikeYear code then penaltyYear else 0)"

definition at_most :: "nat option \<Rightarrow> nat \<Rightarrow> bool" where
  "at_most n t \<longleftrightarrow> (case n of None \<Rightarrow> False | Some m \<Rightarrow> m \<le> t)"

lemma proximity_at_most:
  "proximity n = (if at_most n nearWindow then scoreNear
      else if at_most n mediumWindow then scoreMedium
      else if at_most n farWindow then scoreFar else 0)"
  by (simp add: proximity_def at_most_def split: option.split)

lemma within_simps [simp]:
  "\<not> within d [] t"
  "within d (w # ws) t \<longleftrightarrow> distance d w \<le> t \<or> within d ws t"
  "within d (ws @ vs) t \<longleftrightarrow> within d ws t \<or> within d vs t"
  by (auto simp: within_def)

lemma at_most_nearer [simp]: "at_most (nearer d w n) t \<longleftrightarrow> at_most n t \<or> distance d w \<le> t"
  by (auto simp: at_most_def nearer_def split: option.split)

lemma near_loop_nearest:
  "near_loop d limit ws n l = (n', l') \<Longrightarrow>
     at_most n' t \<longleftrightarrow> at_most n t \<or> within d (takeWhile (\<lambda>w. sp_start w \<le> limit) ws) t"
proof (induction ws arbitrary: n l)
  case (Cons w ws)
  then show ?case
    using Cons.IH [of "nearer d w n" "l \<or> leads d w"] by (auto split: if_split_asm)
qed simp

lemma near_loop_leading:
  "near_loop d limit ws n l = (n', l') \<Longrightarrow>
     l' \<longleftrightarrow> l \<or> (\<exists>w\<in>set (takeWhile (\<lambda>w. sp_start w \<le> limit) ws). leads d w)"
proof (induction ws arbitrary: n l)
  case (Cons w ws)
  then show ?case
    using Cons.IH [of "nearer d w n" "l \<or> leads d w"] by (auto split: if_split_asm)
qed simp

lemma scoreCandidate_reference:
  assumes "sorted (map sp_start words)"
    and "\<forall>w\<in>set words. sp_start w \<le> sp_end w \<and> sp_end w \<le> sp_start w + maxContextWordLen"
    and "sp_start d \<le> sp_end d"
  shows "scoreCandidate code d words = score_reference code d words"
proof -
  let ?f = "\<lambda>i. int (sp_start d) - int farWindow - int maxContextWordLen
                         \<le> int (sp_start (words ! i))"
  let ?beg = "sort_Search (length words) ?f" and ?limit = "sp_end d + farWindow"
  let ?near = "takeWhile (\<lambda>w. sp_start w \<le> ?limit) (drop ?beg words)"
  have mono: "?f b" if "a \<le> b" "b < length words" "?f a" for a b
  proof -
    have "sp_start (words ! a) \<le> sp_start (words ! b)"
      using sorted_nth_mono [OF assms(1), of a b] that by simp
    with that(3) show ?thesis by simp
  qed
  have left: "farWindow < distance d w \<and> \<not> leads d w" if "w \<in> set (take ?beg words)" for w
  proof -
    from that obtain k where k: "k < ?beg" "k < length words" "w = words ! k"
      by (auto simp: in_set_conv_nth)
    have "\<not> ?f k" by (rule sort_Search_spec(2) [OF _ k(1)]) (rule mono)
    then have "sp_start w + maxContextWordLen + farWindow < sp_start d" using k(3) by simp
    moreover have "sp_end w \<le> sp_start w + maxContextWordLen" using assms(2) k(2,3) by simp
    ultimately show ?thesis by (auto simp: distance_def leads_def windows)
  qed
  let ?far = "dropWhile (\<lambda>w. sp_start w \<le> ?limit) (drop ?beg words)"
  have right: "farWindow < distance d w \<and> \<not> leads d w" if w: "w \<in> set ?far" for w
  proof -
    obtain v vs where v: "?far = v # vs" using w by (cases ?far) auto
    have "\<not> sp_start v \<le> ?limit" using hd_dropWhile [of "\<lambda>w. sp_start w \<le> ?limit" "drop ?beg words"] v
      by (metis list.distinct(1) list.sel(1))
    moreover have "sorted (map sp_start ?far)"
      using assms(1) unfolding sorted_map by (metis dropWhile_eq_drop sorted_wrt_drop)
    then have "sp_start v \<le> sp_start w" using w unfolding v by auto
    ultimately have "sp_end d + farWindow < sp_start w" by simp
    moreover have "sp_start w \<le> sp_end w"
      using w assms(2) by (meson in_set_dropD set_dropWhileD)
    ultimately show ?thesis using assms(3) by (auto simp: distance_def leads_def)
  qed
  have words: "words = take ?beg words @ ?near @ ?far" by simp
  obtain n l where nl: "near_loop d ?limit (drop ?beg words) None False = (n, l)"
    by (metis surj_pair)
  have near: "at_most n t \<longleftrightarrow> within d words t" if "t \<le> farWindow" for t
  proof -
    have "\<not> within d (take ?beg words) t" "\<not> within d ?far t"
      using left right that by (fastforce simp: within_def)+
    moreover have "within d words t \<longleftrightarrow> within d (take ?beg words) t \<or> within d ?near t \<or> within d ?far t"
      by (subst words) (simp only: within_simps(3))
    ultimately show ?thesis
      using near_loop_nearest [OF nl, of t] by (simp add: at_most_def)
  qed
  have lead: "l \<longleftrightarrow> (\<exists>w\<in>set words. leads d w)"
  proof -
    have "(\<exists>w\<in>set words. leads d w) \<longleftrightarrow> (\<exists>w\<in>set ?near. leads d w)"
      using left right arg_cong [OF words, of set] by (metis UnE UnI1 UnI2 set_append)
    then show ?thesis using near_loop_leading [OF nl] by simp
  qed
  have le: "nearWindow \<le> farWindow" "mediumWindow \<le> farWindow" by (simp_all add: windows)
  have "scoreCandidate code d words = score_of code n l"
    by (simp add: scoreCandidate_def Let_def nl)
  then show ?thesis
    by (simp add: score_of_def score_reference_def proximity_at_most near le lead)
qed


section \<open>What is a candidate\<close>

lemma context_words: "\<forall>w\<in>set otpContextWords. length w \<le> maxContextWordLen"
  by code_simp

definition words_in :: "unicode \<Rightarrow> string \<Rightarrow> span list" where
  "words_in u folded = sort_key sp_start (findWords u folded otpContextWords)"

lemma words_in_ok:
  "sorted (map sp_start (words_in u folded))"
  "\<forall>w\<in>set (words_in u folded). sp_start w \<le> sp_end w \<and> sp_end w \<le> sp_start w + maxContextWordLen"
proof -
  have "sp_start w \<le> sp_end w \<and> sp_end w \<le> sp_start w + maxContextWordLen"
    if w: "w \<in> set (findWords u folded otpContextWords)" for w
  proof -
    obtain x where x: "x \<in> set otpContextWords" "w \<in> set (find_word u folded x 0)"
      using w by (auto simp: findWords_def)
    then show ?thesis using find_word_span [OF x(2)] context_words by auto
  qed
  then show "sorted (map sp_start (words_in u folded))"
    "\<forall>w\<in>set (words_in u folded). sp_start w \<le> sp_end w \<and> sp_end w \<le> sp_start w + maxContextWordLen"
    by (simp_all add: words_in_def)
qed

lemma first_of_each_subset: "set (first_of_each seen cs) \<subseteq> {c \<in> set cs. oc_code c \<notin> set seen}"
  by (induction seen cs rule: first_of_each.induct) auto

lemma first_of_each_distinct: "distinct (map oc_code (first_of_each seen cs))"
proof (induction seen cs rule: first_of_each.induct)
  case (2 seen c cs)
  then show ?case using first_of_each_subset [of "oc_code c # seen" cs] by auto
qed simp

lemma first_of_each_sorted: "sorted_wrt R cs \<Longrightarrow> sorted_wrt R (first_of_each seen cs)"
proof (induction seen cs rule: first_of_each.induct)
  case (2 seen c cs)
  then show ?case using first_of_each_subset [of "oc_code c # seen" cs] by auto
qed simp

lemma first_of_each_keeps:
  assumes "sorted_wrt R cs" and "c \<in> set cs" and "oc_code c \<notin> set seen"
  shows "\<exists>b\<in>set (first_of_each seen cs). oc_code b = oc_code c \<and> (b = c \<or> R b c)"
  using assms
proof (induction seen cs rule: first_of_each.induct)
  case (2 seen b cs)
  then show ?case by (cases "oc_code b \<in> set seen"; cases "oc_code c = oc_code b") auto
qed simp

text \<open>A digit run that may be a code: four to eight digits and no position inside a URL.\<close>

definition standalone_code :: "unicode \<Rightarrow> string \<Rightarrow> span list \<Rightarrow> nat \<Rightarrow> nat \<Rightarrow> bool" where
  "standalone_code u folded exclude a b \<longleftrightarrow>
     maximal_run folded a b \<and> isWordBoundary u folded a b \<and> 4 \<le> b - a \<and> b - a \<le> 8 \<and>
     (\<forall>x\<in>{a..<b}. \<not> covered exclude x)"

lemma merge_loop_nonempty:
  "sp_start cur < sp_end cur \<Longrightarrow> \<forall>r\<in>set ss. sp_start r < sp_end r \<Longrightarrow>
     \<forall>r\<in>set (merge_loop cur ss). sp_start r < sp_end r"
  by (induction cur ss rule: merge_loop.induct) auto

lemma mergeSpans_nonempty:
  assumes "\<forall>r\<in>set ss. sp_start r < sp_end r"
  shows "\<forall>r\<in>set (mergeSpans ss). sp_start r < sp_end r"
proof (cases "sort_key span_key ss")
  case (Cons s rest)
  then have "\<forall>r\<in>set (s # rest). sp_start r < sp_end r" using assms by (metis set_sort)
  then show ?thesis using Cons assms merge_loop_nonempty [of s rest] by (auto simp: mergeSpans_def)
qed (use assms in \<open>simp add: mergeSpans_def\<close>)

lemma inSpans_covered:
  assumes "\<forall>r\<in>set exclude. sp_start r < sp_end r" and "a < b"
  shows "inSpans (mergeSpans exclude) \<lparr>sp_start = a, sp_end = b\<rparr> \<longleftrightarrow>
     (\<exists>x\<in>{a..<b}. covered exclude x)"
proof -
  have le: "\<forall>r\<in>set exclude. sp_start r \<le> sp_end r" using assms(1) by (auto simp: less_imp_le)
  note m = mergeSpans_correct [OF le]
  have "inSpans (mergeSpans exclude) \<lparr>sp_start = a, sp_end = b\<rparr> \<longleftrightarrow>
      (\<exists>r\<in>set (mergeSpans exclude). a < sp_end r \<and> sp_start r < b)"
    by (simp add: inSpans_iff [OF m(1)] list_ex_iff)
  also have "\<dots> \<longleftrightarrow> (\<exists>x\<in>{a..<b}. covered (mergeSpans exclude) x)"
  proof
    assume "\<exists>r\<in>set (mergeSpans exclude). a < sp_end r \<and> sp_start r < b"
    then obtain r where r: "r \<in> set (mergeSpans exclude)" "a < sp_end r" "sp_start r < b" by blast
    then have "max a (sp_start r) \<in> {a..<b}" "in_span (max a (sp_start r)) r"
      using mergeSpans_nonempty [OF assms(1)] assms(2) by (auto simp: in_span_def)
    with r(1) show "\<exists>x\<in>{a..<b}. covered (mergeSpans exclude) x"
      by (auto simp: covered_def list_ex_iff)
  next
    assume "\<exists>x\<in>{a..<b}. covered (mergeSpans exclude) x"
    then obtain x r where "a \<le> x" "x < b" "r \<in> set (mergeSpans exclude)" "in_span x r"
      by (auto simp: covered_def list_ex_iff)
    then show "\<exists>r\<in>set (mergeSpans exclude). a < sp_end r \<and> sp_start r < b"
      by (intro bexI [of _ r]) (auto simp: in_span_def)
  qed
  finally show ?thesis using m(2) by simp
qed

lemma eligible_runs:
  assumes "\<forall>r\<in>set exclude. sp_start r < sp_end r"
  shows "set (filter (eligible folded (mergeSpans exclude)) (digitRuns u folded)) =
     {\<lparr>sp_start = a, sp_end = b\<rparr> |a b. standalone_code u folded exclude a b}"
proof -
  have "eligible folded (mergeSpans exclude) \<lparr>sp_start = a, sp_end = b\<rparr> \<longleftrightarrow>
      4 \<le> b - a \<and> b - a \<le> 8 \<and> (\<forall>x\<in>{a..<b}. \<not> covered exclude x)"
    if "maximal_run folded a b" for a b
  proof -
    from that have "a < b" "length (slice folded a b) = b - a"
      by (simp_all add: maximal_run_def length_slice)
    then show ?thesis
      by (auto simp: eligible_def inSpans_covered [OF assms] minOTPLen_def maxOTPLen_def)
  qed
  then show ?thesis by (auto simp: digitRuns_set standalone_code_def)
qed

text \<open>What \<^verbatim>\<open>otpCandidates\<close> returns, in terms of the runs and the reference score.\<close>

definition code_at :: "string \<Rightarrow> nat \<Rightarrow> nat \<Rightarrow> string" where
  "code_at folded a b = slice folded a b"

definition score_at :: "unicode \<Rightarrow> string \<Rightarrow> nat \<Rightarrow> nat \<Rightarrow> int" where
  "score_at u folded a b =
     score_reference (slice folded a b) \<lparr>sp_start = a, sp_end = b\<rparr> (words_in u folded)"

definition better :: "otp_candidate \<Rightarrow> otp_candidate \<Rightarrow> bool" where
  "better b c \<longleftrightarrow> oc_score c < oc_score b \<or> (oc_score b = oc_score c \<and> oc_pos b \<le> oc_pos c)"

lemma otpCandidates_spec:
  assumes "\<forall>r\<in>set exclude. sp_start r < sp_end r"
  shows "c \<in> set (otpCandidates u folded exclude) \<Longrightarrow>
      \<exists>a b. standalone_code u folded exclude a b \<and>
        c = \<lparr>oc_code = slice folded a b, oc_pos = a, oc_score = score_at u folded a b\<rparr>"
    and "standalone_code u folded exclude a b \<Longrightarrow>
      \<exists>c\<in>set (otpCandidates u folded exclude). oc_code c = slice folded a b \<and>
        better c \<lparr>oc_code = slice folded a b, oc_pos = a, oc_score = score_at u folded a b\<rparr>"
    and "distinct (map oc_code (otpCandidates u folded exclude))"
    and "sorted_wrt better (otpCandidates u folded exclude)"
proof -
  let ?runs = "filter (eligible folded (mergeSpans exclude)) (digitRuns u folded)"
  let ?found = "map (candidate_at folded (words_in u folded)) ?runs"
  let ?sorted = "sort_key (\<lambda>c. (- oc_score c, oc_pos c)) ?found"
  have out: "otpCandidates u folded exclude = first_of_each [] ?sorted"
    by (simp add: otpCandidates_def words_in_def Let_def)
  have cand: "candidate_at folded (words_in u folded) \<lparr>sp_start = a, sp_end = b\<rparr> =
      \<lparr>oc_code = slice folded a b, oc_pos = a, oc_score = score_at u folded a b\<rparr>"
    if "standalone_code u folded exclude a b" for a b
    using that words_in_ok
    by (simp add: candidate_at_def Let_def score_at_def scoreCandidate_reference
        standalone_code_def maximal_run_def)
  have "sorted (map (\<lambda>c. (- oc_score c, oc_pos c)) ?sorted)" by simp
  then have sorted: "sorted_wrt better ?sorted"
    unfolding sorted_map by (rule sorted_wrt_mono_rel [rotated]) (auto simp: better_def)
  have set: "set ?sorted = candidate_at folded (words_in u folded) ` set ?runs" by simp
  show "\<exists>a b. standalone_code u folded exclude a b \<and>
        c = \<lparr>oc_code = slice folded a b, oc_pos = a, oc_score = score_at u folded a b\<rparr>"
    if "c \<in> set (otpCandidates u folded exclude)"
  proof -
    have "c \<in> candidate_at folded (words_in u folded) ` set ?runs"
      using that first_of_each_subset [of "[]" ?sorted] unfolding out set by blast
    then show ?thesis unfolding eligible_runs [OF assms] using cand by blast
  qed
  show "\<exists>c\<in>set (otpCandidates u folded exclude). oc_code c = slice folded a b \<and>
        better c \<lparr>oc_code = slice folded a b, oc_pos = a, oc_score = score_at u folded a b\<rparr>"
    if code: "standalone_code u folded exclude a b"
  proof -
    have "\<lparr>oc_code = slice folded a b, oc_pos = a, oc_score = score_at u folded a b\<rparr> \<in> set ?sorted"
      unfolding set eligible_runs [OF assms] cand [OF code, symmetric] using code by blast
    from first_of_each_keeps [OF sorted this, of "[]"] show ?thesis
      unfolding out by (auto simp: better_def)
  qed
  show "distinct (map oc_code (otpCandidates u folded exclude))"
    unfolding out by (rule first_of_each_distinct)
  show "sorted_wrt better (otpCandidates u folded exclude)"
    unfolding out by (rule first_of_each_sorted [OF sorted])
qed

text \<open>A year is never worth choosing.\<close>

lemma year_score: "looksLikeYear code \<Longrightarrow> score_reference code d words < 0"
  by (auto simp: score_reference_def looksLikeYear_def weights)

end
