(* ===== verification/Links.thy ===== *)
theory Links
  imports PlainUrls
begin

text \<open>
  Links: \<^verbatim>\<open>internal/extract/links.go\<close>. The HTML tokenizer (\<^verbatim>\<open>golang.org/x/net/html\<close>)
  is an argument, a list of tokens, and so is what \<^verbatim>\<open>url.Parse\<close> says of a URL: its scheme
  and host, or nothing when it does not parse.
\<close>

section \<open>What a link is for\<close>

definition magicStrongWords :: "string list" where
  "magicStrongWords = [''passwordless'', ''magiclink'', ''magic-link'', ''magic_link'',
     ''magic link'', ''one-click'', ''otl'']"
definition resetStrongWords :: "string list" where
  "resetStrongWords = [''reset'', ''recover'', ''forgot'', ''khoi phuc'', ''dat lai'',
     ''quen mat khau'', ''doi mat khau'']"
definition verifyWords :: "string list" where
  "verifyWords = [''verify'', ''verification'', ''verif'', ''confirm'', ''activate'',
     ''activation'', ''xac thuc'', ''xac nhan'', ''xac minh'', ''kich hoat'']"
definition magicWeakWords :: "string list" where
  "magicWeakWords = [''signin'', ''sign-in'', ''sign_in'', ''sign in'', ''login'', ''log-in'',
     ''log_in'', ''dang nhap'']"
definition resetWeakWords :: "string list" where
  "resetWeakWords = [''password'', ''mat khau'']"

definition classify :: "unicode \<Rightarrow> string \<Rightarrow> string \<Rightarrow> link_kind" where
  "classify u rawURL anchor =
     (let hay = fold_text u rawURL @ '' '' @ fold_text u anchor
      in if containsAny hay magicStrongWords then KindMagic
         else if containsAny hay resetStrongWords then KindReset
         else if containsAny hay verifyWords then KindVerify
         else if containsAny hay magicWeakWords then KindMagic
         else if containsAny hay resetWeakWords then KindReset
         else KindOther)"

text \<open>
  \<^verbatim>\<open>strings.ToLower\<close> of a scheme is compared with two ASCII words no other rune lowers
  into, so the ASCII lower case decides the same.
\<close>

definition actionable :: "(string \<Rightarrow> (string \<times> string) option) \<Rightarrow> string \<Rightarrow> bool" where
  "actionable url_parse rawURL =
     (case url_parse rawURL of
        None \<Rightarrow> False
      | Some (scheme, host) \<Rightarrow>
          if asciiLower scheme \<noteq> ''http'' \<and> asciiLower scheme \<noteq> ''https'' then False
          else host \<noteq> [])"

section \<open>The line around a URL\<close>

definition newline :: char where "newline = CHR 0x0A"

definition newLineIndex :: "string \<Rightarrow> nat list" where
  "newLineIndex s = filter (\<lambda>i. s ! i = newline) [0..<length s]"

definition SearchInts :: "nat list \<Rightarrow> nat \<Rightarrow> nat" where
  "SearchInts idx x = sort_Search (length idx) (\<lambda>i. x \<le> idx ! i)"

definition contextWindow :: nat where "contextWindow = 120"

definition line_start :: "nat list \<Rightarrow> nat \<Rightarrow> nat" where
  "line_start idx pos = (let i = SearchInts idx pos in if 0 < i then idx ! (i - 1) + 1 else 0)"

definition line_end :: "nat list \<Rightarrow> string \<Rightarrow> nat \<Rightarrow> nat" where
  "line_end idx s pos =
     (let j = SearchInts idx pos in if j < length idx then idx ! j else length s)"

text \<open>The two loops that keep a clipped window from starting or ending inside a rune.\<close>

definition clip_start :: "string \<Rightarrow> nat \<Rightarrow> nat \<Rightarrow> nat" where
  "clip_start s pos start =
     (if contextWindow < pos - start
      then let k = pos - contextWindow
           in k + length (takeWhile (\<lambda>b. \<not> RuneStart b) (slice s k pos))
      else start)"

definition clip_end :: "string \<Rightarrow> nat \<Rightarrow> nat \<Rightarrow> nat" where
  "clip_end s pos end' =
     (if contextWindow < end' - pos
      then let k = pos + contextWindow
           in k - length (takeWhile (\<lambda>b. \<not> RuneStart b) (rev (slice s (Suc pos) (Suc k))))
      else end')"

definition around :: "nat list \<Rightarrow> string \<Rightarrow> span \<Rightarrow> string" where
  "around idx s at =
     slice s (clip_start s (sp_start at) (line_start idx (sp_start at)))
             (clip_end s (sp_end at) (line_end idx s (sp_end at)))"

section \<open>Collecting links\<close>

record raw_link =
  rl_url :: string
  rl_anchor :: string

definition add_link ::
  "unicode \<Rightarrow> (string \<Rightarrow> (string \<times> string) option) \<Rightarrow> raw_link \<Rightarrow>
     link list \<times> (string \<Rightarrow> nat option) \<Rightarrow> link list \<times> (string \<Rightarrow> nat option)" where
  "add_link u url_parse raw = (\<lambda>(links, index).
     if rl_url raw = [] then (links, index)
     else let kind = classify u (rl_url raw) (rl_anchor raw)
          in case index (rl_url raw) of
               Some at \<Rightarrow>
                 (if lk_kind (links ! at) = KindOther \<and> kind \<noteq> KindOther
                  then links[at := (links ! at)\<lparr>lk_kind := kind\<rparr>] else links, index)
             | None \<Rightarrow>
                 (links @ [\<lparr>lk_url = rl_url raw, lk_kind = kind,
                            lk_actionable = actionable url_parse (rl_url raw)\<rparr>],
                  index(rl_url raw \<mapsto> length links)))"

definition plain_links :: "unicode \<Rightarrow> string \<Rightarrow> raw_link list" where
  "plain_links u plain =
     (let lines = newLineIndex plain
      in map (\<lambda>p. \<lparr>rl_url = pu_url p, rl_anchor = around lines plain (pu_at p)\<rparr>)
           (findPlainURLs u plain))"

definition collectLinks ::
  "unicode \<Rightarrow> (string \<Rightarrow> (string \<times> string) option) \<Rightarrow> raw_link list \<Rightarrow> string \<Rightarrow> link list" where
  "collectLinks u url_parse hrefs plain =
     fst (fold (add_link u url_parse) (hrefs @ plain_links u plain) ([], \<lambda>url. None))"

section \<open>HTML\<close>

datatype html_token = TextToken string | StartTag string "(string \<times> string) list" | EndTag string
  | OtherToken

definition separatingTags :: "string list" where
  "separatingTags =
     [''address'', ''article'', ''aside'', ''blockquote'', ''body'', ''br'', ''caption'',
      ''center'', ''col'', ''colgroup'', ''dd'', ''details'', ''dialog'', ''dir'', ''div'',
      ''dl'', ''dt'', ''fieldset'', ''figcaption'', ''figure'', ''footer'', ''form'',
      ''frame'', ''frameset'', ''h1'', ''h2'', ''h3'', ''h4'', ''h5'', ''h6'', ''head'',
      ''header'', ''hgroup'', ''hr'', ''html'', ''legend'', ''li'', ''listing'', ''main'',
      ''marquee'', ''menu'', ''nav'', ''ol'', ''optgroup'', ''option'', ''p'', ''plaintext'',
      ''pre'', ''search'', ''section'', ''summary'', ''table'', ''tbody'', ''td'', ''tfoot'',
      ''th'', ''thead'', ''title'', ''tr'', ''ul'', ''xmp'',
      ''audio'', ''button'', ''canvas'', ''embed'', ''iframe'', ''img'', ''input'',
      ''object'', ''picture'', ''select'', ''svg'', ''textarea'', ''video'']"

definition separatesText :: "string \<Rightarrow> bool" where
  "separatesText tag \<longleftrightarrow> tag \<in> set separatingTags"

fun attr :: "(string \<times> string) list \<Rightarrow> string \<Rightarrow> string" where
  "attr [] want = []"
| "attr ((key, val) # rest) want = (if key = want then val else attr rest want)"

record html_scan =
  hs_hrefs :: "raw_link list"
  hs_text :: string
  hs_open :: "(nat \<times> string) option"
  hs_depth :: nat
  hs_break :: bool

definition closeAnchor :: "html_scan \<Rightarrow> html_scan" where
  "closeAnchor h =
     (case hs_open h of
        None \<Rightarrow> h
      | Some (at, anchor) \<Rightarrow>
          h\<lparr>hs_hrefs := (hs_hrefs h)[at := (hs_hrefs h ! at)\<lparr>rl_anchor := anchor\<rparr>],
            hs_open := None\<rparr>)"

definition html_text :: "string \<Rightarrow> html_scan \<Rightarrow> html_scan" where
  "html_text chunk h =
     (if 0 < hs_depth h then h
      else let sep = (if hs_break h \<and> hs_text h \<noteq> [] then [newline] else []);
               gap = (\<lambda>anchor. if hs_break h \<and> anchor \<noteq> [] then '' '' else [])
           in h\<lparr>hs_break := False,
                hs_text := hs_text h @ sep @ chunk,
                hs_open := map_option (\<lambda>(at, anchor). (at, anchor @ gap anchor @ chunk))
                  (hs_open h)\<rparr>)"

definition html_start :: "string \<Rightarrow> (string \<times> string) list \<Rightarrow> html_scan \<Rightarrow> html_scan" where
  "html_start tag attrs h0 =
     (let h = (if separatesText tag then h0\<lparr>hs_break := True\<rparr> else h0);
          href = trim_space (attr attrs ''href'')
      in if tag = ''script'' \<or> tag = ''style'' then h\<lparr>hs_depth := Suc (hs_depth h)\<rparr>
         else if tag = ''a'' then
           (let c = closeAnchor h
            in c\<lparr>hs_open := Some (length (hs_hrefs c), []),
                 hs_hrefs := hs_hrefs c @ [\<lparr>rl_url = href, rl_anchor = []\<rparr>]\<rparr>)
         else if href \<noteq> [] then h\<lparr>hs_hrefs := hs_hrefs h @ [\<lparr>rl_url = href, rl_anchor = []\<rparr>]\<rparr>
         else h)"

definition html_end :: "string \<Rightarrow> html_scan \<Rightarrow> html_scan" where
  "html_end tag h0 =
     (let h = (if separatesText tag then h0\<lparr>hs_break := True\<rparr> else h0)
      in if tag = ''script'' \<or> tag = ''style'' then h\<lparr>hs_depth := hs_depth h - 1\<rparr>
         else if tag = ''a'' then closeAnchor h
         else h)"

definition html_step :: "html_token \<Rightarrow> html_scan \<Rightarrow> html_scan" where
  "html_step t h =
     (case t of TextToken chunk \<Rightarrow> html_text chunk h | StartTag tag attrs \<Rightarrow> html_start tag attrs h
      | EndTag tag \<Rightarrow> html_end tag h | OtherToken \<Rightarrow> h)"

definition html_init :: html_scan where
  "html_init = \<lparr>hs_hrefs = [], hs_text = [], hs_open = None, hs_depth = 0, hs_break = False\<rparr>"

definition scanHTML :: "(string \<Rightarrow> html_token list) \<Rightarrow> string \<Rightarrow> raw_link list \<times> string" where
  "scanHTML tokenize htmlBody =
     (if htmlBody = [] then ([], [])
      else let h = closeAnchor (fold html_step (tokenize htmlBody) html_init)
           in (hs_hrefs h, hs_text h))"

section \<open>Every href is found, in document order\<close>

definition token_href :: "html_token \<Rightarrow> string list" where
  "token_href t =
     (case t of
        StartTag tag attrs \<Rightarrow>
          (let href = trim_space (attr attrs ''href'')
           in if tag = ''script'' \<or> tag = ''style'' then []
              else if tag = ''a'' \<or> href \<noteq> [] then [href] else [])
      | _ \<Rightarrow> [])"

lemma closeAnchor_urls [simp]: "map rl_url (hs_hrefs (closeAnchor h)) = map rl_url (hs_hrefs h)"
proof (cases "hs_open h")
  case (Some p)
  obtain at anchor where p: "p = (at, anchor)" by (cases p)
  have "map rl_url ((hs_hrefs h)[at := (hs_hrefs h ! at)\<lparr>rl_anchor := anchor\<rparr>]) =
      (map rl_url (hs_hrefs h))[at := rl_url (hs_hrefs h ! at)]"
    by (simp add: map_update)
  also have "\<dots> = map rl_url (hs_hrefs h)"
    by (cases "at < length (hs_hrefs h)") (simp_all add: list_update_same_conv list_update_beyond)
  finally show ?thesis by (simp add: closeAnchor_def Some p)
qed (simp add: closeAnchor_def)

lemma html_step_urls:
  "map rl_url (hs_hrefs (html_step t h)) = map rl_url (hs_hrefs h) @ token_href t"
  by (cases t) (auto simp: html_step_def token_href_def html_text_def html_start_def html_end_def
      Let_def)

lemma scan_urls:
  "map rl_url (hs_hrefs (fold html_step ts h)) = map rl_url (hs_hrefs h) @ concat (map token_href ts)"
  by (induction ts arbitrary: h) (simp_all add: html_step_urls)

lemma scanHTML_hrefs:
  "body \<noteq> [] \<Longrightarrow> map rl_url (fst (scanHTML tokenize body)) = concat (map token_href (tokenize body))"
  by (simp add: scanHTML_def Let_def scan_urls html_init_def)

section \<open>Each URL once\<close>

text \<open>The index holds the position of every URL already listed.\<close>

definition index_ok :: "link list \<Rightarrow> (string \<Rightarrow> nat option) \<Rightarrow> bool" where
  "index_ok links index \<longleftrightarrow>
     distinct (map lk_url links) \<and> [] \<notin> lk_url ` set links \<and>
     (\<forall>url at. index url = Some at \<longleftrightarrow> at < length links \<and> lk_url (links ! at) = url)"

text \<open>The kind of a URL: that of its first occurrence that says anything.\<close>

fun first_kind :: "link_kind list \<Rightarrow> link_kind" where
  "first_kind [] = KindOther"
| "first_kind (k # ks) = (if k \<noteq> KindOther then k else first_kind ks)"

definition kinds_of :: "unicode \<Rightarrow> raw_link list \<Rightarrow> string \<Rightarrow> link_kind list" where
  "kinds_of u raws url =
     map (\<lambda>r. classify u (rl_url r) (rl_anchor r)) (filter (\<lambda>r. rl_url r = url) raws)"

lemma first_kind_append:
  "first_kind (ks @ [k]) = (if first_kind ks = KindOther then k else first_kind ks)"
  by (induction ks) auto

definition links_ok ::
  "unicode \<Rightarrow> (string \<Rightarrow> (string \<times> string) option) \<Rightarrow> raw_link list \<Rightarrow> link list \<Rightarrow> bool" where
  "links_ok u url_parse raws links \<longleftrightarrow>
     distinct (map lk_url links) \<and> lk_url ` set links = rl_url ` set raws - {[]} \<and>
     (\<forall>l\<in>set links. lk_actionable l = actionable url_parse (lk_url l) \<and>
        lk_kind l = first_kind (kinds_of u raws (lk_url l)))"

lemma kinds_of_snoc:
  "kinds_of u (raws @ [r]) url = kinds_of u raws url @
     (if rl_url r = url then [classify u (rl_url r) (rl_anchor r)] else [])"
  by (simp add: kinds_of_def)

lemma add_link_ok:
  assumes "links_ok u p raws links" and "index_ok links index"
    and "add_link u p r (links, index) = (links', index')"
  shows "links_ok u p (raws @ [r]) links' \<and> index_ok links' index'"
proof -
  let ?k = "classify u (rl_url r) (rl_anchor r)"
  have nonempty: "lk_url l \<noteq> []" if "l \<in> set links" for l
    using assms(2) that unfolding index_ok_def by (metis image_eqI)
  consider (none) "rl_url r = []" | (again) at where "rl_url r \<noteq> []" "index (rl_url r) = Some at"
    | (new) "rl_url r \<noteq> []" "index (rl_url r) = None" by fastforce
  then show ?thesis
  proof cases
    case none
    then have "links' = links" "index' = index" using assms(3) by (simp_all add: add_link_def)
    then show ?thesis
      using assms(1,2) none nonempty by (auto simp: links_ok_def kinds_of_snoc)
  next
    case new
    have fresh: "rl_url r \<notin> lk_url ` set links"
    proof
      assume "rl_url r \<in> lk_url ` set links"
      then obtain i where "i < length links" "lk_url (links ! i) = rl_url r"
        by (auto simp: in_set_conv_nth)
      then have "index (rl_url r) = Some i" using assms(2) by (simp add: index_ok_def)
      with new(2) show False by simp
    qed
    let ?l = "\<lparr>lk_url = rl_url r, lk_kind = ?k, lk_actionable = actionable p (rl_url r)\<rparr>"
    have out: "links' = links @ [?l]" "index' = index(rl_url r \<mapsto> length links)"
      using assms(3) new by (auto simp: add_link_def Let_def)
    have "rl_url r \<notin> rl_url ` set raws" using fresh new(1) assms(1) by (auto simp: links_ok_def)
    then have "\<forall>x\<in>set raws. rl_url x \<noteq> rl_url r" by (metis image_eqI)
    then have "kinds_of u raws (rl_url r) = []" by (simp add: kinds_of_def filter_empty_conv)
    then have ok: "links_ok u p (raws @ [r]) links'"
      using assms(1) new(1) fresh out by (auto simp: links_ok_def kinds_of_snoc)
    have "\<forall>at<length links. lk_url (links ! at) \<noteq> rl_url r"
      using fresh by (metis image_eqI nth_mem)
    then have "index_ok links' index'"
      using assms(2) new fresh out by (auto simp: index_ok_def nth_append)
    with ok show ?thesis by simp
  next
    case again
    have at: "at < length links" "lk_url (links ! at) = rl_url r"
      using assms(2) again(2) by (simp_all add: index_ok_def)
    have dist: "distinct (map lk_url links)" using assms(2) by (simp add: index_ok_def)
    let ?up = "lk_kind (links ! at) = KindOther \<and> ?k \<noteq> KindOther"
    have out: "links' = (if ?up then links[at := (links ! at)\<lparr>lk_kind := ?k\<rparr>] else links)"
      "index' = index"
      using assms(3) again by (auto simp: add_link_def Let_def)
    have len: "length links' = length links" by (simp add: out)
    have nth: "links' ! i = (if i = at \<and> ?up then (links ! at)\<lparr>lk_kind := ?k\<rparr> else links ! i)"
      if "i < length links" for i
      using that at by (simp add: out)
    have urls: "map lk_url links' = map lk_url links"
      by (rule nth_equalityI) (simp_all add: len nth)
    then have set: "lk_url ` set links' = lk_url ` set links" by (metis set_map)
    have "lk_actionable l = actionable p (lk_url l) \<and>
        lk_kind l = first_kind (kinds_of u (raws @ [r]) (lk_url l))" if l: "l \<in> set links'" for l
    proof -
      obtain i where i: "i < length links" "l = links' ! i" using l len by (metis in_set_conv_nth)
      have old: "lk_actionable (links ! i) = actionable p (lk_url (links ! i))"
        "lk_kind (links ! i) = first_kind (kinds_of u raws (lk_url (links ! i)))"
        using assms(1) i(1) by (auto simp: links_ok_def)
      show ?thesis
      proof (cases "i = at")
        case True
        then show ?thesis
          using old at by (auto simp: i(2) nth kinds_of_snoc first_kind_append)
      next
        case False
        then have "lk_url (links ! i) \<noteq> rl_url r"
          using dist i(1) at by (metis length_map nth_eq_iff_index_eq nth_map)
        then show ?thesis using old False i by (simp add: nth kinds_of_snoc)
      qed
    qed
    moreover have "lk_url ` set links' = rl_url ` set (raws @ [r]) - {[]}"
    proof -
      have "rl_url r \<in> lk_url ` set links" using at by (metis image_eqI nth_mem)
      then show ?thesis using assms(1) set by (auto simp: links_ok_def)
    qed
    moreover have "index_ok links' index'"
      using assms(2) urls set len by (auto simp: index_ok_def out(2)) (metis length_map nth_map)+
    ultimately show ?thesis using dist urls by (simp add: links_ok_def)
  qed
qed

lemma collectLinks_ok: "links_ok u p (hrefs @ plain_links u plain) (collectLinks u p hrefs plain)"
proof -
  have "links_ok u p (raws @ rs) (fst (fold (add_link u p) rs (links, index)))"
    if "links_ok u p raws links" "index_ok links index" for raws rs links index
    using that
  proof (induction rs arbitrary: raws links index)
    case (Cons r rs)
    obtain links' index' where a: "add_link u p r (links, index) = (links', index')"
      by (metis surj_pair)
    from add_link_ok [OF Cons.prems a] Cons.IH [of "raws @ [r]" links' index'] a
    show ?case by simp
  qed simp
  from this [of "[]" "[]" "\<lambda>url. None" "hrefs @ plain_links u plain"] show ?thesis
    by (simp add: collectLinks_def links_ok_def index_ok_def)
qed


section \<open>The context of a URL stays on its line\<close>

lemma newLineIndex_set: "set (newLineIndex s) = {i. i < length s \<and> s ! i = newline}"
  by (auto simp: newLineIndex_def)

lemma newLineIndex_sorted: "sorted (newLineIndex s)"
  by (simp add: newLineIndex_def sorted_wrt_filterI)

lemma SearchInts_spec:
  assumes "sorted idx"
  shows "SearchInts idx x \<le> length idx" and "k < SearchInts idx x \<Longrightarrow> idx ! k < x"
    and "SearchInts idx x \<le> k \<Longrightarrow> k < length idx \<Longrightarrow> x \<le> idx ! k"
proof -
  have mono: "x \<le> idx ! b" if "a \<le> b" "b < length idx" "x \<le> idx ! a" for a b
    using sorted_nth_mono [OF assms that(1,2)] that(3) by simp
  show "SearchInts idx x \<le> length idx"
    unfolding SearchInts_def by (rule sort_Search_spec(1)) (rule mono)
  show "k < SearchInts idx x \<Longrightarrow> idx ! k < x"
    using sort_Search_spec(2) [of "length idx" "\<lambda>i. x \<le> idx ! i" k] mono
    unfolding SearchInts_def by fastforce
  show "SearchInts idx x \<le> k \<Longrightarrow> k < length idx \<Longrightarrow> x \<le> idx ! k"
    unfolding SearchInts_def by (rule sort_Search_spec(3)) (rule mono)
qed

lemma line_start_spec:
  assumes "pos \<le> length s"
  shows "line_start (newLineIndex s) pos \<le> pos"
    and "line_start (newLineIndex s) pos \<le> k \<Longrightarrow> k < pos \<Longrightarrow> s ! k \<noteq> newline"
proof -
  let ?idx = "newLineIndex s" and ?i = "SearchInts (newLineIndex s) pos"
  note S = SearchInts_spec [OF newLineIndex_sorted [of s], where x = pos]
  show "line_start ?idx pos \<le> pos"
    using S(2) [of "?i - 1"] by (simp add: line_start_def Let_def Suc_le_eq)
  assume k: "line_start ?idx pos \<le> k" "k < pos"
  show "s ! k \<noteq> newline"
  proof
    assume "s ! k = newline"
    then have "k \<in> set ?idx" using k assms by (simp add: newLineIndex_set)
    then obtain j where j: "j < length ?idx" "?idx ! j = k" by (auto simp: in_set_conv_nth)
    then have "j < ?i" using S(3) [of j] k(2) by (meson leD not_le)
    then have "?idx ! j \<le> ?idx ! (?i - 1)"
      using S(1) by (intro sorted_nth_mono newLineIndex_sorted) auto
    with j(2) k(1) \<open>j < ?i\<close> show False by (auto simp: line_start_def Let_def)
  qed
qed

lemma line_end_spec:
  assumes "pos \<le> length s"
  shows "pos \<le> line_end (newLineIndex s) s pos" and "line_end (newLineIndex s) s pos \<le> length s"
    and "pos \<le> k \<Longrightarrow> k < line_end (newLineIndex s) s pos \<Longrightarrow> s ! k \<noteq> newline"
proof -
  let ?idx = "newLineIndex s" and ?j = "SearchInts (newLineIndex s) pos"
  note S = SearchInts_spec [OF newLineIndex_sorted [of s], where x = pos]
  have in_text: "?idx ! j < length s" if "j < length ?idx" for j
    using that newLineIndex_set [of s] nth_mem by blast
  show "pos \<le> line_end ?idx s pos" "line_end ?idx s pos \<le> length s"
    using S(3) [of ?j] assms in_text [of ?j] by (auto simp: line_end_def Let_def)
  assume k: "pos \<le> k" "k < line_end ?idx s pos"
  show "s ! k \<noteq> newline"
  proof
    assume nl: "s ! k = newline"
    have "k < length s" using k(2) \<open>line_end ?idx s pos \<le> length s\<close> by simp
    with nl have "k \<in> set ?idx" by (simp add: newLineIndex_set)
    then obtain j where j: "j < length ?idx" "?idx ! j = k" by (auto simp: in_set_conv_nth)
    then have "?j \<le> j" using S(2) [of j] k(1) by (meson leD not_le)
    then have "?idx ! ?j \<le> ?idx ! j"
      using j(1) by (intro sorted_nth_mono newLineIndex_sorted) auto
    with j k(2) \<open>?j \<le> j\<close> show False by (auto simp: line_end_def Let_def)
  qed
qed

lemma clip_start_spec:
  assumes "start \<le> pos" and "pos \<le> length s"
  shows "start \<le> clip_start s pos start \<and> clip_start s pos start \<le> pos \<and>
     pos - clip_start s pos start \<le> contextWindow"
proof -
  have "length (takeWhile P (slice s k pos)) \<le> pos - k" for P k
    using length_takeWhile_le [of P "slice s k pos"] by (simp add: slice_def)
  then have "pos - contextWindow + length (takeWhile P (slice s (pos - contextWindow) pos)) \<le> pos" for P
    by (metis diff_le_self le_diff_conv2 add.commute)
  then show ?thesis using assms by (auto simp: clip_start_def Let_def)
qed

lemma clip_end_spec:
  assumes "pos \<le> end'"
  shows "pos \<le> clip_end s pos end' \<and> clip_end s pos end' \<le> end' \<and>
     clip_end s pos end' - pos \<le> contextWindow"
proof -
  let ?n = "length (takeWhile (\<lambda>b. \<not> RuneStart b) (rev (slice s (Suc pos) (Suc (pos + contextWindow)))))"
  have "?n \<le> contextWindow"
    using length_takeWhile_le [of _ "rev (slice s (Suc pos) (Suc (pos + contextWindow)))"]
    by (rule order_trans) (simp add: slice_def)
  then show ?thesis using assms by (auto simp: clip_end_def Let_def)
qed

lemma around_spec:
  assumes "sp_start at \<le> sp_end at" and "sp_end at \<le> length s"
  obtains a b where "around (newLineIndex s) s at = slice s a b"
    and "a \<le> sp_start at" and "sp_start at - a \<le> contextWindow"
    and "sp_end at \<le> b" and "b \<le> length s" and "b - sp_end at \<le> contextWindow"
    and "\<forall>k\<in>{a..<sp_start at} \<union> {sp_end at..<b}. s ! k \<noteq> newline"
proof -
  let ?ls = "line_start (newLineIndex s) (sp_start at)"
  let ?le = "line_end (newLineIndex s) s (sp_end at)"
  have start: "sp_start at \<le> length s" using assms by simp
  note l = line_start_spec [OF start] and r = line_end_spec [OF assms(2)]
  note a = clip_start_spec [OF l(1) start] and b = clip_end_spec [OF r(1), of s]
  show ?thesis
    by (rule that [of "clip_start s (sp_start at) ?ls" "clip_end s (sp_end at) ?le"])
       (use a b l(2) r(2,3) in \<open>auto simp: around_def\<close>)
qed

end
