(* ===== verification/Extractor.thy ===== *)
theory Extractor
  imports Otp Links
begin

text \<open>
  \<^verbatim>\<open>Extract\<close> of \<^verbatim>\<open>internal/extract/extract.go\<close>: the code and the links of one message.
\<close>

text \<open>The libraries the extractor stands on.\<close>

record html_and_urls =
  hu_tokens :: "string \<Rightarrow> html_token list"
  hu_parse :: "string \<Rightarrow> (string \<times> string) option"

fun pick_best :: "string \<Rightarrow> otp_candidate list \<Rightarrow> string" where
  "pick_best best [] = best"
| "pick_best best (c # cs) =
     pick_best (if best = [] \<and> 0 < oc_score c then oc_code c else best) cs"

definition plain_text :: "unicode \<Rightarrow> extract_input \<Rightarrow> string \<Rightarrow> string" where
  "plain_text u i visible =
     uc_nfc u (in_subject i) @ newline # uc_nfc u (in_text i) @ newline # visible"

definition Extract :: "unicode \<Rightarrow> html_and_urls \<Rightarrow> extract_input \<Rightarrow> result" where
  "Extract u hu i =
     (case scanHTML (hu_tokens hu) (uc_nfc u (in_html i)) of
        (hrefs, visible) \<Rightarrow>
          let plain = plain_text u i visible;
              links = collectLinks u (hu_parse hu) hrefs plain;
              folded = fold_text u plain;
              candidates = otpCandidates u folded (urlSpans u folded)
          in \<lparr>rs_otp_best = pick_best [] candidates,
              rs_otp_candidates = map oc_code candidates,
              rs_links = links,
              rs_verify_link_best = verifyLinkBest links\<rparr>)"

section \<open>The chosen code\<close>

lemma pick_best_kept: "best \<noteq> [] \<Longrightarrow> pick_best best cs = best"
  by (induction cs) auto

lemma pick_best_first:
  assumes "\<forall>c\<in>set cs. oc_code c \<noteq> []"
  shows "pick_best [] cs = (case find (\<lambda>c. 0 < oc_score c) cs of None \<Rightarrow> [] | Some c \<Rightarrow> oc_code c)"
  using assms by (induction cs) (auto simp: pick_best_kept)

lemma urlSpans_nonempty: "\<forall>r\<in>set (urlSpans u s). sp_start r < sp_end r"
  using findPlainURLs_ok [of s u] by (auto simp: urlSpans_def list_all_iff url_ok_def)

text \<open>The folded text of a message and the codes that stand in it.\<close>

definition message_text :: "unicode \<Rightarrow> html_and_urls \<Rightarrow> extract_input \<Rightarrow> string" where
  "message_text u hu i =
     fold_text u (plain_text u i (snd (scanHTML (hu_tokens hu) (uc_nfc u (in_html i)))))"

definition code_in :: "unicode \<Rightarrow> html_and_urls \<Rightarrow> extract_input \<Rightarrow> nat \<Rightarrow> nat \<Rightarrow> bool" where
  "code_in u hu i a b \<longleftrightarrow>
     standalone_code u (message_text u hu i) (urlSpans u (message_text u hu i)) a b"

definition code_score :: "unicode \<Rightarrow> html_and_urls \<Rightarrow> extract_input \<Rightarrow> nat \<Rightarrow> nat \<Rightarrow> int" where
  "code_score u hu i a b = score_at u (message_text u hu i) a b"

definition candidates_of :: "unicode \<Rightarrow> html_and_urls \<Rightarrow> extract_input \<Rightarrow> otp_candidate list" where
  "candidates_of u hu i =
     otpCandidates u (message_text u hu i) (urlSpans u (message_text u hu i))"

lemma Extract_otp:
  "rs_otp_best (Extract u hu i) = pick_best [] (candidates_of u hu i)"
  "rs_otp_candidates (Extract u hu i) = map oc_code (candidates_of u hu i)"
  by (simp_all add: Extract_def candidates_of_def message_text_def Let_def split: prod.split)

lemma candidate_code:
  assumes "c \<in> set (candidates_of u hu i)"
  obtains a b where "code_in u hu i a b"
    and "c = \<lparr>oc_code = slice (message_text u hu i) a b, oc_pos = a, oc_score = code_score u hu i a b\<rparr>"
  using otpCandidates_spec(1) [OF urlSpans_nonempty, of c u "message_text u hu i" u "message_text u hu i"]
    assms by (auto simp: candidates_of_def code_in_def code_score_def)

lemma code_candidate:
  assumes "code_in u hu i a b"
  obtains c where "c \<in> set (candidates_of u hu i)" and "oc_code c = slice (message_text u hu i) a b"
    and "code_score u hu i a b \<le> oc_score c"
  using otpCandidates_spec(2) [OF urlSpans_nonempty, of u "message_text u hu i" u "message_text u hu i" a b]
    assms by (auto simp: candidates_of_def code_in_def code_score_def better_def)

lemma code_length:
  assumes "code_in u hu i a b"
  shows "4 \<le> length (slice (message_text u hu i) a b)" "length (slice (message_text u hu i) a b) \<le> 8"
    "list_all isASCIIDigit (slice (message_text u hu i) a b)"
proof -
  let ?s = "message_text u hu i"
  have r: "a < b" "b \<le> length ?s" "\<forall>k\<in>{a..<b}. isASCIIDigit (?s ! k)" "4 \<le> b - a" "b - a \<le> 8"
    using assms by (simp_all add: code_in_def standalone_code_def maximal_run_def)
  then show "4 \<le> length (slice ?s a b)" "length (slice ?s a b) \<le> 8"
    by (simp_all add: length_slice)
  show "list_all isASCIIDigit (slice ?s a b)"
    using r by (auto simp: list_all_length slice_def)
qed

lemma best_code:
  shows "rs_otp_best (Extract u hu i) = [] \<Longrightarrow> code_in u hu i a b \<Longrightarrow> code_score u hu i a b \<le> 0"
    and "rs_otp_best (Extract u hu i) \<noteq> [] \<Longrightarrow>
      \<exists>a b. code_in u hu i a b \<and> rs_otp_best (Extract u hu i) = slice (message_text u hu i) a b \<and>
        0 < code_score u hu i a b \<and>
        (\<forall>a' b'. code_in u hu i a' b' \<longrightarrow> code_score u hu i a' b' \<le> code_score u hu i a b)"
proof -
  let ?cs = "candidates_of u hu i"
  have codes: "oc_code c \<noteq> []" if c: "c \<in> set ?cs" for c
  proof -
    obtain a b where "code_in u hu i a b" "oc_code c = slice (message_text u hu i) a b"
      using candidate_code [OF c] by (metis otp_candidate.select_convs(1))
    then show ?thesis using code_length(1) by fastforce
  qed
  then have "\<forall>c\<in>set ?cs. oc_code c \<noteq> []" by blast
  then have best: "rs_otp_best (Extract u hu i) =
      (case find (\<lambda>c. 0 < oc_score c) ?cs of None \<Rightarrow> [] | Some c \<Rightarrow> oc_code c)"
    using pick_best_first [of ?cs] by (simp add: Extract_otp)
  {
    assume none: "rs_otp_best (Extract u hu i) = []" and code: "code_in u hu i a b"
    obtain c where c: "c \<in> set ?cs" "code_score u hu i a b \<le> oc_score c"
      using code by (rule code_candidate)
    have "find (\<lambda>c. 0 < oc_score c) ?cs = None"
    proof (cases "find (\<lambda>c. 0 < oc_score c) ?cs")
      case (Some d)
      then have "d \<in> set ?cs" using find_row_Some [of "\<lambda>c. 0 < oc_score c" ?cs d]
        by (simp add: find_row_def)
      with codes have "oc_code d \<noteq> []" by blast
      with best none Some show ?thesis by simp
    qed simp
    then have "\<not> 0 < oc_score c" using c(1) by (simp add: find_None_iff)
    with c(2) show "code_score u hu i a b \<le> 0" by simp
  next
    assume "rs_otp_best (Extract u hu i) \<noteq> []"
    then obtain c where c: "find (\<lambda>c. 0 < oc_score c) ?cs = Some c"
      "rs_otp_best (Extract u hu i) = oc_code c"
      using best by (auto split: option.splits)
    then obtain n where n: "n < length ?cs" "c = ?cs ! n" "0 < oc_score c"
      "\<forall>j<n. \<not> 0 < oc_score (?cs ! j)" by (auto simp: find_Some_iff)
    have top: "oc_score d \<le> oc_score c" if d: "d \<in> set ?cs" for d
    proof -
      obtain m where m: "m < length ?cs" "d = ?cs ! m" using d by (auto simp: in_set_conv_nth)
      have desc: "oc_score (?cs ! m) \<le> oc_score (?cs ! n)" if "n < m"
      proof -
        have "sorted_wrt better ?cs"
          unfolding candidates_of_def by (rule otpCandidates_spec(4) [OF urlSpans_nonempty])
        from sorted_wrt_nth_less [OF this that m(1)] show ?thesis by (auto simp: better_def)
      qed
      show ?thesis
      proof (cases "m < n")
        case True
        then show ?thesis using m(2) n(3,4) by (meson less_imp_le less_trans not_le)
      next
        case False
        then show ?thesis using desc m(2) n(2) by (cases "m = n") auto
      qed
    qed
    obtain a b where ab: "code_in u hu i a b"
      "c = \<lparr>oc_code = slice (message_text u hu i) a b, oc_pos = a, oc_score = code_score u hu i a b\<rparr>"
      using n(1,2) nth_mem candidate_code by metis
    moreover have "code_score u hu i a' b' \<le> code_score u hu i a b" if "code_in u hu i a' b'" for a' b'
      using code_candidate [OF that] top ab(2) by (metis order_trans otp_candidate.select_convs(3))
    ultimately show "\<exists>a b. code_in u hu i a b \<and>
        rs_otp_best (Extract u hu i) = slice (message_text u hu i) a b \<and> 0 < code_score u hu i a b \<and>
        (\<forall>a' b'. code_in u hu i a' b' \<longrightarrow> code_score u hu i a' b' \<le> code_score u hu i a b)"
      using c(2) n(3) by auto
  }
qed

section \<open>The chosen link\<close>

lemma Extract_links:
  "rs_links (Extract u hu i) =
     collectLinks u (hu_parse hu) (fst (scanHTML (hu_tokens hu) (uc_nfc u (in_html i))))
       (plain_text u i (snd (scanHTML (hu_tokens hu) (uc_nfc u (in_html i)))))"
  "rs_verify_link_best (Extract u hu i) = verifyLinkBest (rs_links (Extract u hu i))"
  by (simp_all add: Extract_def Let_def split: prod.split)

lemma Extract_urls: "\<forall>l\<in>set (rs_links (Extract u hu i)). lk_url l \<noteq> []"
  unfolding Extract_links(1) using collectLinks_ok [unfolded links_ok_def] by (metis Diff_iff image_eqI insertI1)

lemma find_row_cases:
  obtains (found) r where "find_row P rows = Some r" and "r \<in> set rows" and "P r"
  | (absent) "find_row P rows = None" and "\<forall>r\<in>set rows. \<not> P r"
  by (cases "find_row P rows") (auto simp: find_row_def find_None_iff dest: find_row_Some [unfolded find_row_def])

lemma verifyLinkBest_choice:
  assumes "\<forall>l\<in>set ls. lk_url l \<noteq> []"
  shows "(verifyLinkBest ls = [] \<longleftrightarrow>
      {l \<in> set ls. lk_actionable l \<and> lk_kind l \<in> {KindVerify, KindMagic}} = {}) \<and>
     verifyLinkBest ls \<in> insert [] (lk_url ` {l \<in> set ls. lk_actionable l \<and> lk_kind l =
       (if KindVerify \<in> lk_kind ` {m \<in> set ls. lk_actionable m} then KindVerify else KindMagic)})"
proof (cases rule: find_row_cases [of "\<lambda>l. lk_actionable l \<and> lk_kind l = KindVerify" ls])
  case (found l)
  then show ?thesis using assms by (force simp: verifyLinkBest_def)
next
  case absent
  then have none: "KindVerify \<notin> lk_kind ` {m \<in> set ls. lk_actionable m}" by auto
  show ?thesis
  proof (cases rule: find_row_cases [of "\<lambda>l. lk_actionable l \<and> lk_kind l = KindMagic" ls])
    case (found l)
    then show ?thesis using absent none assms by (auto simp: verifyLinkBest_def)
  next
    case absent2: absent
    then show ?thesis using absent none by (auto simp: verifyLinkBest_def)
  qed
qed

text \<open>
  The candidates are exactly the codes that stand in the message, each once, and a year is
  never the one chosen.
\<close>

lemma candidates_are_the_codes:
  "set (rs_otp_candidates (Extract u hu i)) = {slice (message_text u hu i) a b |a b. code_in u hu i a b} \<and>
   distinct (rs_otp_candidates (Extract u hu i)) \<and> \<not> looksLikeYear (rs_otp_best (Extract u hu i))"
proof (intro conjI)
  show "set (rs_otp_candidates (Extract u hu i)) = {slice (message_text u hu i) a b |a b. code_in u hu i a b}"
    unfolding Extract_otp(2)
  proof (intro equalityI subsetI)
    fix x
    assume "x \<in> set (map oc_code (candidates_of u hu i))"
    then obtain c where c: "c \<in> set (candidates_of u hu i)" "x = oc_code c" by auto
    obtain a b where "code_in u hu i a b" "oc_code c = slice (message_text u hu i) a b"
      by (rule candidate_code [OF c(1)]) simp
    then show "x \<in> {slice (message_text u hu i) a b |a b. code_in u hu i a b}" using c(2) by blast
  next
    fix x
    assume "x \<in> {slice (message_text u hu i) a b |a b. code_in u hu i a b}"
    then obtain a b where ab: "code_in u hu i a b" "x = slice (message_text u hu i) a b" by blast
    obtain c where "c \<in> set (candidates_of u hu i)" "oc_code c = x"
      using code_candidate [OF ab(1)] ab(2) by metis
    then show "x \<in> set (map oc_code (candidates_of u hu i))" by auto
  qed
  show "distinct (rs_otp_candidates (Extract u hu i))"
    unfolding Extract_otp(2) candidates_of_def by (rule otpCandidates_spec(3) [OF urlSpans_nonempty])
  show "\<not> looksLikeYear (rs_otp_best (Extract u hu i))"
  proof
    assume year: "looksLikeYear (rs_otp_best (Extract u hu i))"
    then have "rs_otp_best (Extract u hu i) \<noteq> []" by (auto simp: looksLikeYear_def)
    from best_code(2) [OF this] obtain a b where
      "rs_otp_best (Extract u hu i) = slice (message_text u hu i) a b" "0 < code_score u hu i a b" by blast
    then show False
      using year_score [OF year] by (simp add: code_score_def score_at_def) (meson less_asym)
  qed
qed

end
