(* ===== verification/RelayConf.thy ===== *)
theory RelayConf
  imports Extractor
begin

text \<open>
  The conformance check of an inbound relay: \<^verbatim>\<open>internal/relayconf\<close>. A message as sent is
  compared with the message as it arrived, rule by rule. The MIME reader
  (\<^verbatim>\<open>go-message\<close>) and the path \<^verbatim>\<open>url.Parse\<close> finds are arguments, beside those of
  extraction. A detail is a value, not the English sentence made of it.
\<close>

section \<open>Messages\<close>

record relay_message =
  rm_headers :: "(string \<times> string list) list"
  rm_text :: string
  rm_html :: string

definition header_values :: "relay_message \<Rightarrow> string \<Rightarrow> string list" where
  "header_values m key = (case map_of (rm_headers m) key of None \<Rightarrow> [] | Some vs \<Rightarrow> vs)"

definition Subject :: "relay_message \<Rightarrow> string" where
  "Subject m = (case header_values m ''Subject'' of [] \<Rightarrow> [] | v # _ \<Rightarrow> v)"

definition hopHeaders :: "string list" where
  "hopHeaders =
     [''Received'', ''Return-Path'', ''Delivered-To'', ''Authentication-Results'',
      ''Arc-Authentication-Results'', ''Arc-Message-Signature'', ''Arc-Seal'', ''Dkim-Signature'',
      ''X-Received'', ''Content-Transfer-Encoding'', ''Mime-Version'']"

definition preservedHeaders :: "string list" where
  "preservedHeaders = [''From'', ''To'', ''Subject'', ''Message-Id'']"

text \<open>\<^verbatim>\<open>textproto.CanonicalMIMEHeaderKey\<close>.\<close>

definition token_byte :: "char \<Rightarrow> bool" where
  "token_byte c \<longleftrightarrow>
     (CHR ''0'' \<le> c \<and> c \<le> CHR ''9'') \<or> (CHR ''A'' \<le> c \<and> c \<le> CHR ''Z'') \<or>
     (CHR ''a'' \<le> c \<and> c \<le> CHR ''z'') \<or> c \<in> set (CHR 0x27 # CHR 0x60 # ''!#$%&*+-.^_|~'')"

definition upperASCII :: "char \<Rightarrow> char" where
  "upperASCII c = (if CHR ''a'' \<le> c \<and> c \<le> CHR ''z'' then char_of (of_char c - 32 :: nat) else c)"

fun canonical_key :: "bool \<Rightarrow> string \<Rightarrow> string" where
  "canonical_key up [] = []"
| "canonical_key up (c # cs) =
     (if up then upperASCII c else lowerASCII c) # canonical_key (c = CHR ''-'') cs"

definition CanonicalMIMEHeaderKey :: "string \<Rightarrow> string" where
  "CanonicalMIMEHeaderKey k = (if list_all token_byte k then canonical_key True k else k)"

text \<open>What the MIME reader yields: header fields with their decoded text, and the parts.\<close>

datatype relay_part = BrokenPart | AttachmentPart | InlinePart "string option" "string option"

record mime_reading =
  mr_fields :: "(string \<times> string option \<times> string) list"
  mr_parts :: "relay_part list"

fun add_header :: "string \<Rightarrow> string \<Rightarrow> (string \<times> string list) list \<Rightarrow> (string \<times> string list) list" where
  "add_header k v [] = [(k, [v])]"
| "add_header k v ((q, vs) # hs) =
     (if q = k then (q, vs @ [v]) # hs else (q, vs) # add_header k v hs)"

definition add_field ::
  "string \<times> string option \<times> string \<Rightarrow> (string \<times> string list) list \<Rightarrow> (string \<times> string list) list" where
  "add_field f hs =
     (case f of (key, decoded, raw) \<Rightarrow>
        add_header (CanonicalMIMEHeaderKey key) (case decoded of Some v \<Rightarrow> v | None \<Rightarrow> raw) hs)"

fun parse_parts :: "relay_part list \<Rightarrow> relay_message \<Rightarrow> bool \<Rightarrow> (relay_message \<times> bool) option" where
  "parse_parts [] m saw = Some (m, saw)"
| "parse_parts (BrokenPart # ps) m saw = None"
| "parse_parts (AttachmentPart # ps) m saw = parse_parts ps m saw"
| "parse_parts (InlinePart body ctype # ps) m saw =
     (case body of None \<Rightarrow> None
      | Some b \<Rightarrow>
          (case ctype of None \<Rightarrow> None
           | Some t \<Rightarrow>
               if prefix ''text/html'' t \<and> rm_html m = []
               then parse_parts ps (m\<lparr>rm_html := b\<rparr>) True
               else if prefix ''text/plain'' t \<and> rm_text m = []
               then parse_parts ps (m\<lparr>rm_text := b\<rparr>) True
               else parse_parts ps m saw))"

definition Parse :: "(string \<Rightarrow> mime_reading option) \<Rightarrow> string \<Rightarrow> relay_message option" where
  "Parse read_mime raw =
     (case read_mime raw of
        None \<Rightarrow> None
      | Some r \<Rightarrow>
          (case parse_parts (mr_parts r)
              \<lparr>rm_headers = fold add_field (mr_fields r) [], rm_text = [], rm_html = []\<rparr> False of
             None \<Rightarrow> None
           | Some (m, saw) \<Rightarrow> if saw then Some m else None))"

section \<open>Canonical forms\<close>

definition carriage :: char where "carriage = CHR 0x0D"

text \<open>The two \<^verbatim>\<open>ReplaceAll\<close> of line ends.\<close>

fun crlf_to_lf :: "string \<Rightarrow> string" where
  "crlf_to_lf [] = []"
| "crlf_to_lf [c] = [c]"
| "crlf_to_lf (c # d # cs) =
     (if c = carriage \<and> d = newline then newline # crlf_to_lf cs else c # crlf_to_lf (d # cs))"

definition cr_to_lf :: "string \<Rightarrow> string" where
  "cr_to_lf s = map (\<lambda>c. if c = carriage then newline else c) s"

text \<open>The three regular expressions, each a single pass from the left.\<close>

definition blank :: "char \<Rightarrow> bool" where "blank c \<longleftrightarrow> c = CHR '' '' \<or> c = CHR 0x09"

lemma dropWhile_shorter: "dropWhile P s = d # ds \<Longrightarrow> length ds < length s"
  using length_dropWhile_le [of P s] by simp

function drop_trailing_space :: "string \<Rightarrow> string" where
  "drop_trailing_space s =
     (case s of
        [] \<Rightarrow> []
      | c # cs \<Rightarrow>
          (case dropWhile blank s of
             d # ds \<Rightarrow> if blank c \<and> d = newline then newline # drop_trailing_space ds
                        else c # drop_trailing_space cs
           | [] \<Rightarrow> c # drop_trailing_space cs))"
  by pat_completeness auto
termination
  by (relation "measure length") (auto dest: dropWhile_shorter)

declare drop_trailing_space.simps [simp del]

function collapse_newlines :: "string \<Rightarrow> string" where
  "collapse_newlines s =
     (case s of
        [] \<Rightarrow> []
      | c # cs \<Rightarrow>
          if c = newline then
            (let k = length (takeWhile (\<lambda>d. d = newline) s)
             in replicate (if 3 \<le> k then 2 else k) newline @
                collapse_newlines (dropWhile (\<lambda>d. d = newline) s))
          else c # collapse_newlines cs)"
  by pat_completeness auto
termination
  by (relation "measure length") (auto simp: le_imp_less_Suc length_dropWhile_le)

declare collapse_newlines.simps [simp del]

definition html_space :: "char \<Rightarrow> bool" where
  "html_space c \<longleftrightarrow> c \<in> set [CHR 0x09, newline, CHR 0x0C, carriage, CHR '' '']"

function drop_tag_space :: "string \<Rightarrow> string" where
  "drop_tag_space s =
     (case s of
        [] \<Rightarrow> []
      | c # cs \<Rightarrow>
          (case dropWhile html_space cs of
             d # ds \<Rightarrow> if c = CHR ''>'' \<and> d = CHR ''<'' \<and> length ds < length cs - 1
                        then ''><'' @ drop_tag_space ds else c # drop_tag_space cs
           | [] \<Rightarrow> c # drop_tag_space cs))"
  by pat_completeness auto
termination
  by (relation "measure length") auto

declare drop_tag_space.simps [simp del]

definition canonicalText :: "unicode \<Rightarrow> string \<Rightarrow> string" where
  "canonicalText u s =
     trim_space (collapse_newlines (drop_trailing_space (uc_nfc u (cr_to_lf (crlf_to_lf s)))))"

definition canonicalHTML :: "unicode \<Rightarrow> string \<Rightarrow> string" where
  "canonicalHTML u s = drop_tag_space (canonicalText u s)"

text \<open>\<^verbatim>\<open>strings.Fields\<close> and \<^verbatim>\<open>strings.Join\<close>.\<close>

function fields_loop :: "string \<Rightarrow> string \<Rightarrow> string list" where
  "fields_loop word s =
     (case s of
        [] \<Rightarrow> (if word = [] then [] else [word])
      | c # cs \<Rightarrow>
          (case first_cut space_seqs s of
             Some r \<Rightarrow> (if word = [] then [] else [word]) @ fields_loop [] r
           | None \<Rightarrow> fields_loop (word @ [c]) cs))"
  by pat_completeness auto
termination
  by (relation "measure (\<lambda>(w, s). length s)") (auto dest: first_cut_shorter)

declare fields_loop.simps [simp del]

fun join_with :: "string \<Rightarrow> string list \<Rightarrow> string" where
  "join_with sep [] = []"
| "join_with sep [x] = x"
| "join_with sep (x # y # xs) = x @ sep @ join_with sep (y # xs)"

definition canonicalHeader :: "unicode \<Rightarrow> string \<Rightarrow> string" where
  "canonicalHeader u s = join_with '' '' (fields_loop [] (uc_nfc u s))"

section \<open>Findings\<close>

datatype status = StatusPass | StatusFail | StatusSkipped

datatype detail =
    NoOTPSent | OTPPreserved | OTPGone | OTPLength nat nat | OTPChanged
  | NoLinks | LinksPreserved nat | LinkRewriting string string | LinkCount nat nat | LinkChanged
  | NoVerifyLink | VerifyPreserved | VerifyChanged
  | HeadersPreserved | HeadersChanged "string list"
  | PartAbsent | PartPreserved | PartDropped | PartDiffers
  | NotAlternative | BothParts | Collapsed
  | ParitySame | ParityDiffers
  | NoHops | HopsAdded "string list"

record finding =
  fd_rule :: string
  fd_status :: status
  fd_detail :: detail

definition report_OK :: "finding list \<Rightarrow> bool" where
  "report_OK fs \<longleftrightarrow> list_all (\<lambda>f. fd_status f \<noteq> StatusFail) fs"

definition Failures :: "finding list \<Rightarrow> finding list" where
  "Failures fs = filter (\<lambda>f. fd_status f = StatusFail) fs"

definition Skipped :: "finding list \<Rightarrow> nat" where
  "Skipped fs = length (filter (\<lambda>f. fd_status f = StatusSkipped) fs)"

abbreviation add_finding :: "string \<Rightarrow> status \<Rightarrow> detail \<Rightarrow> finding" where
  "add_finding rule st d \<equiv> \<lparr>fd_rule = rule, fd_status = st, fd_detail = d\<rparr>"

section \<open>The rules\<close>

definition describeOTPChange :: "result \<Rightarrow> result \<Rightarrow> detail" where
  "describeOTPChange b a =
     (if rs_otp_best a = [] then OTPGone
      else if length (rs_otp_best b) \<noteq> length (rs_otp_best a)
      then OTPLength (length (rs_otp_best b)) (length (rs_otp_best a))
      else OTPChanged)"

definition otp_rule :: "result \<Rightarrow> result \<Rightarrow> finding" where
  "otp_rule b a =
     (if rs_otp_best b = [] then add_finding ''otp_exact'' StatusSkipped NoOTPSent
      else if rs_otp_best b = rs_otp_best a then add_finding ''otp_exact'' StatusPass OTPPreserved
      else add_finding ''otp_exact'' StatusFail (describeOTPChange b a))"

definition linkURLs :: "result \<Rightarrow> string list" where
  "linkURLs r = map lk_url (rs_links r)"

text \<open>\<^verbatim>\<open>url.QueryEscape\<close>.\<close>

definition unreserved :: "char \<Rightarrow> bool" where
  "unreserved c \<longleftrightarrow>
     (CHR ''0'' \<le> c \<and> c \<le> CHR ''9'') \<or> (CHR ''A'' \<le> c \<and> c \<le> CHR ''Z'') \<or>
     (CHR ''a'' \<le> c \<and> c \<le> CHR ''z'') \<or> c \<in> set ''-_.~''"

definition escape_byte :: "char \<Rightarrow> string" where
  "escape_byte c =
     (if unreserved c then [c] else if c = CHR '' '' then ''+''
      else CHR ''%'' # [''0123456789ABCDEF'' ! (of_char c div 16), ''0123456789ABCDEF'' ! (of_char c mod 16)])"

definition QueryEscape :: "string \<Rightarrow> string" where
  "QueryEscape s = concat (map escape_byte s)"

definition wraps :: "string \<Rightarrow> string \<Rightarrow> bool" where
  "wraps b a \<longleftrightarrow> a \<noteq> b \<and> (Index a b \<noteq> None \<or> Index a (QueryEscape b) \<noteq> None)"

fun detectWrapper :: "string list \<Rightarrow> string list \<Rightarrow> (string \<times> string) option" where
  "detectWrapper [] after = None"
| "detectWrapper (b # bs) after =
     (if b = [] then detectWrapper bs after
      else case find (wraps b) after of
        Some a \<Rightarrow> Some (a, b)
      | None \<Rightarrow> detectWrapper bs after)"

definition hostOf :: "html_and_urls \<Rightarrow> string \<Rightarrow> string" where
  "hostOf hu raw =
     (case hu_parse hu raw of
        None \<Rightarrow> ''an unparseable host''
      | Some (scheme, host) \<Rightarrow> if host = [] then ''an unparseable host'' else host)"

definition truncateURL :: "html_and_urls \<Rightarrow> (string \<Rightarrow> string) \<Rightarrow> string \<Rightarrow> string" where
  "truncateURL hu url_path raw =
     (case hu_parse hu raw of
        None \<Rightarrow> ''<unparseable url>''
      | Some (scheme, host) \<Rightarrow> scheme @ ''://'' @ host @ url_path raw)"

definition compareLinks ::
  "html_and_urls \<Rightarrow> (string \<Rightarrow> string) \<Rightarrow> result \<Rightarrow> result \<Rightarrow> finding" where
  "compareLinks hu url_path b a =
     (if rs_links b = [] then add_finding ''links_exact'' StatusSkipped NoLinks
      else let bs = linkURLs b; as = linkURLs a
           in if bs = as then add_finding ''links_exact'' StatusPass (LinksPreserved (length bs))
              else case detectWrapper bs as of
                Some (wrapped, orig) \<Rightarrow>
                  (if wrapped \<noteq> [] then
                     add_finding ''links_exact'' StatusFail
                       (LinkRewriting (truncateURL hu url_path orig) (hostOf hu wrapped))
                   else add_finding ''links_exact'' StatusFail
                     (if length bs \<noteq> length as then LinkCount (length bs) (length as) else LinkChanged))
              | None \<Rightarrow>
                  add_finding ''links_exact'' StatusFail
                    (if length bs \<noteq> length as then LinkCount (length bs) (length as) else LinkChanged))"

definition verify_rule :: "result \<Rightarrow> result \<Rightarrow> finding" where
  "verify_rule b a =
     (if rs_verify_link_best b = [] then add_finding ''verify_link_exact'' StatusSkipped NoVerifyLink
      else if rs_verify_link_best b = rs_verify_link_best a
      then add_finding ''verify_link_exact'' StatusPass VerifyPreserved
      else add_finding ''verify_link_exact'' StatusFail VerifyChanged)"

definition header_changed :: "unicode \<Rightarrow> relay_message \<Rightarrow> relay_message \<Rightarrow> string \<Rightarrow> bool" where
  "header_changed u before after key \<longleftrightarrow>
     (let b = canonicalHeader u (join_with '' '' (header_values before key));
          a = canonicalHeader u (join_with '' '' (header_values after key))
      in \<not> (b = [] \<and> a = []) \<and> b \<noteq> a)"

definition compareHeaders :: "unicode \<Rightarrow> relay_message \<Rightarrow> relay_message \<Rightarrow> finding" where
  "compareHeaders u before after =
     (let changed = filter (header_changed u before after) preservedHeaders
      in if changed = [] then add_finding ''headers_preserved'' StatusPass HeadersPreserved
         else add_finding ''headers_preserved'' StatusFail (HeadersChanged (sort changed)))"

definition comparePart ::
  "string \<Rightarrow> string \<Rightarrow> string \<Rightarrow> (string \<Rightarrow> string) \<Rightarrow> finding" where
  "comparePart rule before after canon =
     (if trim_space before = [] then add_finding rule StatusSkipped PartAbsent
      else if canon before = canon after then add_finding rule StatusPass PartPreserved
      else if trim_space after = [] then add_finding rule StatusFail PartDropped
      else add_finding rule StatusFail PartDiffers)"

definition both_parts :: "relay_message \<Rightarrow> bool" where
  "both_parts m \<longleftrightarrow> trim_space (rm_text m) \<noteq> [] \<and> trim_space (rm_html m) \<noteq> []"

definition comparePartPresence :: "relay_message \<Rightarrow> relay_message \<Rightarrow> finding" where
  "comparePartPresence before after =
     (if \<not> both_parts before then add_finding ''multipart_alternative'' StatusSkipped NotAlternative
      else if both_parts after then add_finding ''multipart_alternative'' StatusPass BothParts
      else add_finding ''multipart_alternative'' StatusFail Collapsed)"

definition extractionEqual :: "result \<Rightarrow> result \<Rightarrow> bool" where
  "extractionEqual a b \<longleftrightarrow>
     \<not> (rs_otp_best a \<noteq> rs_otp_best b \<or> rs_verify_link_best a \<noteq> rs_verify_link_best b) \<and>
     rs_otp_candidates a = rs_otp_candidates b \<and> length (rs_links a) = length (rs_links b) \<and>
     list_all2 (=) (rs_links a) (rs_links b)"

definition parity_rule :: "result \<Rightarrow> result \<Rightarrow> finding" where
  "parity_rule b a =
     (if extractionEqual b a then add_finding ''extraction_parity'' StatusPass ParitySame
      else add_finding ''extraction_parity'' StatusFail ParityDiffers)"

definition reportHopHeaders :: "relay_message \<Rightarrow> relay_message \<Rightarrow> finding" where
  "reportHopHeaders before after =
     (let added = filter (\<lambda>key. List.member hopHeaders key \<and>
            length (header_values before key) < length (header_values after key))
          (map fst (rm_headers after))
      in if added = [] then add_finding ''hop_headers'' StatusSkipped NoHops
         else add_finding ''hop_headers'' StatusPass (HopsAdded (sort added)))"

definition relay_extract :: "unicode \<Rightarrow> html_and_urls \<Rightarrow> relay_message \<Rightarrow> result" where
  "relay_extract u hu m =
     Extract u hu \<lparr>in_subject = Subject m, in_text = rm_text m, in_html = rm_html m\<rparr>"

definition Compare ::
  "unicode \<Rightarrow> html_and_urls \<Rightarrow> (string \<Rightarrow> string) \<Rightarrow> relay_message \<Rightarrow> relay_message \<Rightarrow> finding list" where
  "Compare u hu url_path before after =
     (let b = relay_extract u hu before; a = relay_extract u hu after
      in [otp_rule b a,
          compareLinks hu url_path b a,
          verify_rule b a,
          compareHeaders u before after,
          comparePart ''text_part_preserved'' (rm_text before) (rm_text after) (canonicalText u),
          comparePart ''html_part_preserved'' (rm_html before) (rm_html after) (canonicalHTML u),
          comparePartPresence before after,
          parity_rule b a,
          reportHopHeaders before after])"

section \<open>What a pass means\<close>

definition nine_rules :: "string list" where
  "nine_rules = [''otp_exact'', ''links_exact'', ''verify_link_exact'', ''headers_preserved'',
     ''text_part_preserved'', ''html_part_preserved'', ''multipart_alternative'',
     ''extraction_parity'', ''hop_headers'']"

text \<open>
  The relay carried the message: the same codes, links and verify link come out of it, the
  identity headers agree up to white space, a part that was there reads the same, and a message
  that had both parts still has both.
\<close>

definition carried :: "unicode \<Rightarrow> html_and_urls \<Rightarrow> relay_message \<Rightarrow> relay_message \<Rightarrow> bool" where
  "carried u hu before after \<longleftrightarrow>
     relay_extract u hu before = relay_extract u hu after \<and>
     list_all (\<lambda>key. canonicalHeader u (join_with '' '' (header_values before key)) =
        canonicalHeader u (join_with '' '' (header_values after key))) preservedHeaders \<and>
     (trim_space (rm_text before) \<noteq> [] \<longrightarrow> canonicalText u (rm_text before) = canonicalText u (rm_text after)) \<and>
     (trim_space (rm_html before) \<noteq> [] \<longrightarrow> canonicalHTML u (rm_html before) = canonicalHTML u (rm_html after)) \<and>
     (both_parts before \<longrightarrow> both_parts after)"

lemma extractionEqual_iff: "extractionEqual a b \<longleftrightarrow> a = b"
proof -
  have "list_all2 (=) xs ys \<longleftrightarrow> xs = ys" for xs ys :: "link list"
    by (simp add: list.rel_eq)
  then show ?thesis unfolding extractionEqual_def by (auto intro: result.equality)
qed

lemma rule_names:
  "fd_rule (otp_rule b a) = ''otp_exact''" "fd_rule (compareLinks hu url_path b a) = ''links_exact''"
  "fd_rule (verify_rule b a) = ''verify_link_exact''" "fd_rule (parity_rule b a) = ''extraction_parity''"
  "fd_rule (compareHeaders u m n) = ''headers_preserved''" "fd_rule (comparePart r s t canon) = r"
  "fd_rule (comparePartPresence m n) = ''multipart_alternative''"
  "fd_rule (reportHopHeaders m n) = ''hop_headers''"
  by (simp_all add: otp_rule_def compareLinks_def verify_rule_def parity_rule_def compareHeaders_def
      comparePart_def comparePartPresence_def reportHopHeaders_def Let_def split: option.split prod.split)

lemma Compare_rules: "map fd_rule (Compare u hu url_path before after) = nine_rules"
  by (simp add: Compare_def nine_rules_def rule_names Let_def)

lemma rule_status:
  "fd_status (otp_rule b b) \<noteq> StatusFail" "fd_status (compareLinks hu url_path b b) \<noteq> StatusFail"
  "fd_status (verify_rule b b) \<noteq> StatusFail" "fd_status (reportHopHeaders m n) \<noteq> StatusFail"
  "fd_status (parity_rule b a) \<noteq> StatusFail \<longleftrightarrow> b = a"
  "fd_status (comparePartPresence m n) \<noteq> StatusFail \<longleftrightarrow> (both_parts m \<longrightarrow> both_parts n)"
  "fd_status (comparePart r s t canon) \<noteq> StatusFail \<longleftrightarrow> (trim_space s \<noteq> [] \<longrightarrow> canon s = canon t)"
  by (simp_all add: otp_rule_def compareLinks_def verify_rule_def reportHopHeaders_def parity_rule_def
      extractionEqual_iff comparePartPresence_def comparePart_def Let_def)

lemma header_rule_status:
  "fd_status (compareHeaders u m n) \<noteq> StatusFail \<longleftrightarrow>
     list_all (\<lambda>key. canonicalHeader u (join_with '' '' (header_values m key)) =
        canonicalHeader u (join_with '' '' (header_values n key))) preservedHeaders"
  by (auto simp: compareHeaders_def header_changed_def Let_def filter_empty_conv list_all_iff)

lemma Compare_OK: "report_OK (Compare u hu url_path before after) \<longleftrightarrow> carried u hu before after"
proof (cases "relay_extract u hu before = relay_extract u hu after")
  case True
  then show ?thesis
    by (simp add: report_OK_def Compare_def carried_def Let_def rule_status header_rule_status)
next
  case False
  then show ?thesis
    by (simp add: report_OK_def Compare_def carried_def Let_def rule_status)
qed

lemma carried_refl: "carried u hu m m"
  by (simp add: carried_def list_all_iff)

end
