(* ===== verification/Json.thy ===== *)
theory Json
  imports EventIds Addresses "HOL-Library.AList"
begin

text \<open>
  JSON values and what \<^verbatim>\<open>encoding/json\<close> makes of them when it decodes into a struct: a
  key picks the field of the same name or, failing that, of the same name up to case; later
  duplicates win; \<^verbatim>\<open>null\<close> leaves a string alone; a value of the wrong type is an error
  that does not stop the decoding. The text syntax of JSON is not modelled here: the operations
  that read or write text take the reader and the printer as arguments.
\<close>

section \<open>Values\<close>

datatype json =
    JNull
  | JBool bool
  | JNumber string
  | JString string
  | JArray "json list"
  | JObject "(string \<times> json) list"

text \<open>The name folding of \<^verbatim>\<open>encoding/json\<close>, for names that are ASCII: besides the letters,
  the Kelvin sign folds to \<^verbatim>\<open>k\<close> and the long s to \<^verbatim>\<open>s\<close>.\<close>

fun foldName :: "string \<Rightarrow> string" where
  "foldName [] = []"
| "foldName [a] = [lower_byte a]"
| "foldName [a, b] =
     (if [a, b] = [CHR 0xC5, CHR 0xBF] then ''s'' else lower_byte a # foldName [b])"
| "foldName (a # b # c # cs) =
     (if [a, b, c] = [CHR 0xE2, CHR 0x84, CHR 0xAA] then CHR ''k'' # foldName cs
      else if [a, b] = [CHR 0xC5, CHR 0xBF] then CHR ''s'' # foldName (c # cs)
      else lower_byte a # foldName (b # c # cs))"

section \<open>Decoding\<close>

text \<open>A field takes the value and the struct so far, and says whether the type was wrong.\<close>

type_synonym 'b json_field = "string \<times> (json \<Rightarrow> 'b \<Rightarrow> 'b \<times> bool)"

definition find_field :: "'b json_field list \<Rightarrow> string \<Rightarrow> 'b json_field option" where
  "find_field fs k =
     (case find (\<lambda>f. fst f = k) fs of
        Some f \<Rightarrow> Some f
      | None \<Rightarrow> find (\<lambda>f. foldName (fst f) = foldName k) fs)"

fun decode_entries ::
  "bool \<Rightarrow> 'b json_field list \<Rightarrow> (string \<times> json) list \<Rightarrow> 'b \<times> bool \<Rightarrow> 'b \<times> bool" where
  "decode_entries strict fs [] acc = acc"
| "decode_entries strict fs ((k, v) # kvs) (b, wrong) =
     (case find_field fs k of
        None \<Rightarrow> decode_entries strict fs kvs (b, wrong \<or> strict)
      | Some f \<Rightarrow>
          (case snd f v b of (b1, w) \<Rightarrow> decode_entries strict fs kvs (b1, wrong \<or> w)))"

definition decode_struct :: "bool \<Rightarrow> 'b json_field list \<Rightarrow> 'b \<Rightarrow> json \<Rightarrow> 'b \<times> bool" where
  "decode_struct strict fs zero j =
     (case j of
        JObject kvs \<Rightarrow> decode_entries strict fs kvs (zero, False)
      | JNull \<Rightarrow> (zero, False)
      | _ \<Rightarrow> (zero, True))"

definition Unmarshal :: "bool \<Rightarrow> 'b json_field list \<Rightarrow> 'b \<Rightarrow> json \<Rightarrow> 'b option" where
  "Unmarshal strict fs zero j =
     (case decode_struct strict fs zero j of (b, wrong) \<Rightarrow> if wrong then None else Some b)"

text \<open>The field types in use.\<close>

definition string_field :: "(string \<Rightarrow> 'b \<Rightarrow> 'b) \<Rightarrow> json \<Rightarrow> 'b \<Rightarrow> 'b \<times> bool" where
  "string_field put v b =
     (case v of JString s \<Rightarrow> (put s b, False) | JNull \<Rightarrow> (b, False) | _ \<Rightarrow> (b, True))"

definition raw_field :: "(json option \<Rightarrow> 'b \<Rightarrow> 'b) \<Rightarrow> json \<Rightarrow> 'b \<Rightarrow> 'b \<times> bool" where
  "raw_field put v b = (put (Some v) b, False)"

text \<open>\<^verbatim>\<open>strconv.ParseInt\<close> on a JSON number.\<close>

definition int64_literal :: "string \<Rightarrow> int option" where
  "int64_literal s =
     (let neg = (take 1 s = ''-''); ds = (if neg then tl s else s);
          n = (if neg then - int (decimal_value ds) else int (decimal_value ds))
      in if ds \<noteq> [] \<and> list_all is_digit ds \<and> - (2 ^ 63) \<le> n \<and> n \<le> max_int64 then Some n else None)"

definition int64_ptr_field :: "(int option \<Rightarrow> 'b \<Rightarrow> 'b) \<Rightarrow> json \<Rightarrow> 'b \<Rightarrow> 'b \<times> bool" where
  "int64_ptr_field put v b =
     (case v of
        JNumber s \<Rightarrow>
          (case int64_literal s of Some i \<Rightarrow> (put (Some i) b, False) | None \<Rightarrow> (put (Some 0) b, True))
      | JNull \<Rightarrow> (put None b, False)
      | _ \<Rightarrow> (put (Some 0) b, True))"

text \<open>A \<^verbatim>\<open>map[string]json.RawMessage\<close>: the last of two equal keys wins.\<close>

definition raw_map :: "(string \<times> json) list \<Rightarrow> string \<rightharpoonup> json" where
  "raw_map kvs = map_of (rev kvs)"

definition map_field :: "('b \<Rightarrow> string \<rightharpoonup> json) \<Rightarrow> ((string \<rightharpoonup> json) \<Rightarrow> 'b \<Rightarrow> 'b) \<Rightarrow> json \<Rightarrow> 'b \<Rightarrow> 'b \<times> bool"
where
  "map_field get put v b =
     (case v of
        JObject kvs \<Rightarrow> (put (get b ++ raw_map kvs) b, False)
      | JNull \<Rightarrow> (put Map.empty b, False)
      | _ \<Rightarrow> (b, True))"

text \<open>\<^verbatim>\<open>json.Marshal\<close> of such a map: the entries in the order of their keys.\<close>

definition sorted_entries :: "(string \<times> json) list \<Rightarrow> (string \<times> json) list" where
  "sorted_entries kvs = sort_key fst (AList.clearjunk (rev kvs))"

lemma sorted_entries_keys: "fst ` set (sorted_entries kvs) = fst ` set kvs"
  using clearjunk_keys_set [of "rev kvs"] by (simp add: sorted_entries_def)

lemma sorted_entries_map: "map_of (sorted_entries kvs) = raw_map kvs"
proof -
  have d: "distinct (map fst (sorted_entries kvs))"
    by (simp add: sorted_entries_def distinct_map inj_on_def)
       (metis distinct_clearjunk distinct_map inj_on_def)
  have "set (sorted_entries kvs) = set (AList.clearjunk (rev kvs))" by (simp add: sorted_entries_def)
  then have "map_of (sorted_entries kvs) = map_of (AList.clearjunk (rev kvs))"
    using d by (metis distinct_clearjunk map_of_inject_set)
  then show ?thesis by (simp add: raw_map_def map_of_clearjunk)
qed

text \<open>\<^verbatim>\<open>json.Unmarshal\<close> into a string and into such a map.\<close>

definition string_of :: "json option \<Rightarrow> string option" where
  "string_of j = (case j of Some (JString s) \<Rightarrow> Some s | Some JNull \<Rightarrow> Some [] | _ \<Rightarrow> None)"

definition entries_of :: "json option \<Rightarrow> (string \<times> json) list option" where
  "entries_of j = (case j of Some (JObject kvs) \<Rightarrow> Some kvs | Some JNull \<Rightarrow> Some [] | _ \<Rightarrow> None)"

text \<open>A strict decoding that succeeds has met only keys of the struct.\<close>

lemma decode_entries_wrong: "snd (decode_entries strict fs kvs (b, True))"
  by (induction strict fs kvs "(b, True)" arbitrary: b rule: decode_entries.induct)
     (auto split: option.split prod.split)

lemma decode_entries_known:
  "\<not> snd (decode_entries True fs kvs (b, w)) \<Longrightarrow> \<forall>(k, v) \<in> set kvs. find_field fs k \<noteq> None"
  by (induction True fs kvs "(b, w)" arbitrary: b w rule: decode_entries.induct)
     (auto simp: decode_entries_wrong split: option.splits prod.splits)

lemma Unmarshal_known:
  "Unmarshal True fs zero (JObject kvs) = Some b \<Longrightarrow> \<forall>(k, v) \<in> set kvs. find_field fs k \<noteq> None"
  using decode_entries_known [of fs kvs zero False]
  by (auto simp: Unmarshal_def decode_struct_def split: if_splits prod.splits)

end
