(* ===== verification/Seeding.thy ===== *)
theory Seeding
  imports Service Json
begin

text \<open>
  The seed adapter over HTTP: \<^verbatim>\<open>internal/personas/seed.go\<close>. \<^verbatim>\<open>url.Parse\<close>, the HTTP
  client and the text syntax of JSON are arguments; what the adapter makes of an answer is
  modelled.
\<close>

section \<open>The endpoint\<close>

record seed_url =
  su_scheme :: string
  su_host :: string
  su_userinfo :: bool
  su_text :: string

definition seed_default_timeout :: duration where "seed_default_timeout = 30 * second"

record http_seeder =
  hs_url :: string
  hs_timeout :: duration

datatype seed_url_error = SeedURLUnparsed | SeedURLRelative | SeedURLScheme | SeedURLNoHost | SeedURLUserinfo

definition NewHTTPSeeder ::
  "(string \<Rightarrow> seed_url option) \<Rightarrow> string \<Rightarrow> duration \<Rightarrow> seed_url_error + http_seeder" where
  "NewHTTPSeeder url_parse raw timeout =
     (case url_parse raw of
        None \<Rightarrow> Inl SeedURLUnparsed
      | Some u \<Rightarrow>
          if su_scheme u = [] then Inl SeedURLRelative
          else if su_scheme u \<noteq> ''http'' \<and> su_scheme u \<noteq> ''https'' then Inl SeedURLScheme
          else if su_host u = [] then Inl SeedURLNoHost
          else if su_userinfo u then Inl SeedURLUserinfo
          else Inr \<lparr>hs_url = su_text u,
                    hs_timeout = (if timeout \<le> 0 then seed_default_timeout else timeout)\<rparr>)"

section \<open>One call\<close>

definition maxSeedResponse :: nat where "maxSeedResponse = 65536"

text \<open>What is sent: the URL, the body and the idempotency key.\<close>

record seed_post =
  sp_url :: string
  sp_body :: json
  sp_key :: string

definition mode_text :: "mode \<Rightarrow> string" where
  "mode_text md = (case md of ModeEphemeral \<Rightarrow> ''ephemeral'' | ModePooled \<Rightarrow> ''pooled'' | ModeOther m \<Rightarrow> m)"

definition seedPayload :: "seed_request \<Rightarrow> json" where
  "seedPayload q =
     JObject [(''run_id'', JString (sq_run q)), (''lease_id'', JString (sq_lease q)),
       (''identity_id'', JString (sq_identity q)), (''addr'', JString (sq_addr q)),
       (''role'', JString (sq_role q)), (''mode'', JString (mode_text (sq_mode q)))]"

text \<open>
  What comes back: nothing (an error, a timeout, a redirect, which is refused), a status with a
  body, or a status whose body could not be read.
\<close>

datatype seed_reply = NoReply | Reply int "string option"

record seed_response =
  sa_status :: string
  sa_fingerprint :: string

definition seed_response_fields :: "seed_response json_field list" where
  "seed_response_fields =
     [(''status'', string_field (\<lambda>s a. a\<lparr>sa_status := s\<rparr>)),
      (''fingerprint'', string_field (\<lambda>s a. a\<lparr>sa_fingerprint := s\<rparr>))]"

definition seed_answer :: "(string \<Rightarrow> json option) \<Rightarrow> seed_reply \<Rightarrow> seed_result option" where
  "seed_answer parse reply =
     (case reply of
        NoReply \<Rightarrow> None
      | Reply st body \<Rightarrow>
          if st \<noteq> 200 then None
          else case body of
            None \<Rightarrow> None
          | Some b \<Rightarrow>
              let raw = take (maxSeedResponse + 1) b
              in if maxSeedResponse < length raw then None
                 else case parse raw of
                   None \<Rightarrow> None
                 | Some j \<Rightarrow>
                     (case Unmarshal False seed_response_fields \<lparr>sa_status = [], sa_fingerprint = []\<rparr> j of
                        None \<Rightarrow> None
                      | Some a \<Rightarrow>
                          if sa_status a = ''seeded''
                          then Some \<lparr>sr_status = SeedSeeded, sr_fingerprint = sa_fingerprint a\<rparr>
                          else if sa_status a = ''skipped''
                          then Some \<lparr>sr_status = SeedSkipped, sr_fingerprint = sa_fingerprint a\<rparr>
                          else None))"

definition Seed ::
  "(string \<Rightarrow> json option) \<Rightarrow> (seed_post \<Rightarrow> seed_reply) \<Rightarrow> http_seeder \<Rightarrow> seeder" where
  "Seed parse send h q =
     seed_answer parse (send \<lparr>sp_url = hs_url h, sp_body = seedPayload q, sp_key = sq_key q\<rparr>)"

text \<open>
  An account counts as ready only on the word of the configured endpoint: a 200 within the cap
  whose JSON says seeded or skipped.
\<close>

definition endpoint_said :: "(string \<Rightarrow> json option) \<Rightarrow> seed_reply \<Rightarrow> seed_result \<Rightarrow> bool" where
  "endpoint_said parse reply r \<longleftrightarrow>
     (\<exists>b j a. reply = Reply 200 (Some b) \<and> length b \<le> maxSeedResponse \<and> parse b = Some j \<and>
        Unmarshal False seed_response_fields \<lparr>sa_status = [], sa_fingerprint = []\<rparr> j = Some a \<and>
        sr_fingerprint r = sa_fingerprint a \<and>
        (sa_status a = ''seeded'' \<and> sr_status r = SeedSeeded \<or>
         sa_status a = ''skipped'' \<and> sr_status r = SeedSkipped))"

lemma seed_answer_said: "seed_answer parse reply = Some r \<longleftrightarrow> endpoint_said parse reply r"
proof -
  have t: "length (take (maxSeedResponse + 1) b) \<le> maxSeedResponse \<longleftrightarrow> length b \<le> maxSeedResponse" for b :: string
    by (simp add: min_def)
  show ?thesis
    unfolding seed_answer_def endpoint_said_def Let_def
    by (cases r) (auto simp: t [unfolded not_less [symmetric]] split: seed_reply.split option.split)
qed

lemma NewHTTPSeeder_ok:
  "NewHTTPSeeder url_parse raw timeout = Inr h \<Longrightarrow>
     \<exists>u. url_parse raw = Some u \<and> hs_url h = su_text u \<and> su_scheme u \<in> {''http'', ''https''} \<and>
       su_host u \<noteq> [] \<and> \<not> su_userinfo u \<and> 0 < hs_timeout h"
  by (auto simp: NewHTTPSeeder_def seed_default_timeout_def second_def split: option.splits if_splits)

end
