(* ===== verification/Api.thy ===== *)
theory Api
  imports ClaimPath Accounts "HOL-Library.Word"
begin

text \<open>
  The HTTP surface: \<^verbatim>\<open>internal/api\<close>. A request is its host, its headers, its method, the
  segments of its path and its body; a response is a status and a typed body. The middleware, the
  credential lookup, the authorisation of a run or a lease and every handler are definitions; the
  store and the lease service behind them are those of the other theories.

  Arguments of the model (record \<open>api_world\<close>): the digest of a credential, the lower case of a
  string, the host \<^verbatim>\<open>url.Parse\<close> finds in an origin, the JSON decoders, and what the
  operations behind the handlers take from outside.
\<close>

section \<open>Requests and responses\<close>

datatype api_code = codeUnauthorized | codeForbidden | codeNotFound | codeBadRequest
  | codePayloadTooBig | codeHostRejected | codeOriginRejected | codeInternal
  | codePooledPolicyMissing | codeRunNotActive | codeLeaseSeedFailed

text \<open>\<^verbatim>\<open>evidenceEvent\<close>, and the bodies a route answers with.\<close>

record evidence_event =
  ee_ts :: time
  ee_actor :: actor
  ee_run :: ident
  ee_detail :: event

record lease_body =
  lb_grant :: grant
  lb_policy_ms :: "int option"

record claim_body =
  cb_reason :: reason
  cb_claim :: ident
  cb_message :: ident
  cb_value :: string
  cb_timed_out :: bool
  cb_waited_ms :: int

datatype body =
    NoBody
  | ErrorBody api_code string
  | HealthBody string string nat string mode bool
  | RunCreated ident string time time
  | RunEnded ident run_state string
  | Evidence ident "evidence_event list"
  | LeaseGranted lease_body
  | ClaimAnswered claim_body
  | NotRouted

record response =
  rp_status :: nat
  rp_body :: body

definition writeJSON :: "nat \<Rightarrow> body \<Rightarrow> response" where
  "writeJSON status b = \<lparr>rp_status = status, rp_body = b\<rparr>"

definition writeError :: "nat \<Rightarrow> api_code \<Rightarrow> string \<Rightarrow> response" where
  "writeError status code message = writeJSON status (ErrorBody code message)"

text \<open>The request bodies, with the zero value an absent body decodes to.\<close>

record end_request =
  er_state :: string
  er_reason :: string

record acquire_request =
  aq_role :: string
  aq_mode :: string

record claim_body_request =
  cq_kind :: string
  cq_key :: string
  cq_timeout_ms :: "64 word"

datatype 'b decoded = Decoded 'b | NothingToDecode | BodyTooLarge | NotJSON

record request =
  rq_host :: string
  rq_origin :: string
  rq_authorization :: string
  rq_method :: string
  rq_path :: "string list"
  rq_body :: string

text \<open>\<^verbatim>\<open>limitBody\<close>: what a handler can read, and whether more was cut off.\<close>

definition MaxRequestBytes :: nat where "MaxRequestBytes = 65536"

definition limitBody :: "string \<Rightarrow> string \<times> bool" where
  "limitBody b = (take MaxRequestBytes b, MaxRequestBytes < length b)"

type_synonym 'b decoder = "string \<times> bool \<Rightarrow> 'b decoded"

text \<open>\<^verbatim>\<open>decodeJSON\<close>: an absent body leaves the zero value.\<close>

definition decodeJSON :: "'b decoder \<Rightarrow> 'b \<Rightarrow> request \<Rightarrow> response + 'b" where
  "decodeJSON dec zero rq =
     (case dec (limitBody (rq_body rq)) of
        Decoded b \<Rightarrow> Inr b
      | NothingToDecode \<Rightarrow> Inr zero
      | BodyTooLarge \<Rightarrow> Inl (writeError 413 codePayloadTooBig ''the request body is too large'')
      | NotJSON \<Rightarrow> Inl (writeError 400 codeBadRequest ''the request body is not valid JSON''))"

record api_world =
  wd_digest :: "string \<Rightarrow> string"
  wd_lower :: "string \<Rightarrow> string"
  wd_origin_host :: "string \<Rightarrow> string option"
  wd_end :: "end_request decoder"
  wd_acquire :: "acquire_request decoder"
  wd_claim :: "claim_body_request decoder"
  wd_random :: string
  wd_suffix :: string
  wd_meanwhile :: "store \<Rightarrow> store"
  wd_decode :: "string \<Rightarrow> result option"
  wd_surroundings :: surroundings

record server =
  sr_service :: service
  sr_project :: ident
  sr_hosts :: "string list"
  sr_version :: string

section \<open>Hosts\<close>

definition trim_brackets :: "string \<Rightarrow> string" where
  "trim_brackets h = trim_suffix '']'' (trim_prefix ''['' h)"

definition normalizeHost :: "api_world \<Rightarrow> string \<Rightarrow> string" where
  "normalizeHost w h = trim_brackets (trim_suffix ''.'' (wd_lower w (trim_space h)))"

text \<open>\<^verbatim>\<open>net.SplitHostPort\<close>: the host in front of the last colon, or an error.\<close>

fun first_index :: "char \<Rightarrow> string \<Rightarrow> nat option" where
  "first_index c [] = None"
| "first_index c (x # xs) = (if x = c then Some 0 else map_option Suc (first_index c xs))"

definition SplitHost :: "string \<Rightarrow> string option" where
  "SplitHost hp =
     (case last_index (CHR '':'') hp of
        None \<Rightarrow> None
      | Some i \<Rightarrow>
          if hp ! 0 = CHR ''['' then
            (case first_index (CHR '']'') hp of
               None \<Rightarrow> None
             | Some e \<Rightarrow>
                 if e + 1 \<noteq> i \<or> CHR ''['' \<in> set (drop 1 hp) \<or> CHR '']'' \<in> set (drop (e + 1) hp) then None
                 else Some (take (e - 1) (drop 1 hp)))
          else if CHR '':'' \<in> set (take i hp) \<or> CHR ''['' \<in> set hp \<or> CHR '']'' \<in> set hp then None
          else Some (take i hp))"

definition hostAllowed :: "api_world \<Rightarrow> server \<Rightarrow> string \<Rightarrow> bool" where
  "hostAllowed w sv host \<longleftrightarrow>
     host \<noteq> [] \<and>
     (let h = (case SplitHost host of Some h \<Rightarrow> h | None \<Rightarrow> host)
      in List.member (sr_hosts sv) (trim_brackets (wd_lower w (trim_suffix ''.'' h))))"

definition originAllowed :: "api_world \<Rightarrow> server \<Rightarrow> string \<Rightarrow> bool" where
  "originAllowed w sv origin \<longleftrightarrow>
     (case wd_origin_host w origin of None \<Rightarrow> False | Some h \<Rightarrow> h \<noteq> [] \<and> hostAllowed w sv h)"

definition checkHostAndOrigin :: "api_world \<Rightarrow> server \<Rightarrow> request \<Rightarrow> response option" where
  "checkHostAndOrigin w sv rq =
     (if \<not> hostAllowed w sv (rq_host rq) then
        Some (writeError 403 codeHostRejected ''this Host is not allowed to reach this server'')
      else if rq_origin rq \<noteq> [] \<and> \<not> originAllowed w sv (rq_origin rq) then
        Some (writeError 403 codeOriginRejected ''cross-site requests are not accepted'')
      else None)"

section \<open>The server\<close>

definition defaultAllowedHosts :: "string list" where
  "defaultAllowedHosts = [''localhost'', ''127.0.0.1'', ''::1'']"

record api_config =
  ag_service :: "service option"
  ag_project :: ident
  ag_hosts :: "string list"
  ag_version :: string

definition NewServer :: "api_world \<Rightarrow> api_config \<Rightarrow> err + server" where
  "NewServer w cfg =
     (case ag_service cfg of
        None \<Rightarrow> Inl ErrInvalidArgument
      | Some sv \<Rightarrow>
          if ag_project cfg = [] then Inl ErrInvalidArgument
          else let hosts = (if ag_hosts cfg = [] then defaultAllowedHosts else ag_hosts cfg)
               in Inr \<lparr>sr_service = sv, sr_project = ag_project cfg,
                       sr_hosts = map (normalizeHost w) hosts, sr_version = ag_version cfg\<rparr>)"

section \<open>Principals\<close>

datatype principal_kind = principalNone | principalProject | principalRun

record principal =
  pr_kind :: principal_kind
  pr_project :: ident
  pr_run :: ident

definition ownsRun :: "principal \<Rightarrow> run \<Rightarrow> bool" where
  "ownsRun p r \<longleftrightarrow>
     \<not> (pr_project p = [] \<or> run_project r \<noteq> pr_project p) \<and>
     (case pr_kind p of
        principalProject \<Rightarrow> True
      | principalRun \<Rightarrow> pr_run p = run_id r
      | principalNone \<Rightarrow> False)"

text \<open>No letter of the scheme folds to anything but its own two cases.\<close>

definition bearerToken :: "request \<Rightarrow> string" where
  "bearerToken rq =
     (let header = rq_authorization rq; n = length ''bearer ''
      in if length header \<le> n \<or> asciiLower (take n header) \<noteq> ''bearer '' then []
         else trim_space (drop n header))"

definition unrecognized :: response where
  "unrecognized = writeError 401 codeUnauthorized ''unrecognized credential''"

definition authenticate :: "api_world \<Rightarrow> server \<Rightarrow> store \<Rightarrow> request \<Rightarrow> response + principal" where
  "authenticate w sv s rq =
     (let token = bearerToken rq;
          served = (\<lambda>p. if pr_project p \<noteq> sr_project sv then Inl unrecognized else Inr p)
      in if token = [] then
           Inl (writeError 401 codeUnauthorized ''this route needs a project bearer or a run token'')
         else if cut_prefix RunTokenPrefix token \<noteq> None then
           (case RunByToken (wd_digest w) s token of
              None \<Rightarrow> Inl unrecognized
            | Some r \<Rightarrow> served \<lparr>pr_kind = principalRun, pr_project = run_project r, pr_run = run_id r\<rparr>)
         else if cut_prefix ProjectBearerPrefix token \<noteq> None then
           (case ProjectByBearer (wd_digest w) s token of
              Inl e \<Rightarrow> Inl unrecognized
            | Inr p \<Rightarrow> served \<lparr>pr_kind = principalProject, pr_project = pj_id p, pr_run = []\<rparr>)
         else Inl unrecognized)"

definition requireProject :: "principal \<Rightarrow> response option" where
  "requireProject p =
     (if pr_kind p \<noteq> principalProject then
        Some (writeError 403 codeForbidden ''this route needs the project bearer'')
      else None)"

definition no_such_run :: response where
  "no_such_run = writeError 404 codeNotFound ''no such run''"
definition no_such_lease :: response where
  "no_such_lease = writeError 404 codeNotFound ''no such lease''"

definition runFor :: "principal \<Rightarrow> store \<Rightarrow> ident \<Rightarrow> response + run" where
  "runFor p s i =
     (if i = [] then Inl (writeError 400 codeBadRequest ''a run id is required'')
      else case Run s i of
        None \<Rightarrow> Inl no_such_run
      | Some r \<Rightarrow> if \<not> ownsRun p r then Inl no_such_run else Inr r)"

definition leaseFor :: "principal \<Rightarrow> store \<Rightarrow> ident \<Rightarrow> response + lease" where
  "leaseFor p s i =
     (if i = [] then Inl (writeError 400 codeBadRequest ''a lease id is required'')
      else case Lease s i of
        None \<Rightarrow> Inl no_such_lease
      | Some l \<Rightarrow>
          (case Run s (ls_run l) of
             None \<Rightarrow> Inl no_such_lease
           | Some r \<Rightarrow> if \<not> ownsRun p r then Inl no_such_lease else Inr l))"

section \<open>Runs and evidence\<close>

definition SchemaVersion :: nat where "SchemaVersion = 6"

definition handleHealth :: "server \<Rightarrow> response" where
  "handleHealth sv =
     writeJSON 200 (HealthBody ''ok'' (sr_version sv) SchemaVersion ''provisional-4a'' ModeEphemeral
       (sv_pooled (sr_service sv) \<noteq> None))"

definition handleCreateRun :: "api_world \<Rightarrow> server \<Rightarrow> principal \<Rightarrow> store \<Rightarrow> response \<times> store" where
  "handleCreateRun w sv p s =
     (case requireProject p of
        Some resp \<Rightarrow> (resp, s)
      | None \<Rightarrow>
          (case ServiceCreateRun (sr_service sv) (wd_digest w) (wd_random w) s of
             (Inl e, s1) \<Rightarrow> (writeError 500 codeInternal ''could not start a run'', s1)
           | (Inr (r, token), s1) \<Rightarrow>
               (writeJSON 201 (RunCreated (run_id r) token (run_checkpoint_at r) (run_expires_at r)), s1)))"

definition end_state :: "string \<Rightarrow> run_state option" where
  "end_state st =
     (if st = ''complete'' \<or> st = [] then Some RunComplete
      else if st = ''failed'' then Some RunFailed else None)"

definition handleEndRun :: "api_world \<Rightarrow> principal \<Rightarrow> ident \<Rightarrow> request \<Rightarrow> store \<Rightarrow> response \<times> store" where
  "handleEndRun w p i rq s =
     (case runFor p s i of
        Inl resp \<Rightarrow> (resp, s)
      | Inr r \<Rightarrow>
          (case decodeJSON (wd_end w) \<lparr>er_state = [], er_reason = []\<rparr> rq of
             Inl resp \<Rightarrow> (resp, s)
           | Inr b \<Rightarrow>
               (case end_state (er_state b) of
                  None \<Rightarrow> (writeError 400 codeBadRequest ''state must be complete or failed'', s)
                | Some st \<Rightarrow>
                    (case ServiceEndRun (run_id r) st (er_reason b) s of
                       (Inl e, s1) \<Rightarrow>
                         (if e = ErrRunNotActive
                          then writeError 409 codeRunNotActive
                                 ''this run already reached a different terminal state''
                          else writeError 500 codeInternal ''could not end this run'', s1)
                     | (Inr _, s1) \<Rightarrow> (writeJSON 200 (RunEnded (run_id r) st (er_reason b)), s1)))))"

definition evidenceLimit :: nat where "evidenceLimit = 1000"

definition evidence_of :: "ledger_entry \<Rightarrow> evidence_event" where
  "evidence_of e = \<lparr>ee_ts = le_ts e, ee_actor = le_actor e, ee_run = le_run e, ee_detail = le_event e\<rparr>"

definition handleRunEvidence :: "principal \<Rightarrow> ident \<Rightarrow> store \<Rightarrow> response" where
  "handleRunEvidence p i s =
     (case runFor p s i of
        Inl resp \<Rightarrow> resp
      | Inr r \<Rightarrow>
          writeJSON 200 (Evidence (run_id r) (map evidence_of
            (ListLedger s \<lparr>lf_project = run_project r, lf_run = run_id r, lf_persona = [],
               lf_since = 0, lf_limit = evidenceLimit\<rparr>))))"

section \<open>Leases\<close>

definition Milliseconds :: "duration \<Rightarrow> int" where
  "Milliseconds d = (if d < 0 then - (- d div millisecond) else d div millisecond)"

definition writeAcquireError :: "err \<Rightarrow> response" where
  "writeAcquireError e =
     (if e = ErrPooledPolicyMissing then
        writeError 409 codePooledPolicyMissing
          ''pooled mode needs a declared delivery policy on this server''
      else if e = ErrRunNotActive then
        writeError 409 codeRunNotActive ''this run is no longer active''
      else if e = ErrNotFound \<or> e = ErrNoIdentityAvailable then
        writeError 404 codeNotFound ''no identity is available for that role''
      else writeError 409 codeLeaseSeedFailed ''the identity could not be prepared for use'')"

definition request_mode :: "string \<Rightarrow> mode option" where
  "request_mode m =
     (if m = ''ephemeral'' \<or> m = [] then Some ModeEphemeral
      else if m = ''pooled'' then Some ModePooled else None)"

definition handleAcquireLease ::
  "api_world \<Rightarrow> server \<Rightarrow> principal \<Rightarrow> ident \<Rightarrow> request \<Rightarrow> store \<Rightarrow> response \<times> store" where
  "handleAcquireLease w sv p i rq s =
     (case runFor p s i of
        Inl resp \<Rightarrow> (resp, s)
      | Inr r \<Rightarrow>
          (case decodeJSON (wd_acquire w) \<lparr>aq_role = [], aq_mode = []\<rparr> rq of
             Inl resp \<Rightarrow> (resp, s)
           | Inr b \<Rightarrow>
               if aq_role b = [] then (writeError 400 codeBadRequest ''a role is required'', s)
               else case request_mode (aq_mode b) of
                 None \<Rightarrow> (writeError 400 codeBadRequest ''mode must be ephemeral or pooled'', s)
               | Some md \<Rightarrow>
                   (case Acquire (sr_service sv) (wd_suffix w) (wd_meanwhile w) (run_id r) (aq_role b) md s of
                      (Inl e, s1) \<Rightarrow> (writeAcquireError e, s1)
                    | (Inr g, s1) \<Rightarrow>
                        (writeJSON 201 (LeaseGranted \<lparr>lb_grant = g,
                           lb_policy_ms = map_option Milliseconds (sv_pooled (sr_service sv))\<rparr>), s1))))"

definition handleReleaseLease :: "server \<Rightarrow> principal \<Rightarrow> ident \<Rightarrow> store \<Rightarrow> response \<times> store" where
  "handleReleaseLease sv p i s =
     (case leaseFor p s i of
        Inl resp \<Rightarrow> (resp, s)
      | Inr l \<Rightarrow>
          if ls_state l = LeaseReleased then (writeJSON 204 NoBody, s)
          else (case Release (sr_service sv) (ls_run l) (ls_id l) s of
                  (Inl e, s1) \<Rightarrow> (writeError 500 codeInternal ''could not release this lease'', s1)
                | (Inr _, s1) \<Rightarrow> (writeJSON 204 NoBody, s1)))"

section \<open>Claims\<close>

definition maxClaimTimeout :: duration where "maxClaimTimeout = 120 * second"

text \<open>
  \<^verbatim>\<open>time.Duration(body.TimeoutMS) * time.Millisecond\<close> is a product of 64-bit integers,
  so it wraps; the range check comes after it.
\<close>

definition claim_timeout :: "64 word \<Rightarrow> duration option" where
  "claim_timeout ms =
     (let timeout = sint (ms * word_of_int millisecond)
      in if timeout < 0 \<or> maxClaimTimeout < timeout then None else Some timeout)"

definition request_kind :: "string \<Rightarrow> response + claim_kind" where
  "request_kind k =
     (if k = ''email_otp'' then Inr ClaimEmailOTP
      else if k = ''magic_link'' then Inr ClaimMagicLink
      else if k = [] then
        Inl (writeError 400 codeBadRequest ''kind is required: email_otp or magic_link'')
      else if k = ''totp'' then Inl (writeError 501 codeBadRequest ''totp is not implemented'')
      else Inl (writeError 400 codeBadRequest ''kind must be email_otp or magic_link''))"

definition claim_answer :: "claimed \<Rightarrow> claim_body" where
  "claim_answer c =
     \<lparr>cb_reason = cm_reason c, cb_claim = cm_claim c,
      cb_message = (if claim_OK c then cm_message c else []),
      cb_value = (if claim_OK c then cm_value c else []),
      cb_timed_out = (cm_reason c = ReasonTimeout), cb_waited_ms = Milliseconds (cm_waited c)\<rparr>"

definition handleClaim ::
  "api_world \<Rightarrow> server \<Rightarrow> principal \<Rightarrow> ident \<Rightarrow> request \<Rightarrow> store \<Rightarrow> response \<times> store" where
  "handleClaim w sv p i rq s =
     (case leaseFor p s i of
        Inl resp \<Rightarrow> (resp, s)
      | Inr l \<Rightarrow>
          (case decodeJSON (wd_claim w) \<lparr>cq_kind = [], cq_key = [], cq_timeout_ms = 0\<rparr> rq of
             Inl resp \<Rightarrow> (resp, s)
           | Inr b \<Rightarrow>
               (case request_kind (cq_kind b) of
                  Inl resp \<Rightarrow> (resp, s)
                | Inr kind \<Rightarrow>
                    if cq_key b = [] then
                      (writeError 400 codeBadRequest
                         ''an idempotency key is required so a retry cannot consume a second message'', s)
                    else case claim_timeout (cq_timeout_ms b) of
                      None \<Rightarrow>
                        (writeError 400 codeBadRequest ''timeout_ms must be between 0 and 120000'', s)
                    | Some timeout \<Rightarrow>
                        (case Claim (sr_service sv) (wd_decode w) (wd_surroundings w)
                            \<lparr>cr_lease = ls_id l, cr_kind = kind, cr_key = cq_key b,
                             cr_timeout = timeout\<rparr> s of
                           (Inl e, s1) \<Rightarrow>
                             (writeError 500 codeInternal ''could not settle this claim'', s1)
                         | (Inr c, s1) \<Rightarrow>
                             (writeJSON 200 (ClaimAnswered (claim_answer c)), s1)))))"

section \<open>Routes\<close>

text \<open>
  The two multiplexers. Paths are the cleaned ones; the redirect a multiplexer answers others with
  is not modelled. A path that no pattern names answers 404, one that a pattern names with
  another method 405, and \<^verbatim>\<open>HEAD\<close> is served by a \<^verbatim>\<open>GET\<close> pattern; everything under
  \<^verbatim>\<open>/api/v1/\<close> is authenticated before the inner one looks at it.
\<close>

definition not_routed :: "nat \<Rightarrow> response" where "not_routed status = writeJSON status NotRouted"

definition is_get :: "string \<Rightarrow> bool" where "is_get m \<longleftrightarrow> m = ''GET'' \<or> m = ''HEAD''"

definition authed ::
  "api_world \<Rightarrow> server \<Rightarrow> principal \<Rightarrow> string list \<Rightarrow> request \<Rightarrow> store \<Rightarrow> response \<times> store" where
  "authed w sv p path rq s =
     (case path of
        [a] \<Rightarrow>
          if a \<noteq> ''runs'' then (not_routed 404, s)
          else if rq_method rq = ''POST'' then handleCreateRun w sv p s
          else (not_routed 405, s)
      | [a, i] \<Rightarrow>
          if a \<noteq> ''leases'' then (not_routed 404, s)
          else if rq_method rq = ''DELETE'' then handleReleaseLease sv p i s
          else (not_routed 405, s)
      | [a, i, b] \<Rightarrow>
          if a = ''runs'' \<and> b = ''end'' then
            (if rq_method rq = ''POST'' then handleEndRun w p i rq s else (not_routed 405, s))
          else if a = ''runs'' \<and> b = ''evidence'' then
            (if is_get (rq_method rq) then (handleRunEvidence p i s, s) else (not_routed 405, s))
          else if a = ''runs'' \<and> b = ''leases'' then
            (if rq_method rq = ''POST'' then handleAcquireLease w sv p i rq s else (not_routed 405, s))
          else if a = ''leases'' \<and> b = ''claims'' then
            (if rq_method rq = ''POST'' then handleClaim w sv p i rq s else (not_routed 405, s))
          else (not_routed 404, s)
      | _ \<Rightarrow> (not_routed 404, s))"

definition routes :: "api_world \<Rightarrow> server \<Rightarrow> request \<Rightarrow> store \<Rightarrow> response \<times> store" where
  "routes w sv rq s =
     (case checkHostAndOrigin w sv rq of
        Some resp \<Rightarrow> (resp, s)
      | None \<Rightarrow>
          if rq_path rq = [''healthz''] then
            (if is_get (rq_method rq) then (handleHealth sv, s) else (not_routed 405, s))
          else (case rq_path rq of
            a # v # b # rest \<Rightarrow>
              if a = ''api'' \<and> v = ''v1'' then
                (case authenticate w sv s rq of
                   Inl resp \<Rightarrow> (resp, s)
                 | Inr p \<Rightarrow> authed w sv p (b # rest) rq s)
              else (not_routed 404, s)
          | _ \<Rightarrow> (not_routed 404, s)))"

lemmas response_defs = writeError_def writeJSON_def not_routed_def

lemma status_simps [simp]:
  "rp_status (writeError st c m) = st" "rp_status (writeJSON st b) = st"
  "rp_status (not_routed st) = st" "rp_body (writeError st c m) = ErrorBody c m"
  "rp_body (writeJSON st b) = b" "rp_body (not_routed st) = NotRouted"
  by (simp_all add: response_defs)

section \<open>A run token stays in its run\<close>

text \<open>The run a path is about, if it names one.\<close>

definition target_run :: "store \<Rightarrow> string list \<Rightarrow> ident option" where
  "target_run s path =
     (case path of
        a # v # kind # i # rest \<Rightarrow>
          if kind = ''runs'' then Some i
          else if kind = ''leases'' then map_option ls_run (Lease s i) else None
      | _ \<Rightarrow> None)"

definition refused_run :: "ident \<Rightarrow> response" where
  "refused_run i =
     (if i = [] then writeError 400 codeBadRequest ''a run id is required'' else no_such_run)"
definition refused_lease :: "ident \<Rightarrow> response" where
  "refused_lease i =
     (if i = [] then writeError 400 codeBadRequest ''a lease id is required'' else no_such_lease)"

text \<open>What a caller with a run token gets for anything that is not its own: no store in it.\<close>

definition foreign_answer :: "string list \<Rightarrow> request \<Rightarrow> response" where
  "foreign_answer path rq =
     (case path of
        [a] \<Rightarrow>
          if a \<noteq> ''runs'' then not_routed 404
          else if rq_method rq = ''POST''
          then writeError 403 codeForbidden ''this route needs the project bearer''
          else not_routed 405
      | [a, i] \<Rightarrow>
          if a \<noteq> ''leases'' then not_routed 404
          else if rq_method rq = ''DELETE'' then refused_lease i else not_routed 405
      | [a, i, b] \<Rightarrow>
          if a = ''runs'' \<and> (b = ''end'' \<or> b = ''leases'') then
            (if rq_method rq = ''POST'' then refused_run i else not_routed 405)
          else if a = ''runs'' \<and> b = ''evidence'' then
            (if is_get (rq_method rq) then refused_run i else not_routed 405)
          else if a = ''leases'' \<and> b = ''claims'' then
            (if rq_method rq = ''POST'' then refused_lease i else not_routed 405)
          else not_routed 404
      | _ \<Rightarrow> not_routed 404)"

lemma refused_status:
  "400 \<le> rp_status (refused_run i)" "400 \<le> rp_status (refused_lease i)"
  by (simp_all add: refused_run_def refused_lease_def no_such_run_def no_such_lease_def)

lemma foreign_status: "400 \<le> rp_status (foreign_answer path rq)"
  by (auto simp: foreign_answer_def refused_status split: list.split)

lemma Run_id: "Run s i = Some r \<Longrightarrow> run_id r = i"
  using find_row_Some [of "\<lambda>r. run_id r = i" "runs s" r] by (simp add: Run_def)

lemma runFor_foreign:
  assumes "pr_kind p = principalRun" and "i \<noteq> pr_run p"
  shows "runFor p s i = Inl (refused_run i)"
  using assms Run_id [of s i]
  by (auto simp: runFor_def ownsRun_def refused_run_def split: option.split)

lemma leaseFor_foreign:
  assumes "pr_kind p = principalRun" and "map_option ls_run (Lease s i) \<noteq> Some (pr_run p)"
  shows "leaseFor p s i = Inl (refused_lease i)"
  using assms Run_id by (auto simp: leaseFor_def ownsRun_def refused_lease_def split: option.split)

lemma authed_foreign:
  assumes k: "pr_kind p = principalRun" and t: "target_run s (a # v # path) \<noteq> Some (pr_run p)"
  shows "authed w sv p path rq s = (foreign_answer path rq, s)"
proof -
  consider (none) "path = []" | (one) x where "path = [x]" | (two) x i where "path = [x, i]"
    | (three) x i b where "path = [x, i, b]" | (more) x i b c rest where "path = x # i # b # c # rest"
    by (metis list.exhaust)
  then show ?thesis
  proof cases
    case none
    then show ?thesis by (simp add: authed_def foreign_answer_def)
  next
    case one
    then show ?thesis
      using k by (simp add: authed_def foreign_answer_def handleCreateRun_def requireProject_def)
  next
    case two
    have "x = ''leases'' \<Longrightarrow> leaseFor p s i = Inl (refused_lease i)"
      using t by (intro leaseFor_foreign [OF k]) (simp add: two target_run_def)
    then show ?thesis by (auto simp: two authed_def foreign_answer_def handleReleaseLease_def)
  next
    case three
    have l: "x = ''leases'' \<Longrightarrow> leaseFor p s i = Inl (refused_lease i)"
      using t by (intro leaseFor_foreign [OF k]) (simp add: three target_run_def)
    have r: "x = ''runs'' \<Longrightarrow> runFor p s i = Inl (refused_run i)"
      using t by (intro runFor_foreign [OF k]) (auto simp: three target_run_def)
    show ?thesis
      unfolding three authed_def foreign_answer_def list.case
        handleEndRun_def handleRunEvidence_def handleAcquireLease_def handleClaim_def
      using l r by auto
  next
    case more
    then show ?thesis by (simp add: authed_def foreign_answer_def)
  qed
qed

text \<open>So two stores that both treat the request as foreign answer it alike and stay as they were.\<close>

lemma foreign_run_invisible:
  assumes "authenticate w sv s rq = Inr p" and "authenticate w sv t rq = Inr p"
    and "pr_kind p = principalRun" and "rq_path rq \<noteq> [''healthz'']"
    and "target_run s (rq_path rq) \<noteq> Some (pr_run p)" and "target_run t (rq_path rq) \<noteq> Some (pr_run p)"
  shows "\<exists>resp. 400 \<le> rp_status resp \<and> routes w sv rq s = (resp, s) \<and> routes w sv rq t = (resp, t)"
proof (cases "checkHostAndOrigin w sv rq")
  case (Some resp)
  then have "400 \<le> rp_status resp" by (auto simp: checkHostAndOrigin_def split: if_splits)
  with Some show ?thesis by (simp add: routes_def)
next
  case None
  show ?thesis
  proof (cases "\<exists>b rest. rq_path rq = ''api'' # ''v1'' # b # rest")
    case True
    then obtain b rest where path: "rq_path rq = ''api'' # ''v1'' # b # rest" by blast
    note f = authed_foreign [OF assms(3), of _ "''api''" "''v1''" "b # rest" w sv rq]
    show ?thesis
      using f [of s] f [of t] assms(1,2,5,6) None path foreign_status by (simp add: routes_def)
  next
    case False
    then have "routes w sv rq u = (not_routed 404, u)" for u
      using None assms(4) by (auto simp: routes_def split: list.splits)
    then show ?thesis by simp
  qed
qed

section \<open>Answers that carry a secret\<close>

definition secretless :: "response \<Rightarrow> bool" where
  "secretless resp \<longleftrightarrow> (\<forall>a. rp_body resp \<noteq> ClaimAnswered a)"

lemma secretless_simps [simp]:
  "secretless (writeError st c m)" "secretless (not_routed st)"
  "secretless no_such_run" "secretless no_such_lease" "secretless unrecognized"
  by (simp_all add: secretless_def no_such_run_def no_such_lease_def unrecognized_def)

lemma refusals_secretless:
  "runFor p s i = Inl resp \<Longrightarrow> secretless resp" "leaseFor p s i = Inl resp \<Longrightarrow> secretless resp"
  "decodeJSON d z rq = Inl resp \<Longrightarrow> secretless resp" "request_kind k = Inl resp \<Longrightarrow> secretless resp"
  "requireProject p = Some resp \<Longrightarrow> secretless resp" "checkHostAndOrigin w sv rq = Some resp \<Longrightarrow> secretless resp"
  "authenticate w sv s rq = Inl resp \<Longrightarrow> secretless resp" "secretless (writeAcquireError e)"
  by (auto simp: runFor_def leaseFor_def decodeJSON_def request_kind_def requireProject_def
      checkHostAndOrigin_def authenticate_def Let_def writeAcquireError_def
      split: if_splits option.splits decoded.splits sum.splits)

lemma handleCreateRun_secretless: "secretless (fst (handleCreateRun w sv p s))"
  by (auto simp: handleCreateRun_def refusals_secretless secretless_def [of "writeJSON st (RunCreated a b c d)" for st a b c d]
      split: option.split prod.split sum.split)

lemma handleEndRun_secretless: "secretless (fst (handleEndRun w p i rq s))"
  by (auto simp: handleEndRun_def refusals_secretless secretless_def [of "writeJSON st (RunEnded a b c)" for st a b c]
      split: option.split prod.split sum.split)

lemma handleRunEvidence_secretless: "secretless (handleRunEvidence p i s)"
  by (auto simp: handleRunEvidence_def refusals_secretless secretless_def [of "writeJSON st (Evidence a b)" for st a b]
      split: sum.split)

lemma handleAcquireLease_secretless: "secretless (fst (handleAcquireLease w sv p i rq s))"
  by (auto simp: handleAcquireLease_def refusals_secretless secretless_def [of "writeJSON st (LeaseGranted a)" for st a]
      split: option.split prod.split sum.split)

lemma handleReleaseLease_secretless: "secretless (fst (handleReleaseLease sv p i s))"
  by (auto simp: handleReleaseLease_def refusals_secretless secretless_def [of "writeJSON st NoBody" for st]
      split: prod.split sum.split)

lemma handleClaim_answer:
  assumes "handleClaim w sv p i rq s = (resp, s')" and "rp_body resp = ClaimAnswered a"
  shows "\<exists>l kind key timeout c. leaseFor p s i = Inr l \<and>
     Claim (sr_service sv) (wd_decode w) (wd_surroundings w)
       \<lparr>cr_lease = ls_id l, cr_kind = kind, cr_key = key, cr_timeout = timeout\<rparr> s = (Inr c, s') \<and>
     a = claim_answer c"
proof -
  have sec: "\<not> secretless resp" using assms(2) by (simp add: secretless_def)
  obtain l where l: "leaseFor p s i = Inr l"
    using assms(1) sec refusals_secretless(2)
    by (cases "leaseFor p s i") (auto simp: handleClaim_def)
  let ?zero = "\<lparr>cq_kind = [], cq_key = [], cq_timeout_ms = 0\<rparr>"
  obtain b where b: "decodeJSON (wd_claim w) ?zero rq = Inr b"
    using assms(1) sec l
    by (cases "decodeJSON (wd_claim w) ?zero rq") (auto simp: handleClaim_def dest: refusals_secretless(3))
  obtain kind where kind: "request_kind (cq_kind b) = Inr kind"
    using assms(1) sec l b refusals_secretless(4)
    by (cases "request_kind (cq_kind b)") (auto simp: handleClaim_def)
  have key: "cq_key b \<noteq> []" using assms(1) sec l b kind by (auto simp: handleClaim_def)
  obtain d where d: "claim_timeout (cq_timeout_ms b) = Some d"
    using assms(1) sec l b kind key by (cases "claim_timeout (cq_timeout_ms b)") (auto simp: handleClaim_def)
  let ?req = "\<lparr>cr_lease = ls_id l, cr_kind = kind, cr_key = cq_key b, cr_timeout = d\<rparr>"
  obtain x s1 where x: "Claim (sr_service sv) (wd_decode w) (wd_surroundings w) ?req s = (x, s1)"
    by (cases "Claim (sr_service sv) (wd_decode w) (wd_surroundings w) ?req s")
  obtain c where c: "x = Inr c"
    using assms(1) sec l b kind key d x by (cases x) (auto simp: handleClaim_def)
  have "resp = writeJSON 200 (ClaimAnswered (claim_answer c))" "s1 = s'"
    using assms(1) l b kind key d x c by (auto simp: handleClaim_def)
  then show ?thesis using assms(2) l x c by auto
qed

lemma authed_answer:
  assumes "authed w sv p path rq s = (resp, s')" and "rp_body resp = ClaimAnswered a"
  shows "\<exists>i. path = [''leases'', i, ''claims''] \<and> handleClaim w sv p i rq s = (resp, s')"
proof -
  have sec: "\<not> secretless resp" using assms(2) by (simp add: secretless_def)
  consider (none) "path = []" | (one) x where "path = [x]" | (two) x i where "path = [x, i]"
    | (three) x i b where "path = [x, i, b]" | (more) x i b c rest where "path = x # i # b # c # rest"
    by (metis list.exhaust)
  then show ?thesis
  proof cases
    case none
    then show ?thesis using assms sec by (auto simp: authed_def)
  next
    case one
    then show ?thesis
      using assms(1) sec handleCreateRun_secretless [of w sv p s] by (auto simp: authed_def split: if_splits)
  next
    case two
    then show ?thesis
      using assms(1) sec handleReleaseLease_secretless [of sv p i s] by (auto simp: authed_def split: if_splits)
  next
    case three
    then show ?thesis
      using assms(1) sec handleEndRun_secretless [of w p i rq s] handleRunEvidence_secretless [of p i s]
        handleAcquireLease_secretless [of w sv p i rq s]
      by (auto simp: authed_def split: if_splits)
  next
    case more
    then show ?thesis using assms sec by (auto simp: authed_def)
  qed
qed

lemma claim_answer_route:
  assumes "routes w sv rq s = (resp, s')" and "rp_body resp = ClaimAnswered a"
  shows "\<exists>p i l kind key timeout c.
     authenticate w sv s rq = Inr p \<and> rq_path rq = [''api'', ''v1'', ''leases'', i, ''claims''] \<and>
     leaseFor p s i = Inr l \<and>
     Claim (sr_service sv) (wd_decode w) (wd_surroundings w)
       \<lparr>cr_lease = ls_id l, cr_kind = kind, cr_key = key, cr_timeout = timeout\<rparr> s = (Inr c, s') \<and>
     a = claim_answer c"
proof -
  have sec: "\<not> secretless resp" using assms(2) by (simp add: secretless_def)
  have host: "checkHostAndOrigin w sv rq = None"
    using assms(1) sec refusals_secretless(6)
    by (cases "checkHostAndOrigin w sv rq") (auto simp: routes_def)
  have health: "rq_path rq \<noteq> [''healthz'']"
    using assms host by (auto simp: routes_def handleHealth_def split: if_splits)
  obtain b rest where path: "rq_path rq = ''api'' # ''v1'' # b # rest"
    using assms(1) sec host health by (auto simp: routes_def split: list.splits if_splits)
  obtain p where p: "authenticate w sv s rq = Inr p"
    using assms(1) sec host path refusals_secretless(7)
    by (cases "authenticate w sv s rq") (auto simp: routes_def)
  have "authed w sv p (b # rest) rq s = (resp, s')"
    using assms(1) host path p by (simp add: routes_def)
  from authed_answer [OF this assms(2)] obtain i where i: "b # rest = [''leases'', i, ''claims'']"
    "handleClaim w sv p i rq s = (resp, s')" by blast
  from handleClaim_answer [OF i(2) assms(2)] i(1) p path show ?thesis by auto
qed

section \<open>Timeouts\<close>

lemma claim_timeout_small:
  assumes "\<bar>sint ms\<bar> \<le> 9223372036854"
  shows "claim_timeout ms = (if 0 \<le> sint ms \<and> sint ms \<le> 120000 then Some (sint ms * 1000000) else None)"
proof -
  have w: "ms * word_of_int 1000000 = word_of_int (sint ms * 1000000)"
    by (simp add: of_int_mult [symmetric])
  have "sint (ms * word_of_int 1000000) = signed_take_bit 63 (sint ms * 1000000)"
    unfolding w signed_of_int by simp
  also have "\<dots> = sint ms * 1000000"
    using assms by (intro signed_take_bit_int_eq_self) auto
  finally have "sint (ms * word_of_int 1000000) = sint ms * 1000000" .
  then show ?thesis
    by (auto simp: claim_timeout_def Let_def maxClaimTimeout_def millisecond_def second_def)
qed

lemma claim_timeout_wraps: "claim_timeout 18446744073710 = Some 448384"
  by (simp add: claim_timeout_def Let_def maxClaimTimeout_def millisecond_def second_def)

section \<open>Credentials\<close>

text \<open>A credential of this project: the digest of the token stands in a row of the store.\<close>

definition live_credential :: "api_world \<Rightarrow> server \<Rightarrow> store \<Rightarrow> string \<Rightarrow> bool" where
  "live_credential w sv s token \<longleftrightarrow>
     list_ex (\<lambda>r. run_token_hash r = wd_digest w token \<and> run_project r = sr_project sv) (runs s) \<or>
     list_ex (\<lambda>q. pw_bearer_hash q = Some (wd_digest w token) \<and> has_id (sr_project sv) q)
       (ac_projects (accounts_of s))"

lemma authenticate_live:
  assumes "authenticate w sv s rq = Inr p"
  shows "live_credential w sv s (bearerToken rq) \<and> pr_project p = sr_project sv"
proof -
  let ?t = "bearerToken rq"
  have t: "?t \<noteq> []" using assms by (auto simp: authenticate_def Let_def)
  show ?thesis
  proof (cases "cut_prefix RunTokenPrefix ?t \<noteq> None")
    case True
    then obtain r where r: "RunByToken (wd_digest w) s ?t = Some r" "run_project r = sr_project sv"
      "pr_project p = run_project r"
      using assms t by (auto simp: authenticate_def Let_def split: option.splits if_splits)
    from find_row_Some [OF r(1) [unfolded RunByToken_def]] r(2,3) show ?thesis
      by (auto simp: live_credential_def list_ex_iff)
  next
    case False
    then obtain q where q: "ProjectByBearer (wd_digest w) s ?t = Inr q" "pj_id q = sr_project sv"
      "pr_project p = pj_id q"
      using assms t by (auto simp: authenticate_def Let_def split: option.splits sum.splits if_splits)
    then obtain row where "find_row (\<lambda>v. pw_bearer_hash v = Some (wd_digest w ?t))
        (ac_projects (accounts_of s)) = Some row" "pw_project row = q"
      using t by (auto simp: ProjectByBearer_def scanProject_def split: option.splits)
    with find_row_Some [OF this(1)] q(2,3) show ?thesis
      by (auto simp: live_credential_def list_ex_iff has_id_def)
  qed
qed

lemma routes_closed:
  assumes "checkHostAndOrigin w sv rq \<noteq> None \<or> \<not> live_credential w sv s (bearerToken rq)"
    and "rq_path rq \<noteq> [''healthz'']"
  shows "\<exists>resp. routes w sv rq s = (resp, s) \<and> 400 \<le> rp_status resp"
proof (cases "checkHostAndOrigin w sv rq")
  case (Some resp)
  then have "400 \<le> rp_status resp" by (auto simp: checkHostAndOrigin_def split: if_splits)
  with Some show ?thesis by (simp add: routes_def)
next
  case None
  then obtain resp where r: "authenticate w sv s rq = Inl resp"
    using assms(1) authenticate_live [of w sv s rq] by (cases "authenticate w sv s rq") auto
  then have "400 \<le> rp_status resp"
    by (auto simp: authenticate_def Let_def unrecognized_def split: if_splits option.splits sum.splits)
  with None r assms(2) show ?thesis by (auto simp: routes_def split: list.split)
qed

text \<open>A value leaves by the claim route only, to a live credential that owns the run of the lease.\<close>

lemma leaseFor_ok:
  "leaseFor p s i = Inr l \<Longrightarrow> \<exists>r. Lease s i = Some l \<and> Run s (ls_run l) = Some r \<and> ownsRun p r"
  by (auto simp: leaseFor_def split: if_splits option.splits)

lemma value_route:
  assumes "routes w sv rq s = (resp, s')" and "rp_body resp = ClaimAnswered a" and "cb_value a \<noteq> []"
  shows "\<exists>p i l r. rq_path rq = [''api'', ''v1'', ''leases'', i, ''claims''] \<and>
     authenticate w sv s rq = Inr p \<and> live_credential w sv s (bearerToken rq) \<and>
     Lease s i = Some l \<and> Run s (ls_run l) = Some r \<and> ownsRun p r \<and> cb_reason a = ReasonOK"
proof -
  obtain p i l c where c: "authenticate w sv s rq = Inr p"
    "rq_path rq = [''api'', ''v1'', ''leases'', i, ''claims'']" "leaseFor p s i = Inr l" "a = claim_answer c"
    using claim_answer_route [OF assms(1,2)] by blast
  obtain r where r: "Lease s i = Some l" "Run s (ls_run l) = Some r" "ownsRun p r"
    using leaseFor_ok [OF c(3)] by blast
  have "cb_reason a = ReasonOK"
    using assms(3) by (simp add: c(4) claim_answer_def claim_OK_def split: if_splits)
  then show ?thesis using c r authenticate_live [OF c(1)] by blast
qed

end
