(* ===== verification/Setup.thy ===== *)
theory Setup
  imports Seeding Api Ingest
begin

text \<open>
  The command line: \<^verbatim>\<open>cmd/authstunt/serve.go\<close> and \<^verbatim>\<open>bearer.go\<close>. Flags arrive
  parsed; files, the terminal and the listeners are part of the command's world. \<^verbatim>\<open>serve\<close> is
  modelled up to the moment it accepts connections.
\<close>

section \<open>Bootstrap\<close>

datatype setup_error =
    EmptyDataDir | ManyProjects nat
  | ProjectMismatch | BadDomain err | AllowlistMismatch
  | StoreFailed err

definition verifyFlags ::
  "(string \<Rightarrow> string option) \<Rightarrow> project \<Rightarrow> string list \<Rightarrow> string \<Rightarrow> string list \<Rightarrow> setup_error option" where
  "verifyFlags to_ascii p allowlist name domains =
     (if name \<noteq> [] \<and> name \<noteq> pj_name p then Some ProjectMismatch
      else if domains = [] then None
      else case canonical_patterns to_ascii domains of
        Inl e \<Rightarrow> Some (BadDomain e)
      | Inr given \<Rightarrow> if given \<noteq> allowlist then Some AllowlistMismatch else None)"

definition bootstrap ::
  "(string \<Rightarrow> string option) \<Rightarrow> string \<Rightarrow> string list \<Rightarrow> store \<Rightarrow>
     (setup_error + project \<times> string list) \<times> store" where
  "bootstrap to_ascii name domains s =
     (case ListProjects s of
        [] \<Rightarrow>
          if name = [] \<or> domains = [] then (Inl EmptyDataDir, s)
          else (case CreateProject name s of
            (Inl e, s1) \<Rightarrow> (Inl (StoreFailed e), s1)
          | (Inr p, s1) \<Rightarrow>
              (case SetAllowlist to_ascii (pj_id p) domains s1 of
                 (Inl e, s2) \<Rightarrow> (Inl (StoreFailed e), s2)
               | (Inr _, s2) \<Rightarrow> (Inr (p, Allowlist s2 (pj_id p)), s2)))
      | [p] \<Rightarrow>
          (let allowlist = Allowlist s (pj_id p)
           in case verifyFlags to_ascii p allowlist name domains of
                Some e \<Rightarrow> (Inl e, s)
              | None \<Rightarrow> (Inr (p, allowlist), s))
      | ps \<Rightarrow> (Inl (ManyProjects (length ps)), s))"

text \<open>An initialised directory is read and never changed.\<close>

lemma bootstrap_initialised:
  "ListProjects s \<noteq> [] \<Longrightarrow> bootstrap to_ascii name domains s = (r, s') \<Longrightarrow> s' = s"
  by (auto simp: bootstrap_def Let_def split: list.splits option.splits)

lemma ListProjects_Nil: "ListProjects s = [] \<longleftrightarrow> ac_projects (accounts_of s) = []"
proof -
  have "ListProjects s = [] \<longleftrightarrow> length (ListProjects s) = 0" by simp
  then show ?thesis by (simp add: ListProjects_def)
qed

lemma CreateProject_first:
  assumes "ListProjects s = []" "CreateProject name s = (r, s')"
  obtains p where "r = Inr p" "pj_name p = name" "ListProjects s' = [p]"
    "ac_allowlist (accounts_of s') = ac_allowlist (accounts_of s)"
proof -
  obtain i s1 now s2 where n: "NewID s = (i, s1)" "Now s1 = (now, s2)" by (metis surj_pair)
  then have t: "tables s2 = tables s" by (simp add: Now_frame(1) NewID_frame(1))
  then have "ac_projects (accounts_of s2) = []" using assms(1) by (simp add: ListProjects_Nil)
  then show thesis
    using assms(2) n t that
    by (auto simp: CreateProject_def project_conflict_def ListProjects_def Let_def)
qed

lemma SetAllowlist_projects: "SetAllowlist to_ascii i ps s = (r, s') \<Longrightarrow> ListProjects s' = ListProjects s"
  using SetAllowlist_frame by (simp add: ListProjects_def)

text \<open>Starting again with the same flags finds the same project and allowlist.\<close>

lemma bootstrap_again:
  assumes "bootstrap to_ascii name domains s = (Inr (p, allow), s')"
  shows "bootstrap to_ascii name domains s' = (Inr (p, allow), s')"
proof (cases "ListProjects s")
  case Nil
  then obtain s1 u where c: "CreateProject name s = (Inr p, s1)"
    and a: "SetAllowlist to_ascii (pj_id p) domains s1 = (Inr u, s')" "allow = Allowlist s' (pj_id p)"
    and n: "name \<noteq> []" "domains \<noteq> []"
    using assms by (auto simp: bootstrap_def split: if_splits prod.splits sum.splits)
  have p: "pj_name p = name" "ListProjects s1 = [p]"
    using CreateProject_first [OF Nil c] by (metis Inr_inject)+
  obtain cs where "canonical_patterns to_ascii domains = Inr cs" "Allowlist s' (pj_id p) = cs"
    using SetAllowlist_ok [of to_ascii "pj_id p" domains s1 s'] a(1) by auto
  moreover have "ListProjects s' = [p]" using SetAllowlist_projects [OF a(1)] p by simp
  ultimately show ?thesis using p a(2) by (simp add: bootstrap_def verifyFlags_def)
next
  case (Cons q qs)
  then show ?thesis using bootstrap_initialised [OF _ assms] assms by simp
qed

text \<open>
  A first start whose domains are refused leaves the project behind with no allowlist; from then
  on no domains match it.
\<close>

lemma bootstrap_half:
  assumes "bootstrap to_ascii name domains s = (Inl e, s')" "ListProjects s = []" "ListProjects s' \<noteq> []"
    and "ac_allowlist (accounts_of s) = []"
  shows "\<exists>p. ListProjects s' = [p] \<and> Allowlist s' (pj_id p) = []"
proof -
  have ne: "name \<noteq> []" "domains \<noteq> []" using assms(1-3) by (auto simp: bootstrap_def split: if_splits)
  obtain r s1 where c: "CreateProject name s = (r, s1)" by (cases "CreateProject name s")
  obtain p where p: "r = Inr p" "ListProjects s1 = [p]" "ac_allowlist (accounts_of s1) = []"
    using CreateProject_first [OF assms(2) c] assms(4) by metis
  have f: "SetAllowlist to_ascii (pj_id p) domains s1 = (Inl (case e of StoreFailed x \<Rightarrow> x), s')"
    using assms(1,2) ne c p(1) by (auto simp: bootstrap_def split: prod.splits sum.splits)
  have "tables s' = tables s1" by (rule SetAllowlist_failed [OF f])
  then have "Allowlist s' (pj_id p) = []" using p(3) by (simp add: Allowlist_def)
  then show ?thesis using SetAllowlist_projects [OF f] p(2) by simp
qed

lemma canonical_patterns_nonempty:
  "canonical_patterns to_ascii ps = Inr [] \<Longrightarrow> ps = []"
  by (cases ps) (auto split: option.splits sum.splits)

lemma bootstrap_stuck:
  assumes "ListProjects s = [p]" "Allowlist s (pj_id p) = []" "domains \<noteq> []"
  shows "\<exists>e. fst (bootstrap to_ascii name domains s) = Inl e"
  using assms canonical_patterns_nonempty [of to_ascii domains]
  by (auto simp: bootstrap_def verifyFlags_def Let_def split: sum.splits option.splits)

section \<open>Starting the server\<close>

record serve_options =
  so_project :: string
  so_domains :: "string list"
  so_api_listen :: string
  so_api_hosts :: "string list"
  so_seed_url :: string
  so_cooldown :: duration
  so_pooled_latency :: duration

text \<open>\<^verbatim>\<open>guardAPIBind\<close>. Whether a literal address is a loopback one is an argument.\<close>

datatype bind_error = NotHostPort | EveryInterface | NotLoopback

definition guardAPIBind :: "(string \<Rightarrow> bool option) \<Rightarrow> serve_options \<Rightarrow> bind_error option" where
  "guardAPIBind ip_loopback o' =
     (case SplitHost (so_api_listen o') of
        None \<Rightarrow> Some NotHostPort
      | Some host \<Rightarrow>
          if so_api_hosts o' \<noteq> [] then None
          else if host = [] then Some EveryInterface
          else case ip_loopback host of
            None \<Rightarrow> Some NotLoopback
          | Some lo \<Rightarrow> if lo then None else Some NotLoopback)"

definition requireBearer :: "store \<Rightarrow> project \<Rightarrow> err option" where
  "requireBearer s p =
     (case ProjectHasBearer s (pj_id p) of
        Inl e \<Rightarrow> Some e
      | Inr has \<Rightarrow> if has then None else Some ErrNotFound)"

datatype serve_error =
    BootFailed setup_error | SeedURLRefused seed_url_error | ServiceRefused err
  | SweepFailed err | IngestRefused | SMTPListenFailed
  | BindRefused bind_error | BearerRefused err | APIRefused err | APIListenFailed

record serve_env =
  sn_to_ascii :: "string \<Rightarrow> string option"
  sn_url_parse :: "string \<Rightarrow> seed_url option"
  sn_seeder :: "http_seeder \<Rightarrow> seeder"
  sn_ip_loopback :: "string \<Rightarrow> bool option"
  sn_smtp_ok :: bool
  sn_api_ok :: bool
  sn_api :: api_world
  sn_version :: string
  sn_ingest :: "project \<Rightarrow> string list \<Rightarrow> ingest"
  sn_detail :: "job \<Rightarrow> string"

definition newLeaseService ::
  "serve_env \<Rightarrow> serve_options \<Rightarrow> project \<Rightarrow> string list \<Rightarrow> serve_error + service" where
  "newLeaseService env o' p allowlist =
     (let cfg = (\<lambda>seeder. \<lparr>cfg_store = True, cfg_project = pj_id p, cfg_allowlist = allowlist,
            cfg_seeder = seeder, cfg_run_ttl = 0, cfg_lease_ttl = 0,
            cfg_pooled = (if 0 < so_pooled_latency o' then Some (so_pooled_latency o') else None),
            cfg_cooldown = so_cooldown o', cfg_claim_ttl = 0, cfg_bus = True\<rparr>);
          build = (\<lambda>seeder. case New (sn_to_ascii env) (cfg seeder) of
            Inl e \<Rightarrow> Inl (ServiceRefused e) | Inr sv \<Rightarrow> Inr sv)
      in if so_seed_url o' = [] then build None
         else case NewHTTPSeeder (sn_url_parse env) (so_seed_url o') seed_default_timeout of
           Inl e \<Rightarrow> Inl (SeedURLRefused e)
         | Inr h \<Rightarrow> build (Some (sn_seeder env h)))"

definition warnIfPoolIsEmpty :: "store \<Rightarrow> project \<Rightarrow> service \<Rightarrow> bool" where
  "warnIfPoolIsEmpty s p sv \<longleftrightarrow>
     cap_pooled (Capabilities sv) \<and> CountPooledIdentities s (pj_id p) = 0"

definition startAPI ::
  "serve_env \<Rightarrow> serve_options \<Rightarrow> store \<Rightarrow> service \<Rightarrow> project \<Rightarrow> serve_error + server option" where
  "startAPI env o' s sv p =
     (if so_api_listen o' = [] then Inr None
      else case guardAPIBind (sn_ip_loopback env) o' of
        Some e \<Rightarrow> Inl (BindRefused e)
      | None \<Rightarrow>
          (case requireBearer s p of
             Some e \<Rightarrow> Inl (BearerRefused e)
           | None \<Rightarrow>
               (case NewServer (sn_api env)
                   \<lparr>ag_service = Some sv, ag_project = pj_id p, ag_hosts = so_api_hosts o',
                    ag_version = sn_version env\<rparr> of
                  Inl e \<Rightarrow> Inl (APIRefused e)
                | Inr srv \<Rightarrow> if sn_api_ok env then Inr (Some srv) else Inl APIListenFailed)))"

record serving =
  rn_project :: project
  rn_allowlist :: "string list"
  rn_service :: service
  rn_api :: "server option"

text \<open>\<^verbatim>\<open>serve\<close>, up to \<^verbatim>\<open>srv.Serve\<close>. The workers that settle recovered messages run
  within \<open>Recover\<close>.\<close>

definition serve_boot :: "serve_env \<Rightarrow> serve_options \<Rightarrow> world \<Rightarrow> (serve_error + serving) \<times> world" where
  "serve_boot env o' w =
     (case bootstrap (sn_to_ascii env) (so_project o') (so_domains o') (w_store w) of
        (Inl e, s1) \<Rightarrow> (Inl (BootFailed e), w\<lparr>w_store := s1\<rparr>)
      | (Inr (p, allowlist), s1) \<Rightarrow>
          (case NextEventGeneration s1 of
             (g, s2) \<Rightarrow>
               (let w2 = w\<lparr>w_store := s2, w_bus := NewBus g, w_stopping := False\<rparr>
                in case newLeaseService env o' p allowlist of
                     Inl e \<Rightarrow> (Inl e, w2)
                   | Inr sv \<Rightarrow>
                       (case Sweep s2 of
                          (Inl e, s3) \<Rightarrow> (Inl (SweepFailed e), w2\<lparr>w_store := s3\<rparr>)
                        | (Inr n, s3) \<Rightarrow>
                            if pj_id p = [] then (Inl IngestRefused, w2\<lparr>w_store := s3\<rparr>)
                            else let w3 = Recover (sn_ingest env p allowlist) (sn_detail env) (w2\<lparr>w_store := s3\<rparr>)
                            in if \<not> sn_smtp_ok env then (Inl SMTPListenFailed, w3)
                               else case startAPI env o' (w_store w3) sv p of
                                 Inl e \<Rightarrow> (Inl e, w3)
                               | Inr api \<Rightarrow>
                                   (Inr \<lparr>rn_project = p, rn_allowlist = allowlist, rn_service = sv,
                                         rn_api = api\<rparr>, w3)))))"

lemma New_needs_allowlist: "New to_ascii cfg = Inr sv \<Longrightarrow> cfg_allowlist cfg \<noteq> []"
  by (cases "cfg_allowlist cfg") (auto simp: New_def split: if_splits)

lemma newLeaseService_allowlist: "newLeaseService env o' p allowlist = Inr sv \<Longrightarrow> allowlist \<noteq> []"
  by (auto simp: newLeaseService_def Let_def split: if_splits sum.splits dest: New_needs_allowlist)

text \<open>A half-initialised directory cannot be served, whatever the flags and however often.\<close>

definition half_initialised :: "store \<Rightarrow> bool" where
  "half_initialised s \<longleftrightarrow> (\<exists>p. ListProjects s = [p] \<and> Allowlist s (pj_id p) = [])"

lemma half_initialised_generation:
  "NextEventGeneration s = (g, s') \<Longrightarrow> half_initialised s' \<longleftrightarrow> half_initialised s"
  by (auto simp: NextEventGeneration_def half_initialised_def ListProjects_def Allowlist_def Let_def)

lemma serve_stuck:
  assumes "half_initialised (w_store w)"
  shows "\<exists>e w'. serve_boot env o' w = (Inl e, w') \<and> half_initialised (w_store w')"
proof -
  obtain p where p: "ListProjects (w_store w) = [p]" "Allowlist (w_store w) (pj_id p) = []"
    using assms by (auto simp: half_initialised_def)
  obtain r s1 where b: "bootstrap (sn_to_ascii env) (so_project o') (so_domains o') (w_store w) = (r, s1)"
    by (cases "bootstrap (sn_to_ascii env) (so_project o') (so_domains o') (w_store w)")
  have s1: "s1 = w_store w" using bootstrap_initialised [OF _ b] p by simp
  show ?thesis
  proof (cases r)
    case (Inl e)
    then show ?thesis using b s1 assms by (simp add: serve_boot_def)
  next
    case (Inr pa)
    then have "pa = (p, [])"
      using b p by (auto simp: bootstrap_def Let_def split: option.splits)
    moreover obtain e where "newLeaseService env o' p [] = Inl e"
      using newLeaseService_allowlist [of env o' p "[]"] by (cases "newLeaseService env o' p []") auto
    moreover obtain g s2 where g: "NextEventGeneration (w_store w) = (g, s2)"
      by (cases "NextEventGeneration (w_store w)")
    ultimately show ?thesis using b Inr s1 half_initialised_generation [OF g] assms
      by (simp add: serve_boot_def Let_def)
  qed
qed

text \<open>An API that is up has a bearer to ask for, and answers to named hosts or on loopback.\<close>

lemma serve_boot_api:
  assumes "serve_boot env o' w = (Inr r, w')" "rn_api r = Some srv"
  shows "ProjectHasBearer (w_store w') (pj_id (rn_project r)) = Inr True"
    and "so_api_hosts o' \<noteq> [] \<or>
      (\<exists>host. SplitHost (so_api_listen o') = Some host \<and> sn_ip_loopback env host = Some True)"
proof -
  have s: "startAPI env o' (w_store w') (rn_service r) (rn_project r) = Inr (Some srv)"
    using assms by (auto simp: serve_boot_def Let_def split: prod.splits sum.splits if_splits)
  then show "ProjectHasBearer (w_store w') (pj_id (rn_project r)) = Inr True"
    by (auto simp: startAPI_def requireBearer_def split: if_splits option.splits sum.splits)
  from s have "guardAPIBind (sn_ip_loopback env) o' = None"
    by (auto simp: startAPI_def split: if_splits option.splits)
  then show "so_api_hosts o' \<noteq> [] \<or>
      (\<exists>host. SplitHost (so_api_listen o') = Some host \<and> sn_ip_loopback env host = Some True)"
    by (auto simp: guardAPIBind_def split: option.splits if_splits)
qed

end
