(* ===== verification/BearerCli.thy ===== *)
theory BearerCli
  imports Setup
begin

text \<open>
  \<^verbatim>\<open>authstunt project bearer\<close>: \<^verbatim>\<open>cmd/authstunt/bearer.go\<close>. The command's world is the
  store, the files by their path and what was written on the two streams; what the terminal, the
  environment and the disk answer is the argument \<open>env\<close>.
\<close>

section \<open>The world of the command\<close>

datatype bearer_operation = OpProvision | OpRotate | OpRevoke

record bearer_options =
  bo_project :: string
  bo_domains :: "string list"
  bo_data_dir :: string
  bo_allow_non_tty :: bool
  bo_out :: string

record cli_env =
  ce_tty :: bool
  ce_ci :: string
  ce_home :: "string option"
  ce_unopenable :: "string \<Rightarrow> bool"
  ce_file_fails :: bool
  ce_stdout_fails :: bool
  ce_digest :: "string \<Rightarrow> string"
  ce_random :: string
  ce_to_ascii :: "string \<Rightarrow> string option"

datatype cli_note =
    RevealWarning | PreviousCutOff | InFile string | StoreThisNow | NothingToRevoke | BearerIsRevoked

record cli_world =
  cw_store :: store
  cw_files :: "string \<rightharpoonup> string"
  cw_stdout :: "string list"
  cw_notes :: "cli_note list"

datatype cli_error =
    UnknownOperation | RevokeWithOut | NoDataDir | NoHome
  | SetupFailed setup_error | StoreError err
  | AlreadyProvisioned | NothingToRotate
  | OutNotOpened | RevealRefused | MintFailed err
  | LostInFile | LostOnStdout

definition parse_operation :: "string \<Rightarrow> bearer_operation option" where
  "parse_operation s =
     (if s = ''provision'' then Some OpProvision else if s = ''rotate'' then Some OpRotate
      else if s = ''revoke'' then Some OpRevoke else None)"

text \<open>\<^verbatim>\<open>resolveDataDir\<close>, the path elements joined.\<close>

definition resolveDataDir :: "string option \<Rightarrow> string \<Rightarrow> string \<Rightarrow> cli_error + string list" where
  "resolveDataDir home project data_dir =
     (if data_dir \<noteq> [] then Inr [data_dir]
      else if project = [] then Inl NoDataDir
      else case home of None \<Rightarrow> Inl NoHome | Some h \<Rightarrow> Inr [h, ''.authstunt'', project])"

definition inCI :: "cli_env \<Rightarrow> bool" where
  "inCI env \<longleftrightarrow> (let v = trim_space (ce_ci env) in v \<noteq> [] \<and> foldName v \<noteq> ''0'' \<and> foldName v \<noteq> ''false'')"

definition revealPermitted :: "cli_env \<Rightarrow> bool \<Rightarrow> bool" where
  "revealPermitted env allow \<longleftrightarrow> allow \<or> (ce_tty env \<and> \<not> inCI env)"

definition note_to :: "cli_note \<Rightarrow> cli_world \<Rightarrow> cli_world" where
  "note_to n w = w\<lparr>cw_notes := cw_notes w @ [n]\<rparr>"

section \<open>Minting\<close>

text \<open>The destination is secured first: a new file, or a stream that may show the value.\<close>

definition secure_sink ::
  "cli_env \<Rightarrow> bearer_options \<Rightarrow> cli_world \<Rightarrow> (cli_error + string option) \<times> cli_world" where
  "secure_sink env o' w =
     (if bo_out o' \<noteq> [] then
        (if cw_files w (bo_out o') \<noteq> None \<or> ce_unopenable env (bo_out o') then (Inl OutNotOpened, w)
         else (Inr (Some (bo_out o')), w\<lparr>cw_files := (cw_files w)(bo_out o' \<mapsto> [])\<rparr>))
      else if \<not> revealPermitted env (bo_allow_non_tty o') then (Inl RevealRefused, w)
      else if bo_allow_non_tty o' \<and> \<not> revealPermitted env False
      then (Inr None, note_to RevealWarning w)
      else (Inr None, w))"

definition operation_name :: "bearer_operation \<Rightarrow> string" where
  "operation_name op =
     (case op of OpProvision \<Rightarrow> ''provisioned'' | OpRotate \<Rightarrow> ''rotated'' | OpRevoke \<Rightarrow> ''revoked'')"

definition bearer_meta :: "project \<Rightarrow> meta" where
  "bearer_meta p = \<lparr>meta_project = pj_id p, meta_run = [], meta_persona = []\<rparr>"

text \<open>The credential and its entry in the trail, in one transaction.\<close>

definition mint_tx :: "cli_env \<Rightarrow> bearer_operation \<Rightarrow> project \<Rightarrow> string op" where
  "mint_tx env op p =
     tx (\<lambda>s. case SetProjectBearer_tx (ce_digest env) (ce_random env) (pj_id p) s of
          (Inl e, s1) \<Rightarrow> (Inl e, s1)
        | (Inr token, s1) \<Rightarrow>
            (case Write (bearer_meta p) (BearerChanged (operation_name op)) s1 of
               (Inl e, s2) \<Rightarrow> (Inl e, s2)
             | (Inr _, s2) \<Rightarrow> (Inr token, s2)))"

definition newline_char :: char where "newline_char = CHR 0x0A"

definition show_token ::
  "cli_env \<Rightarrow> string option \<Rightarrow> string \<Rightarrow> cli_world \<Rightarrow> (cli_error + unit) \<times> cli_world" where
  "show_token env sink token w =
     (case sink of
        Some path \<Rightarrow>
          (if ce_file_fails env then (Inl LostInFile, w\<lparr>cw_files := (cw_files w)(path := None)\<rparr>)
           else (Inr (), note_to (InFile path)
                  (w\<lparr>cw_files := (cw_files w)(path \<mapsto> token @ [newline_char])\<rparr>)))
      | None \<Rightarrow>
          (let w1 = note_to StoreThisNow w
           in if ce_stdout_fails env then (Inl LostOnStdout, w1)
              else (Inr (), w1\<lparr>cw_stdout := cw_stdout w1 @ [token]\<rparr>)))"

definition mintBearer ::
  "cli_env \<Rightarrow> bearer_operation \<Rightarrow> bearer_options \<Rightarrow> project \<Rightarrow> cli_world \<Rightarrow>
     (cli_error + unit) \<times> cli_world" where
  "mintBearer env op o' p w =
     (case secure_sink env o' w of
        (Inl e, w1) \<Rightarrow> (Inl e, w1)
      | (Inr sink, w1) \<Rightarrow>
          (case mint_tx env op p (cw_store w1) of
             (Inl e, s) \<Rightarrow> (Inl (MintFailed e), w1\<lparr>cw_store := s\<rparr>)
           | (Inr token, s) \<Rightarrow>
               (let w2 = w1\<lparr>cw_store := s\<rparr>
                in show_token env sink token
                     (if op = OpRotate then note_to PreviousCutOff w2 else w2))))"

definition revoke_tx :: "project \<Rightarrow> unit op" where
  "revoke_tx p =
     tx (\<lambda>s. case RevokeProjectBearer_tx (pj_id p) s of
          (Inl e, s1) \<Rightarrow> (Inl e, s1)
        | (Inr _, s1) \<Rightarrow>
            (case Write (bearer_meta p) (BearerChanged (operation_name OpRevoke)) s1 of
               (Inl e, s2) \<Rightarrow> (Inl e, s2)
             | (Inr _, s2) \<Rightarrow> (Inr (), s2)))"

definition revokeBearer :: "project \<Rightarrow> bool \<Rightarrow> cli_world \<Rightarrow> (cli_error + unit) \<times> cli_world" where
  "revokeBearer p has w =
     (if \<not> has then (Inr (), note_to NothingToRevoke w)
      else case revoke_tx p (cw_store w) of
        (Inl e, s) \<Rightarrow> (Inl (StoreError e), w\<lparr>cw_store := s\<rparr>)
      | (Inr _, s) \<Rightarrow> (Inr (), note_to BearerIsRevoked (w\<lparr>cw_store := s\<rparr>)))"

section \<open>The command\<close>

definition runBearerOperation ::
  "cli_env \<Rightarrow> bearer_operation \<Rightarrow> bearer_options \<Rightarrow> cli_world \<Rightarrow> (cli_error + unit) \<times> cli_world"
where
  "runBearerOperation env op o' w =
     (case bootstrap (ce_to_ascii env) (bo_project o') (bo_domains o') (cw_store w) of
        (Inl e, s) \<Rightarrow> (Inl (SetupFailed e), w\<lparr>cw_store := s\<rparr>)
      | (Inr (p, allowlist), s) \<Rightarrow>
          (let w1 = w\<lparr>cw_store := s\<rparr>
           in case ProjectHasBearer s (pj_id p) of
                Inl e \<Rightarrow> (Inl (StoreError e), w1)
              | Inr has \<Rightarrow>
                  (case op of
                     OpRevoke \<Rightarrow> revokeBearer p has w1
                   | OpProvision \<Rightarrow>
                       if has then (Inl AlreadyProvisioned, w1) else mintBearer env OpProvision o' p w1
                   | OpRotate \<Rightarrow>
                       if \<not> has then (Inl NothingToRotate, w1) else mintBearer env OpRotate o' p w1)))"

definition runProject ::
  "cli_env \<Rightarrow> string \<Rightarrow> bearer_options \<Rightarrow> cli_world \<Rightarrow> (cli_error + unit) \<times> cli_world" where
  "runProject env operation o' w =
     (case parse_operation operation of
        None \<Rightarrow> (Inl UnknownOperation, w)
      | Some op \<Rightarrow>
          if op = OpRevoke \<and> bo_out o' \<noteq> [] then (Inl RevokeWithOut, w)
          else case resolveDataDir (ce_home env) (bo_project o') (bo_data_dir o') of
            Inl e \<Rightarrow> (Inl e, w)
          | Inr dir \<Rightarrow> runBearerOperation env op o' w)"

section \<open>What minting guarantees\<close>

lemma Write_accounts: "Write m ev s = (r, s') \<Longrightarrow> accounts_of s' = accounts_of s"
  by (auto simp: Write_def AppendLedger_def Let_def set_ledger_def is_zero_time_def
      dest!: Now_frame(1) split: prod.splits)

lemma mint_tx_ok:
  assumes "mint_tx env op p s = (Inr token, s')"
  shows "token = ProjectBearerPrefix @ ce_random env"
    and "\<exists>q. ProjectByBearer (ce_digest env) s' token = Inr q \<and> pj_id q = pj_id p"
    and "\<exists>s1. SetProjectBearer (ce_digest env) (ce_random env) (pj_id p) s = (Inr token, s1) \<and>
      accounts_of s' = accounts_of s1"
proof -
  obtain s1 where s1: "SetProjectBearer_tx (ce_digest env) (ce_random env) (pj_id p) s = (Inr token, s1)"
    and a: "accounts_of s' = accounts_of s1"
    using assms by (auto simp: mint_tx_def tx_Inr dest: Write_accounts split: prod.splits sum.splits)
  then have b: "SetProjectBearer (ce_digest env) (ce_random env) (pj_id p) s = (Inr token, s1)"
    by (simp add: SetProjectBearer_def tx_Inr)
  show "token = ProjectBearerPrefix @ ce_random env" by (rule SetProjectBearer_ok(1) [OF b])
  show "\<exists>q. ProjectByBearer (ce_digest env) s' token = Inr q \<and> pj_id q = pj_id p"
    using SetProjectBearer_new [OF b] unfolding ProjectByBearer_def a .
  show "\<exists>s1. SetProjectBearer (ce_digest env) (ce_random env) (pj_id p) s = (Inr token, s1) \<and>
      accounts_of s' = accounts_of s1"
    using b a by blast
qed

lemma mint_tx_failed: "mint_tx env op p s = (Inl e, s') \<Longrightarrow> tables s' = tables s"
  by (auto simp: mint_tx_def dest: tx_Inl)

text \<open>Where the value went.\<close>

definition shown :: "bearer_options \<Rightarrow> cli_world \<Rightarrow> cli_world \<Rightarrow> string \<Rightarrow> bool" where
  "shown o' w w' token \<longleftrightarrow>
     (if bo_out o' \<noteq> []
      then cw_files w (bo_out o') = None \<and> cw_stdout w' = cw_stdout w \<and>
        cw_files w' = (cw_files w)(bo_out o' \<mapsto> token @ [newline_char])
      else cw_stdout w' = cw_stdout w @ [token] \<and> cw_files w' = cw_files w)"

lemma secure_sink_cases:
  assumes "secure_sink env o' w = (r, w1)"
  shows "cw_store w1 = cw_store w \<and> cw_stdout w1 = cw_stdout w"
    and "r = Inl e \<Longrightarrow> w1 = w"
    and "r = Inr sink \<Longrightarrow>
      (if bo_out o' \<noteq> [] then sink = Some (bo_out o') \<and> cw_files w (bo_out o') = None \<and>
         cw_files w1 = (cw_files w)(bo_out o' \<mapsto> [])
       else sink = None \<and> cw_files w1 = cw_files w \<and> revealPermitted env (bo_allow_non_tty o'))"
  using assms by (auto simp: secure_sink_def note_to_def split: if_splits)

lemma show_token_ok:
  assumes "show_token env sink token w = (Inr (), w')"
  shows "cw_store w' = cw_store w"
    and "sink = Some path \<Longrightarrow> cw_stdout w' = cw_stdout w \<and> cw_files w' = (cw_files w)(path \<mapsto> token @ [newline_char])"
    and "sink = None \<Longrightarrow> cw_stdout w' = cw_stdout w @ [token] \<and> cw_files w' = cw_files w"
  using assms by (auto simp: show_token_def note_to_def Let_def split: option.splits if_splits)

lemma mintBearer_ok:
  assumes "mintBearer env op o' p w = (Inr (), w')"
  shows "\<exists>s. mint_tx env op p (cw_store w) = (Inr (ProjectBearerPrefix @ ce_random env), s) \<and> cw_store w' = s"
    and "shown o' w w' (ProjectBearerPrefix @ ce_random env)"
proof -
  obtain r w1 where k: "secure_sink env o' w = (r, w1)" by (cases "secure_sink env o' w")
  obtain sink where r: "r = Inr sink" using assms k by (cases r) (auto simp: mintBearer_def)
  note sk = secure_sink_cases [OF k]
  obtain q s where m: "mint_tx env op p (cw_store w) = (q, s)" by (cases "mint_tx env op p (cw_store w)")
  obtain token where q: "q = Inr token" using assms k r m sk(1) by (cases q) (auto simp: mintBearer_def)
  note t = mint_tx_ok(1) [OF m [unfolded q]]
  define w2 where "w2 = (if op = OpRotate then note_to PreviousCutOff (w1\<lparr>cw_store := s\<rparr>) else w1\<lparr>cw_store := s\<rparr>)"
  have w2: "cw_store w2 = s" "cw_files w2 = cw_files w1" "cw_stdout w2 = cw_stdout w1"
    by (simp_all add: w2_def note_to_def)
  have s: "show_token env sink token w2 = (Inr (), w')"
    using assms k r m q sk(1) by (simp add: mintBearer_def w2_def Let_def split: if_splits)
  note ok = show_token_ok [OF s]
  show "\<exists>s. mint_tx env op p (cw_store w) = (Inr (ProjectBearerPrefix @ ce_random env), s) \<and> cw_store w' = s"
    using m q t ok(1) w2(1) by simp
  show "shown o' w w' (ProjectBearerPrefix @ ce_random env)"
    using sk(3) [OF r] sk(1) ok(2,3) w2 t by (auto simp: shown_def split: if_splits)
qed

text \<open>Only a value that could not be shown has replaced the old one.\<close>

lemma mintBearer_failed:
  assumes "mintBearer env op o' p w = (Inl e, w')"
  shows "e = LostInFile \<or> e = LostOnStdout \<or> tables (cw_store w') = tables (cw_store w)"
proof -
  obtain r w1 where k: "secure_sink env o' w = (r, w1)" by (cases "secure_sink env o' w")
  note sk = secure_sink_cases(1) [OF k]
  show ?thesis
  proof (cases r)
    case (Inl d)
    then show ?thesis using assms k sk by (simp add: mintBearer_def)
  next
    case (Inr sink)
    then show ?thesis using assms k sk
      by (auto simp: mintBearer_def show_token_def Let_def dest: mint_tx_failed
          split: prod.splits sum.splits option.splits if_splits)
  qed
qed

text \<open>
  A transaction that fails after \<^verbatim>\<open>--out\<close> was opened leaves the empty file, and the same
  command then stops at it.
\<close>

lemma mint_leaves_file:
  assumes "bo_out o' \<noteq> []" "mintBearer env op o' p w = (Inl (MintFailed e), w')"
  shows "cw_files w' (bo_out o') = Some []" "fst (mintBearer env' op' o' p w') = Inl OutNotOpened"
proof -
  show f: "cw_files w' (bo_out o') = Some []"
    using assms
    by (auto simp: mintBearer_def secure_sink_def show_token_def Let_def note_to_def
        split: prod.splits sum.splits option.splits if_splits)
  then show "fst (mintBearer env' op' o' p w') = Inl OutNotOpened"
    using assms(1) by (simp add: mintBearer_def secure_sink_def)
qed

text \<open>
  The check for a bearer is not in the transaction that writes one: two provisions that both found
  none both succeed, and the value the first one showed is dead.
\<close>

lemma provision_twice:
  assumes "mint_tx env op p s = (Inr a, s1)" "mint_tx env' op' p s1 = (Inr b, s2)"
    and "ce_digest env' = ce_digest env" "ce_digest env a \<noteq> ce_digest env b"
    and "project_inv (ac_projects (accounts_of s))"
  shows "ProjectByBearer (ce_digest env) s2 a = Inl ErrNotFound"
proof -
  obtain t1 where t1: "SetProjectBearer (ce_digest env) (ce_random env) (pj_id p) s = (Inr a, t1)"
    "accounts_of s1 = accounts_of t1"
    using mint_tx_ok(3) [OF assms(1)] by blast
  obtain t2 where t2: "SetProjectBearer (ce_digest env) (ce_random env') (pj_id p) s1 = (Inr b, t2)"
    "accounts_of s2 = accounts_of t2"
    using mint_tx_ok(3) [OF assms(2)] assms(3) by auto
  have "project_inv (ac_projects (accounts_of s1))"
    unfolding t1(2) by (rule project_inv_admin [OF admin_step.setting_bearer [OF t1(1)] assms(5)])
  moreover have "ac_projects (accounts_of s2) = update_where (has_id (pj_id p))
      (pw_bearer_hash_update (\<lambda>_. Some (ce_digest env b))) (ac_projects (accounts_of s1))"
    unfolding t2(2) by (rule SetProjectBearer_ok(2) [OF t2(1)])
  ultimately have "ProjectByBearer (ce_digest env) s2 a =
     (case ProjectByBearer (ce_digest env) s1 a of Inl e \<Rightarrow> Inl e
      | Inr q \<Rightarrow> if pj_id q = pj_id p then Inl ErrNotFound else Inr q)"
    by (rule ProjectByBearer_after) (use assms(4) in simp)
  then show ?thesis using mint_tx_ok(2) [OF assms(1)] by auto
qed

text \<open>A value that could not be delivered is nowhere: not on the stream, not in a file.\<close>

lemma mintBearer_hides:
  assumes "mintBearer env op o' p w = (Inl e, w')"
  shows "cw_stdout w' = cw_stdout w \<and>
     (cw_files w' = cw_files w \<or> bo_out o' \<noteq> [] \<and> cw_files w' (bo_out o') \<in> {None, Some []} \<and>
        (\<forall>x. x \<noteq> bo_out o' \<longrightarrow> cw_files w' x = cw_files w x))"
  using assms
  by (auto simp: mintBearer_def secure_sink_def show_token_def Let_def note_to_def
      split: prod.splits sum.splits option.splits if_splits)

lemma mintBearer_replaces:
  assumes "mintBearer env op o' p w = (Inr (), w')" "project_inv (ac_projects (accounts_of (cw_store w)))"
  defines "token \<equiv> ProjectBearerPrefix @ ce_random env"
  shows "\<exists>q. ProjectByBearer (ce_digest env) (cw_store w') token = Inr q \<and> pj_id q = pj_id p"
    and "ce_digest env t \<noteq> ce_digest env token \<Longrightarrow>
      ProjectByBearer (ce_digest env) (cw_store w') t =
        (case ProjectByBearer (ce_digest env) (cw_store w) t of Inl e \<Rightarrow> Inl e
         | Inr q \<Rightarrow> if pj_id q = pj_id p then Inl ErrNotFound else Inr q)"
proof -
  have m: "mint_tx env op p (cw_store w) = (Inr token, cw_store w')"
    using mintBearer_ok(1) [OF assms(1)] by (auto simp: token_def)
  show "\<exists>q. ProjectByBearer (ce_digest env) (cw_store w') token = Inr q \<and> pj_id q = pj_id p"
    by (rule mint_tx_ok(2) [OF m])
  obtain s1 where s1: "SetProjectBearer (ce_digest env) (ce_random env) (pj_id p) (cw_store w) = (Inr token, s1)"
    "accounts_of (cw_store w') = accounts_of s1"
    using mint_tx_ok(3) [OF m] by blast
  have "ac_projects (accounts_of (cw_store w')) = update_where (has_id (pj_id p))
      (pw_bearer_hash_update (\<lambda>_. Some (ce_digest env token))) (ac_projects (accounts_of (cw_store w)))"
    unfolding s1(2) by (rule SetProjectBearer_ok(2) [OF s1(1)])
  from ProjectByBearer_after [OF assms(2) this, of "ce_digest env" t]
  show "ce_digest env t \<noteq> ce_digest env token \<Longrightarrow>
      ProjectByBearer (ce_digest env) (cw_store w') t =
        (case ProjectByBearer (ce_digest env) (cw_store w) t of Inl e \<Rightarrow> Inl e
         | Inr q \<Rightarrow> if pj_id q = pj_id p then Inl ErrNotFound else Inr q)"
    by auto
qed

end
