(* ===== verification/Mcp.thy ===== *)
theory Mcp
  imports Json "HOL-Library.Multiset"
begin

text \<open>
  The MCP surface: \<^verbatim>\<open>internal/mcp/server.go\<close>, \<^verbatim>\<open>proxy.go\<close>, the tool names of
  \<^verbatim>\<open>tools.go\<close> and the message types of \<^verbatim>\<open>wire.go\<close>. A session is a step relation: the
  main loop takes a line, the goroutine of a request looks up its credential and sends its HTTP
  request, and the answer comes back in any order. \<^verbatim>\<open>parse\<close> and \<^verbatim>\<open>print\<close> are the text
  syntax of JSON; the HTTP server behind the proxy is whatever answers.
\<close>

section \<open>Messages\<close>

record mcp_request =
  mq_jsonrpc :: string
  mq_id :: "json option"
  mq_method :: string
  mq_params :: "json option"

definition isNotification :: "mcp_request \<Rightarrow> bool" where
  "isNotification r \<longleftrightarrow> mq_id r = None"

record rpc_error =
  rpc_code :: int
  rpc_message :: string
  rpc_data :: "(string list \<times> string) option"

definition codeParseError :: int where "codeParseError = - 32700"
definition codeInvalidRequest :: int where "codeInvalidRequest = - 32600"
definition codeMethodNotFound :: int where "codeMethodNotFound = - 32601"
definition codeInvalidParams :: int where "codeInvalidParams = - 32602"
definition codeUnsupportedProtocolVersion :: int where
  "codeUnsupportedProtocolVersion = - 32022"

definition invalid_params :: "string \<Rightarrow> rpc_error" where
  "invalid_params m = \<lparr>rpc_code = codeInvalidParams, rpc_message = m, rpc_data = None\<rparr>"

text \<open>What a result holds, less the constant texts of the surface.\<close>

datatype rpc_result =
    Initialized (negotiated: string)
  | Discovered
  | Pong
  | ToolList bool
  | ToolResult (tool_content: "string list") (tool_error: bool) bool

record rpc_response =
  rr_id :: json
  rr_outcome :: "rpc_error + rpc_result"

definition newResult :: "json \<Rightarrow> rpc_result \<Rightarrow> rpc_response" where
  "newResult i r = \<lparr>rr_id = i, rr_outcome = Inr r\<rparr>"

definition newError :: "json \<Rightarrow> int \<Rightarrow> string \<Rightarrow> (string list \<times> string) option \<Rightarrow> rpc_response" where
  "newError i c m d = \<lparr>rr_id = i, rr_outcome = Inl \<lparr>rpc_code = c, rpc_message = m, rpc_data = d\<rparr>\<rparr>"

definition request_fields :: "mcp_request json_field list" where
  "request_fields =
     [(''jsonrpc'', string_field (\<lambda>s r. r\<lparr>mq_jsonrpc := s\<rparr>)),
      (''id'', raw_field (\<lambda>j r. r\<lparr>mq_id := j\<rparr>)),
      (''method'', string_field (\<lambda>s r. r\<lparr>mq_method := s\<rparr>)),
      (''params'', raw_field (\<lambda>j r. r\<lparr>mq_params := j\<rparr>))]"

definition decode_request :: "json \<Rightarrow> mcp_request option" where
  "decode_request j =
     Unmarshal False request_fields
       \<lparr>mq_jsonrpc = [], mq_id = None, mq_method = [], mq_params = None\<rparr> j"

section \<open>Protocol versions\<close>

definition supportedVersions :: "string list" where
  "supportedVersions = [''2026-07-28'', ''2025-11-25'', ''2025-06-18'']"

definition latestLegacyVersion :: string where
  "latestLegacyVersion = ''2025-11-25''"

definition metaProtocolVersion :: string where
  "metaProtocolVersion = ''io.modelcontextprotocol/protocolVersion''"

definition declaredVersion :: "json option \<Rightarrow> string option" where
  "declaredVersion params =
     (case params of
        None \<Rightarrow> None
      | Some j \<Rightarrow>
          (case Unmarshal False [(''_meta'', map_field id (\<lambda>m _. m))] Map.empty j of
             None \<Rightarrow> None
           | Some meta \<Rightarrow>
               (case meta metaProtocolVersion of None \<Rightarrow> None | Some raw \<Rightarrow> string_of (Some raw))))"

definition supports :: "string \<Rightarrow> bool" where
  "supports version \<longleftrightarrow> version \<in> set supportedVersions"

text \<open>The decoding error is dropped: what was read before it counts.\<close>

definition initializeResult :: "json option \<Rightarrow> rpc_result" where
  "initializeResult params =
     (let version = (case params of None \<Rightarrow> []
                     | Some j \<Rightarrow>
                         fst (decode_struct False [(''protocolVersion'', string_field (\<lambda>s _. s))] [] j))
      in Initialized
           (if supports version \<and> version \<noteq> hd supportedVersions then version else latestLegacyVersion))"

section \<open>The proxy\<close>

definition maxBodyBytes :: nat where "maxBodyBytes = 1048576"
definition defaultClaimTimeoutMS :: int where "defaultClaimTimeoutMS = 30000"
definition maxClaimTimeoutMS :: int where "maxClaimTimeoutMS = 120000"
definition requestMargin :: int where "requestMargin = 30 * 1000000000"

record proxy =
  px_base :: string
  px_bearer :: string
  px_runs :: "string \<rightharpoonup> string"
  px_leases :: "string \<rightharpoonup> string"

definition newProxy :: "string \<Rightarrow> string \<Rightarrow> proxy" where
  "newProxy base bearer =
     \<lparr>px_base = trim_suffix ''/'' base, px_bearer = bearer, px_runs = Map.empty, px_leases = Map.empty\<rparr>"

text \<open>\<^verbatim>\<open>New\<close>: a missing URL or bearer is refused at startup.\<close>

definition mcp_New :: "string \<Rightarrow> string \<Rightarrow> string + proxy" where
  "mcp_New base bearer =
     (if trim_space base = [] then Inl ''mcp: the AuthStunt server URL is required (AUTHSTUNT_URL)''
      else if trim_space bearer = []
      then Inl ''mcp: the project bearer is required (AUTHSTUNT_BEARER); its value is never printed''
      else Inr (newProxy base bearer))"

text \<open>A request to the server, and what can come of it.\<close>

record http_call =
  hc_method :: string
  hc_url :: string
  hc_token :: string
  hc_body :: "json option"
  hc_deadline :: "int option"

datatype http_reply = NotBuilt | Unreachable | Unreadable | Answered int string

datatype proxy_error =
    NoRequest | NoServer | NoAnswer
  | RunNotObject | RunWithoutId | RunWithoutToken | LeaseNotObject

definition error_text :: "proxy_error \<Rightarrow> string" where
  "error_text e =
     (case e of
        NoRequest \<Rightarrow> ''mcp: could not build the request''
      | NoServer \<Rightarrow> ''mcp: the AuthStunt server named by AUTHSTUNT_URL could not be reached''
      | NoAnswer \<Rightarrow> ''mcp: the AuthStunt server''@ [CHR 0x27] @''s answer could not be read''
      | RunNotObject \<Rightarrow> ''mcp: run response is not an object''
      | RunWithoutId \<Rightarrow> ''mcp: run response has no run id''
      | RunWithoutToken \<Rightarrow> ''mcp: run response has no run token''
      | LeaseNotObject \<Rightarrow> ''mcp: lease response is not an object'')"

record http_result =
  hr_status :: int
  hr_body :: string

definition hr_ok :: "http_result \<Rightarrow> bool" where
  "hr_ok r \<longleftrightarrow> 200 \<le> hr_status r \<and> hr_status r < 300"

text \<open>The second half of \<^verbatim>\<open>do\<close>.\<close>

definition do_answer :: "http_reply \<Rightarrow> proxy_error + http_result" where
  "do_answer rep =
     (case rep of
        NotBuilt \<Rightarrow> Inl NoRequest
      | Unreachable \<Rightarrow> Inl NoServer
      | Unreadable \<Rightarrow> Inl NoAnswer
      | Answered st b \<Rightarrow> Inr \<lparr>hr_status = st, hr_body = trim_space (take maxBodyBytes b)\<rparr>)"

definition notFoundResult :: "(json \<Rightarrow> string) \<Rightarrow> string \<Rightarrow> http_result" where
  "notFoundResult print m =
     \<lparr>hr_status = 404,
      hr_body = print (JObject [(''error'',
        JObject [(''code'', JString ''not_found''), (''message'', JString m)])])\<rparr>"

definition idempotencyKey :: "string \<Rightarrow> string \<Rightarrow> int \<Rightarrow> string" where
  "idempotencyKey lease kind attempt = ''mcp:'' @ lease @ '':'' @ kind @ '':'' @ FormatInt attempt"

definition tokenForLease :: "proxy \<Rightarrow> string \<Rightarrow> string option" where
  "tokenForLease p l = (case px_leases p l of None \<Rightarrow> None | Some r \<Rightarrow> px_runs p r)"

datatype tool_call =
    OpenRun
  | LeaseIdentity string string
  | ClaimCode string string int int
  | ReleaseLease string

definition run_call :: "proxy \<Rightarrow> http_call" where
  "run_call p =
     \<lparr>hc_method = ''POST'', hc_url = px_base p @ ''/api/v1/runs'', hc_token = px_bearer p,
      hc_body = None, hc_deadline = None\<rparr>"

text \<open>
  The first half of each tool: the credential is looked up and the request made, or the call is
  answered without one.
\<close>

definition leaseIdentity_call :: "(json \<Rightarrow> string) \<Rightarrow> proxy \<Rightarrow> string \<Rightarrow> string \<Rightarrow> http_result + http_call" where
  "leaseIdentity_call print p r role =
     (case px_runs p r of
        None \<Rightarrow> Inl (notFoundResult print
          ''no run token is held for that run_id; open a new run with open_run'')
      | Some t \<Rightarrow>
          Inr \<lparr>hc_method = ''POST'', hc_url = px_base p @ ''/api/v1/runs/'' @ r @ ''/leases'',
               hc_token = t,
               hc_body = Some (JObject [(''mode'', JString ''ephemeral''), (''role'', JString role)]),
               hc_deadline = None\<rparr>)"

definition claimCode_call ::
  "(json \<Rightarrow> string) \<Rightarrow> proxy \<Rightarrow> string \<Rightarrow> string \<Rightarrow> int \<Rightarrow> int \<Rightarrow> http_result + http_call" where
  "claimCode_call print p l kind ms attempt =
     (case tokenForLease p l of
        None \<Rightarrow> Inl (notFoundResult print
          ''no run token is held for that lease_id; lease an identity with lease_identity'')
      | Some t \<Rightarrow>
          Inr \<lparr>hc_method = ''POST'', hc_url = px_base p @ ''/api/v1/leases/'' @ l @ ''/claims'',
               hc_token = t,
               hc_body = Some (JObject
                 [(''idempotency_key'', JString (idempotencyKey l kind attempt)),
                  (''kind'', JString kind), (''timeout_ms'', JNumber (FormatInt ms))]),
               hc_deadline = Some (ms * 1000000 + requestMargin)\<rparr>)"

definition releaseLease_call :: "(json \<Rightarrow> string) \<Rightarrow> proxy \<Rightarrow> string \<Rightarrow> http_result + http_call" where
  "releaseLease_call print p l =
     (case tokenForLease p l of
        None \<Rightarrow> Inl (notFoundResult print
          ''no run token is held for that lease_id; it was never leased through this server, or the server restarted'')
      | Some t \<Rightarrow>
          Inr \<lparr>hc_method = ''DELETE'', hc_url = px_base p @ ''/api/v1/leases/'' @ l, hc_token = t,
               hc_body = None, hc_deadline = None\<rparr>)"

definition prepare :: "(json \<Rightarrow> string) \<Rightarrow> proxy \<Rightarrow> tool_call \<Rightarrow> http_result + http_call" where
  "prepare print p tc =
     (case tc of
        OpenRun \<Rightarrow> Inr (run_call p)
      | LeaseIdentity r role \<Rightarrow> leaseIdentity_call print p r role
      | ClaimCode l kind ms attempt \<Rightarrow> claimCode_call print p l kind ms attempt
      | ReleaseLease l \<Rightarrow> releaseLease_call print p l)"

lemmas prepare_defs = prepare_def leaseIdentity_call_def claimCode_call_def releaseLease_call_def

text \<open>The run a successful answer to \<^verbatim>\<open>open_run\<close> names, with its token and the other fields.\<close>

definition opened ::
  "(string \<Rightarrow> json option) \<Rightarrow> string \<Rightarrow> proxy_error + string \<times> string \<times> (string \<times> json) list" where
  "opened parse body =
     (case parse body of
        None \<Rightarrow> Inl RunNotObject
      | Some j \<Rightarrow>
          (case entries_of (Some j) of
             None \<Rightarrow> Inl RunNotObject
           | Some kvs \<Rightarrow>
               (case string_of (raw_map kvs ''run_id'') of
                  None \<Rightarrow> Inl RunWithoutId
                | Some r \<Rightarrow>
                    (case string_of (raw_map kvs ''run_token'') of
                       None \<Rightarrow> Inl RunWithoutToken
                     | Some t \<Rightarrow>
                         Inr (r, t, filter (\<lambda>e. fst e \<noteq> ''run_token'') (sorted_entries kvs))))))"

definition granted_lease :: "(string \<Rightarrow> json option) \<Rightarrow> string \<Rightarrow> string option" where
  "granted_lease parse body =
     (case parse body of
        None \<Rightarrow> None
      | Some j \<Rightarrow> Unmarshal False [(''lease_id'', string_field (\<lambda>s _. s))] [] j)"

text \<open>The second half: what the answer leaves in the maps and what the tool returns.\<close>

definition openRun_answer ::
  "(string \<Rightarrow> json option) \<Rightarrow> (json \<Rightarrow> string) \<Rightarrow> http_result \<Rightarrow> proxy \<Rightarrow>
     proxy \<times> (proxy_error + http_result)" where
  "openRun_answer parse print res p =
     (case opened parse (hr_body res) of
        Inl e \<Rightarrow> (p, Inl e)
      | Inr (r, t, rest) \<Rightarrow>
          (p\<lparr>px_runs := (px_runs p)(r \<mapsto> t)\<rparr>, Inr (res\<lparr>hr_body := print (JObject rest)\<rparr>)))"

definition leaseIdentity_answer ::
  "(string \<Rightarrow> json option) \<Rightarrow> string \<Rightarrow> http_result \<Rightarrow> proxy \<Rightarrow> proxy \<times> (proxy_error + http_result)"
where
  "leaseIdentity_answer parse r res p =
     (case granted_lease parse (hr_body res) of
        None \<Rightarrow> (p, Inl LeaseNotObject)
      | Some l \<Rightarrow> (p\<lparr>px_leases := (px_leases p)(l \<mapsto> r)\<rparr>, Inr res))"

definition finish ::
  "(string \<Rightarrow> json option) \<Rightarrow> (json \<Rightarrow> string) \<Rightarrow> tool_call \<Rightarrow> http_reply \<Rightarrow> proxy \<Rightarrow>
     proxy \<times> (proxy_error + http_result)" where
  "finish parse print tc rep p =
     (case do_answer rep of
        Inl e \<Rightarrow> (p, Inl e)
      | Inr res \<Rightarrow>
          if \<not> hr_ok res then (p, Inr res)
          else case tc of
            OpenRun \<Rightarrow> openRun_answer parse print res p
          | LeaseIdentity r role \<Rightarrow> leaseIdentity_answer parse r res p
          | _ \<Rightarrow> (p, Inr res))"

lemmas finish_defs = finish_def openRun_answer_def leaseIdentity_answer_def

section \<open>The server\<close>

text \<open>\<^verbatim>\<open>decodeArgs\<close> and the tools' arguments.\<close>

definition decodeArgs :: "'b json_field list \<Rightarrow> 'b \<Rightarrow> json option \<Rightarrow> rpc_error + 'b" where
  "decodeArgs fs zero raw =
     (case raw of
        None \<Rightarrow> Inr zero
      | Some JNull \<Rightarrow> Inr zero
      | Some j \<Rightarrow>
          (case Unmarshal True fs zero j of
             None \<Rightarrow> Inl (invalid_params ''the arguments do not match this tool's schema'')
           | Some b \<Rightarrow> Inr b))"

record call_params =
  cp_name :: string
  cp_arguments :: "json option"

definition call_fields :: "call_params json_field list" where
  "call_fields =
     [(''name'', string_field (\<lambda>s c. c\<lparr>cp_name := s\<rparr>)),
      (''arguments'', raw_field (\<lambda>j c. c\<lparr>cp_arguments := j\<rparr>))]"

record lease_args =
  la_run :: string
  la_role :: string

definition lease_fields :: "lease_args json_field list" where
  "lease_fields =
     [(''run_id'', string_field (\<lambda>s a. a\<lparr>la_run := s\<rparr>)),
      (''role'', string_field (\<lambda>s a. a\<lparr>la_role := s\<rparr>))]"

record claim_args =
  ca_lease :: string
  ca_kind :: string
  ca_timeout :: "int option"
  ca_attempt :: "int option"

definition claim_fields :: "claim_args json_field list" where
  "claim_fields =
     [(''lease_id'', string_field (\<lambda>s a. a\<lparr>ca_lease := s\<rparr>)),
      (''kind'', string_field (\<lambda>s a. a\<lparr>ca_kind := s\<rparr>)),
      (''timeout_ms'', int64_ptr_field (\<lambda>i a. a\<lparr>ca_timeout := i\<rparr>)),
      (''attempt'', int64_ptr_field (\<lambda>i a. a\<lparr>ca_attempt := i\<rparr>))]"

definition tool_args :: "call_params \<Rightarrow> rpc_error + tool_call" where
  "tool_args cp =
     (if cp_name cp = ''open_run'' then
        (case decodeArgs [] () (cp_arguments cp) of Inl e \<Rightarrow> Inl e | Inr _ \<Rightarrow> Inr OpenRun)
      else if cp_name cp = ''lease_identity'' then
        (case decodeArgs lease_fields \<lparr>la_run = [], la_role = []\<rparr> (cp_arguments cp) of
           Inl e \<Rightarrow> Inl e
         | Inr a \<Rightarrow>
             if la_run a = [] \<or> la_role a = []
             then Inl (invalid_params ''run_id and role are required'')
             else Inr (LeaseIdentity (la_run a) (la_role a)))
      else if cp_name cp = ''claim_code'' then
        (case decodeArgs claim_fields
            \<lparr>ca_lease = [], ca_kind = [], ca_timeout = None, ca_attempt = None\<rparr> (cp_arguments cp) of
           Inl e \<Rightarrow> Inl e
         | Inr a \<Rightarrow>
             if ca_lease a = [] \<or> ca_kind a = []
             then Inl (invalid_params ''lease_id and kind are required'')
             else let timeout = (case ca_timeout a of None \<Rightarrow> defaultClaimTimeoutMS | Some i \<Rightarrow> i);
                      attempt = (case ca_attempt a of None \<Rightarrow> 1 | Some i \<Rightarrow> i)
                  in if timeout < 0 \<or> maxClaimTimeoutMS < timeout
                     then Inl (invalid_params ''timeout_ms must be between 0 and 120000'')
                     else if attempt < 1 then Inl (invalid_params ''attempt starts at 1'')
                     else Inr (ClaimCode (ca_lease a) (ca_kind a) timeout attempt))
      else if cp_name cp = ''release_lease'' then
        (case decodeArgs [(''lease_id'', string_field (\<lambda>s _. s))] [] (cp_arguments cp) of
           Inl e \<Rightarrow> Inl e
         | Inr l \<Rightarrow>
             if l = [] then Inl (invalid_params ''lease_id is required'') else Inr (ReleaseLease l))
      else Inl (invalid_params (''unknown tool: '' @ cp_name cp)))"

text \<open>\<^verbatim>\<open>proxied\<close> and \<^verbatim>\<open>toolResult\<close>.\<close>

definition proxied :: "proxy_error + http_result \<Rightarrow> http_result" where
  "proxied r = (case r of Inr res \<Rightarrow> res | Inl e \<Rightarrow> \<lparr>hr_status = 0, hr_body = error_text e\<rparr>)"

definition toolResult :: "http_result \<Rightarrow> bool \<Rightarrow> rpc_result" where
  "toolResult res modern =
     ToolResult (if hr_body res = [] then [] else [hr_body res]) (\<not> hr_ok res) modern"

text \<open>A request in progress: its answer is due, or a tool has to be called.\<close>

datatype task =
    Respond rpc_response
  | Call json tool_call bool
  | Waiting json tool_call bool http_call

definition callTool :: "json \<Rightarrow> json option \<Rightarrow> bool \<Rightarrow> task" where
  "callTool i params modern =
     (case params of
        None \<Rightarrow> Respond (newError i codeInvalidParams ''tools/call needs a name and arguments'' None)
      | Some j \<Rightarrow>
          (case Unmarshal False call_fields \<lparr>cp_name = [], cp_arguments = None\<rparr> j of
             None \<Rightarrow> Respond (newError i codeInvalidParams ''tools/call needs a name and arguments'' None)
           | Some cp \<Rightarrow>
               (case tool_args cp of
                  Inl e \<Rightarrow> Respond \<lparr>rr_id = i, rr_outcome = Inl e\<rparr>
                | Inr tc \<Rightarrow> Call i tc modern)))"

definition dispatch :: "json \<Rightarrow> string \<Rightarrow> json option \<Rightarrow> bool \<Rightarrow> task" where
  "dispatch i method params modern =
     (if method = ''initialize'' then Respond (newResult i (initializeResult params))
      else if method = ''server/discover'' then Respond (newResult i Discovered)
      else if method = ''ping'' then Respond (newResult i Pong)
      else if method = ''tools/list'' then Respond (newResult i (ToolList modern))
      else if method = ''tools/call'' then callTool i params modern
      else Respond (newError i codeMethodNotFound (''unknown method: '' @ method) None))"

definition handle :: "mcp_request \<Rightarrow> task option" where
  "handle req =
     (case mq_id req of
        None \<Rightarrow> None
      | Some i \<Rightarrow>
          (case declaredVersion (mq_params req) of
             None \<Rightarrow> Some (dispatch i (mq_method req) (mq_params req) False)
           | Some v \<Rightarrow>
               if \<not> supports v
               then Some (Respond (newError i codeUnsupportedProtocolVersion
                 ''Unsupported protocol version'' (Some (supportedVersions, v))))
               else Some (dispatch i (mq_method req) (mq_params req) True)))"

section \<open>Sessions\<close>

text \<open>
  The state of \<^verbatim>\<open>Serve\<close>: the maps, the requests in progress, what was written, and the
  history the properties speak of: the lines read, the HTTP requests sent and their answers.
\<close>

record mcp_session =
  sn_proxy :: proxy
  sn_tasks :: "task list"
  sn_out :: "rpc_response list"
  sn_lines :: "string list"
  sn_calls :: "http_call list"
  sn_answers :: "(http_call \<times> http_reply) list"

definition mcp_start :: "proxy \<Rightarrow> mcp_session" where
  "mcp_start p =
     \<lparr>sn_proxy = p, sn_tasks = [], sn_out = [], sn_lines = [], sn_calls = [], sn_answers = []\<rparr>"

text \<open>One turn of the main loop.\<close>

definition receive :: "(string \<Rightarrow> json option) \<Rightarrow> string \<Rightarrow> mcp_session \<Rightarrow> mcp_session" where
  "receive parse line s0 =
     (let s = s0\<lparr>sn_lines := sn_lines s0 @ [line]\<rparr>
      in case (case parse line of None \<Rightarrow> None | Some j \<Rightarrow> decode_request j) of
           None \<Rightarrow>
             s\<lparr>sn_out := sn_out s @ [newError JNull codeParseError ''the message is not valid JSON'' None]\<rparr>
         | Some req \<Rightarrow>
             if mq_jsonrpc req \<noteq> ''2.0'' \<or> mq_method req = [] then
               (case mq_id req of
                  None \<Rightarrow> s
                | Some i \<Rightarrow>
                    s\<lparr>sn_out := sn_out s @ [newError i codeInvalidRequest
                       ''a JSON-RPC 2.0 request needs jsonrpc and method'' None]\<rparr>)
             else (case handle req of None \<Rightarrow> s | Some t \<Rightarrow> s\<lparr>sn_tasks := sn_tasks s @ [t]\<rparr>))"

definition answer_with :: "json \<Rightarrow> bool \<Rightarrow> http_result \<Rightarrow> rpc_response" where
  "answer_with i modern res = newResult i (toolResult res modern)"

text \<open>
  The goroutines, in any order: write the response, look up the credential and send, or take the
  answer of the server.
\<close>

inductive mcp_step ::
  "(string \<Rightarrow> json option) \<Rightarrow> (json \<Rightarrow> string) \<Rightarrow> mcp_session \<Rightarrow> mcp_session \<Rightarrow> bool"
  for parse print where
  reading: "mcp_step parse print s (receive parse line s)"
| writing: "sn_tasks s = ts @ Respond r # us \<Longrightarrow>
     mcp_step parse print s (s\<lparr>sn_tasks := ts @ us, sn_out := sn_out s @ [r]\<rparr>)"
| refusing: "sn_tasks s = ts @ Call i tc md # us \<Longrightarrow> prepare print (sn_proxy s) tc = Inl res \<Longrightarrow>
     mcp_step parse print s
       (s\<lparr>sn_tasks := ts @ us, sn_out := sn_out s @ [answer_with i md res]\<rparr>)"
| sending: "sn_tasks s = ts @ Call i tc md # us \<Longrightarrow> prepare print (sn_proxy s) tc = Inr c \<Longrightarrow>
     mcp_step parse print s
       (s\<lparr>sn_tasks := ts @ Waiting i tc md c # us, sn_calls := sn_calls s @ [c]\<rparr>)"
| answering: "sn_tasks s = ts @ Waiting i tc md c # us \<Longrightarrow>
     finish parse print tc rep (sn_proxy s) = (p, r) \<Longrightarrow>
     mcp_step parse print s
       (s\<lparr>sn_proxy := p, sn_tasks := ts @ us,
         sn_out := sn_out s @ [answer_with i md (proxied r)],
         sn_answers := sn_answers s @ [(c, rep)]\<rparr>)"

inductive mcp_reachable ::
  "(string \<Rightarrow> json option) \<Rightarrow> (json \<Rightarrow> string) \<Rightarrow> proxy \<Rightarrow> mcp_session \<Rightarrow> bool"
  for parse print p where
  start: "mcp_reachable parse print p (mcp_start p)"
| step: "mcp_reachable parse print p s \<Longrightarrow> mcp_step parse print s t \<Longrightarrow> mcp_reachable parse print p t"

section \<open>Every request is answered once\<close>

text \<open>The answers a line calls for: one under its id, one under null when it does not decode,
  none for a notification.\<close>

definition due :: "(string \<Rightarrow> json option) \<Rightarrow> string \<Rightarrow> json list" where
  "due parse line =
     (case (case parse line of None \<Rightarrow> None | Some j \<Rightarrow> decode_request j) of
        None \<Rightarrow> [JNull]
      | Some req \<Rightarrow> (case mq_id req of None \<Rightarrow> [] | Some i \<Rightarrow> [i]))"

fun task_id :: "task \<Rightarrow> json" where
  "task_id (Respond r) = rr_id r"
| "task_id (Call i tc md) = i"
| "task_id (Waiting i tc md c) = i"

lemma new_id [simp]: "rr_id (newResult i r) = i" "rr_id (newError i c m d) = i"
  "rr_id (answer_with i md res) = i"
  by (simp_all add: newResult_def newError_def answer_with_def)

lemma callTool_id: "task_id (callTool i params modern) = i"
  by (simp add: callTool_def split: option.split sum.split)

lemma handle_id: "handle req = Some t \<Longrightarrow> mq_id req = Some (task_id t)"
  by (auto simp: handle_def dispatch_def callTool_id split: option.splits if_splits)

lemma handle_notification: "handle req = None \<longleftrightarrow> mq_id req = None"
  by (auto simp: handle_def split: option.splits)

definition accounted :: "(string \<Rightarrow> json option) \<Rightarrow> mcp_session \<Rightarrow> bool" where
  "accounted parse s \<longleftrightarrow>
     mset (map rr_id (sn_out s)) + mset (map task_id (sn_tasks s)) =
     mset (concat (map (due parse) (sn_lines s)))"

lemma receive_accounted: "accounted parse s \<Longrightarrow> accounted parse (receive parse line s)"
  using handle_notification
  by (auto simp: accounted_def receive_def due_def Let_def handle_id split: option.splits)

lemma mcp_step_accounted:
  "mcp_step parse print s t \<Longrightarrow> accounted parse s \<Longrightarrow> accounted parse t"
  by (induction rule: mcp_step.induct) (auto simp: receive_accounted, auto simp: accounted_def)

lemma mcp_accounted: "mcp_reachable parse print p s \<Longrightarrow> accounted parse s"
  by (induction rule: mcp_reachable.induct)
     (simp add: accounted_def mcp_start_def, rule mcp_step_accounted)

section \<open>Credentials\<close>

text \<open>Where a token comes from: an answer to \<^verbatim>\<open>open_run\<close>; and a lease: an answer to
  \<^verbatim>\<open>lease_identity\<close> for the run.\<close>

definition run_minted :: "(string \<Rightarrow> json option) \<Rightarrow> mcp_session \<Rightarrow> string \<Rightarrow> string \<Rightarrow> bool" where
  "run_minted parse s r t \<longleftrightarrow>
     (\<exists>c \<in> set (sn_answers s). \<exists>res rest.
        fst c = run_call (sn_proxy s) \<and> do_answer (snd c) = Inr res \<and> hr_ok res \<and>
        opened parse (hr_body res) = Inr (r, t, rest))"

definition leases_url :: "proxy \<Rightarrow> string \<Rightarrow> string" where
  "leases_url p r = px_base p @ ''/api/v1/runs/'' @ r @ ''/leases''"

definition lease_granted :: "(string \<Rightarrow> json option) \<Rightarrow> mcp_session \<Rightarrow> string \<Rightarrow> string \<Rightarrow> bool" where
  "lease_granted parse s l r \<longleftrightarrow>
     (\<exists>c \<in> set (sn_answers s). \<exists>res.
        hc_url (fst c) = leases_url (sn_proxy s) r \<and> do_answer (snd c) = Inr res \<and> hr_ok res \<and>
        granted_lease parse (hr_body res) = Some l)"

definition lease_urls :: "proxy \<Rightarrow> string \<Rightarrow> string list" where
  "lease_urls p l = [px_base p @ ''/api/v1/leases/'' @ l @ ''/claims'', px_base p @ ''/api/v1/leases/'' @ l]"

text \<open>A call is licensed: it opens a run with the bearer, or it carries the token of the run it
  addresses, directly or through a lease of that run.\<close>

definition licensed :: "(string \<Rightarrow> json option) \<Rightarrow> mcp_session \<Rightarrow> http_call \<Rightarrow> bool" where
  "licensed parse s c \<longleftrightarrow>
     c = run_call (sn_proxy s) \<or>
     (\<exists>r. run_minted parse s r (hc_token c) \<and>
        (hc_url c = leases_url (sn_proxy s) r \<or>
         (\<exists>l. lease_granted parse s l r \<and> hc_url c \<in> set (lease_urls (sn_proxy s) l))))"

definition sent_for :: "proxy \<Rightarrow> tool_call \<Rightarrow> http_call \<Rightarrow> bool" where
  "sent_for p tc c \<longleftrightarrow>
     (case tc of OpenRun \<Rightarrow> c = run_call p | LeaseIdentity r role \<Rightarrow> hc_url c = leases_url p r | _ \<Rightarrow> True)"

definition mcp_inv :: "(string \<Rightarrow> json option) \<Rightarrow> mcp_session \<Rightarrow> bool" where
  "mcp_inv parse s \<longleftrightarrow>
     (\<forall>r t. px_runs (sn_proxy s) r = Some t \<longrightarrow> run_minted parse s r t) \<and>
     (\<forall>l r. px_leases (sn_proxy s) l = Some r \<longrightarrow> lease_granted parse s l r) \<and>
     (\<forall>i tc md c. Waiting i tc md c \<in> set (sn_tasks s) \<longrightarrow> sent_for (sn_proxy s) tc c) \<and>
     (\<forall>c \<in> set (sn_calls s). licensed parse s c)"

lemma prepare_licensed:
  assumes inv: "mcp_inv parse s" and c: "prepare print (sn_proxy s) tc = Inr c"
  shows "licensed parse s c" "sent_for (sn_proxy s) tc c"
proof -
  have runs: "px_runs (sn_proxy s) r = Some t \<Longrightarrow> run_minted parse s r t"
    and leases: "px_leases (sn_proxy s) l = Some r \<Longrightarrow> lease_granted parse s l r" for r t l
    using inv by (auto simp: mcp_inv_def)
  have token: "\<exists>r. run_minted parse s r t \<and> lease_granted parse s l r"
    if k: "tokenForLease (sn_proxy s) l = Some t" for l t
  proof -
    obtain r where "px_leases (sn_proxy s) l = Some r" "px_runs (sn_proxy s) r = Some t"
      using k by (cases "px_leases (sn_proxy s) l") (auto simp: tokenForLease_def)
    then show ?thesis using runs leases by blast
  qed
  show "sent_for (sn_proxy s) tc c"
    using c by (auto simp: prepare_defs sent_for_def leases_url_def split: tool_call.splits option.splits)
  show "licensed parse s c"
  proof (cases tc)
    case OpenRun
    then show ?thesis using c by (simp add: prepare_defs licensed_def)
  next
    case (LeaseIdentity r role)
    then obtain t where "px_runs (sn_proxy s) r = Some t" "hc_token c = t"
      "hc_url c = leases_url (sn_proxy s) r"
      using c by (auto simp: prepare_defs leases_url_def split: option.splits)
    then show ?thesis using runs unfolding licensed_def by blast
  next
    case (ClaimCode l kind ms n)
    then obtain t where t: "tokenForLease (sn_proxy s) l = Some t" "hc_token c = t"
      "hc_url c \<in> set (lease_urls (sn_proxy s) l)"
      using c by (auto simp: prepare_defs lease_urls_def split: option.splits)
    then show ?thesis using token [OF t(1)] unfolding licensed_def by blast
  next
    case (ReleaseLease l)
    then obtain t where t: "tokenForLease (sn_proxy s) l = Some t" "hc_token c = t"
      "hc_url c \<in> set (lease_urls (sn_proxy s) l)"
      using c by (auto simp: prepare_defs lease_urls_def split: option.splits)
    then show ?thesis using token [OF t(1)] unfolding licensed_def by blast
  qed
qed

text \<open>The history only grows and the base and the bearer stay.\<close>

definition grows :: "mcp_session \<Rightarrow> mcp_session \<Rightarrow> bool" where
  "grows s t \<longleftrightarrow>
     px_base (sn_proxy t) = px_base (sn_proxy s) \<and> px_bearer (sn_proxy t) = px_bearer (sn_proxy s) \<and>
     set (sn_answers s) \<subseteq> set (sn_answers t)"

lemma grows_fixed:
  assumes "grows s t"
  shows "run_call (sn_proxy t) = run_call (sn_proxy s)" "leases_url (sn_proxy t) = leases_url (sn_proxy s)"
    "lease_urls (sn_proxy t) = lease_urls (sn_proxy s)" "sent_for (sn_proxy t) = sent_for (sn_proxy s)"
  using assms by (auto simp: grows_def run_call_def leases_url_def lease_urls_def sent_for_def fun_eq_iff
      split: tool_call.splits)

lemma grows_mono:
  assumes "grows s t"
  shows "run_minted parse s r k \<Longrightarrow> run_minted parse t r k"
    "lease_granted parse s l r \<Longrightarrow> lease_granted parse t l r"
    "licensed parse s c \<Longrightarrow> licensed parse t c"
proof -
  have sub: "set (sn_answers s) \<subseteq> set (sn_answers t)" using assms by (simp add: grows_def)
  show m: "run_minted parse s r k \<Longrightarrow> run_minted parse t r k" for r k
    using sub unfolding run_minted_def grows_fixed [OF assms] by blast
  show g: "lease_granted parse s l r \<Longrightarrow> lease_granted parse t l r" for l r
    using sub unfolding lease_granted_def grows_fixed [OF assms] by blast
  show "licensed parse s c \<Longrightarrow> licensed parse t c"
    unfolding licensed_def grows_fixed [OF assms] using m g by blast
qed

lemma finish_fixed:
  "finish parse print tc rep p = (q, r) \<Longrightarrow> px_base q = px_base p \<and> px_bearer q = px_bearer p"
  by (auto simp: finish_defs split: sum.splits if_splits tool_call.splits option.splits)

lemma finish_runs:
  assumes "finish parse print tc rep p = (q, r)" "px_runs q x = Some t" "px_runs p x \<noteq> Some t"
  obtains res rest where "tc = OpenRun" "do_answer rep = Inr res" "hr_ok res"
    "opened parse (hr_body res) = Inr (x, t, rest)"
  using assms by (auto simp: finish_defs split: sum.splits if_splits tool_call.splits option.splits)

lemma finish_leases:
  assumes "finish parse print tc rep p = (q, r)" "px_leases q l = Some x" "px_leases p l \<noteq> Some x"
  obtains role res where "tc = LeaseIdentity x role" "do_answer rep = Inr res" "hr_ok res"
    "granted_lease parse (hr_body res) = Some l"
  using assms by (auto simp: finish_defs split: sum.splits if_splits tool_call.splits option.splits)

lemma receive_frame:
  "sn_proxy (receive parse line s) = sn_proxy s" "sn_calls (receive parse line s) = sn_calls s"
  "sn_answers (receive parse line s) = sn_answers s"
  by (simp_all add: receive_def Let_def split: option.split)

lemma handle_not_waiting: "handle req = Some t \<Longrightarrow> t \<noteq> Waiting i tc md c"
  by (auto simp: handle_def dispatch_def callTool_def split: option.splits if_splits sum.splits)

lemma receive_tasks: "Waiting i tc md c \<in> set (sn_tasks (receive parse line s)) \<Longrightarrow>
    Waiting i tc md c \<in> set (sn_tasks s)"
  by (auto simp: receive_def Let_def dest: handle_not_waiting split: option.splits if_splits)

lemma mcp_step_grows: "mcp_step parse print s t \<Longrightarrow> grows s t"
  by (induction rule: mcp_step.induct) (auto simp: grows_def receive_frame dest: finish_fixed)

lemma mcp_invI:
  assumes "grows s t" "mcp_inv parse s"
    and "\<And>r k. px_runs (sn_proxy t) r = Some k \<Longrightarrow> px_runs (sn_proxy s) r = Some k \<or> run_minted parse t r k"
    and "\<And>l r. px_leases (sn_proxy t) l = Some r \<Longrightarrow>
      px_leases (sn_proxy s) l = Some r \<or> lease_granted parse t l r"
    and "\<And>i tc md c. Waiting i tc md c \<in> set (sn_tasks t) \<Longrightarrow>
      Waiting i tc md c \<in> set (sn_tasks s) \<or> sent_for (sn_proxy s) tc c"
    and "\<And>c. c \<in> set (sn_calls t) \<Longrightarrow> c \<in> set (sn_calls s) \<or> licensed parse s c"
  shows "mcp_inv parse t"
proof -
  note g = grows_mono [OF assms(1)]
  have i: "px_runs (sn_proxy s) r = Some k \<Longrightarrow> run_minted parse s r k"
    "px_leases (sn_proxy s) l = Some r \<Longrightarrow> lease_granted parse s l r"
    "Waiting j tc md c \<in> set (sn_tasks s) \<Longrightarrow> sent_for (sn_proxy s) tc c"
    "c \<in> set (sn_calls s) \<Longrightarrow> licensed parse s c" for r k l j tc md c
    using assms(2) by (auto simp: mcp_inv_def)
  show ?thesis
    unfolding mcp_inv_def grows_fixed [OF assms(1)]
  proof (intro conjI allI impI ballI)
    fix r k assume "px_runs (sn_proxy t) r = Some k"
    from assms(3) [OF this] show "run_minted parse t r k" using g(1) i(1) by blast
  next
    fix l r assume "px_leases (sn_proxy t) l = Some r"
    from assms(4) [OF this] show "lease_granted parse t l r" using g(2) i(2) by blast
  next
    fix j tc md c assume "Waiting j tc md c \<in> set (sn_tasks t)"
    from assms(5) [OF this] show "sent_for (sn_proxy s) tc c" using i(3) by blast
  next
    fix c assume "c \<in> set (sn_calls t)"
    from assms(6) [OF this] show "licensed parse t c" using g(3) i(4) by blast
  qed
qed

lemma mcp_step_inv: "mcp_step parse print s t \<Longrightarrow> mcp_inv parse s \<Longrightarrow> mcp_inv parse t"
proof (induction rule: mcp_step.induct)
  case (reading s line)
  show ?case
    by (rule mcp_invI [OF mcp_step_grows [OF mcp_step.reading] reading])
       (auto simp: receive_frame dest: receive_tasks)
next
  case (writing s ts r us)
  show ?case
    by (rule mcp_invI [OF mcp_step_grows [OF mcp_step.writing] writing(2)], rule writing(1))
       (auto simp: writing(1))
next
  case (refusing s ts i tc md us res)
  show ?case
    by (rule mcp_invI [OF mcp_step_grows [OF mcp_step.refusing] refusing(3)], rule refusing(1), rule refusing(2))
       (auto simp: refusing(1))
next
  case (sending s ts i tc md us c)
  show ?case
    by (rule mcp_invI [OF mcp_step_grows [OF mcp_step.sending] sending(3)], rule sending(1), rule sending(2))
       (auto simp: sending(1) intro: prepare_licensed [OF sending(3) sending(2)])
next
  case (answering s ts i tc md c us rep p r)
  let ?t = "s\<lparr>sn_proxy := p, sn_tasks := ts @ us,
         sn_out := sn_out s @ [answer_with i md (proxied r)],
         sn_answers := sn_answers s @ [(c, rep)]\<rparr>"
  have g: "grows s ?t" by (rule mcp_step_grows [OF mcp_step.answering], rule answering(1), rule answering(2))
  have c: "sent_for (sn_proxy s) tc c" using answering(1,3) by (auto simp: mcp_inv_def)
  have "px_runs (sn_proxy s) x = Some k \<or> run_minted parse ?t x k"
    if new: "px_runs (sn_proxy ?t) x = Some k" for x k
  proof (cases "px_runs (sn_proxy s) x = Some k")
    case False
    obtain res rest where "tc = OpenRun" "do_answer rep = Inr res" "hr_ok res"
      "opened parse (hr_body res) = Inr (x, k, rest)"
      by (rule finish_runs [OF answering(2), of x k]; use new False in auto)
    then have "run_minted parse ?t x k"
      using c grows_fixed(1) [OF g] by (auto simp: run_minted_def sent_for_def)
    then show ?thesis ..
  qed simp
  moreover have "px_leases (sn_proxy s) l = Some x \<or> lease_granted parse ?t l x"
    if new: "px_leases (sn_proxy ?t) l = Some x" for l x
  proof (cases "px_leases (sn_proxy s) l = Some x")
    case False
    obtain role res where "tc = LeaseIdentity x role" "do_answer rep = Inr res" "hr_ok res"
      "granted_lease parse (hr_body res) = Some l"
      by (rule finish_leases [OF answering(2), of l x]; use new False in auto)
    then have "lease_granted parse ?t l x"
      using c grows_fixed(2) [OF g] by (auto simp: lease_granted_def sent_for_def)
    then show ?thesis ..
  qed simp
  ultimately show ?case
    by (intro mcp_invI [OF g answering(3)]) (auto simp: answering(1))
qed

lemma mcp_inv_reachable:
  assumes "mcp_reachable parse print (newProxy base bearer) s"
  shows "mcp_inv parse s"
  using assms
proof (induction rule: mcp_reachable.induct)
  case start
  show ?case by (simp add: mcp_inv_def mcp_start_def newProxy_def)
next
  case (step s t)
  then show ?case using mcp_step_inv by blast
qed

lemma mcp_bearer_fixed:
  "mcp_reachable parse print p s \<Longrightarrow> px_bearer (sn_proxy s) = px_bearer p \<and> px_base (sn_proxy s) = px_base p"
  by (induction rule: mcp_reachable.induct) (auto simp: mcp_start_def grows_def dest!: mcp_step_grows)

text \<open>What \<^verbatim>\<open>open_run\<close> hands on has every field but the token.\<close>

lemma opened_fields:
  assumes "opened parse body = Inr (r, t, rest)"
  obtains j kvs where "parse body = Some j" "entries_of (Some j) = Some kvs"
    "map_of rest = (raw_map kvs)(''run_token'' := None)" "''run_token'' \<notin> fst ` set rest"
proof -
  obtain j kvs where p: "parse body = Some j" "entries_of (Some j) = Some kvs"
    and r: "rest = filter (\<lambda>e. fst e \<noteq> ''run_token'') (sorted_entries kvs)"
    using assms by (auto simp: opened_def split: option.splits)
  have "map_of (filter (\<lambda>e. fst e \<noteq> k) xs) = (map_of xs)(k := None)" for k and xs :: "(string \<times> json) list"
    by (induction xs) auto
  then have "map_of rest = (raw_map kvs)(''run_token'' := None)" by (simp add: r sorted_entries_map)
  moreover have "''run_token'' \<notin> fst ` set rest" by (auto simp: r)
  ultimately show thesis using that p by blast
qed

section \<open>Idempotency keys\<close>

lemma digits_no_colon: "CHR '':'' \<notin> set (FormatInt i)"
proof -
  have "CHR '':'' \<notin> set (format_nat n)" for n
  proof
    assume "CHR '':'' \<in> set (format_nat n)"
    then have "is_digit (CHR '':'')" using format_nat_digits [of n] by (simp add: list_all_iff)
    then show False by (simp add: is_digit_def less_eq_char_def)
  qed
  then show ?thesis by (simp add: FormatInt_def)
qed

lemma last_colon: "CHR '':'' \<notin> set a \<Longrightarrow> takeWhile (\<lambda>c. c \<noteq> CHR '':'') (rev (k @ '':'' @ a)) = rev a"
  by (simp add: takeWhile_append2 takeWhile_append)

lemma idempotencyKey_cut:
  assumes "idempotencyKey l kind n = idempotencyKey l kind' m"
  shows "FormatInt n = FormatInt m" "kind = kind'"
proof -
  have e: "kind @ '':'' @ FormatInt n = kind' @ '':'' @ FormatInt m"
    using assms by (simp add: idempotencyKey_def)
  show "FormatInt n = FormatInt m"
    using last_colon [OF digits_no_colon, of kind n] last_colon [OF digits_no_colon, of kind' m] e
    by (metis rev_rev_ident)
  with e show "kind = kind'" by simp
qed

lemma FormatInt_inj: "0 \<le> n \<Longrightarrow> 0 \<le> m \<Longrightarrow> FormatInt n = FormatInt m \<Longrightarrow> n = m"
  by (simp add: FormatInt_def) (metis decimal_value_format eq_nat_nat_iff)

lemma tool_args_attempt:
  "tool_args cp = Inr (ClaimCode l kind ms n) \<Longrightarrow>
     l \<noteq> [] \<and> kind \<noteq> [] \<and> 0 \<le> ms \<and> ms \<le> maxClaimTimeoutMS \<and> 1 \<le> n"
  by (auto simp: tool_args_def Let_def split: if_splits sum.splits)

end
