(* ===== verification/Wire.thy ===== *)
theory Wire
  imports Addresses
begin

text \<open>
  The stdio transport of the MCP surface: \<^verbatim>\<open>internal/mcp/wire.go\<close>. The stream is the
  string of the bytes still to come. \<^verbatim>\<open>bufio\<close> hands a line over in pieces; the cap is
  compared with what has been collected after each of them, so it refuses exactly the lines that
  are too long in the end, however they are cut up.
\<close>

section \<open>Reading\<close>

definition maxMessageBytes :: nat where "maxMessageBytes = 1048576"

definition line_feed :: char where "line_feed = CHR 0x0A"

datatype read_error = EndOfStream | MessageTooLarge

text \<open>The line a reader collects: up to and with the next line feed, or what is left.\<close>

definition line_of :: "string \<Rightarrow> string" where
  "line_of s =
     (let l = takeWhile (\<lambda>c. c \<noteq> line_feed) s
      in if length l < length s then l @ [line_feed] else l)"

definition readLine :: "string \<Rightarrow> read_error + string \<times> string" where
  "readLine s =
     (let line = line_of s
      in if maxMessageBytes < length line then Inl MessageTooLarge
         else if line = [] then Inl EndOfStream
         else Inr (line, drop (length line) s))"

lemma line_of_nonempty: "line_of s = [] \<longleftrightarrow> s = []"
  by (cases s) (auto simp: line_of_def Let_def)

lemma readLine_shorter: "readLine s = Inr (line, rest) \<Longrightarrow> length rest < length s"
  by (cases s) (auto simp: readLine_def Let_def line_of_def split: if_splits)

function next_message :: "string \<Rightarrow> read_error + string \<times> string" where
  "next_message s =
     (case readLine s of
        Inl e \<Rightarrow> Inl e
      | Inr (line, rest) \<Rightarrow>
          (let m = trim_space line in if m \<noteq> [] then Inr (m, rest) else next_message rest))"
  by pat_completeness auto
termination
  by (relation "measure length") (auto dest: readLine_shorter)

declare next_message.simps [simp del]

lemma next_message_shorter: "next_message s = Inr (m, rest) \<Longrightarrow> length rest < length s"
proof (induction s rule: next_message.induct)
  case (1 s)
  show ?case
  proof (cases "readLine s")
    case (Inl e)
    then show ?thesis using 1(2) by (simp add: next_message.simps)
  next
    case (Inr p)
    obtain line r where p: "p = (line, r)" by (cases p)
    have r: "length r < length s" using readLine_shorter Inr p by blast
    show ?thesis
    proof (cases "trim_space line = []")
      case True
      then have "next_message r = Inr (m, rest)" using 1(2) Inr p by (simp add: next_message.simps [of s])
      then have "length rest < length r" using 1(1) [OF Inr p [symmetric] refl] True by simp
      then show ?thesis using r by simp
    next
      case False
      then show ?thesis using 1(2) Inr p r by (simp add: next_message.simps [of s])
    qed
  qed
qed

text \<open>\<^verbatim>\<open>readLoop\<close>: every message up to the error that ends the session.\<close>

function readLoop :: "string \<Rightarrow> string list \<times> read_error" where
  "readLoop s =
     (case next_message s of
        Inl e \<Rightarrow> ([], e)
      | Inr (m, rest) \<Rightarrow> (case readLoop rest of (ms, e) \<Rightarrow> (m # ms, e)))"
  by pat_completeness auto
termination
  by (relation "measure length") (auto dest: next_message_shorter)

declare readLoop.simps [simp del]

section \<open>Writing\<close>

definition write_line :: "string \<Rightarrow> string" where
  "write_line encoded = encoded @ [line_feed]"

text \<open>
  A message the stream carries: one line, no white space at its ends, and within the cap with
  its line feed. \<^verbatim>\<open>json.Marshal\<close> of an object is such a line while it is short enough.
\<close>

definition carries :: "string \<Rightarrow> bool" where
  "carries m \<longleftrightarrow>
     line_feed \<notin> set m \<and> m \<noteq> [] \<and> trim_space (m @ [line_feed]) = m \<and> length m < maxMessageBytes"

lemma line_of_written: "line_feed \<notin> set m \<Longrightarrow> line_of (write_line m @ s) = m @ [line_feed]"
  by (simp add: line_of_def write_line_def Let_def takeWhile_append2 takeWhile_append
      takeWhile_eq_all_conv [THEN iffD2])

lemma next_message_written:
  assumes "carries m"
  shows "next_message (write_line m @ s) = Inr (m, s)"
proof -
  have "readLine (write_line m @ s) = Inr (m @ [line_feed], s)"
    using assms line_of_written [of m s] by (simp add: readLine_def Let_def carries_def write_line_def)
  then show ?thesis using assms by (simp add: next_message.simps carries_def Let_def)
qed

lemma readLoop_written:
  "list_all carries ms \<Longrightarrow> readLoop (concat (map write_line ms)) = (ms, EndOfStream)"
proof (induction ms)
  case Nil
  show ?case by (simp add: readLoop.simps next_message.simps readLine_def line_of_def maxMessageBytes_def)
next
  case (Cons m ms)
  then show ?case by (simp add: readLoop.simps [of "write_line m @ _"] next_message_written)
qed

text \<open>A line over the cap ends the session wherever it stands.\<close>

lemma readLoop_too_large:
  assumes "list_all carries ms" and "line_feed \<notin> set big" and "maxMessageBytes \<le> length big"
  shows "readLoop (concat (map write_line ms) @ write_line big @ s) = (ms, MessageTooLarge)"
  using assms(1)
proof (induction ms)
  case Nil
  have "readLine (write_line big @ s) = Inl MessageTooLarge"
    using line_of_written [OF assms(2), of s] assms(3) by (simp add: readLine_def)
  then show ?case by (simp add: readLoop.simps next_message.simps)
next
  case (Cons m ms)
  then show ?case
    by (simp add: readLoop.simps [of "write_line m @ _"] next_message_written)
qed

end
