(* ===== verification/Timestamps.thy ===== *)
theory Timestamps
  imports EventIds StoreModel
begin

text \<open>
  How an instant is stored: \<^verbatim>\<open>timestamp\<close> and \<^verbatim>\<open>parseTimestamp\<close> of
  \<^verbatim>\<open>store/store.go\<close>. The layout has a fixed width, and the byte order of two such texts is
  the order of the instants, which is what lets the SQL compare and sort the columns as text.
\<close>

section \<open>The calendar\<close>

text \<open>Days are counted from the first of January of the year 1, the zero time.\<close>

definition leap :: "int \<Rightarrow> bool" where
  "leap y \<longleftrightarrow> y mod 4 = 0 \<and> (y mod 100 \<noteq> 0 \<or> y mod 400 = 0)"

definition days_before_year :: "int \<Rightarrow> int" where
  "days_before_year y = 365 * (y - 1) + (y - 1) div 4 - (y - 1) div 100 + (y - 1) div 400"

text \<open>The year of a day and the day within it, by cycles of 400, 100, 4 and 1 years.\<close>

definition year_day :: "int \<Rightarrow> int \<times> int" where
  "year_day d =
     (let n = d div 146097; r = d mod 146097;
          c = min 3 (r div 36524); r2 = r - c * 36524;
          q = r2 div 1461; r3 = r2 - q * 1461;
          a = min 3 (r3 div 365)
      in (1 + 400 * n + 100 * c + 4 * q + a, r3 - a * 365))"

definition month_lengths :: "bool \<Rightarrow> int list" where
  "month_lengths l = [31, if l then 29 else 28, 31, 30, 31, 30, 31, 31, 30, 31, 30, 31]"

fun split_month :: "int \<Rightarrow> int list \<Rightarrow> int \<Rightarrow> int \<times> int" where
  "split_month m [] k = (m, k)"
| "split_month m (n # ns) k = (if k < n then (m, k) else split_month (m + 1) ns (k - n))"

definition year_length :: "int \<Rightarrow> int" where
  "year_length y = (if leap y then 366 else 365)"

definition Date :: "int \<Rightarrow> int \<times> int \<times> int" where
  "Date d =
     (case year_day d of (y, k) \<Rightarrow>
        (case split_month 1 (month_lengths (leap y)) k of (m, j) \<Rightarrow> (y, m, j + 1)))"

definition days_of_date :: "int \<Rightarrow> int \<Rightarrow> int \<Rightarrow> int" where
  "days_of_date y m j =
     days_before_year y + sum_list (take (nat (m - 1)) (month_lengths (leap y))) + (j - 1)"

lemma div_bounds: "0 < (d::int) \<Longrightarrow> d * (x div d) \<le> x \<and> x < d * (x div d) + d"
  using pos_mod_bound [of d x] pos_mod_sign [of d x] mult_div_mod_eq [of d x] by linarith

lemma div_unique_bounds: "0 < (d::int) \<Longrightarrow> d * k \<le> x \<Longrightarrow> x < d * k + d \<Longrightarrow> x div d = k"
  by (rule int_div_pos_eq [of _ _ _ "x - d * k"]) auto

lemma cut_cycle:
  fixes N r :: int
  assumes "0 < N" "0 \<le> r" "r < 4 * N + 1" "c = min 3 (r div N)"
  shows "0 \<le> c" "c \<le> 3" "0 \<le> r - c * N" "r - c * N < N \<or> r = 4 * N \<and> c = 3"
proof -
  have x: "0 \<le> r div N" "(r div N) * N \<le> r" "r < (r div N) * N + N"
    using assms(1,2) div_bounds [of N r] by (simp_all add: pos_imp_zdiv_nonneg_iff mult.commute)
  then show "0 \<le> c" "c \<le> 3" by (simp_all add: assms(4))
  show "0 \<le> r - c * N"
  proof (cases "r div N \<le> 3")
    case False
    then have "3 * N \<le> (r div N) * N" using assms(1) by (intro mult_right_mono) simp_all
    then show ?thesis using x(2) False by (simp add: assms(4))
  qed (simp add: assms(4) x)
  show "r - c * N < N \<or> r = 4 * N \<and> c = 3"
  proof (cases "r div N \<le> 3")
    case False
    then show ?thesis using assms(3) by (simp add: assms(4)) linarith
  qed (use x in \<open>simp add: assms(4)\<close>)
qed

lemma cut_below:
  fixes N r :: int
  assumes "0 < N" "0 \<le> r" "r < K * N" "q = r div N"
  shows "0 \<le> q" "q < K" "0 \<le> r - q * N" "r - q * N < N"
proof -
  have x: "q * N \<le> r" "r < q * N + N"
    using assms(1,4) div_bounds [of N r] by (simp_all add: mult.commute)
  then show "0 \<le> r - q * N" "r - q * N < N" by simp_all
  show "0 \<le> q" using assms by (simp add: pos_imp_zdiv_nonneg_iff)
  have "q * N < K * N" using x(1) assms(3) by linarith
  then show "q < K" using assms(1) by simp
qed

lemma year_day_cycles:
  obtains n c q a k where "year_day d = (1 + 400 * n + 100 * c + 4 * q + a, k)"
    and "d = 146097 * n + 36524 * c + 1461 * q + 365 * a + k"
    and "0 \<le> c" "c \<le> 3" "0 \<le> q" "q \<le> 24" "0 \<le> a" "a \<le> 3" "0 \<le> k"
    and "k < 365 \<or> k = 365 \<and> a = 3 \<and> (q < 24 \<or> c = 3)"
proof -
  define n r where "n = d div 146097" and "r = d mod 146097"
  define c where "c = min 3 (r div 36524)"
  define r2 where "r2 = r - c * 36524"
  define q where "q = r2 div 1461"
  define r3 where "r3 = r2 - q * 1461"
  define a where "a = min 3 (r3 div 365)"
  have r: "0 \<le> r" "r < 146097" "d = 146097 * n + r" by (simp_all add: r_def n_def)
  have c: "0 \<le> c" "c \<le> 3" "0 \<le> r2" "r2 < 36524 \<or> r2 = 36524 \<and> c = 3"
    using cut_cycle [OF _ r(1) _ c_def] r(2) by (auto simp: r2_def)
  have q: "0 \<le> q" "q \<le> 24" "0 \<le> r3" "r3 < 1461"
    using cut_below [OF _ c(3) _ q_def, of 25] c(4) by (auto simp: r3_def)
  have tail: "q = 24 \<Longrightarrow> c \<noteq> 3 \<Longrightarrow> r3 < 1460"
    using c(3,4) unfolding r3_def by auto
  have a: "0 \<le> a" "a \<le> 3" "0 \<le> r3 - a * 365"
    "r3 - a * 365 < 365 \<or> r3 - a * 365 = 365 \<and> a = 3 \<and> r3 = 1460"
    using cut_cycle [OF _ q(3) _ a_def] q(4) by auto
  have "year_day d = (1 + 400 * n + 100 * c + 4 * q + a, r3 - a * 365)"
    by (simp only: year_day_def Let_def n_def r_def c_def r2_def q_def r3_def a_def)
  moreover have "d = 146097 * n + 36524 * c + 1461 * q + 365 * a + (r3 - a * 365)"
    using r(3) by (simp add: r3_def r2_def)
  moreover have "r3 - a * 365 < 365 \<or> r3 - a * 365 = 365 \<and> a = 3 \<and> (q < 24 \<or> c = 3)"
    using a(4) tail q(2) by (cases "q = 24") auto
  ultimately show thesis using that c q a by blast
qed

lemma year_day_ok:
  assumes "year_day d = (y, k)"
  shows "d = days_before_year y + k" "0 \<le> k" "k < year_length y"
proof -
  obtain n c q a k' where e: "year_day d = (1 + 400 * n + 100 * c + 4 * q + a, k')"
    "d = 146097 * n + 36524 * c + 1461 * q + 365 * a + k'"
    and b: "0 \<le> c" "c \<le> 3" "0 \<le> q" "q \<le> 24" "0 \<le> a" "a \<le> 3" "0 \<le> k'"
    "k' < 365 \<or> k' = 365 \<and> a = 3 \<and> (q < 24 \<or> c = 3)"
    by (rule year_day_cycles)
  have y: "y = 1 + 400 * n + 100 * c + 4 * q + a" "k = k'" using assms e(1) by simp_all
  have "(y - 1) div 4 = 100 * n + 25 * c + q" "(y - 1) div 100 = 4 * n + c" "(y - 1) div 400 = n"
    by (rule div_unique_bounds; use b y(1) in simp)+
  then have "days_before_year y = 365 * (y - 1) + (100 * n + 25 * c + q) - (4 * n + c) + n"
    by (simp only: days_before_year_def)
  then show "d = days_before_year y + k" unfolding y(2) e(2) unfolding y(1) by algebra
  show "0 \<le> k" using b(7) y(2) by simp
  have "leap y" if "a = 3" "q < 24 \<or> c = 3"
  proof -
    have y4: "y = 4 * (100 * n + 25 * c + q + 1)" using that y(1) by simp
    show ?thesis
    proof (cases "q < 24")
      case True
      have "y mod 100 = 4 * q + 4"
        by (rule int_mod_pos_eq [of _ _ "4 * n + c"]) (use True b y(1) that in auto)
      then show ?thesis using y4 b by (simp add: leap_def)
    next
      case False
      then have "y = 400 * (n + 1)" using that b y(1) by simp
      then show ?thesis by (simp add: leap_def)
    qed
  qed
  then show "k < year_length y" using b(8) y(2) by (auto simp: year_length_def)
qed

lemma div_pred: "0 < (d::int) \<Longrightarrow> y div d = (y - 1) div d + (if y mod d = 0 then 1 else 0)"
proof (cases "y mod d = 0")
  case True
  assume "0 < d"
  with True have "(y - 1) div d = y div d - 1"
    by (intro div_unique_bounds) (auto simp: mod_eq_0_iff_dvd algebra_simps dvd_def)
  then show ?thesis using True by simp
next
  case False
  assume d: "0 < d"
  then have "0 < y mod d" using False pos_mod_sign [of d y] by linarith
  then have "(y - 1) div d = y div d"
    using d div_bounds [of d y] mult_div_mod_eq [of d y] by (intro div_unique_bounds) linarith+
  then show ?thesis using False by simp
qed

lemma mod_0_trans: "(y::int) mod (a * b) = 0 \<Longrightarrow> y mod a = 0"
  by (auto simp: mod_eq_0_iff_dvd)

lemma year_step:
  fixes m n y A B C :: int
  assumes "m = 365 * (y - 1) + A - B + C"
    and "n = 365 * y + (A + (if P then 1 else 0)) - (B + (if Q then 1 else 0)) + (C + (if R then 1 else 0))"
    and "Q \<Longrightarrow> P" "R \<Longrightarrow> Q"
  shows "n = m + (if P \<and> (\<not> Q \<or> R) then 366 else 365)"
  using assms(3,4) unfolding assms(1,2) by (cases P; cases Q; cases R) simp_all

lemma days_before_year_next: "days_before_year (y + 1) = days_before_year y + year_length y"
proof -
  define A B C where "A = (y - 1) div 4" and "B = (y - 1) div 100" and "C = (y - 1) div 400"
  have "days_before_year y = 365 * (y - 1) + A - B + C"
    by (simp only: days_before_year_def A_def B_def C_def)
  moreover have "days_before_year (y + 1) =
      365 * y + (A + (if y mod 4 = 0 then 1 else 0)) - (B + (if y mod 100 = 0 then 1 else 0)) +
      (C + (if y mod 400 = 0 then 1 else 0))"
    using div_pred [of 4 y] div_pred [of 100 y] div_pred [of 400 y]
    by (simp only: days_before_year_def A_def B_def C_def add_diff_cancel_right' zero_less_numeral simp_thms)
  moreover have "y mod 100 = 0 \<Longrightarrow> y mod 4 = 0" "y mod 400 = 0 \<Longrightarrow> y mod 100 = 0"
    using mod_0_trans [of y 4 25] mod_0_trans [of y 100 4] by simp_all
  ultimately show ?thesis
    unfolding year_length_def leap_def by (rule year_step)
qed

lemma days_before_year_mono: "y < z \<Longrightarrow> days_before_year y + year_length y \<le> days_before_year z"
proof (induction z rule: int_gr_induct)
  case base
  then show ?case by (simp add: days_before_year_next)
next
  case (step z)
  then show ?case by (simp add: days_before_year_next year_length_def split: if_splits)
qed

section \<open>Dates follow the days\<close>

lemma split_month_mono:
  "k < j \<Longrightarrow> split_month m ns k < split_month m ns j"
proof (induction m ns k arbitrary: j rule: split_month.induct)
  case (2 m n ns k)
  have step: "m + 1 \<le> fst (split_month (m + 1) ns i)" for i :: int and ns
  proof -
    have "m' \<le> fst (split_month m' ms i)" for m' ms and i :: int
      by (induction m' ms i rule: split_month.induct) auto
    then show ?thesis .
  qed
  show ?case
  proof (cases "j < n")
    case True
    then show ?thesis using 2(2) by simp
  next
    case False
    note j = this
    show ?thesis
    proof (cases "k < n")
      case True
      then show ?thesis using j step [of ns "j - n"]
        by (cases "split_month (m + 1) ns (j - n)") simp
    next
      case k: False
      then show ?thesis using 2(1) [of "j - n"] 2(2) j by simp
    qed
  qed
qed simp

lemma split_month_value:
  assumes "0 \<le> k" "k < sum_list ns" "\<forall>n \<in> set ns. 0 < n"
  obtains i j where "split_month m ns k = (m + int i, j)" "i < length ns" "0 \<le> j" "j < ns ! i"
    "k = sum_list (take i ns) + j"
  using assms
proof (induction m ns k arbitrary: thesis rule: split_month.induct)
  case (2 m n ns k)
  show ?case
  proof (cases "k < n")
    case True
    then show ?thesis using 2(2) [of 0 k] 2(3) by simp
  next
    case False
    have "0 \<le> k - n" "k - n < sum_list ns" "\<forall>n \<in> set ns. 0 < n" using False 2(3-5) by auto
    then obtain i j where "split_month (m + 1) ns (k - n) = (m + 1 + int i, j)" "i < length ns" "0 \<le> j"
      "j < ns ! i" "k - n = sum_list (take i ns) + j"
      using 2(1) [OF False] by blast
    then show ?thesis using 2(2) [of "Suc i" j] False by simp
  qed
qed simp

lemma month_lengths_sum: "sum_list (month_lengths (leap y)) = year_length y"
  by (simp add: month_lengths_def year_length_def)

lemma Date_value:
  obtains y m j where "Date d = (y, m, j)" "1 \<le> m" "m \<le> 12" "1 \<le> j" "j \<le> 31"
    "j \<le> month_lengths (leap y) ! nat (m - 1)" "d = days_of_date y m j"
    "fst (year_day d) = y"
proof -
  obtain y k where yk: "year_day d = (y, k)" by (cases "year_day d")
  note ok = year_day_ok [OF yk]
  have pos: "\<forall>n \<in> set (month_lengths (leap y)). 0 < n" by (simp add: month_lengths_def)
  obtain i j where s: "split_month 1 (month_lengths (leap y)) k = (1 + int i, j)"
    "i < length (month_lengths (leap y))" "0 \<le> j" "j < month_lengths (leap y) ! i"
    "k = sum_list (take i (month_lengths (leap y))) + j"
    using split_month_value [OF ok(2) _ pos] ok(3) month_lengths_sum by metis
  have i12: "i < 12" using s(2) by (simp add: month_lengths_def)
  have "month_lengths (leap y) ! i \<in> set (month_lengths (leap y))" using s(2) by simp
  then have j31: "month_lengths (leap y) ! i \<le> 31" by (auto simp: month_lengths_def)
  show thesis
  proof (rule that [of y "1 + int i" "j + 1"])
    show "Date d = (y, 1 + int i, j + 1)" by (simp add: Date_def yk s(1))
    show "d = days_of_date y (1 + int i) (j + 1)" using ok(1) s(5) by (simp add: days_of_date_def)
  qed (use i12 s(3,4) j31 yk in auto)
qed

lemma Date_mono:
  assumes "d < e"
  shows "Date d < Date e"
proof -
  obtain y k where d: "year_day d = (y, k)" by (cases "year_day d")
  obtain z l where e: "year_day e = (z, l)" by (cases "year_day e")
  note ok = year_day_ok [OF d] year_day_ok [OF e]
  have "y < z \<or> y = z \<and> k < l"
  proof (cases y z rule: linorder_cases)
    case greater
    then show ?thesis using days_before_year_mono [of z y] ok assms by linarith
  qed (use ok assms in auto)
  then show ?thesis
  proof
    assume "y < z"
    then show ?thesis by (simp add: Date_def d e split: prod.split)
  next
    assume "y = z \<and> k < l"
    then show ?thesis using split_month_mono [of k l 1 "month_lengths (leap y)"]
      by (auto simp: Date_def d e split: prod.split)
  qed
qed

section \<open>The text\<close>

fun padded :: "nat \<Rightarrow> nat \<Rightarrow> string" where
  "padded 0 n = []"
| "padded (Suc w) n = padded w (n div 10) @ [digit_char (n mod 10)]"

text \<open>\<^verbatim>\<open>appendInt\<close> of the \<^verbatim>\<open>time\<close> package: zeros up to the width, more digits when the
  number needs them.\<close>

definition appendInt :: "int \<Rightarrow> nat \<Rightarrow> string" where
  "appendInt i w =
     (let n = nat \<bar>i\<bar>
      in (if i < 0 then ''-'' else []) @ (if n < 10 ^ w then padded w n else format_nat n))"

definition nanos_per_day :: int where "nanos_per_day = 86400 * second"

definition timestamp :: "time \<Rightarrow> string" where
  "timestamp t =
     (let k = t mod nanos_per_day; sec = k div second
      in case Date (t div nanos_per_day) of (y, m, j) \<Rightarrow>
        appendInt y 4 @ ''-'' @ appendInt m 2 @ ''-'' @ appendInt j 2 @ ''T'' @
        appendInt (sec div 3600) 2 @ '':'' @ appendInt (sec div 60 mod 60) 2 @ '':'' @
        appendInt (sec mod 60) 2 @ ''.'' @ appendInt (k mod second) 9 @ ''Z'')"

lemma padded_length [simp]: "length (padded w n) = w"
  by (induction w arbitrary: n) auto

lemma append_less:
  fixes xs ys us vs :: "'a::linorder list"
  assumes "length xs = length ys"
  shows "xs @ us < ys @ vs \<longleftrightarrow> xs < ys \<or> xs = ys \<and> us < vs"
  using assms by (induction xs ys rule: list_induct2) auto

lemma digit_char_less: "a < 10 \<Longrightarrow> b < 10 \<Longrightarrow> digit_char a < digit_char b \<longleftrightarrow> a < b"
  by (simp add: digit_char_def less_char_def)

lemma last_digit:
  fixes a b c d :: nat
  assumes "b < 10" "d < 10"
  shows "a < c \<or> a = c \<and> b < d \<longleftrightarrow> a * 10 + b < c * 10 + d"
  using assms by linarith

lemma padded_less:
  "n < 10 ^ w \<Longrightarrow> m < 10 ^ w \<Longrightarrow> padded w n < padded w m \<longleftrightarrow> n < m"
proof (induction w arbitrary: n m)
  case (Suc w)
  have inj: "padded w a = padded w b \<longleftrightarrow> a = b" if "a < 10 ^ w" "b < 10 ^ w" for a b
    using Suc(1) [of a b] Suc(1) [of b a] that by (metis less_irrefl linorder_neqE_nat)
  have d: "n div 10 < 10 ^ w" "m div 10 < 10 ^ w" using Suc(2,3) by (simp_all add: less_mult_imp_div_less)
  have "padded (Suc w) n < padded (Suc w) m \<longleftrightarrow>
      n div 10 < m div 10 \<or> n div 10 = m div 10 \<and> n mod 10 < m mod 10"
    using d Suc(1) [OF d] inj [OF d] by (simp add: append_less digit_char_less)
  also have "\<dots> \<longleftrightarrow> n < m"
    using last_digit [of "n mod 10" "m mod 10" "n div 10" "m div 10"] by simp
  finally show ?case .
qed simp

lemma padded_eq: "n < 10 ^ w \<Longrightarrow> m < 10 ^ w \<Longrightarrow> padded w n = padded w m \<longleftrightarrow> n = m"
  by (metis less_irrefl linorder_neqE_nat padded_less)

lemma appendInt_fits:
  assumes "0 \<le> i" "i < 10 ^ w"
  shows "appendInt i w = padded w (nat i)"
proof -
  have "nat i < 10 ^ w" using assms by (simp add: nat_less_iff)
  then show ?thesis using assms(1) by (simp add: appendInt_def)
qed

section \<open>Byte order is time order\<close>

definition fits :: "nat \<Rightarrow> int \<Rightarrow> bool" where
  "fits w i \<longleftrightarrow> 0 \<le> i \<and> i < 10 ^ w"

lemma appendInt_length: "fits w i \<Longrightarrow> length (appendInt i w) = w"
  by (simp add: fits_def appendInt_fits)

lemma appendInt_less: "fits w i \<Longrightarrow> fits w j \<Longrightarrow> appendInt i w < appendInt j w \<longleftrightarrow> i < j"
  by (auto simp: fits_def appendInt_fits padded_less nat_less_iff nat_less_eq_zless)

lemma appendInt_eq: "fits w i \<Longrightarrow> fits w j \<Longrightarrow> appendInt i w = appendInt j w \<longleftrightarrow> i = j"
  by (simp add: fits_def appendInt_fits padded_eq nat_less_iff eq_nat_nat_iff)

text \<open>The seven numbers of a timestamp.\<close>

definition stamp_parts :: "time \<Rightarrow> (int \<times> int \<times> int) \<times> int \<times> int \<times> int \<times> int" where
  "stamp_parts t =
     (let k = t mod nanos_per_day; sec = k div second
      in (Date (t div nanos_per_day), sec div 3600, sec div 60 mod 60, sec mod 60, k mod second))"

text \<open>The instants from the zero time to the end of the year 9999.\<close>

definition last_instant :: time where
  "last_instant = days_before_year 10000 * nanos_per_day - 1"

definition storable :: "time \<Rightarrow> bool" where
  "storable t \<longleftrightarrow> 0 \<le> t \<and> t \<le> last_instant"

lemma lex_step:
  fixes a b c :: int
  assumes "0 < c" "a < b"
  shows "a div c < b div c \<or> a div c = b div c \<and> a mod c < b mod c"
proof -
  have "a div c \<le> b div c" using assms by (simp add: zdiv_mono1)
  then show ?thesis
    using assms(2) by (cases "a div c = b div c") (auto simp: minus_mult_div_eq_mod [symmetric])
qed

lemma clock_mono:
  fixes s t :: int
  assumes "s < t"
  shows "(s div 3600, s div 60 mod 60, s mod 60) < (t div 3600, t div 60 mod 60, t mod 60)"
proof -
  have h: "x div 3600 = x div 60 div 60" for x :: int
    using zdiv_zmult2_eq [of 60 x 60] by simp
  consider "s div 60 < t div 60" | "s div 60 = t div 60" "s mod 60 < t mod 60"
    using lex_step [where c = 60, OF zero_less_numeral assms] by blast
  then show ?thesis
  proof cases
    case 1
    consider "s div 3600 < t div 3600" | "s div 3600 = t div 3600" "s div 60 mod 60 < t div 60 mod 60"
      using lex_step [where c = 60, OF zero_less_numeral 1] unfolding h by blast
    then show ?thesis unfolding less_prod_simp by cases (blast intro: eq_refl)+
  next
    case 2
    have "s div 3600 = t div 3600" "s div 60 mod 60 = t div 60 mod 60" unfolding h 2(1) by (rule refl)+
    then show ?thesis unfolding less_prod_simp using 2 by (blast intro: eq_refl)
  qed
qed

lemma stamp_parts_mono:
  assumes "t < u"
  shows "stamp_parts t < stamp_parts u"
proof -
  have D: "0 < nanos_per_day" "0 < second" by (simp_all add: nanos_per_day_def second_def)
  let ?k = "\<lambda>t. t mod nanos_per_day"
  consider "t div nanos_per_day < u div nanos_per_day" |
    "t div nanos_per_day = u div nanos_per_day" "?k t < ?k u"
    using lex_step [OF D(1) assms] by auto
  then show ?thesis
  proof cases
    case 1
    then show ?thesis using Date_mono by (simp add: stamp_parts_def Let_def)
  next
    case 2
    consider "?k t div second < ?k u div second" |
      "?k t div second = ?k u div second" "?k t mod second < ?k u mod second"
      using lex_step [OF D(2) 2(2)] by auto
    then show ?thesis
    proof cases
      case s: 1
      show ?thesis using clock_mono [OF s] 2(1)
        unfolding stamp_parts_def Let_def less_prod_simp by auto
    next
      case s: 2
      show ?thesis using s 2(1) by (simp add: stamp_parts_def Let_def)
    qed
  qed
qed

lemma stamp_parts_less: "stamp_parts t < stamp_parts u \<longleftrightarrow> t < u"
  by (metis linorder_neqE less_asym less_irrefl stamp_parts_mono)

lemma storable_year:
  assumes "storable t"
  shows "1 \<le> fst (year_day (t div nanos_per_day))" "fst (year_day (t div nanos_per_day)) \<le> 9999"
proof -
  let ?d = "t div nanos_per_day"
  have D: "0 < nanos_per_day" by (simp add: nanos_per_day_def second_def)
  obtain y k where yk: "year_day ?d = (y, k)" by (cases "year_day ?d")
  note ok = year_day_ok [OF yk]
  have d: "0 \<le> ?d" using assms D by (simp add: storable_def pos_imp_zdiv_nonneg_iff)
  have "t < days_before_year 10000 * nanos_per_day" using assms by (simp add: storable_def last_instant_def)
  then have d2: "?d < days_before_year 10000" using cut_below(2) [OF D _ _ refl] assms by (simp add: storable_def)
  have "1 \<le> y"
  proof (rule ccontr)
    assume "\<not> 1 \<le> y"
    then have "days_before_year y + year_length y \<le> days_before_year 1" using days_before_year_mono [of y 1] by simp
    then show False using ok d by (simp add: days_before_year_def [of 1])
  qed
  moreover have "y \<le> 9999"
  proof (rule ccontr)
    assume "\<not> y \<le> 9999"
    then have "days_before_year 10000 \<le> days_before_year y"
      using days_before_year_mono [of 10000 y] by (cases "y = 10000") (auto simp: year_length_def split: if_splits)
    then show False using ok d2 by linarith
  qed
  ultimately show "1 \<le> fst (year_day ?d)" "fst (year_day ?d) \<le> 9999" by (simp_all add: yk)
qed

definition daysIn :: "int \<Rightarrow> int \<Rightarrow> int" where
  "daysIn m y = month_lengths (leap y) ! nat (m - 1)"

lemma stamp_ranges:
  assumes "storable t" "stamp_parts t = ((y, m, j), h, mi, s, ns)"
  shows "1 \<le> y \<and> y \<le> 9999" "1 \<le> m \<and> m \<le> 12" "1 \<le> j \<and> j \<le> 31 \<and> j \<le> daysIn m y"
    "0 \<le> h \<and> h \<le> 23" "0 \<le> mi \<and> mi \<le> 59" "0 \<le> s \<and> s \<le> 59" "0 \<le> ns \<and> ns < 1000000000"
proof -
  let ?k = "t mod nanos_per_day"
  let ?s = "?k div second"
  have k: "0 \<le> ?k" "?k < 86400 * 1000000000" by (simp_all add: nanos_per_day_def second_def)
  have s: "0 \<le> ?s" "?s < 86400"
    using cut_below(1,2) [OF _ k(1) _ refl, of second 86400] k(2) by (simp_all add: second_def)
  have h: "0 \<le> ?s div 3600" "?s div 3600 < 24"
    using cut_below(1,2) [OF _ s(1) _ refl, of 3600 24] s(2) by simp_all
  obtain y' m' j' where d: "Date (t div nanos_per_day) = (y', m', j')" "1 \<le> m'" "m' \<le> 12" "1 \<le> j'" "j' \<le> 31"
    "j' \<le> month_lengths (leap y') ! nat (m' - 1)" "fst (year_day (t div nanos_per_day)) = y'"
    by (rule Date_value)
  have e: "y = y'" "m = m'" "j = j'" "h = ?s div 3600" "mi = ?s div 60 mod 60" "s = ?s mod 60" "ns = ?k mod second"
    using assms(2) d(1) by (simp_all add: stamp_parts_def Let_def)
  show "1 \<le> y \<and> y \<le> 9999" using storable_year [OF assms(1)] d(7) by (simp add: e)
  show "1 \<le> m \<and> m \<le> 12" "1 \<le> j \<and> j \<le> 31 \<and> j \<le> daysIn m y" using d by (simp_all add: e daysIn_def)
  show "0 \<le> h \<and> h \<le> 23" using h by (simp add: e)
  have "0 \<le> x mod 60 \<and> x mod 60 \<le> 59" for x :: int
    using pos_mod_bound [of 60 x] pos_mod_sign [of 60 x] by linarith
  then show "0 \<le> mi \<and> mi \<le> 59" "0 \<le> s \<and> s \<le> 59" unfolding e by blast+
  show "0 \<le> ns \<and> ns < 1000000000" by (simp add: e second_def)
qed

lemma stamp_fits:
  assumes "storable t" "stamp_parts t = ((y, m, j), h, mi, s, ns)"
  shows "fits 4 y" "fits 2 m" "fits 2 j" "fits 2 h" "fits 2 mi" "fits 2 s" "fits 9 ns"
  using stamp_ranges [OF assms] by (simp_all add: fits_def)

definition stamp_text :: "(int \<times> int \<times> int) \<times> int \<times> int \<times> int \<times> int \<Rightarrow> string" where
  "stamp_text p =
     (case p of ((y, m, j), h, mi, s, ns) \<Rightarrow>
        appendInt y 4 @ ''-'' @ appendInt m 2 @ ''-'' @ appendInt j 2 @ ''T'' @
        appendInt h 2 @ '':'' @ appendInt mi 2 @ '':'' @ appendInt s 2 @ ''.'' @ appendInt ns 9 @ ''Z'')"

lemma timestamp_parts: "timestamp t = stamp_text (stamp_parts t)"
  by (simp add: timestamp_def stamp_text_def stamp_parts_def Let_def split: prod.split)

lemma timestamp_less:
  assumes "storable t" "storable u"
  shows "timestamp t < timestamp u \<longleftrightarrow> t < u"
proof -
  obtain y m j h mi s ns where t: "stamp_parts t = ((y, m, j), h, mi, s, ns)" by (metis surj_pair)
  obtain y' m' j' h' mi' s' ns' where u: "stamp_parts u = ((y', m', j'), h', mi', s', ns')" by (metis surj_pair)
  note ft = stamp_fits [OF assms(1) t] and fu = stamp_fits [OF assms(2) u]
  note l = ft [THEN appendInt_length] fu [THEN appendInt_length]
  have "timestamp t < timestamp u \<longleftrightarrow> stamp_parts t < stamp_parts u"
    using ft fu unfolding timestamp_parts t u stamp_text_def
    by (simp add: append_less l appendInt_less appendInt_eq le_less) blast
  then show ?thesis by (simp add: stamp_parts_less)
qed

section \<open>Parsing\<close>

text \<open>
  \<^verbatim>\<open>time.Parse\<close> of \<^verbatim>\<open>RFC3339Nano\<close> tries the strict reading of RFC 3339 first, which is
  modelled; what it declines goes to the general layout parser of the \<^verbatim>\<open>time\<close> package, an
  argument.
\<close>

definition sub :: "nat \<Rightarrow> nat \<Rightarrow> string \<Rightarrow> string" where
  "sub a b s = take (b - a) (drop a s)"

definition parseUint :: "int \<Rightarrow> int \<Rightarrow> string \<Rightarrow> int option" where
  "parseUint lo hi s =
     (let v = int (decimal_value s)
      in if list_all is_digit s \<and> lo \<le> v \<and> v \<le> hi then Some v else None)"

definition parseNanoseconds :: "string \<Rightarrow> int" where
  "parseNanoseconds ds = (let k = take 9 ds in int (decimal_value k) * 10 ^ (9 - length k))"

definition split_fraction :: "string \<Rightarrow> int \<times> string" where
  "split_fraction s =
     (if 2 \<le> length s \<and> s ! 0 = CHR ''.'' \<and> is_digit (s ! 1)
      then (parseNanoseconds (takeWhile is_digit (tl s)), dropWhile is_digit (tl s)) else (0, s))"

text \<open>The offset of the zone, in seconds.\<close>

definition zone_offset :: "string \<Rightarrow> int option" where
  "zone_offset s =
     (if s = ''Z'' then Some 0
      else if length s \<noteq> 6 then None
      else case (parseUint 0 23 (sub 1 3 s), parseUint 0 59 (sub 4 6 s)) of
        (Some hr, Some mm) \<Rightarrow>
          if (s ! 0 = CHR ''-'' \<or> s ! 0 = CHR ''+'') \<and> s ! 3 = CHR '':''
          then Some ((if s ! 0 = CHR ''-'' then -1 else 1) * ((hr * 60 + mm) * 60)) else None
      | _ \<Rightarrow> None)"

definition parseRFC3339 :: "string \<Rightarrow> time option" where
  "parseRFC3339 s =
     (if length s < 19 then None
      else case (parseUint 0 9999 (sub 0 4 s), parseUint 1 12 (sub 5 7 s)) of
        (Some y, Some m) \<Rightarrow>
          (case (parseUint 1 (daysIn m y) (sub 8 10 s), parseUint 0 23 (sub 11 13 s),
              parseUint 0 59 (sub 14 16 s), parseUint 0 59 (sub 17 19 s)) of
             (Some j, Some h, Some mi, Some sec) \<Rightarrow>
               if s ! 4 = CHR ''-'' \<and> s ! 7 = CHR ''-'' \<and> s ! 10 = CHR ''T'' \<and> s ! 13 = CHR '':'' \<and>
                  s ! 16 = CHR '':''
               then (case split_fraction (drop 19 s) of (ns, zone) \<Rightarrow>
                 (case zone_offset zone of
                    None \<Rightarrow> None
                  | Some off \<Rightarrow>
                      Some (days_of_date y m j * nanos_per_day +
                        (h * 3600 + mi * 60 + sec - off) * second + ns)))
               else None
           | _ \<Rightarrow> None)
      | _ \<Rightarrow> None)"

definition parseTimestamp :: "(string \<Rightarrow> time option) \<Rightarrow> string \<Rightarrow> time option" where
  "parseTimestamp general s = (case parseRFC3339 s of Some t \<Rightarrow> Some t | None \<Rightarrow> general s)"

lemma padded_digits: "list_all is_digit (padded w n)"
  by (induction w arbitrary: n) auto

lemma padded_value: "n < 10 ^ w \<Longrightarrow> decimal_value (padded w n) = n"
proof (induction w arbitrary: n)
  case 0
  then show ?case by (simp add: decimal_value_def)
next
  case (Suc w)
  then have "n div 10 < 10 ^ w" by (simp add: less_mult_imp_div_less)
  with Suc(1) show ?case by simp
qed

lemma parseUint_appendInt:
  "fits w i \<Longrightarrow> lo \<le> i \<Longrightarrow> i \<le> hi \<Longrightarrow> parseUint lo hi (appendInt i w) = Some i"
  by (simp add: parseUint_def fits_def appendInt_fits padded_digits padded_value nat_less_iff)

lemma split_fraction_appendInt:
  assumes "fits 9 i"
  shows "split_fraction (CHR ''.'' # appendInt i 9 @ ''Z'') = (i, ''Z'')"
proof -
  have p: "appendInt i 9 = padded 9 (nat i)" "nat i < 10 ^ 9"
    using assms by (simp_all add: fits_def appendInt_fits nat_less_iff)
  have z: "\<not> is_digit (CHR ''Z'')" by (simp add: is_digit_def less_eq_char_def)
  have all: "\<forall>c \<in> set (padded 9 (nat i)). is_digit c" using padded_digits by (simp add: list_all_iff)
  obtain c cs where c: "padded 9 (nat i) = c # cs" by (metis length_0_conv list.exhaust padded_length zero_neq_numeral)
  have "takeWhile is_digit (padded 9 (nat i) @ ''Z'') = padded 9 (nat i)"
    "dropWhile is_digit (padded 9 (nat i) @ ''Z'') = ''Z''"
    using all z by (simp_all add: takeWhile_append2 dropWhile_append2)
  moreover have "is_digit ((CHR ''.'' # padded 9 (nat i) @ ''Z'') ! 1)" using all c by simp
  moreover have "parseNanoseconds (padded 9 (nat i)) = i"
    using padded_value [OF p(2)] assms by (simp add: parseNanoseconds_def fits_def)
  ultimately show ?thesis by (simp add: split_fraction_def p(1))
qed

lemma sixty_twice: "x = q * 60 + r \<Longrightarrow> q = p * 60 + m \<Longrightarrow> x = p * 3600 + m * 60 + (r::int)"
  by simp

lemma clock_value: "(x::int) = x div 3600 * 3600 + x div 60 mod 60 * 60 + x mod 60"
proof -
  have "x div 3600 = x div 60 div 60" using zdiv_zmult2_eq [of 60 x 60] by simp
  then show ?thesis
    using sixty_twice [OF div_mult_mod_eq [of x 60, symmetric] div_mult_mod_eq [of "x div 60" 60, symmetric]]
    by (simp only:)
qed

lemma date_time:
  assumes "stamp_parts t = ((y, m, j), h, mi, s, ns)"
  shows "t = days_of_date y m j * nanos_per_day + (h * 3600 + mi * 60 + s) * second + ns"
proof -
  let ?k = "t mod nanos_per_day"
  let ?s = "?k div second"
  obtain y' m' j' where d: "Date (t div nanos_per_day) = (y', m', j')"
    "t div nanos_per_day = days_of_date y' m' j'"
    by (rule Date_value)
  have e: "y = y'" "m = m'" "j = j'" "h = ?s div 3600" "mi = ?s div 60 mod 60" "s = ?s mod 60" "ns = ?k mod second"
    using assms d(1) by (simp_all add: stamp_parts_def Let_def)
  have "?s = h * 3600 + mi * 60 + s" unfolding e by (rule clock_value)
  then have "?k = (h * 3600 + mi * 60 + s) * second + ns"
    using mult_div_mod_eq [of second ?k] by (simp add: e(7) mult.commute)
  then show ?thesis using mult_div_mod_eq [of nanos_per_day t] d(2) e(1-3) by (simp add: mult.commute)
qed

lemma parse_timestamp:
  assumes "storable t"
  shows "parseTimestamp general (timestamp t) = Some t"
proof -
  obtain y m j h mi s ns where p: "stamp_parts t = ((y, m, j), h, mi, s, ns)" by (metis surj_pair)
  note f = stamp_fits [OF assms p]
  note l [simp] = f [THEN appendInt_length]
  note r = stamp_ranges [OF assms p]
  have u: "parseUint 0 9999 (appendInt y 4) = Some y" "parseUint 1 12 (appendInt m 2) = Some m"
    "parseUint 1 (daysIn m y) (appendInt j 2) = Some j" "parseUint 0 23 (appendInt h 2) = Some h"
    "parseUint 0 59 (appendInt mi 2) = Some mi" "parseUint 0 59 (appendInt s 2) = Some s"
    by (rule parseUint_appendInt; use f r in simp)+
  have x: "timestamp t = appendInt y 4 @ ''-'' @ appendInt m 2 @ ''-'' @ appendInt j 2 @ ''T'' @
      appendInt h 2 @ '':'' @ appendInt mi 2 @ '':'' @ appendInt s 2 @ ''.'' @ appendInt ns 9 @ ''Z''"
    by (simp add: timestamp_parts p stamp_text_def)
  have "parseRFC3339 (timestamp t) = Some t"
    unfolding x parseRFC3339_def
    by (simp add: sub_def u nth_append split_fraction_appendInt [OF f(7)] zone_offset_def
        date_time [OF p, symmetric])
  then show ?thesis by (simp add: parseTimestamp_def)
qed

end
