(* ===== verification/Cursors.thy ===== *)
theory Cursors
  imports Timestamps Messages
begin

text \<open>
  Continuation tokens of a message listing: \<^verbatim>\<open>store/cursor.go\<close>, with the unpadded URL-safe
  base64 of \<^verbatim>\<open>encoding/base64\<close> they are written in.
\<close>

section \<open>Base64\<close>

definition base64_alphabet :: string where
  "base64_alphabet =
     ''ABCDEFGHIJKLMNOPQRSTUVWXYZabcdefghijklmnopqrstuvwxyz0123456789-_''"

definition base64_char :: "nat \<Rightarrow> char" where
  "base64_char n = base64_alphabet ! n"

fun index_of :: "char \<Rightarrow> string \<Rightarrow> nat option" where
  "index_of c [] = None"
| "index_of c (d # ds) = (if c = d then Some 0 else map_option Suc (index_of c ds))"

definition base64_value :: "char \<Rightarrow> nat option" where
  "base64_value c = index_of c base64_alphabet"

definition byte_val :: "char \<Rightarrow> nat" where "byte_val c = of_char c"

fun sextets :: "char list \<Rightarrow> nat list" where
  "sextets [] = []"
| "sextets [a] = [byte_val a div 4, byte_val a mod 4 * 16]"
| "sextets [a, b] =
     [byte_val a div 4, byte_val a mod 4 * 16 + byte_val b div 16, byte_val b mod 16 * 4]"
| "sextets (a # b # c # cs) =
     [byte_val a div 4, byte_val a mod 4 * 16 + byte_val b div 16,
      byte_val b mod 16 * 4 + byte_val c div 64, byte_val c mod 64] @ sextets cs"

text \<open>\<^verbatim>\<open>RawURLEncoding.EncodeToString\<close>, and \<^verbatim>\<open>DecodeString\<close>, which skips line ends and
  does not look at the bits that are left over.\<close>

definition EncodeToString :: "char list \<Rightarrow> string" where
  "EncodeToString s = map base64_char (sextets s)"

fun from_sextets :: "nat list \<Rightarrow> char list option" where
  "from_sextets [] = Some []"
| "from_sextets [p] = None"
| "from_sextets [p, q] = Some [char_of (p * 4 + q div 16)]"
| "from_sextets [p, q, r] = Some [char_of (p * 4 + q div 16), char_of (q mod 16 * 16 + r div 4)]"
| "from_sextets (p # q # r # s # ns) =
     map_option (\<lambda>cs. char_of (p * 4 + q div 16) # char_of (q mod 16 * 16 + r div 4) #
         char_of (r mod 4 * 64 + s) # cs)
       (from_sextets ns)"

definition all_values :: "nat option list \<Rightarrow> nat list option" where
  "all_values vs = (if list_all (\<lambda>v. v \<noteq> None) vs then Some (map the vs) else None)"

definition DecodeString :: "string \<Rightarrow> char list option" where
  "DecodeString s =
     (case all_values (map base64_value (filter (\<lambda>c. c \<noteq> CHR 0x0D \<and> c \<noteq> CHR 0x0A) s)) of
        None \<Rightarrow> None
      | Some ns \<Rightarrow> from_sextets ns)"

lemma base64_table: "list_all (\<lambda>n. base64_value (base64_char n) = Some n) [0..<64]"
  by code_simp

lemma base64_no_line_end: "list_all (\<lambda>c. c \<noteq> CHR 0x0D \<and> c \<noteq> CHR 0x0A) base64_alphabet"
  by code_simp

lemma base64_value_char: "n < 64 \<Longrightarrow> base64_value (base64_char n) = Some n"
  using base64_table by (simp add: list_all_iff)

lemma base64_length: "length base64_alphabet = 64"
  by code_simp

lemma byte_val_less: "byte_val c < 256"
  by (simp add: byte_val_def)

lemma char_of_byte_val [simp]: "char_of (byte_val c) = c"
  by (simp add: byte_val_def)

lemma split4: "a < 256 \<Longrightarrow> a div 4 < 64" "a mod 4 * 16 < (64::nat)"
proof -
  show "a < 256 \<Longrightarrow> a div 4 < 64" by (simp add: less_mult_imp_div_less)
  have "a mod 4 < 4" by simp
  then show "a mod 4 * 16 < 64" by linarith
qed

lemma split16: "b < 256 \<Longrightarrow> a mod 4 * 16 + b div 16 < 64" "b mod 16 * 4 < (64::nat)"
proof -
  have "a mod 4 < 4" "b mod 16 < 16" by simp_all
  then show "b mod 16 * 4 < 64" by linarith
  assume "b < 256"
  then have "b div 16 < 16" by (simp add: less_mult_imp_div_less)
  with \<open>a mod 4 < 4\<close> show "a mod 4 * 16 + b div 16 < 64" by linarith
qed

lemma split64: "c < 256 \<Longrightarrow> b mod 16 * 4 + c div 64 < 64" "c mod 64 < (64::nat)"
proof -
  have "b mod 16 < 16" by simp
  assume "c < 256"
  then have "c div 64 < 4" by (simp add: less_mult_imp_div_less)
  with \<open>b mod 16 < 16\<close> show "b mod 16 * 4 + c div 64 < 64" by linarith
qed simp

lemma sextets_range: "list_all (\<lambda>n. n < 64) (sextets s)"
  by (induction s rule: sextets.induct) (simp_all add: split4 split16 split64 byte_val_less)

lemma byte_parts:
  fixes a :: nat
  assumes "r < n" "0 < n"
  shows "(a mod m * n + r) div n = a mod m" "(a mod m * n + r) mod n = r"
  using assms by simp_all

lemma byte_join:
  fixes a b c :: nat
  assumes "b < 256" "c < 256"
  shows "a div 4 * 4 + (a mod 4 * 16 + b div 16) div 16 = a"
    "(a mod 4 * 16 + b div 16) mod 16 * 16 + (b mod 16 * 4 + c div 64) div 4 = b"
    "(b mod 16 * 4 + c div 64) mod 4 * 64 + c mod 64 = c"
proof -
  have "b div 16 < 16" "c div 64 < 4" using assms by (simp_all add: less_mult_imp_div_less)
  then show "a div 4 * 4 + (a mod 4 * 16 + b div 16) div 16 = a"
    "(a mod 4 * 16 + b div 16) mod 16 * 16 + (b mod 16 * 4 + c div 64) div 4 = b"
    "(b mod 16 * 4 + c div 64) mod 4 * 64 + c mod 64 = c"
    by (simp_all add: byte_parts)
qed

lemma from_sextets_sextets: "from_sextets (sextets s) = Some s"
proof (induction s rule: sextets.induct)
  case (2 a)
  then show ?case using byte_join(1) [of 0 0 "byte_val a"] by simp
next
  case (3 a b)
  then show ?case using byte_join(1,2) [of "byte_val b" 0 "byte_val a"] byte_val_less by simp
next
  case (4 a b c cs)
  then show ?case using byte_join(1,2) [of "byte_val b" "byte_val c" "byte_val a"]
      byte_join(3) [of "byte_val b" "byte_val c"] byte_val_less by simp
qed simp

lemma DecodeString_EncodeToString: "DecodeString (EncodeToString s) = Some s"
proof -
  have r: "\<forall>n \<in> set (sextets s). n < 64" using sextets_range by (simp add: list_all_iff)
  have "base64_char n \<in> set base64_alphabet" if "n < 64" for n
    using that by (simp add: base64_char_def base64_length)
  then have "filter (\<lambda>c. c \<noteq> CHR 0x0D \<and> c \<noteq> CHR 0x0A) (EncodeToString s) = EncodeToString s"
    using r base64_no_line_end by (auto simp: EncodeToString_def filter_id_conv list_all_iff)
  moreover have "map base64_value (EncodeToString s) = map Some (sextets s)"
    using r by (auto simp: EncodeToString_def base64_value_char)
  ultimately show ?thesis
    by (simp add: DecodeString_def all_values_def list_all_iff from_sextets_sextets comp_def)
qed

section \<open>Cursors\<close>

datatype cursor_error = NotACursorToken | WrongShape | BadTimestamp

fun cut_space :: "string \<Rightarrow> (string \<times> string) option" where
  "cut_space [] = None"
| "cut_space (c # cs) =
     (if c = CHR '' '' then Some ([], cs) else map_option (\<lambda>(a, b). (c # a, b)) (cut_space cs))"

definition Encode :: "time \<times> ident \<Rightarrow> string" where
  "Encode c = EncodeToString (timestamp (fst c) @ '' '' @ snd c)"

definition DecodeMessageCursor ::
  "(string \<Rightarrow> time option) \<Rightarrow> string \<Rightarrow> cursor_error + time \<times> ident" where
  "DecodeMessageCursor general token =
     (case DecodeString token of
        None \<Rightarrow> Inl NotACursorToken
      | Some raw \<Rightarrow>
          (case cut_space raw of
             None \<Rightarrow> Inl WrongShape
           | Some (ts, i) \<Rightarrow>
               if \<not> ValidID i then Inl WrongShape
               else (case parseTimestamp general ts of
                 None \<Rightarrow> Inl BadTimestamp
               | Some t \<Rightarrow> Inr (t, i))))"

lemma cut_space_first: "CHR '' '' \<notin> set a \<Longrightarrow> cut_space (a @ '' '' @ b) = Some (a, b)"
  by (induction a) auto

lemma timestamp_no_space:
  assumes "storable t"
  shows "CHR '' '' \<notin> set (timestamp t)"
proof -
  have "CHR '' '' \<notin> set (padded w n)" for w n
    using padded_digits [of w n] by (auto simp: list_all_iff is_digit_def less_eq_char_def)
  then have "fits w i \<Longrightarrow> CHR '' '' \<notin> set (appendInt i w)" for w i
    by (simp add: fits_def appendInt_fits)
  moreover obtain y m j h mi s ns where p: "stamp_parts t = ((y, m, j), h, mi, s, ns)" by (metis surj_pair)
  ultimately show ?thesis
    using stamp_fits [OF assms p] by (auto simp: timestamp_parts stamp_text_def)
qed

lemma Decode_Encode:
  assumes "storable (fst c)" "ValidID (snd c)"
  shows "DecodeMessageCursor general (Encode c) = Inr c"
  using assms cut_space_first [OF timestamp_no_space [OF assms(1)], of "snd c"]
  by (simp add: DecodeMessageCursor_def Encode_def DecodeString_EncodeToString parse_timestamp)

text \<open>The text a cursor is made of sorts as the pair of the time and the id does.\<close>

lemma cursor_text_order:
  assumes "storable t" "storable u"
  shows "(timestamp t, i) < (timestamp u, j) \<longleftrightarrow> (t, i) < (u, j)"
  using timestamp_less [OF assms] timestamp_less [OF assms(2,1)]
  by (auto simp: le_less)

section \<open>Paging\<close>

text \<open>
  A caller that asks for page after page, each time with the token of the last row it was given,
  until a page is empty.
\<close>

fun list_pages ::
  "(string \<Rightarrow> string option) \<Rightarrow> (string \<Rightarrow> time option) \<Rightarrow> store \<Rightarrow> message_filter \<Rightarrow> nat \<Rightarrow>
     message_view list list" where
  "list_pages to_ascii general s f 0 = []"
| "list_pages to_ascii general s f (Suc n) =
     (let page = ListMessages to_ascii s f
      in if page = [] then []
         else case DecodeMessageCursor general (Encode (CursorFor (mv_row (last page)))) of
           Inl e \<Rightarrow> [page]
         | Inr c \<Rightarrow> page # list_pages to_ascii general s (f\<lparr>mf_cursor := c\<rparr>) n)"

lemma scan_message_row [simp]: "mv_row (scan_message s m) = m"
  by (simp add: scan_message_def Let_def split: option.split)

definition selected_rows :: "(string \<Rightarrow> string option) \<Rightarrow> store \<Rightarrow> message_filter \<Rightarrow> message list" where
  "selected_rows to_ascii s f = newest_first (rows_where (message_selected to_ascii f) (messages s))"

lemma newest_first_filter: "newest_first (filter P ms) = filter P (newest_first ms)"
  by (simp add: newest_first_def rev_filter [symmetric] filter_sort)

lemma ListMessages_selected:
  "ListMessages to_ascii s f =
     (let rows = filter (\<lambda>m. cursor_is_zero (mf_cursor f) \<or> CursorFor m < mf_cursor f) (selected_rows to_ascii s f)
      in map (scan_message s) (if 0 < mf_limit f then take (mf_limit f) rows else rows))"
  by (simp add: ListMessages_def selected_rows_def newest_first_filter [symmetric] Let_def conj_commute)

lemma message_selected_cong [simp]:
  "message_selected to_ascii (f\<lparr>mf_cursor := c\<rparr>) = message_selected to_ascii f"
  "message_selected to_ascii (f\<lparr>mf_limit := k\<rparr>) = message_selected to_ascii f"
  by (simp_all add: fun_eq_iff message_selected_def)

lemma selected_rows_cong [simp]:
  "selected_rows to_ascii s (f\<lparr>mf_cursor := c\<rparr>) = selected_rows to_ascii s f"
  "selected_rows to_ascii s (f\<lparr>mf_limit := k\<rparr>) = selected_rows to_ascii s f"
  by (simp_all add: selected_rows_def)

lemma selected_rows_sub: "set (selected_rows to_ascii s f) \<subseteq> set (messages s)"
  by (auto simp: selected_rows_def newest_first_def)

lemma newest_first_strict:
  assumes "distinct (map msg_id ms)"
  shows "sorted_wrt (\<lambda>a b. CursorFor b < CursorFor a) (newest_first ms)"
proof -
  have d: "distinct (map CursorFor ms)"
  proof (rule distinct_map [THEN iffD2], intro conjI)
    show "distinct ms" using assms by (simp add: distinct_map)
    show "inj_on CursorFor (set ms)"
      using assms by (auto simp: distinct_map inj_on_def CursorFor_def)
  qed
  have "distinct (map CursorFor (sort_key CursorFor ms))"
    using d by (simp add: distinct_map)
  then have "sorted_wrt (<) (map CursorFor (sort_key CursorFor ms))"
    by (simp add: strict_sorted_iff)
  then show ?thesis by (simp add: newest_first_def sorted_wrt_rev sorted_wrt_map)
qed

lemma filter_below:
  assumes "sorted_wrt (\<lambda>a b. key b < key a) (xs @ m # ys)"
  shows "filter (\<lambda>x. key x < (key m :: 'b::linorder)) (xs @ m # ys) = ys"
proof -
  have "filter (\<lambda>x. key x < key m) xs = []" "filter (\<lambda>x. key x < key m) ys = ys"
    using assms by (auto simp: sorted_wrt_append filter_empty_conv filter_id_conv)
  then show ?thesis by simp
qed

text \<open>Together the pages are the listing without a limit, however small a page is.\<close>

lemma list_pages_from:
  fixes s :: store
  assumes sorted: "sorted_wrt (\<lambda>a b. CursorFor b < CursorFor a) rows"
    and rows: "rows = selected_rows to_ascii s f"
    and ok: "\<forall>m\<in>set rows. storable (msg_received_at m) \<and> ValidID (msg_id m)"
    and limit: "0 < mf_limit f"
  shows "filter (\<lambda>m. cursor_is_zero c \<or> CursorFor m < c) rows = drop i rows \<Longrightarrow> length rows < i + n \<Longrightarrow>
     concat (list_pages to_ascii general s (f\<lparr>mf_cursor := c\<rparr>) n) = map (scan_message s) (drop i rows)"
proof (induction n arbitrary: c i)
  case (Suc n)
  let ?k = "mf_limit f"
  let ?p = "take ?k (drop i rows)"
  have page: "ListMessages to_ascii s (f\<lparr>mf_cursor := c\<rparr>) = map (scan_message s) ?p"
    using Suc.prems(1) limit by (simp add: ListMessages_selected rows [symmetric])
  show ?case
  proof (cases "?p = []")
    case True
    then have "drop i rows = []" using limit by (auto simp: take_eq_Nil)
    then show ?thesis using page by simp
  next
    case False
    define m where "m = last ?p"
    have m: "m \<in> set rows" using False last_in_set [of ?p] unfolding m_def by (meson in_set_dropD in_set_takeD)
    have "rows = take i rows @ butlast ?p @ m # drop (i + ?k) rows"
      using False unfolding m_def
      by (metis append_assoc append_butlast_last_id append_take_drop_id append_Cons append_Nil drop_drop add.commute)
    then obtain xs where split: "rows = xs @ m # drop (i + ?k) rows" by (metis append_assoc)
    have "filter (\<lambda>x. CursorFor x < CursorFor m) rows = drop (i + ?k) rows"
      using filter_below [of CursorFor xs m "drop (i + ?k) rows"] sorted split by simp
    moreover have "ValidID (msg_id m)" "storable (msg_received_at m)" using ok m by auto
    moreover have "\<not> cursor_is_zero (CursorFor m)"
      using \<open>ValidID (msg_id m)\<close> by (auto simp: cursor_is_zero_def CursorFor_def ValidID_def)
    moreover have "length rows < i + ?k + n" using Suc.prems(2) limit by linarith
    ultimately have "concat (list_pages to_ascii general s (f\<lparr>mf_cursor := CursorFor m\<rparr>) n) =
        map (scan_message s) (drop (i + ?k) rows)"
      using Suc.IH [of "CursorFor m" "i + ?k"] by simp
    moreover have "DecodeMessageCursor general (Encode (CursorFor (mv_row (last (map (scan_message s) ?p))))) =
        Inr (CursorFor m)"
      using Decode_Encode [of "CursorFor m" general] False \<open>ValidID (msg_id m)\<close> \<open>storable (msg_received_at m)\<close>
      by (simp add: last_map m_def CursorFor_def)
    moreover have "map (scan_message s) ?p @ map (scan_message s) (drop (i + ?k) rows) =
        map (scan_message s) (drop i rows)"
      by (metis append_take_drop_id drop_drop add.commute map_append)
    ultimately show ?thesis
      using page False by (simp only: list_pages.simps Let_def) simp
  qed
qed simp

lemma list_pages_whole:
  assumes "distinct (map msg_id (messages s))"
    and "\<forall>m\<in>set (messages s). storable (msg_received_at m) \<and> ValidID (msg_id m)"
    and "0 < mf_limit f" "cursor_is_zero (mf_cursor f)" "length (messages s) < n"
  shows "concat (list_pages to_ascii general s f n) = ListMessages to_ascii s (f\<lparr>mf_limit := 0\<rparr>)"
    and "\<forall>page\<in>set (list_pages to_ascii general s f n). page \<noteq> [] \<and> length page \<le> mf_limit f"
proof -
  let ?rows = "selected_rows to_ascii s f"
  have "distinct (map msg_id (rows_where (message_selected to_ascii f) (messages s)))"
    using assms(1) by (simp add: distinct_map_filter)
  then have sorted: "sorted_wrt (\<lambda>a b. CursorFor b < CursorFor a) ?rows"
    unfolding selected_rows_def by (rule newest_first_strict)
  have ok: "\<forall>m\<in>set ?rows. storable (msg_received_at m) \<and> ValidID (msg_id m)"
    using assms(2) selected_rows_sub [of to_ascii s f] by blast
  have "length ?rows \<le> length (messages s)" by (simp add: selected_rows_def newest_first_def)
  then have "length ?rows < 0 + n" using assms(5) by simp
  from list_pages_from [OF sorted refl ok assms(3), of "mf_cursor f" 0 n general, OF _ this] assms(4)
  show "concat (list_pages to_ascii general s f n) = ListMessages to_ascii s (f\<lparr>mf_limit := 0\<rparr>)"
    by (simp add: ListMessages_selected)
  have "\<forall>page\<in>set (list_pages to_ascii general s g n). page \<noteq> [] \<and> length page \<le> mf_limit g"
    if l: "0 < mf_limit g" for g
    using l
  proof (induction n arbitrary: g)
    case (Suc n)
    have "length (ListMessages to_ascii s g) \<le> mf_limit g"
      using Suc.prems by (simp add: ListMessages_selected Let_def)
    then show ?case
      using Suc.IH [of "g\<lparr>mf_cursor := c\<rparr>" for c] Suc.prems by (auto simp: Let_def split: sum.splits)
  qed simp
  then show "\<forall>page\<in>set (list_pages to_ascii general s f n). page \<noteq> [] \<and> length page \<le> mf_limit f"
    using assms(3) by blast
qed

end
