(* ===== verification/Secrets.thy ===== *)
theory Secrets
  imports Main "HOL-Library.Char_ord"
begin

text \<open>
  The sealed containers and the key file: \<^verbatim>\<open>internal/secrets\<close>. The cipher
  (\<^verbatim>\<open>AES-256-GCM\<close>) and \<^verbatim>\<open>SHA-256\<close> are arguments. The key file is created by whichever
  process gets there first; the race is a step relation over the file the path names, where a
  step is one system call of one process and a fault is a call that fails.
\<close>

section \<open>Containers\<close>

definition containerVersion :: char where "containerVersion = CHR 0x01"
definition keyIDSize :: nat where "keyIDSize = 8"
definition nonceSize :: nat where "nonceSize = 12"
definition tagSize :: nat where "tagSize = 16"
definition headerSize :: nat where "headerSize = 1 + keyIDSize + nonceSize"
definition keySize :: nat where "keySize = 32"

record aes_key =
  sk_id :: string
  sk_material :: string

record gcm =
  gcm_seal :: "string \<Rightarrow> string \<Rightarrow> string \<Rightarrow> string \<Rightarrow> string"
  gcm_open :: "string \<Rightarrow> string \<Rightarrow> string \<Rightarrow> string \<Rightarrow> string option"

datatype open_error = ErrTampered | ErrKeyMismatch

text \<open>\<^verbatim>\<open>Seal\<close> with the nonce it drew, and \<^verbatim>\<open>Open\<close>.\<close>

definition Seal :: "gcm \<Rightarrow> string \<Rightarrow> aes_key \<Rightarrow> string \<Rightarrow> string" where
  "Seal g nonce k plaintext =
     (let aad = containerVersion # sk_id k
      in aad @ nonce @ gcm_seal g (sk_material k) nonce plaintext aad)"

definition KeyIDOf :: "string \<Rightarrow> open_error + string" where
  "KeyIDOf c =
     (if length c < headerSize \<or> c ! 0 \<noteq> containerVersion then Inl ErrTampered
      else Inr (take keyIDSize (drop 1 c)))"

definition Open :: "gcm \<Rightarrow> aes_key \<Rightarrow> string \<Rightarrow> open_error + string" where
  "Open g k c =
     (if length c < headerSize + tagSize then Inl ErrTampered
      else if c ! 0 \<noteq> containerVersion then Inl ErrTampered
      else case KeyIDOf c of
        Inl e \<Rightarrow> Inl e
      | Inr i \<Rightarrow>
          if i \<noteq> sk_id k then Inl ErrKeyMismatch
          else (case gcm_open g (sk_material k) (take nonceSize (drop (1 + keyIDSize) c))
                  (drop headerSize c) (take (1 + keyIDSize) c) of
            None \<Rightarrow> Inl ErrTampered
          | Some p \<Rightarrow> Inr p))"

text \<open>
  What the cipher is documented to do: it opens what it sealed, it opens nothing else under the
  same key, nonce and data, and a sealed text is as long as the plain one and its tag.
\<close>

definition gcm_laws :: "gcm \<Rightarrow> bool" where
  "gcm_laws g \<longleftrightarrow>
     (\<forall>m n p a. gcm_open g m n (gcm_seal g m n p a) a = Some p) \<and>
     (\<forall>m n c a p. gcm_open g m n c a = Some p \<longrightarrow> c = gcm_seal g m n p a) \<and>
     (\<forall>m n p a. length (gcm_seal g m n p a) = length p + tagSize)"

definition well_formed_key :: "aes_key \<Rightarrow> bool" where
  "well_formed_key k \<longleftrightarrow> length (sk_id k) = keyIDSize \<and> length (sk_material k) = keySize"

lemma Open_Seal:
  assumes "gcm_laws g" "well_formed_key k" "length nonce = nonceSize"
  shows "Open g k (Seal g nonce k p) = Inr p"
  using assms
  by (simp add: Open_def Seal_def KeyIDOf_def Let_def gcm_laws_def well_formed_key_def headerSize_def
      keyIDSize_def nonceSize_def tagSize_def)

text \<open>A container another key sealed is told apart before it is opened.\<close>

lemma Open_other_key:
  assumes "gcm_laws g" "well_formed_key k" "length nonce = nonceSize" "sk_id j \<noteq> sk_id k"
  shows "Open g j (Seal g nonce k p) = Inl ErrKeyMismatch"
  using assms
  by (simp add: Open_def Seal_def KeyIDOf_def Let_def gcm_laws_def well_formed_key_def headerSize_def
      keyIDSize_def nonceSize_def tagSize_def)

text \<open>What opens under a key is the container that key sealed, byte for byte.\<close>

lemma Open_genuine:
  assumes "gcm_laws g" "well_formed_key k" "Open g k c = Inr p"
  obtains nonce where "length nonce = nonceSize" "c = Seal g nonce k p"
proof -
  let ?n = "take nonceSize (drop (1 + keyIDSize) c)"
  have len: "headerSize + tagSize \<le> length c" and v: "c ! 0 = containerVersion"
    and i: "take keyIDSize (drop 1 c) = sk_id k"
    and o': "gcm_open g (sk_material k) ?n (drop headerSize c) (take (1 + keyIDSize) c) = Some p"
    using assms(3) by (auto simp: Open_def KeyIDOf_def split: if_splits option.splits)
  obtain b bs where c: "c = b # bs" using len by (cases c) (simp_all add: headerSize_def)
  have a: "take (1 + keyIDSize) c = containerVersion # sk_id k"
    using v i by (simp add: c)
  have "drop headerSize c = gcm_seal g (sk_material k) ?n p (containerVersion # sk_id k)"
    using assms(1) o' unfolding a gcm_laws_def by blast
  moreover have "drop headerSize c = drop nonceSize (drop (1 + keyIDSize) c)"
    by (simp only: drop_drop headerSize_def add.commute [of nonceSize])
  then have "c = take (1 + keyIDSize) c @ ?n @ drop headerSize c"
    by (simp only: append_take_drop_id)
  ultimately have "c = Seal g ?n k p" by (simp add: Seal_def a [simplified])
  moreover have "length ?n = nonceSize" using len by (simp add: headerSize_def)
  ultimately show thesis using that by blast
qed

section \<open>The key file\<close>

definition keyFromMaterial :: "(string \<Rightarrow> string) \<Rightarrow> string \<Rightarrow> aes_key option" where
  "keyFromMaterial sha256 m =
     (if length m \<noteq> keySize then None
      else Some \<lparr>sk_id = take keyIDSize (sha256 m), sk_material = m\<rparr>)"

text \<open>\<^verbatim>\<open>safeProjectID\<close>: \<^verbatim>\<open>^[A-Za-z0-9][A-Za-z0-9._-]{0,63}$\<close>.\<close>

definition alnum :: "char \<Rightarrow> bool" where
  "alnum c \<longleftrightarrow> (CHR ''0'' \<le> c \<and> c \<le> CHR ''9'') \<or> (CHR ''A'' \<le> c \<and> c \<le> CHR ''Z'') \<or>
     (CHR ''a'' \<le> c \<and> c \<le> CHR ''z'')"

definition safeProjectID :: "string \<Rightarrow> bool" where
  "safeProjectID s \<longleftrightarrow>
     (case s of
        [] \<Rightarrow> False
      | c # cs \<Rightarrow> alnum c \<and> length cs \<le> 63 \<and>
          list_all (\<lambda>d. alnum d \<or> d = CHR ''.'' \<or> d = CHR ''_'' \<or> d = CHR ''-'') cs)"

definition key_path :: "string \<Rightarrow> string" where
  "key_path project = project @ ''.key''"

text \<open>A safe project id names a file in the directory itself.\<close>

lemma safeProjectID_path:
  "safeProjectID p \<Longrightarrow> CHR ''/'' \<notin> set (key_path p) \<and> hd (key_path p) \<noteq> CHR ''.''"
  by (cases p) (auto simp: safeProjectID_def key_path_def list_all_iff alnum_def less_eq_char_def)

text \<open>
  What the path names. A file is an inode, so a process that has it open keeps writing to it after
  the name is gone.
\<close>

datatype key_node = SymlinkNode | DirectoryNode | FileNode nat

record key_fs =
  kfs_path :: "key_node option"
  kfs_data :: "nat \<Rightarrow> string"
  kfs_private :: "nat \<Rightarrow> bool"
  kfs_next :: nat

datatype key_reading = KeyMissing | KeyUnsafe | KeyBytes string

definition readKeyFile :: "key_fs \<Rightarrow> key_reading" where
  "readKeyFile f =
     (case kfs_path f of
        None \<Rightarrow> KeyMissing
      | Some SymlinkNode \<Rightarrow> KeyUnsafe
      | Some DirectoryNode \<Rightarrow> KeyUnsafe
      | Some (FileNode i) \<Rightarrow>
          if kfs_private f i then KeyBytes (take (keySize + 1) (kfs_data f i)) else KeyUnsafe)"

text \<open>
  Where a process stands in \<^verbatim>\<open>LoadOrCreateKey\<close>. \<^verbatim>\<open>Await n\<close> has read a file of the wrong size
  \<^verbatim>\<open>n\<close> times.
\<close>

datatype key_pc =
    Loading
  | CreatingKey
  | Opened nat string
  | Written nat string
  | FileSynced string
  | Await nat
  | HasKey string
  | GaveUp

definition awaitAttempts :: nat where "awaitAttempts = 10"

definition first_read :: "key_fs \<Rightarrow> key_pc" where
  "first_read f =
     (case readKeyFile f of
        KeyMissing \<Rightarrow> CreatingKey
      | KeyUnsafe \<Rightarrow> GaveUp
      | KeyBytes m \<Rightarrow> if length m = keySize then HasKey m else Await 0)"

definition await_read :: "nat \<Rightarrow> key_fs \<Rightarrow> key_pc" where
  "await_read n f =
     (case readKeyFile f of
        KeyMissing \<Rightarrow> GaveUp
      | KeyUnsafe \<Rightarrow> GaveUp
      | KeyBytes m \<Rightarrow>
          if length m = keySize then HasKey m
          else if Suc n < awaitAttempts then Await (Suc n) else GaveUp)"

definition create_excl :: "key_fs \<Rightarrow> key_fs" where
  "create_excl f =
     f\<lparr>kfs_path := Some (FileNode (kfs_next f)), kfs_data := (kfs_data f)(kfs_next f := []),
       kfs_private := (kfs_private f)(kfs_next f := True), kfs_next := Suc (kfs_next f)\<rparr>"

definition write_inode :: "nat \<Rightarrow> string \<Rightarrow> key_fs \<Rightarrow> key_fs" where
  "write_inode i m f = f\<lparr>kfs_data := (kfs_data f)(i := m)\<rparr>"

definition remove_path :: "key_fs \<Rightarrow> key_fs" where
  "remove_path f = f\<lparr>kfs_path := None\<rparr>"

text \<open>
  The steps of a process, a fault being a call that fails after the file was created. A failed
  write, sync or restriction removes the path; a failed close or directory sync leaves it.
\<close>

inductive key_step :: "bool \<Rightarrow> key_fs \<times> key_pc \<Rightarrow> key_fs \<times> key_pc \<Rightarrow> bool" for faults where
  load: "key_step faults (f, Loading) (f, first_read f)"
| create: "kfs_path f = None \<Longrightarrow> length m = keySize \<Longrightarrow>
     key_step faults (f, CreatingKey) (create_excl f, Opened (kfs_next f) m)"
| lost: "kfs_path f \<noteq> None \<Longrightarrow> key_step faults (f, CreatingKey) (f, Await 0)"
| refused: "key_step faults (f, CreatingKey) (f, GaveUp)"
| written: "key_step faults (f, Opened i m) (write_inode i m f, Written i m)"
| torn: "faults \<Longrightarrow> key_step faults (f, Opened i m) (remove_path (write_inode i (take n m) f), GaveUp)"
| synced: "key_step faults (f, Written i m) (f, FileSynced m)"
| unsynced: "faults \<Longrightarrow> key_step faults (f, Written i m) (remove_path f, GaveUp)"
| done_: "key_step faults (f, FileSynced m) (f, HasKey m)"
| unclosed: "faults \<Longrightarrow> key_step faults (f, FileSynced m) (f, GaveUp)"
| await: "key_step faults (f, Await n) (f, await_read n f)"

text \<open>Any number of processes over one directory.\<close>

record key_world =
  kw_fs :: key_fs
  kw_pc :: "nat \<Rightarrow> key_pc"

inductive key_reachable :: "bool \<Rightarrow> key_fs \<Rightarrow> key_world \<Rightarrow> bool" for faults f0 where
  begin_: "key_reachable faults f0 \<lparr>kw_fs = f0, kw_pc = (\<lambda>_. Loading)\<rparr>"
| turn: "key_reachable faults f0 w \<Longrightarrow> key_step faults (kw_fs w, kw_pc w p) (f, c) \<Longrightarrow>
     key_reachable faults f0 (w\<lparr>kw_fs := f, kw_pc := (kw_pc w)(p := c)\<rparr>)"

text \<open>
  While no call fails: the file the path names is the one in the data directory from the start or
  the one its creator is writing, and every key held is what is in it.
\<close>

fun pc_ok :: "key_fs \<Rightarrow> key_pc \<Rightarrow> bool" where
  "pc_ok f (Opened i m) \<longleftrightarrow> kfs_path f = Some (FileNode i) \<and> kfs_private f i \<and> kfs_data f i = [] \<and>
     length m = keySize"
| "pc_ok f (Written i m) \<longleftrightarrow> readKeyFile f = KeyBytes m \<and> length m = keySize"
| "pc_ok f (FileSynced m) \<longleftrightarrow> readKeyFile f = KeyBytes m \<and> length m = keySize"
| "pc_ok f (HasKey m) \<longleftrightarrow> readKeyFile f = KeyBytes m \<and> length m = keySize"
| "pc_ok f _ \<longleftrightarrow> True"

fun writing :: "key_pc \<Rightarrow> bool" where
  "writing (Opened i m) \<longleftrightarrow> True"
| "writing _ \<longleftrightarrow> False"

definition key_inv :: "key_world \<Rightarrow> bool" where
  "key_inv w \<longleftrightarrow>
     (\<forall>p. pc_ok (kw_fs w) (kw_pc w p)) \<and>
     (\<forall>p q. writing (kw_pc w p) \<longrightarrow> writing (kw_pc w q) \<longrightarrow> p = q)"

lemma first_read_ok: "pc_ok f (first_read f)" "\<not> writing (first_read f)"
  by (auto simp: first_read_def split: key_reading.split)

lemma await_read_ok: "pc_ok f (await_read n f)" "\<not> writing (await_read n f)"
  by (auto simp: await_read_def split: key_reading.split)

lemma pc_ok_path: "pc_ok f c \<Longrightarrow> kfs_path f = None \<Longrightarrow> c \<in> {Loading, CreatingKey, GaveUp} \<union> range Await"
  by (cases c) (auto simp: readKeyFile_def)

lemma pc_ok_written:
  assumes "pc_ok f (Opened i m)" "pc_ok f c" "\<not> writing c"
  shows "pc_ok (write_inode i m f) c"
  using assms by (cases c) (auto simp: readKeyFile_def keySize_def)

lemma key_inv_start: "key_inv \<lparr>kw_fs = f0, kw_pc = (\<lambda>_. Loading)\<rparr>"
  by (simp add: key_inv_def)

lemma key_inv_turn:
  assumes "key_inv w" "key_step False (kw_fs w, kw_pc w p) (f, c)"
  shows "key_inv (w\<lparr>kw_fs := f, kw_pc := (kw_pc w)(p := c)\<rparr>)"
proof -
  have ok: "pc_ok (kw_fs w) (kw_pc w q)" for q using assms(1) by (simp add: key_inv_def)
  have one: "writing (kw_pc w q) \<Longrightarrow> writing (kw_pc w r) \<Longrightarrow> q = r" for q r
    using assms(1) by (simp add: key_inv_def)
  have same: ?thesis if "f = kw_fs w" "pc_ok f c" "\<not> writing c"
    using that ok one by (auto simp: key_inv_def)
  from assms(2) show ?thesis
  proof cases
    case load
    then show ?thesis using same first_read_ok by simp
  next
    case (create m)
    have "pc_ok f (kw_pc w q) \<and> \<not> writing (kw_pc w q)" for q
      using pc_ok_path [OF ok create(4), of q] by auto
    then show ?thesis using create by (auto simp: key_inv_def create_excl_def)
  next
    case lost
    then show ?thesis using same by simp
  next
    case refused
    then show ?thesis using same by simp
  next
    case (written i m)
    have o': "pc_ok (kw_fs w) (Opened i m)" using ok [of p] written by simp
    have "\<not> writing (kw_pc w q)" if "q \<noteq> p" for q using one [of q p] that written by auto
    then have "pc_ok f (kw_pc w q)" if "q \<noteq> p" for q
      using pc_ok_written [OF o' ok] that written by simp
    moreover have "pc_ok f c" using o' written
      by (simp add: readKeyFile_def write_inode_def keySize_def)
    ultimately show ?thesis
      using one written by (auto simp: key_inv_def)
  next
    case (synced i m)
    then show ?thesis using same ok [of p] by simp
  next
    case (done_ m)
    then show ?thesis using same ok [of p] by simp
  next
    case (await n)
    then show ?thesis using same await_read_ok by simp
  qed simp_all
qed

lemma key_inv_reachable: "key_reachable False f0 w \<Longrightarrow> key_inv w"
  by (induction rule: key_reachable.induct) (auto intro: key_inv_start key_inv_turn)

lemma keys_agree:
  assumes "key_reachable False f0 w" "kw_pc w p = HasKey k" "kw_pc w q = HasKey l"
  shows "k = l" "readKeyFile (kw_fs w) = KeyBytes k"
proof -
  have "pc_ok (kw_fs w) (HasKey k)" "pc_ok (kw_fs w) (HasKey l)"
    using key_inv_reachable [OF assms(1)] assms(2,3) by (metis key_inv_def)+
  then show "k = l" "readKeyFile (kw_fs w) = KeyBytes k" by auto
qed

text \<open>Whatever fails, a file that cannot be trusted never becomes a key and is left as it is.\<close>

lemma unsafe_left_alone:
  assumes "key_reachable faults f0 w" "readKeyFile f0 = KeyUnsafe"
  shows "kw_fs w = f0 \<and> kw_pc w p \<in> {Loading, GaveUp}"
  using assms(1)
proof (induction arbitrary: p rule: key_reachable.induct)
  case (turn w q f c)
  have pc: "kw_pc w q = Loading \<or> kw_pc w q = GaveUp" using turn(3) [of q] by auto
  from turn(2) have "f = f0 \<and> c = GaveUp"
  proof cases
    case load
    then show ?thesis using turn(3) assms(2) by (simp add: first_read_def)
  qed (use pc in auto)
  then show ?case using turn(3) by simp
qed simp

text \<open>
  One failed sync is enough for two processes to end up with different keys: a process that found
  the file complete uses its key, the creator's sync fails and takes the file away, and the next
  process makes another one.
\<close>

definition empty_keys :: key_fs where
  "empty_keys = \<lparr>kfs_path = None, kfs_data = (\<lambda>_. []), kfs_private = (\<lambda>_. False), kfs_next = 0\<rparr>"

lemma turn_to:
  "key_reachable faults f0 w \<Longrightarrow> key_step faults (kw_fs w, c0) (f, c) \<Longrightarrow> kw_pc w p = c0 \<Longrightarrow>
     w' = w\<lparr>kw_fs := f, kw_pc := (kw_pc w)(p := c)\<rparr> \<Longrightarrow> key_reachable faults f0 w'"
  using key_reachable.turn by blast

lemma keys_diverge:
  assumes "length a = keySize" "length b = keySize"
  shows "\<exists>w. key_reachable True empty_keys w \<and> kw_pc w 1 = HasKey a \<and> kw_pc w 2 = HasKey b"
proof -
  define f1 where "f1 = create_excl empty_keys"
  define f2 where "f2 = write_inode 0 a f1"
  define f3 where "f3 = remove_path f2"
  define f4 where "f4 = create_excl f3"
  define f5 where "f5 = write_inode 1 b f4"
  note fs = f1_def f2_def f3_def f4_def f5_def create_excl_def write_inode_def remove_path_def empty_keys_def
  have nexts: "kfs_path empty_keys = None" "kfs_next empty_keys = 0" "kfs_path f3 = None" "kfs_next f3 = 1"
    by (simp_all add: fs)
  have reads: "first_read empty_keys = CreatingKey" "first_read f2 = HasKey a" "first_read f3 = CreatingKey"
    "create_excl empty_keys = f1" "write_inode 0 a f1 = f2" "remove_path f2 = f3" "create_excl f3 = f4"
    "write_inode 1 b f4 = f5" "write_inode (Suc 0) b f4 = f5"
    using assms by (simp_all add: first_read_def readKeyFile_def f1_def f2_def f3_def f4_def f5_def)
       (simp_all add: fs keySize_def)
  note reads = reads nexts
  let ?st = "\<lambda>f x y z. \<lparr>kw_fs = f, kw_pc = (\<lambda>_. Loading)(0 := x, 1 := y, 2 := z)\<rparr>"
  have "key_reachable True empty_keys (?st empty_keys Loading Loading Loading)"
    using key_reachable.begin_ by (simp add: fun_upd_idem)
  then have "key_reachable True empty_keys (?st empty_keys CreatingKey Loading Loading)"
    by (rule turn_to [where p = 0, OF _ key_step.load [of True]]) (simp_all add: assms reads fun_upd_twist)
  then have "key_reachable True empty_keys (?st f1 (Opened 0 a) Loading Loading)"
    by (rule turn_to [where p = 0, OF _ key_step.create [of _ a True]]) (simp_all add: assms reads fun_upd_twist)
  then have "key_reachable True empty_keys (?st f2 (Written 0 a) Loading Loading)"
    by (rule turn_to [where p = 0, OF _ key_step.written [of True _ 0 a]]) (simp_all add: assms reads fun_upd_twist)
  then have "key_reachable True empty_keys (?st f2 (Written 0 a) (HasKey a) Loading)"
    by (rule turn_to [where p = 1, OF _ key_step.load [of True]]) (simp_all add: assms reads fun_upd_twist)
  then have "key_reachable True empty_keys (?st f3 GaveUp (HasKey a) Loading)"
    by (rule turn_to [where p = 0, OF _ key_step.unsynced [of True _ 0 a]]) (simp_all add: assms reads fun_upd_twist)
  then have "key_reachable True empty_keys (?st f3 GaveUp (HasKey a) CreatingKey)"
    by (rule turn_to [where p = 2, OF _ key_step.load [of True]]) (simp_all add: assms reads fun_upd_twist)
  then have "key_reachable True empty_keys (?st f4 GaveUp (HasKey a) (Opened 1 b))"
    by (rule turn_to [where p = 2, OF _ key_step.create [of _ b True]]) (simp_all add: assms reads fun_upd_twist)
  then have "key_reachable True empty_keys (?st f5 GaveUp (HasKey a) (Written 1 b))"
    by (rule turn_to [where p = 2, OF _ key_step.written [of True _ 1 b]]) (simp_all add: assms reads fun_upd_twist)
  then have "key_reachable True empty_keys (?st f5 GaveUp (HasKey a) (FileSynced b))"
    by (rule turn_to [where p = 2, OF _ key_step.synced [of True _ 1 b]]) (simp_all add: assms reads fun_upd_twist)
  then have "key_reachable True empty_keys (?st f5 GaveUp (HasKey a) (HasKey b))"
    by (rule turn_to [where p = 2, OF _ key_step.done_ [of True _ b]]) (simp_all add: assms reads fun_upd_twist)
  then show ?thesis by (intro exI conjI) auto
qed

section \<open>Loading ends\<close>

text \<open>How many system calls a process can still make.\<close>

fun calls_left :: "key_pc \<Rightarrow> nat" where
  "calls_left Loading = awaitAttempts + 5"
| "calls_left CreatingKey = awaitAttempts + 4"
| "calls_left (Opened i m) = 3"
| "calls_left (Written i m) = 2"
| "calls_left (FileSynced m) = 1"
| "calls_left (Await n) = Suc (awaitAttempts - Suc n)"
| "calls_left (HasKey m) = 0"
| "calls_left GaveUp = 0"

lemma key_step_ends: "key_step faults (f, c) (f', c') \<Longrightarrow> calls_left c' < calls_left c"
  by (erule key_step.cases)
     (auto simp: first_read_def await_read_def awaitAttempts_def split: key_reading.split)

inductive key_run :: "bool \<Rightarrow> nat \<Rightarrow> key_pc \<Rightarrow> key_pc \<Rightarrow> bool" for faults where
  none: "key_run faults 0 c c"
| more: "key_step faults (f, c) (f', c') \<Longrightarrow> key_run faults n c' d \<Longrightarrow> key_run faults (Suc n) c d"

lemma key_run_bound: "key_run faults n c d \<Longrightarrow> n + calls_left d \<le> calls_left c"
  by (induction rule: key_run.induct) (auto dest: key_step_ends)

lemma key_stuck:
  "(\<forall>f' c'. \<not> key_step faults (f, c) (f', c')) \<longleftrightarrow> c = GaveUp \<or> (\<exists>m. c = HasKey m)"
proof
  assume stuck: "\<forall>f' c'. \<not> key_step faults (f, c) (f', c')"
  show "c = GaveUp \<or> (\<exists>m. c = HasKey m)"
    using stuck key_step.load [of faults f] key_step.refused [of faults f] key_step.written [of faults f]
      key_step.synced [of faults f] key_step.done_ [of faults f] key_step.await [of faults f]
    by (cases c) blast+
next
  assume "c = GaveUp \<or> (\<exists>m. c = HasKey m)"
  then show "\<forall>f' c'. \<not> key_step faults (f, c) (f', c')"
    by (auto elim: key_step.cases)
qed

text \<open>A process that is left alone in an empty directory creates the key it drew.\<close>

lemma one_process_creates:
  assumes "length a = keySize"
  shows "\<exists>w. key_reachable faults empty_keys w \<and> kw_pc w p = HasKey a"
proof -
  define f1 where "f1 = create_excl empty_keys"
  define f2 where "f2 = write_inode 0 a f1"
  have e: "kfs_path empty_keys = None" "kfs_next empty_keys = 0" "first_read empty_keys = CreatingKey"
    by (simp_all add: empty_keys_def first_read_def readKeyFile_def)
  let ?st = "\<lambda>f x. \<lparr>kw_fs = f, kw_pc = (\<lambda>_. Loading)(p := x)\<rparr>"
  have "key_reachable faults empty_keys (?st empty_keys Loading)"
    using key_reachable.begin_ by (simp add: fun_upd_idem)
  then have "key_reachable faults empty_keys (?st empty_keys CreatingKey)"
    by (rule turn_to [where p = p, OF _ key_step.load [of faults]]) (simp_all add: e)
  then have "key_reachable faults empty_keys (?st f1 (Opened 0 a))"
    by (rule turn_to [where p = p, OF _ key_step.create [of _ a faults]]) (simp_all add: e assms f1_def)
  then have "key_reachable faults empty_keys (?st f2 (Written 0 a))"
    by (rule turn_to [where p = p, OF _ key_step.written [of faults _ 0 a]]) (simp_all add: f2_def)
  then have "key_reachable faults empty_keys (?st f2 (FileSynced a))"
    by (rule turn_to [where p = p, OF _ key_step.synced [of faults _ 0 a]]) simp_all
  then have "key_reachable faults empty_keys (?st f2 (HasKey a))"
    by (rule turn_to [where p = p, OF _ key_step.done_ [of faults _ a]]) simp_all
  then show ?thesis by (intro exI conjI) auto
qed

end
