(* ===== verification/Pipeline.thy ===== *)
theory Pipeline
  imports StoreInv
begin

text \<open>
  The pipeline between the acknowledgement of a message and its announcement: the queue and the
  workers of \<^verbatim>\<open>smtp/ingest.go\<close>, the startup recovery, and what a crash leaves. The workers
  are goroutines, so a step relation interleaves them with deliveries, with the bus and with the
  requests of the API.
\<close>

section \<open>Configuration\<close>

text \<open>\<^verbatim>\<open>NewIngest\<close>: what is required, and how many workers and places in the queue.\<close>

record ingest_config =
  ic_store :: bool
  ic_bus :: bool
  ic_project :: ident
  ic_workers :: int
  ic_queue :: int

definition NewIngest :: "int \<Rightarrow> ingest_config \<Rightarrow> err + int \<times> int" where
  "NewIngest procs cfg =
     (if \<not> ic_store cfg \<or> \<not> ic_bus cfg \<or> ic_project cfg = [] then Inl ErrInvalidArgument
      else let workers = (if ic_workers cfg \<le> 0 then procs else ic_workers cfg);
               places = (if ic_queue cfg \<le> 0 then workers else ic_queue cfg)
      in Inr (workers, places))"

lemma NewIngest_positive:
  "0 < procs \<Longrightarrow> NewIngest procs cfg = Inr (workers, places) \<Longrightarrow> 0 < workers \<and> 0 < places"
  by (auto simp: NewIngest_def Let_def split: if_splits)

text \<open>\<^verbatim>\<open>NewServer\<close> and \<^verbatim>\<open>Auth\<close> of \<^verbatim>\<open>smtp/server.go\<close>.\<close>

definition MaxMessageBytes :: int where "MaxMessageBytes = 10 * 2 ^ 20"
definition MaxLineLength :: int where "MaxLineLength = 2 ^ 20"
definition defaultReadTimeout :: duration where "defaultReadTimeout = 60 * second"
definition defaultWriteTimeout :: duration where "defaultWriteTimeout = 60 * second"

record smtp_config =
  sc_deliverer :: bool
  sc_addr :: string
  sc_domain :: string
  sc_max_bytes :: int
  sc_max_line :: int
  sc_read_timeout :: duration
  sc_write_timeout :: duration

definition smtp_NewServer :: "smtp_config \<Rightarrow> err + smtp_config" where
  "smtp_NewServer cfg =
     (if \<not> sc_deliverer cfg then Inl ErrInvalidArgument
      else Inr (cfg\<lparr>
        sc_addr := (if sc_addr cfg = [] then ''127.0.0.1:1025'' else sc_addr cfg),
        sc_domain := (if sc_domain cfg = [] then ''authstunt.local'' else sc_domain cfg),
        sc_max_bytes := (if sc_max_bytes cfg \<le> 0 then MaxMessageBytes else sc_max_bytes cfg),
        sc_max_line := (if sc_max_line cfg \<le> 0 then MaxLineLength else sc_max_line cfg),
        sc_read_timeout := (if sc_read_timeout cfg = 0 then defaultReadTimeout else sc_read_timeout cfg),
        sc_write_timeout := (if sc_write_timeout cfg = 0 then defaultWriteTimeout else sc_write_timeout cfg)\<rparr>))"

text \<open>Whatever the configuration, the listener has an address and bounds on what it reads.\<close>

lemma smtp_NewServer_bounded:
  assumes "smtp_NewServer cfg = Inr cfg'"
  shows "sc_addr cfg' \<noteq> [] \<and> 0 < sc_max_bytes cfg' \<and> 0 < sc_max_line cfg'"
  using assms
  by (cases "sc_deliverer cfg"; cases "sc_addr cfg = []")
     (auto simp: smtp_NewServer_def MaxMessageBytes_def MaxLineLength_def)

definition AuthMechanisms :: "string list" where "AuthMechanisms = [''PLAIN'']"

definition smtp_Auth :: "string \<Rightarrow> (string \<Rightarrow> string \<Rightarrow> string \<Rightarrow> bool) option" where
  "smtp_Auth mech = (if mech \<noteq> ''PLAIN'' then None else Some (\<lambda>_ _ _. True))"

section \<open>Announcements\<close>

text \<open>The messages announced on a bus, published or still in its buffer.\<close>

definition announced :: "bus \<Rightarrow> ident list" where
  "announced b =
     map mr_id (List.map_filter ev_message (bus_log b)) @
     map mr_id (List.map_filter pb_message (bus_queue b))"

lemma announced_NewBus [simp]: "announced (NewBus g) = []"
  by (simp add: announced_def NewBus_def map_filter_def)

lemma run_publish_announced: "announced (run_publish b) = announced b"
  by (auto simp: run_publish_def publish_event_def announced_def map_filter_def Let_def
      split: list.split)

lemma Publish_announced:
  "Publish p b = Some (r, b') \<Longrightarrow> pb_message p = Some m \<Longrightarrow>
     announced b' = announced b @ (if bus_stopped b then [] else [mr_id m])"
  by (auto simp: Publish_def announced_def map_filter_def split: if_splits)

lemma run_publish_room:
  "length (bus_queue b) \<le> publishBuffer \<Longrightarrow> \<not> length (bus_queue b) < publishBuffer \<Longrightarrow>
     length (bus_queue (run_publish b)) < publishBuffer"
  by (auto simp: run_publish_def publish_event_def publishBuffer_def Let_def split: list.split)

lemma run_publish_stopped [simp]: "bus_stopped (run_publish b) = bus_stopped b"
  by (auto simp: run_publish_def publish_event_def Let_def split: list.split)

lemma announce_spec:
  assumes "bus_reachable g b" and "pb_message p = Some m"
  shows "announced (announce p b) = announced b @ (if bus_stopped b then [] else [mr_id m])"
    and "bus_stopped (announce p b) = bus_stopped b" and "bus_reachable g (announce p b)"
proof -
  have room: "length (bus_queue b) \<le> publishBuffer"
    using bus_reachable_inv [OF assms(1)] by (simp add: bus_inv_def)
  have "announced (announce p b) = announced b @ (if bus_stopped b then [] else [mr_id m]) \<and>
      bus_stopped (announce p b) = bus_stopped b \<and> bus_reachable g (announce p b)"
  proof (cases "Publish p b")
    case (Some rb)
    then obtain r b' where p: "Publish p b = Some (r, b')" by (cases rb) auto
    have "bus_stopped b' = bus_stopped b" using p by (auto simp: Publish_def split: if_splits)
    then show ?thesis
      using p Publish_announced [OF p assms(2)] bus_reachable.step [OF assms(1) bus_step.queue [OF p]]
      by (simp add: announce_def)
  next
    case None
    then have open_: "\<not> bus_stopped b" and full: "\<not> length (bus_queue b) < publishBuffer"
      by (auto simp: Publish_def split: if_splits)
    obtain r b' where p: "Publish p (run_publish b) = Some (r, b')"
      using run_publish_room [OF room full] open_ by (auto simp: Publish_def)
    have "bus_stopped b' = bus_stopped b" using p by (auto simp: Publish_def split: if_splits)
    moreover have "bus_reachable g b'"
      using bus_reachable.step [OF bus_reachable.step [OF assms(1) bus_step.publish [OF open_]]
          bus_step.queue [OF p]] .
    ultimately show ?thesis
      using None p Publish_announced [OF p assms(2)] run_publish_announced
      by (simp add: announce_def)
  qed
  then show "announced (announce p b) = announced b @ (if bus_stopped b then [] else [mr_id m])"
    and "bus_stopped (announce p b) = bus_stopped b" and "bus_reachable g (announce p b)" by simp_all
qed

section \<open>Settling one message\<close>

definition unsettled :: "message \<Rightarrow> bool" where
  "unsettled m \<longleftrightarrow> msg_extraction_state m = ExtractionPending"

text \<open>
  What settling does: the row of the message, if it is pending, reaches a terminal state, and
  exactly then the message is announced, unless the bus was stopped.
\<close>

definition settles :: "ident \<Rightarrow> world \<Rightarrow> world \<Rightarrow> bool" where
  "settles i w w' \<longleftrightarrow>
     (\<exists>f. (\<forall>m. msg_id (f m) = msg_id m \<and> \<not> unsettled (f m)) \<and>
        messages (w_store w') = update_where (pending_row i) f (messages (w_store w))) \<and>
     announced (w_bus w') = announced (w_bus w) @
       (if list_ex (pending_row i) (messages (w_store w)) \<and> \<not> bus_stopped (w_bus w) then [i] else []) \<and>
     bus_stopped (w_bus w') = bus_stopped (w_bus w) \<and>
     (\<forall>g. bus_reachable g (w_bus w) \<longrightarrow> bus_reachable g (w_bus w'))"

lemma pending_affected:
  assumes "distinct (map msg_id ms)"
  shows "affected (pending_row i) ms = (if list_ex (pending_row i) ms then 1 else 0)"
proof -
  have "affected (\<lambda>m. msg_id m = i \<and> unsettled m) ms \<le> 1" by (rule affected_by_key [OF assms])
  moreover have "pending_row i = (\<lambda>m. msg_id m = i \<and> unsettled m)"
    by (simp add: fun_eq_iff pending_row_def unsettled_def)
  ultimately have "affected (pending_row i) ms \<le> 1" by simp
  then show ?thesis
    using affected_0 [of "pending_row i" ms] by (auto simp: list_ex_iff)
qed

text \<open>One row settled and published, or no row to settle and nothing done.\<close>

lemma settles_nothing:
  assumes "\<not> list_ex (pending_row i) (messages (w_store w))"
    and "messages (w_store w') = messages (w_store w)" and "w_bus w' = w_bus w"
  shows "settles i w w'"
proof -
  let ?f = "\<lambda>m :: message. m\<lparr>msg_extraction_state := ExtractionFailed\<rparr>"
  have "update_where (pending_row i) ?f (messages (w_store w)) = messages (w_store w)"
    using assms(1) by (intro update_where_none) (simp add: list_ex_iff)
  then show ?thesis
    using assms unfolding settles_def by (auto intro!: exI [of _ ?f] simp: unsettled_def)
qed

lemma settles_published:
  assumes "bus_reachable g (w_bus w)" and "list_ex (pending_row i) (messages (w_store w))"
    and "\<forall>m. msg_id (f m) = msg_id m \<and> \<not> unsettled (f m)"
    and "messages st = update_where (pending_row i) f (messages (w_store w))" and "jb_message j = i"
  shows "settles i w (publish_job detail j (w\<lparr>w_store := st\<rparr>))"
proof -
  let ?p = "\<lparr>pb_name = EventMessage, pb_data = detail j,
         pb_message = Some \<lparr>mr_id = jb_message j, mr_project = jb_project j,
           mr_subject = jb_subject j, mr_recipients = jb_recipients j,
           mr_received_at = jb_received_at j\<rparr>\<rparr>"
  have "pb_message ?p = Some \<lparr>mr_id = jb_message j, mr_project = jb_project j,
           mr_subject = jb_subject j, mr_recipients = jb_recipients j,
           mr_received_at = jb_received_at j\<rparr>" by simp
  note a = announce_spec [OF _ this]
  show ?thesis
    using assms(2-5) a(1,2) [OF assms(1)] a(3) unfolding settles_def
    by (auto simp: publish_job_def)
qed

lemma settleExtraction_result:
  assumes "settleExtraction i f s = (r, s')" and "distinct (map msg_id (messages s))"
  shows "messages s' = update_where (pending_row i) f (messages s)"
    and "r = Inr () \<longleftrightarrow> list_ex (pending_row i) (messages s)"
proof -
  show "messages s' = update_where (pending_row i) f (messages s)"
    by (simp add: settleExtraction_tables [OF assms(1)])
  show "r = Inr () \<longleftrightarrow> list_ex (pending_row i) (messages s)"
    using assms(1) unfolding settleExtraction_def Let_def pending_affected [OF assms(2)]
    by (auto split: if_split_asm option.split_asm)
qed

lemma fail_job_settles:
  assumes "distinct (map msg_id (messages (w_store w)))" and "bus_reachable g (w_bus w)"
  shows "settles (jb_message j) w (fail_job ig detail j cause w)"
proof -
  let ?i = "jb_message j"
  let ?f = "\<lambda>m :: message. m\<lparr>msg_extraction_state := ExtractionFailed\<rparr>"
  obtain r st where t: "tx (FailExtraction ?i) (w_store w) = (r, st)" by (metis surj_pair)
  show ?thesis
  proof (cases r)
    case (Inl e)
    obtain r' st' where f: "settleExtraction ?i ?f (w_store w) = (r', st')" by (metis surj_pair)
    have "r' \<noteq> Inr ()" using t Inl f by (auto simp: tx_def FailExtraction_def)
    then have "\<not> list_ex (pending_row ?i) (messages (w_store w))"
      using settleExtraction_result(2) [OF f assms(1)] by simp
    moreover have "tables st = tables (w_store w)" by (rule tx_Inl [OF t [unfolded Inl]])
    ultimately show ?thesis
      using t Inl by (intro settles_nothing) (simp_all add: fail_job_def)
  next
    case (Inr u)
    then have f: "settleExtraction ?i ?f (w_store w) = (Inr (), st)"
      using t by (simp add: tx_Inr FailExtraction_def)
    obtain r1 st1 where wr: "Write (ingest_meta ig []) (ExtractionFailedEv ?i cause) st = (r1, st1)"
      by (metis surj_pair)
    have "messages st1 = messages st" using wr by (auto elim!: Write_cases)
    then have "settles ?i w (publish_job detail j (w\<lparr>w_store := st1\<rparr>))"
      using settleExtraction_result [OF f assms(1)]
      by (intro settles_published [OF assms(2), where f = ?f]) (simp_all add: unsettled_def)
    then show ?thesis using t Inr wr by (simp add: fail_job_def)
  qed
qed

lemma settles_cong:
  "messages (w_store v) = messages (w_store w) \<Longrightarrow> w_bus v = w_bus w \<Longrightarrow> settles i v w' \<Longrightarrow> settles i w w'"
  by (simp add: settles_def)

lemma settle_job_settles:
  assumes "distinct (map msg_id (messages (w_store w)))" and "bus_reachable g (w_bus w)"
  shows "settles (jb_message j) w (settle_job ig detail j w)"
proof -
  let ?i = "jb_message j"
  have failed: "settles ?i w (fail_job ig detail j cause (w\<lparr>w_store := st\<rparr>))"
    if "tables st = tables (w_store w)" for st cause
    using fail_job_settles [of "w\<lparr>w_store := st\<rparr>" g j ig detail cause] that assms
    by (intro settles_cong [of "w\<lparr>w_store := st\<rparr>" w]) simp_all
  show ?thesis
  proof (cases "Option.bind (ig_extract ig (jb_input j)) (ig_encode ig)")
    case None
    then show ?thesis
      using failed [of "w_store w"]
      by (auto simp: settle_job_def split: option.split)
  next
    case (Some x)
    then obtain res where x: "ig_extract ig (jb_input j) = Some res" "ig_encode ig res = Some x"
      by (cases "ig_extract ig (jb_input j)") auto
    obtain r st where t: "tx (SetExtraction ?i x) (w_store w) = (r, st)" by (metis surj_pair)
    show ?thesis
    proof (cases r)
      case (Inl e)
      then have tab: "tables st = tables (w_store w)" using t by (blast dest: tx_Inl)
      show ?thesis
      proof (cases "e = ErrExtractionSettled")
        case False
        then show ?thesis using x t Inl failed [OF tab] by (simp add: settle_job_def)
      next
        case True
        obtain r' st' where s: "SetExtraction ?i x (w_store w) = (r', st')" by (metis surj_pair)
        have r': "r' = Inl ErrExtractionSettled" using t Inl True s by (auto simp: tx_def split: sum.splits)
        have "\<not> list_ex (pending_row ?i) (messages (w_store w))"
          using s r' pending_affected [OF assms(1), of ?i]
          by (auto simp: SetExtraction_def settleExtraction_def Let_def split: if_splits option.splits)
        then show ?thesis
          using x t Inl True tab by (intro settles_nothing) (simp_all add: settle_job_def)
      qed
    next
      case (Inr u)
      then have s: "SetExtraction ?i x (w_store w) = (Inr (), st)" using t by (simp add: tx_Inr)
      from s show ?thesis
      proof (cases rule: SetExtraction_cases)
        case (ran sealed)
        then have "settles ?i w (publish_job detail j (w\<lparr>w_store := st\<rparr>))"
          using settleExtraction_result [OF ran(3) assms(1)]
          by (intro settles_published [OF assms(2)]) (simp_all add: unsettled_def)
        then show ?thesis using x t Inr by (simp add: settle_job_def)
      qed simp
    qed
  qed
qed

section \<open>The pipeline\<close>

text \<open>
  Deliveries that have committed and wait to hand over their job, the queue, what the workers
  hold, and what recovery has still to do. \<open>pl_left\<close> and \<open>pl_before\<close> record history: the
  messages a shutdown left to the next start, and those settled before this one.
\<close>

record pipeline =
  pl_world :: world
  pl_sessions :: "job list"
  pl_queue :: "job list"
  pl_running :: "job list"
  pl_recovery :: "message_view list"
  pl_left :: "ident set"
  pl_before :: "ident set"

definition in_store :: "store \<Rightarrow> world \<Rightarrow> world" where
  "in_store s w = w\<lparr>w_store := s\<rparr>"

definition on_bus :: "bus \<Rightarrow> world \<Rightarrow> world" where
  "on_bus b w = w\<lparr>w_bus := b\<rparr>"

definition settled_ids :: "message list \<Rightarrow> ident set" where
  "settled_ids ms = msg_id ` {m \<in> set ms. \<not> unsettled m}"

definition waiting_ids :: "pipeline \<Rightarrow> ident set" where
  "waiting_ids p =
     jb_message ` set (pl_sessions p @ pl_queue p @ pl_running p) \<union>
     (msg_id \<circ> mv_row) ` set (pl_recovery p) \<union> pl_left p"

text \<open>One message of the recovery, the body of the loop of \<^verbatim>\<open>Recover\<close>.\<close>

definition recover_one :: "ingest \<Rightarrow> (job \<Rightarrow> string) \<Rightarrow> message_view \<Rightarrow> world \<Rightarrow> world" where
  "recover_one ig detail v w =
     (case reread w v of
        None \<Rightarrow> fail_job ig detail (pending_job v no_input) ''unreadable'' w
      | Some i \<Rightarrow> settle_job ig detail (pending_job v i) w)"

text \<open>
  The steps: a delivery commits or is refused; its session hands the job to the queue, whose
  length is bounded, or leaves it when the server is stopping; a worker takes a job and settles
  it; recovery settles a message; the server begins to stop; the bus does something else than take
  an announcement; a request changes other tables than the messages; and the process ends at any
  point and starts again, with a new bus, to recover what it finds pending.
\<close>

inductive pipe_step :: "ingest \<Rightarrow> (job \<Rightarrow> string) \<Rightarrow> nat \<Rightarrow> pipeline \<Rightarrow> pipeline \<Rightarrow> bool"
  for ig detail cap where
  accepted: "Deliver ig d ((pl_world p)\<lparr>w_stopping := False\<rparr>) = (Inr (Some j), w) \<Longrightarrow>
     pipe_step ig detail cap p
       (p\<lparr>pl_world := w\<lparr>w_stopping := w_stopping (pl_world p)\<rparr>, pl_sessions := pl_sessions p @ [j]\<rparr>)"
| refused: "Deliver ig d (pl_world p) = (Inl e, w) \<Longrightarrow> pipe_step ig detail cap p (p\<lparr>pl_world := w\<rparr>)"
| queueing: "pl_sessions p = js @ j # ks \<Longrightarrow> length (pl_queue p) < cap \<Longrightarrow>
     pipe_step ig detail cap p (p\<lparr>pl_sessions := js @ ks, pl_queue := pl_queue p @ [j]\<rparr>)"
| leaving: "w_stopping (pl_world p) \<Longrightarrow> pl_sessions p = js @ j # ks \<Longrightarrow>
     pipe_step ig detail cap p
       (p\<lparr>pl_sessions := js @ ks, pl_left := insert (jb_message j) (pl_left p)\<rparr>)"
| taking: "pl_queue p = j # js \<Longrightarrow>
     pipe_step ig detail cap p (p\<lparr>pl_queue := js, pl_running := pl_running p @ [j]\<rparr>)"
| settling: "pl_running p = js @ j # ks \<Longrightarrow>
     pipe_step ig detail cap p
       (p\<lparr>pl_world := settle_job ig detail j (pl_world p), pl_running := js @ ks\<rparr>)"
| recovering: "pl_recovery p = v # vs \<Longrightarrow>
     pipe_step ig detail cap p
       (p\<lparr>pl_world := recover_one ig detail v (pl_world p), pl_recovery := vs\<rparr>)"
| stopping: "pipe_step ig detail cap p (p\<lparr>pl_world := (pl_world p)\<lparr>w_stopping := True\<rparr>\<rparr>)"
| busy: "bus_step (w_bus (pl_world p)) b \<Longrightarrow> announced b = announced (w_bus (pl_world p)) \<Longrightarrow>
     pipe_step ig detail cap p (p\<lparr>pl_world := on_bus b (pl_world p)\<rparr>)"
| elsewhere: "messages s = messages (w_store (pl_world p)) \<Longrightarrow>
     pipe_step ig detail cap p (p\<lparr>pl_world := in_store s (pl_world p)\<rparr>)"
| restarting: "pipe_step ig detail cap p
     \<lparr>pl_world = (pl_world p)\<lparr>w_bus := NewBus g, w_stopping := False\<rparr>, pl_sessions = [],
      pl_queue = [], pl_running = [],
      pl_recovery = ListPendingExtractions (w_store (pl_world p)) 0, pl_left = {},
      pl_before = settled_ids (messages (w_store (pl_world p)))\<rparr>"

inductive pipe_reachable :: "ingest \<Rightarrow> (job \<Rightarrow> string) \<Rightarrow> nat \<Rightarrow> pipeline \<Rightarrow> bool"
  for ig detail cap where
  started: "messages (w_store w) = [] \<Longrightarrow> w_bus w = NewBus g \<Longrightarrow>
     pipe_reachable ig detail cap \<lparr>pl_world = w, pl_sessions = [], pl_queue = [], pl_running = [],
       pl_recovery = [], pl_left = {}, pl_before = {}\<rparr>"
| stepped: "pipe_reachable ig detail cap p \<Longrightarrow> pipe_step ig detail cap p q \<Longrightarrow>
     pipe_reachable ig detail cap q"

text \<open>
  The books balance: every pending message is waiting somewhere, every settled one was announced
  once, before this start or since, and nothing is announced before it is settled.
\<close>

definition books :: "ident set \<Rightarrow> ident set \<Rightarrow> message list \<Rightarrow> bus \<Rightarrow> bool" where
  "books waiting before ms b \<longleftrightarrow>
     distinct (map msg_id ms) \<and> distinct (announced b) \<and> set (announced b) \<inter> before = {} \<and>
     set (announced b) \<union> before \<subseteq> settled_ids ms \<and>
     (\<forall>m\<in>set ms. if unsettled m then msg_id m \<in> waiting
        else bus_stopped b \<or> msg_id m \<in> set (announced b) \<union> before)"

definition pipe_inv :: "pipeline \<Rightarrow> bool" where
  "pipe_inv p \<longleftrightarrow>
     (\<exists>g. bus_reachable g (w_bus (pl_world p))) \<and>
     books (waiting_ids p) (pl_before p) (messages (w_store (pl_world p))) (w_bus (pl_world p))"

lemma settles_map:
  assumes "settles i w w'"
  shows "map msg_id (messages (w_store w')) = map msg_id (messages (w_store w))"
proof -
  obtain f where f: "\<And>m. msg_id (f m) = msg_id m"
    and m: "messages (w_store w') = update_where (pending_row i) f (messages (w_store w))"
    using assms by (auto simp: settles_def)
  show ?thesis unfolding m by (rule map_update_where) (rule f)
qed

lemma in_settled_ids:
  "m \<in> set ms \<Longrightarrow> \<not> unsettled m \<Longrightarrow> msg_id m \<in> settled_ids ms"
  by (auto simp: settled_ids_def)

lemma settles_rows:
  assumes "settles i w w'"
  shows "m \<in> set (messages (w_store w')) \<Longrightarrow> unsettled m \<Longrightarrow>
      m \<in> set (messages (w_store w)) \<and> msg_id m \<noteq> i"
    and "settled_ids (messages (w_store w')) = settled_ids (messages (w_store w)) \<union>
      (if list_ex (pending_row i) (messages (w_store w)) then {i} else {})"
proof -
  obtain f where f: "\<And>m. msg_id (f m) = msg_id m \<and> \<not> unsettled (f m)"
    and m: "messages (w_store w') = update_where (pending_row i) f (messages (w_store w))"
    using assms by (auto simp: settles_def)
  have p: "pending_row i m \<longleftrightarrow> msg_id m = i \<and> unsettled m" for m
    by (simp add: pending_row_def unsettled_def)
  show "m \<in> set (messages (w_store w')) \<Longrightarrow> unsettled m \<Longrightarrow>
      m \<in> set (messages (w_store w)) \<and> msg_id m \<noteq> i"
    using f unfolding m set_update_where by (auto simp: p split: if_splits) (metis f)+
  have "i \<in> settled_ids (messages (w_store w'))" if hit: "list_ex (pending_row i) (messages (w_store w))"
  proof -
    obtain r where r: "r \<in> set (messages (w_store w))" "msg_id r = i" "unsettled r"
      using hit by (auto simp: list_ex_iff p)
    have "f r \<in> set (messages (w_store w'))"
      using update_where_hit [OF r(1), of "pending_row i" f] r p by (simp add: m)
    then show ?thesis using in_settled_ids [of "f r"] f [of r] r(2) by simp
  qed
  moreover have "settled_ids (messages (w_store w)) \<subseteq> settled_ids (messages (w_store w'))"
  proof
    fix k assume "k \<in> settled_ids (messages (w_store w))"
    then obtain r where r: "r \<in> set (messages (w_store w))" "msg_id r = k" "\<not> unsettled r"
      by (auto simp: settled_ids_def)
    then have "r \<in> set (messages (w_store w'))"
      using update_where_hit [OF r(1), of "pending_row i" f] p by (simp add: m)
    then show "k \<in> settled_ids (messages (w_store w'))" using r by (auto simp: settled_ids_def)
  qed
  moreover have "settled_ids (messages (w_store w')) \<subseteq> settled_ids (messages (w_store w)) \<union>
      (if list_ex (pending_row i) (messages (w_store w)) then {i} else {})"
    using f by (auto simp: settled_ids_def m set_update_where list_ex_iff p split: if_splits)
  ultimately show "settled_ids (messages (w_store w')) = settled_ids (messages (w_store w)) \<union>
      (if list_ex (pending_row i) (messages (w_store w)) then {i} else {})" by auto
qed

lemma settled_ids_row:
  assumes "distinct (map msg_id ms)" "m \<in> set ms" "msg_id m \<in> settled_ids ms"
  shows "\<not> unsettled m"
  using assms by (auto simp: settled_ids_def distinct_map dest: inj_onD)

lemma books_settles:
  assumes "books (insert i waiting) before (messages (w_store w)) (w_bus w)" and "settles i w w'"
  shows "books waiting before (messages (w_store w')) (w_bus w')"
proof -
  let ?ms = "messages (w_store w)"
  let ?hit = "list_ex (pending_row i) ?ms"
  note b = assms(1) [unfolded books_def]
  note rows = settles_rows [OF assms(2)]
  have ann: "announced (w_bus w') = announced (w_bus w) @ (if ?hit \<and> \<not> bus_stopped (w_bus w) then [i] else [])"
    and stop: "bus_stopped (w_bus w') = bus_stopped (w_bus w)"
    using assms(2) by (simp_all add: settles_def)
  have new: "i \<notin> settled_ids ?ms" if hit: ?hit
  proof -
    obtain r where "r \<in> set ?ms" "msg_id r = i" "unsettled r"
      using hit by (auto simp: list_ex_iff pending_row_def unsettled_def)
    then show ?thesis using settled_ids_row [of ?ms r] b by auto
  qed
  have ids: "distinct (map msg_id (messages (w_store w')))"
    using b settles_map [OF assms(2)] by simp
  moreover have "distinct (announced (w_bus w'))" "set (announced (w_bus w')) \<inter> before = {}"
    "set (announced (w_bus w')) \<union> before \<subseteq> settled_ids (messages (w_store w'))"
    using b new unfolding ann rows(2) by auto
  moreover have "if unsettled m then msg_id m \<in> waiting
      else bus_stopped (w_bus w') \<or> msg_id m \<in> set (announced (w_bus w')) \<union> before"
    if m: "m \<in> set (messages (w_store w'))" for m
  proof (cases "unsettled m")
    case True
    then show ?thesis using rows(1) [OF m True] b by auto
  next
    case False
    have "msg_id m \<in> settled_ids ?ms \<union> (if ?hit then {i} else {})"
      using in_settled_ids [OF m False] rows(2) by simp
    moreover have "bus_stopped (w_bus w) \<or> k \<in> set (announced (w_bus w)) \<union> before"
      if "k \<in> settled_ids ?ms" for k
      using that b by (force simp: settled_ids_def)
    ultimately show ?thesis using False unfolding ann stop by (auto split: if_splits)
  qed
  ultimately show ?thesis unfolding books_def by blast
qed

lemma books_more:
  "books waiting before ms b \<Longrightarrow> waiting \<subseteq> waiting' \<Longrightarrow> books waiting' before ms b"
  by (auto simp: books_def)

text \<open>A delivery adds a pending row, and its job waits for it.\<close>

lemma books_deliver:
  assumes "books waiting before ms b" and "unsettled row" and "msg_id row \<notin> msg_id ` set ms"
  shows "books (insert (msg_id row) waiting) before (ms @ [row]) b"
  using assms by (auto simp: books_def settled_ids_def)

lemma InsertMessage_pending:
  assumes "InsertMessage ta m0 s = (Inr m, s')" and "nm_extracted m0 = []"
  shows "\<exists>row. messages s' = messages s @ [row] \<and> msg_id row = nm_id m \<and> unsettled row \<and>
     msg_id row \<notin> msg_id ` set (messages s)"
proof -
  obtain i s1 where id: "(if nm_id m0 = [] then NewID s else (nm_id m0, s)) = (i, s1)"
    by (metis surj_pair)
  obtain t s2 where now:
    "(if is_zero_time (nm_received_at m0) then Now s1 else (nm_received_at m0, s1)) = (t, s2)"
    by (metis surj_pair)
  have "tables s1 = tables s" "tables s2 = tables s1"
    using id now by (auto split: if_splits dest: NewID_frame Now_frame)
  then show ?thesis
    using assms id now
    by (auto simp: InsertMessage_def Let_def set_messages_def unsettled_def list_ex_iff
        split: option.splits if_split_asm) blast+
qed

lemma deliver_messages:
  assumes "deliver_tx ig m0 f q off envelope originAt s = (Inr m, s')"
    and "InsertMessage (ig_to_ascii ig) m0 s = (Inr m, s1)"
  shows "messages s' = messages s1"
proof -
  obtain r2 s2 where aud: "audit ig (nm_id m) f q off s1 = (r2, s2)"
    by (cases "audit ig (nm_id m) f q off s1")
  note a = audit_ledger_only [OF aud]
  have b: "bind_mail ig (nm_id m) (nm_received_at m) envelope originAt s2 = (Inr (), s')"
    using assms aud a by (auto simp: deliver_tx_def split: sum.splits prod.splits)
  obtain r3 s3 where bnd: "BindRecipients (ig_to_ascii ig) (nm_id m) envelope (nm_received_at m)
      originAt s2 = (r3, s3)" by (metis surj_pair)
  obtain bd ub where r3: "r3 = Inr (bd, ub)"
    using b bnd by (auto simp: bind_mail_def split: sum.splits prod.splits)
  obtain r4 s4 where wb: "write_bound ig bd s3 = (r4, s4)" by (cases "write_bound ig bd s3")
  obtain r5 s5 where wu: "Write (ingest_meta ig []) (MailUnbound (nm_id m) ub) s4 = (r5, s5)"
    by (cases "Write (ingest_meta ig []) (MailUnbound (nm_id m) ub) s4")
  note w4 = write_bound_ledger_only [OF wb] and w5 = Write_ledger_only [OF wu]
  have "messages s4 = messages s3" "messages s5 = messages s4" "messages s2 = messages s1"
    using w4 w5 a by (auto dest: ledger_only_tables(4))
  moreover have "messages s3 = messages s2" using BindRecipients_spec(1) [OF bnd [unfolded r3]] by simp
  moreover have "s' = (if ub = [] then s4 else s5)"
    using b bnd r3 wb w4 wu w5 by (auto simp: bind_mail_def)
  ultimately show ?thesis by simp
qed

lemma Deliver_job:
  assumes "Deliver ig d w = (Inr (Some j), w')"
  shows "\<exists>row. messages (w_store w') = messages (w_store w) @ [row] \<and> msg_id row = jb_message j \<and>
     unsettled row \<and> msg_id row \<notin> msg_id ` set (messages (w_store w))"
proof -
  let ?p = "parseMessage (ig_read_mail ig) (dl_raw d)"
  obtain r1 w1 where p1: "Put (dl_raw d) w = (r1, w1)" by (cases "Put (dl_raw d) w")
  with assms obtain rawRef where r1: "r1 = Inr rawRef"
    by (cases r1) (simp_all add: Deliver_def Let_def)
  obtain r2 w2 where p2: "put_html (pm_html ?p) w1 = (r2, w2)" by (cases "put_html (pm_html ?p) w1")
  with assms p1 r1 obtain htmlRef where r2: "r2 = Inr htmlRef"
    by (cases r2) (simp_all add: Deliver_def Let_def)
  obtain q off where q: "quarantine ig (dl_recipients d) = (q, off)" by (metis surj_pair)
  let ?m0 = "\<lparr>nm_id = [], nm_project = ig_project ig,
                              nm_from = fromAddress ig (pm_from ?p) (dl_from d),
                              nm_subject = pm_subject ?p, nm_channel = ''email'',
                              nm_raw_ref = rawRef, nm_html_ref = htmlRef,
                              nm_text = pm_text ?p, nm_extracted = [],
                              nm_quarantined = q,
                              nm_received_at = dl_received_at d,
                              nm_recipients = recipients (dl_recipients d) (pm_to ?p)
                                (pm_cc ?p)\<rparr>"
  obtain r3 st where t: "tx (deliver_tx ig ?m0 (dl_from d) q off (dl_recipients d) (pm_origin ?p))
      (w_store w2) = (r3, st)" by (metis surj_pair)
  have "\<exists>m. r3 = Inr m \<and> w' = w2\<lparr>w_store := st\<rparr> \<and> jb_message j = nm_id m"
    using assms p1 r1 p2 r2 q t by (auto simp: Deliver_def Let_def split: sum.splits if_splits)
  then obtain m where m: "r3 = Inr m" "w' = w2\<lparr>w_store := st\<rparr>" "jb_message j = nm_id m" by blast
  then have d: "deliver_tx ig ?m0 (dl_from d) q off (dl_recipients d) (pm_origin ?p) (w_store w2) = (Inr m, st)"
    using t by (simp add: tx_Inr)
  obtain s1 where ins: "InsertMessage (ig_to_ascii ig) ?m0 (w_store w2) = (Inr m, s1)"
    using d by (cases "InsertMessage (ig_to_ascii ig) ?m0 (w_store w2)")
      (auto simp: deliver_tx_def split: sum.splits prod.splits)
  obtain row where row: "messages s1 = messages (w_store w2) @ [row]" "msg_id row = nm_id m" "unsettled row"
    "msg_id row \<notin> msg_id ` set (messages (w_store w2))"
    using InsertMessage_pending [OF ins] by auto
  obtain row' where row': "messages st = messages (w_store w2) @ [row']"
    using deliver_tx_delivered [OF d] by (auto simp: delivered_def)
  have "tables (w_store w2) = tables (w_store w)"
    using Put_tables [OF p1] put_html_tables [OF p2] by simp
  moreover have "messages st = messages s1"
    by (rule deliver_messages [OF d ins])
  ultimately show ?thesis using row m by auto
qed

text \<open>Every step keeps the books.\<close>

lemma recover_one_settles:
  assumes "distinct (map msg_id (messages (w_store w)))" and "bus_reachable g (w_bus w)"
  shows "settles (msg_id (mv_row v)) w (recover_one ig detail v w)"
  using fail_job_settles [OF assms] settle_job_settles [OF assms]
  by (simp add: recover_one_def pending_job_def split: option.split) (metis job.select_convs(1))

lemma books_bus:
  assumes "books waiting before ms b" and "announced b' = announced b" and "bus_stopped b \<longrightarrow> bus_stopped b'"
  shows "books waiting before ms b'"
proof -
  have "if unsettled m then msg_id m \<in> waiting
      else bus_stopped b' \<or> msg_id m \<in> set (announced b) \<union> before" if m: "m \<in> set ms" for m
  proof -
    have "if unsettled m then msg_id m \<in> waiting
        else bus_stopped b \<or> msg_id m \<in> set (announced b) \<union> before"
      using assms(1) m unfolding books_def by blast
    then show ?thesis using assms(3) by presburger
  qed
  then show ?thesis using assms(1) unfolding books_def assms(2) by blast
qed

lemma bus_step_stopped: "bus_step b b' \<Longrightarrow> bus_stopped b \<Longrightarrow> bus_stopped b'"
  by (induction rule: bus_step.induct)
     (auto simp: Publish_def SubscribeFrom_def SubscribeMatch_def drop_subscription_def drop_waiter_def
       stop_bus_def Let_def split: if_splits)

lemma pending_listed:
  "(msg_id \<circ> mv_row) ` set (ListPendingExtractions s 0) = msg_id ` {m \<in> set (messages s). unsettled m}"
proof -
  have "mv_row (scan_message s m) = m" for m
    by (simp add: scan_message_def Let_def split: option.split)
  then show ?thesis by (auto simp: ListPendingExtractions_def unsettled_def image_image)
qed

lemma pipe_inv_settled:
  assumes "pipe_inv p" and "bus_reachable g (w_bus (pl_world p))" and "settles i (pl_world p) w"
    and "waiting_ids p \<subseteq> insert i (waiting_ids q)" and "pl_world q = w" and "pl_before q = pl_before p"
  shows "pipe_inv q"
proof -
  have "books (insert i (waiting_ids q)) (pl_before q) (messages (w_store (pl_world p))) (w_bus (pl_world p))"
    using assms(1,4,6) books_more by (auto simp: pipe_inv_def)
  from books_settles [OF this assms(3)] show ?thesis
    using assms(2,3,5) by (auto simp: pipe_inv_def settles_def)
qed

lemma pipe_inv_waiting:
  "pipe_inv p \<Longrightarrow> pl_world q = pl_world p \<Longrightarrow> pl_before q = pl_before p \<Longrightarrow>
     waiting_ids p \<subseteq> waiting_ids q \<Longrightarrow> pipe_inv q"
  using books_more by (auto simp: pipe_inv_def)

lemma pipe_step_inv:
  assumes "pipe_step ig detail cap p q" and inv: "pipe_inv p"
  shows "pipe_inv q"
proof -
  obtain g where g: "bus_reachable g (w_bus (pl_world p))" using inv by (auto simp: pipe_inv_def)
  have b: "books (waiting_ids p) (pl_before p) (messages (w_store (pl_world p))) (w_bus (pl_world p))"
    using inv by (simp add: pipe_inv_def)
  then have ids: "distinct (map msg_id (messages (w_store (pl_world p))))" by (simp add: books_def)
  from assms(1) show ?thesis
  proof cases
    case (accepted d j w)
    obtain row where row: "messages (w_store w) = messages (w_store (pl_world p)) @ [row]"
      "msg_id row = jb_message j" "unsettled row" "msg_id row \<notin> msg_id ` set (messages (w_store (pl_world p)))"
      using Deliver_job [OF accepted(2)] by auto
    have "w_bus w = w_bus (pl_world p)" using Deliver_bus [OF accepted(2)] by simp
    moreover have "waiting_ids q = insert (msg_id row) (waiting_ids p)"
      by (auto simp: waiting_ids_def accepted(1) row(2))
    ultimately show ?thesis
      using books_deliver [OF b row(3,4)] g row(1) accepted(1) by (auto simp: pipe_inv_def)
  next
    case (refused d e w)
    have "tables (w_store w) = tables (w_store (pl_world p))" "w_bus w = w_bus (pl_world p)"
      using Deliver_refused [OF refused(2)] Deliver_bus [OF refused(2)] by simp_all
    then show ?thesis using inv by (simp add: pipe_inv_def waiting_ids_def refused(1))
  next
    case (queueing js j ks)
    show ?thesis by (rule pipe_inv_waiting [OF inv]) (auto simp: waiting_ids_def queueing(1,2))
  next
    case (leaving js j ks)
    show ?thesis by (rule pipe_inv_waiting [OF inv]) (auto simp: waiting_ids_def leaving(1,3))
  next
    case (taking j js)
    show ?thesis by (rule pipe_inv_waiting [OF inv]) (auto simp: waiting_ids_def taking(1,2))
  next
    case (settling js j ks)
    show ?thesis
      by (rule pipe_inv_settled [OF inv g settle_job_settles [OF ids g]])
         (auto simp: waiting_ids_def settling(1,2))
  next
    case (recovering v vs)
    show ?thesis
      by (rule pipe_inv_settled [OF inv g recover_one_settles [OF ids g]])
         (auto simp: waiting_ids_def recovering(1,2))
  next
    case stopping
    then show ?thesis using inv by (simp add: pipe_inv_def waiting_ids_def)
  next
    case (busy b')
    have "books (waiting_ids p) (pl_before p) (messages (w_store (pl_world p))) b'"
      by (rule books_bus [OF b busy(3)]) (use bus_step_stopped [OF busy(2)] in blast)
    then show ?thesis
      using bus_reachable.step [OF g busy(2)] by (auto simp: pipe_inv_def waiting_ids_def on_bus_def busy(1))
  next
    case (elsewhere s)
    then show ?thesis using inv by (simp add: pipe_inv_def waiting_ids_def in_store_def)
  next
    case (restarting g')
    have "books (waiting_ids q) (pl_before q) (messages (w_store (pl_world p))) (NewBus g')"
      using ids pending_listed [of "w_store (pl_world p)"]
      by (auto simp: books_def waiting_ids_def restarting in_settled_ids)
    then show ?thesis using bus_reachable.start by (auto simp: pipe_inv_def restarting)
  qed
qed

lemma pipe_reachable_inv: "pipe_reachable ig detail cap p \<Longrightarrow> pipe_inv p"
proof (induction rule: pipe_reachable.induct)
  case (started w g)
  then show ?case using bus_reachable.start by (auto simp: pipe_inv_def books_def settled_ids_def)
next
  case (stepped p q)
  then show ?case using pipe_step_inv by blast
qed

section \<open>Recovery\<close>

lemma recover_loop_one:
  "recover_loop ig detail (v # vs) w = recover_loop ig detail vs (recover_one ig detail v w)"
  by (simp add: recover_one_def)

text \<open>
  Recovery of a list of pending messages announces each of them, in order, and leaves none of them
  pending.
\<close>

lemma recover_loop_settles:
  assumes "distinct (map msg_id (messages (w_store w)))" and "bus_reachable g (w_bus w)"
    and "distinct (map (msg_id \<circ> mv_row) vs)"
    and "\<forall>v\<in>set vs. list_ex (pending_row (msg_id (mv_row v))) (messages (w_store w))"
    and "\<not> bus_stopped (w_bus w)"
  shows "announced (w_bus (recover_loop ig detail vs w)) = announced (w_bus w) @ map (msg_id \<circ> mv_row) vs \<and>
    (\<forall>m\<in>set (messages (w_store (recover_loop ig detail vs w))). unsettled m \<longrightarrow>
      m \<in> set (messages (w_store w)) \<and> msg_id m \<notin> (msg_id \<circ> mv_row) ` set vs)"
  using assms
proof (induction vs arbitrary: w)
  case (Cons v vs)
  let ?i = "msg_id (mv_row v)"
  let ?w = "recover_one ig detail v w"
  have s: "settles ?i w ?w" by (rule recover_one_settles [OF Cons.prems(1,2)])
  have ids: "distinct (map msg_id (messages (w_store ?w)))"
    using settles_map [OF s] Cons.prems(1) by simp
  have ann: "announced (w_bus ?w) = announced (w_bus w) @ [?i]" "bus_stopped (w_bus ?w) = bus_stopped (w_bus w)"
    "bus_reachable g (w_bus ?w)"
    using s Cons.prems(2,4,5) by (simp_all add: settles_def)
  have rest: "list_ex (pending_row (msg_id (mv_row u))) (messages (w_store ?w))" if u: "u \<in> set vs" for u
  proof -
    obtain m where m: "m \<in> set (messages (w_store w))" "msg_id m = msg_id (mv_row u)" "unsettled m"
      using Cons.prems(4) u by (fastforce simp: list_ex_iff pending_row_def unsettled_def)
    have other: "msg_id m \<noteq> ?i" using Cons.prems(3) u m(2) by (simp add: comp_def) (metis image_eqI)
    obtain f where "messages (w_store ?w) = update_where (pending_row ?i) f (messages (w_store w))"
      using s by (auto simp: settles_def)
    then have "m \<in> set (messages (w_store ?w))"
      using update_where_hit [OF m(1), of "pending_row ?i" f] other by (simp add: pending_row_def)
    then show ?thesis using m by (auto simp: list_ex_iff pending_row_def unsettled_def)
  qed
  have IH: "announced (w_bus (recover_loop ig detail vs ?w)) = announced (w_bus ?w) @ map (msg_id \<circ> mv_row) vs \<and>
    (\<forall>m\<in>set (messages (w_store (recover_loop ig detail vs ?w))). unsettled m \<longrightarrow>
      m \<in> set (messages (w_store ?w)) \<and> msg_id m \<notin> (msg_id \<circ> mv_row) ` set vs)"
    by (rule Cons.IH [OF ids ann(3)]) (use Cons.prems(3,5) ann(2) rest in auto)
  show ?case
    using IH ann(1) settles_rows(1) [OF s] unfolding recover_loop_one by auto
qed simp

lemma Recover_settles:
  assumes "distinct (map msg_id (messages (w_store w)))" and "bus_reachable g (w_bus w)"
    and "\<not> bus_stopped (w_bus w)"
  shows "announced (w_bus (Recover ig detail w)) =
      announced (w_bus w) @ map (msg_id \<circ> mv_row) (ListPendingExtractions (w_store w) 0)"
    and "ListPendingExtractions (w_store (Recover ig detail w)) 0 = []"
proof -
  let ?vs = "ListPendingExtractions (w_store w) 0"
  have row: "mv_row (scan_message s m) = m" for s m
    by (simp add: scan_message_def Let_def split: option.split)
  have pend: "\<forall>v\<in>set ?vs. list_ex (pending_row (msg_id (mv_row v))) (messages (w_store w))"
    by (auto simp: ListPendingExtractions_def row list_ex_iff pending_row_def)
  have "distinct (map (msg_id \<circ> mv_row) ?vs)"
  proof -
    have "map (msg_id \<circ> mv_row) ?vs =
        map msg_id (sort_key CursorFor (filter (\<lambda>m. msg_extraction_state m = ExtractionPending) (messages (w_store w))))"
      by (simp add: ListPendingExtractions_def row comp_def)
    moreover have "distinct (map msg_id (filter (\<lambda>m. msg_extraction_state m = ExtractionPending) (messages (w_store w))))"
      using assms(1) by (rule distinct_map_filter)
    ultimately show ?thesis by (simp add: distinct_map)
  qed
  note loop = recover_loop_settles [OF assms(1,2) this pend assms(3), of ig detail, folded Recover_def]
  show "announced (w_bus (Recover ig detail w)) =
      announced (w_bus w) @ map (msg_id \<circ> mv_row) ?vs"
    using loop by blast
  have "\<not> unsettled m" if m: "m \<in> set (messages (w_store (Recover ig detail w)))" for m
  proof
    assume "unsettled m"
    then have "m \<in> set (messages (w_store w))" "msg_id m \<notin> msg_id ` {m \<in> set (messages (w_store w)). unsettled m}"
      using loop m unfolding pending_listed by blast+
    then show False using \<open>unsettled m\<close> by blast
  qed
  then show "ListPendingExtractions (w_store (Recover ig detail w)) 0 = []"
    by (simp add: ListPendingExtractions_def unsettled_def filter_empty_conv)
qed

end
