(* ===== verification/Opening.thy ===== *)
theory Opening
  imports Prelude
begin

text \<open>
  Opening a data directory: the options, the first connection and the handles of
  \<^verbatim>\<open>store/store.go\<close>, the migrations of \<^verbatim>\<open>store/migrate.go\<close>. The driver is an argument: what each
  ping answers, and what the script of a migration does to the database or that it fails.
\<close>

section \<open>Durability\<close>

datatype sync_mode = SyncFull | SyncNormal

definition sync_String :: "sync_mode \<Rightarrow> string" where
  "sync_String m = (if m = SyncNormal then ''normal'' else ''full'')"

definition ParseSyncMode :: "string \<Rightarrow> sync_mode option" where
  "ParseSyncMode v =
     (if v = ''full'' then Some SyncFull else if v = ''normal'' then Some SyncNormal else None)"

definition sync_pragma :: "sync_mode \<Rightarrow> string" where
  "sync_pragma m = ''synchronous('' @ sync_String m @ '')''"

lemma ParseSyncMode_String: "ParseSyncMode (sync_String m) = Some m"
  by (cases m) (simp_all add: ParseSyncMode_def sync_String_def)

lemma ParseSyncMode_only: "ParseSyncMode v = Some m \<longleftrightarrow> v = sync_String m"
  by (cases m) (auto simp: ParseSyncMode_def sync_String_def)

definition busyTimeout :: duration where "busyTimeout = 5 * second"

text \<open>The pragmas every connection is opened with, in the order the driver needs.\<close>

definition open_pragmas :: "(duration \<Rightarrow> string) \<Rightarrow> sync_mode \<Rightarrow> string list" where
  "open_pragmas millis m =
     [''busy_timeout('' @ millis busyTimeout @ '')'', ''journal_mode(wal)'', sync_pragma m,
      ''foreign_keys(on)'']"

section \<open>The first connection\<close>

datatype ping = PingOK | PingLocked | PingCancelled | PingFailed

datatype connect_error = ConnectCancelled | ConnectFailed | StillInitializing

definition connect_attempts :: nat where "connect_attempts = 10"

text \<open>
  \<open>pings n\<close> is the answer to the ping number \<open>n\<close>, or \<open>PingCancelled\<close> when the
  context ends then or in the pause after it.
\<close>

function connect_loop :: "(nat \<Rightarrow> ping) \<Rightarrow> nat \<Rightarrow> connect_error option" where
  "connect_loop pings i =
     (if connect_attempts \<le> i then Some StillInitializing
      else case pings i of
        PingOK \<Rightarrow> None
      | PingCancelled \<Rightarrow> Some ConnectCancelled
      | PingFailed \<Rightarrow> Some ConnectFailed
      | PingLocked \<Rightarrow> connect_loop pings (Suc i))"
  by pat_completeness auto

termination connect_loop
  by (relation "measure (\<lambda>(pings, i). connect_attempts - i)") auto

declare connect_loop.simps [simp del]

definition waitForConnection :: "(nat \<Rightarrow> ping) \<Rightarrow> connect_error option" where
  "waitForConnection pings = connect_loop pings 0"

lemma connect_loop_ok:
  "connect_loop pings i = None \<longleftrightarrow>
     (\<exists>n. i \<le> n \<and> n < connect_attempts \<and> pings n = PingOK \<and> (\<forall>k. i \<le> k \<and> k < n \<longrightarrow> pings k = PingLocked))"
proof (induction pings i rule: connect_loop.induct)
  case (1 pings i)
  show ?case
  proof (cases "i < connect_attempts \<and> pings i = PingLocked")
    case True
    then have "connect_loop pings i = connect_loop pings (Suc i)"
      by (simp add: connect_loop.simps [of pings i])
    moreover have "(\<exists>n. i \<le> n \<and> n < connect_attempts \<and> pings n = PingOK \<and>
          (\<forall>k. i \<le> k \<and> k < n \<longrightarrow> pings k = PingLocked)) \<longleftrightarrow>
        (\<exists>n. Suc i \<le> n \<and> n < connect_attempts \<and> pings n = PingOK \<and>
          (\<forall>k. Suc i \<le> k \<and> k < n \<longrightarrow> pings k = PingLocked))"
      using True by (metis Suc_le_eq le_less ping.distinct(1))
    ultimately show ?thesis using 1 True by simp
  next
    case False
    then show ?thesis
      by (cases "pings i") (auto simp: connect_loop.simps [of pings i] le_less dest: spec [of _ i])
  qed
qed

text \<open>A locked file is waited for; the connection stands when a ping answers before the tenth.\<close>

lemma waitForConnection_ok:
  "waitForConnection pings = None \<longleftrightarrow>
     (\<exists>n < connect_attempts. pings n = PingOK \<and> (\<forall>k < n. pings k = PingLocked))"
  unfolding waitForConnection_def connect_loop_ok by auto

section \<open>Migrations\<close>

record 'd database =
  ds_version :: nat
  ds_schema :: 'd

datatype migrate_error = NewerDatabase | MigrationFailed nat

text \<open>\<^verbatim>\<open>applyMigration\<close>: the script and the version in one transaction.\<close>

definition applyMigration ::
  "('d \<Rightarrow> 'd option) list \<Rightarrow> nat \<Rightarrow> 'd database \<Rightarrow> migrate_error option \<times> 'd database" where
  "applyMigration migrations index d =
     (case (migrations ! index) (ds_schema d) of
        None \<Rightarrow> (Some (MigrationFailed (Suc index)), d)
      | Some x \<Rightarrow> (None, d\<lparr>ds_version := Suc index, ds_schema := x\<rparr>))"

fun migrate_loop ::
  "('d \<Rightarrow> 'd option) list \<Rightarrow> nat list \<Rightarrow> 'd database \<Rightarrow> migrate_error option \<times> 'd database" where
  "migrate_loop migrations [] d = (None, d)"
| "migrate_loop migrations (i # is) d =
     (case applyMigration migrations i d of
        (Some e, d1) \<Rightarrow> (Some e, d1)
      | (None, d1) \<Rightarrow> migrate_loop migrations is d1)"

definition migrateTo ::
  "('d \<Rightarrow> 'd option) list \<Rightarrow> nat \<Rightarrow> 'd database \<Rightarrow> migrate_error option \<times> 'd database" where
  "migrateTo migrations target d =
     (if length migrations < ds_version d then (Some NewerDatabase, d)
      else migrate_loop migrations [ds_version d..<target] d)"

definition migrate ::
  "('d \<Rightarrow> 'd option) list \<Rightarrow> 'd database \<Rightarrow> migrate_error option \<times> 'd database" where
  "migrate migrations d = migrateTo migrations (length migrations) d"

text \<open>The schema the scripts give from a version on, if none of them fails.\<close>

fun upgraded :: "('d \<Rightarrow> 'd option) list \<Rightarrow> 'd \<Rightarrow> 'd option" where
  "upgraded [] x = Some x"
| "upgraded (f # fs) x = Option.bind (f x) (upgraded fs)"

lemma upgraded_append: "upgraded (fs @ gs) x = Option.bind (upgraded fs x) (upgraded gs)"
proof (induction fs arbitrary: x)
  case (Cons f fs)
  then show ?case by (cases "f x") simp_all
qed simp

text \<open>However far it gets, the version tells how many scripts the schema has seen.\<close>

lemma migrate_loop_spec:
  assumes "migrate_loop migrations [ds_version d..<target] d = (e, d')" "target \<le> length migrations"
  shows "ds_version d \<le> ds_version d' \<and>
     upgraded (drop (ds_version d) (take (ds_version d') migrations)) (ds_schema d) = Some (ds_schema d') \<and>
     (e = None \<longrightarrow> ds_version d' = max (ds_version d) target) \<and>
     (\<forall>x. e = Some x \<longrightarrow> x = MigrationFailed (Suc (ds_version d')) \<and> ds_version d' < target \<and>
        (migrations ! ds_version d') (ds_schema d') = None)"
  using assms(1)
proof (induction "target - ds_version d" arbitrary: d)
  case 0
  then show ?case by simp
next
  case (Suc n)
  let ?v = "ds_version d"
  have v: "?v < target" using Suc(2) by simp
  then have up: "[?v..<target] = ?v # [Suc ?v..<target]" by (simp add: upt_conv_Cons)
  show ?case
  proof (cases "(migrations ! ?v) (ds_schema d)")
    case None
    then show ?thesis using Suc.prems v unfolding up by (auto simp: applyMigration_def)
  next
    case (Some x)
    let ?d = "d\<lparr>ds_version := Suc ?v, ds_schema := x\<rparr>"
    have run: "migrate_loop migrations [ds_version ?d..<target] ?d = (e, d')"
      using Suc.prems Some unfolding up by (simp add: applyMigration_def)
    have "n = target - ds_version ?d" using Suc(2) by simp
    note IH = Suc(1) [OF this run]
    have "drop ?v (take (ds_version d') migrations) =
        (migrations ! ?v) # drop (Suc ?v) (take (ds_version d') migrations)"
      using IH v assms(2) by (subst Cons_nth_drop_Suc [symmetric]) auto
    then show ?thesis using IH Some v by (auto simp: max_def)
  qed
qed

lemma migrate_newer: "length migrations < ds_version d \<Longrightarrow> migrateTo migrations t d = (Some NewerDatabase, d)"
  by (simp add: migrateTo_def)

lemma migrate_ok:
  assumes "migrate migrations d = (None, d')"
  shows "ds_version d' = length migrations"
    and "upgraded (drop (ds_version d) migrations) (ds_schema d) = Some (ds_schema d')"
    and "migrate migrations d' = (None, d')"
proof -
  have le: "ds_version d \<le> length migrations" using assms by (auto simp: migrate_def migrateTo_def split: if_splits)
  then have "migrate_loop migrations [ds_version d..<length migrations] d = (None, d')"
    using assms by (simp add: migrate_def migrateTo_def)
  note run = migrate_loop_spec [OF this order.refl]
  show v: "ds_version d' = length migrations" using run le by simp
  show "upgraded (drop (ds_version d) migrations) (ds_schema d) = Some (ds_schema d')"
    using run by (simp add: v)
  show "migrate migrations d' = (None, d')" by (simp add: migrate_def migrateTo_def v)
qed

text \<open>
  A migration that failed half way is resumed where it stopped: when the script that failed now
  runs, what comes out is what the scripts give from the schema it started with.
\<close>

lemma migrate_resumes:
  assumes "migrate migrations d = (Some e, d1)" "migrate migrations' d1 = (None, d2)"
    and "length migrations' = length migrations" "take (ds_version d1) migrations' = take (ds_version d1) migrations"
    and "ds_version d \<le> length migrations"
  shows "upgraded (drop (ds_version d) migrations') (ds_schema d) = Some (ds_schema d2)"
proof -
  have run: "migrate_loop migrations [ds_version d..<length migrations] d = (Some e, d1)"
    using assms(1,5) by (simp add: migrate_def migrateTo_def)
  note s = migrate_loop_spec [OF run order.refl]
  have "drop (ds_version d) (take (ds_version d1) migrations' @ drop (ds_version d1) migrations') =
      drop (ds_version d) (take (ds_version d1) migrations) @ drop (ds_version d1) migrations'"
    using s assms(3,4) by (simp only: drop_append) (simp add: min_def)
  then show ?thesis
    using s migrate_ok(2) [OF assms(2)] by (simp add: upgraded_append del: drop_append)
qed

section \<open>Opening the store\<close>

text \<open>
  \<^verbatim>\<open>open\<close>, \<^verbatim>\<open>init\<close> and \<^verbatim>\<open>Close\<close>. What the operating system and the driver answer is the
  environment; the handles that are open are kept beside the result, the write handle first.
\<close>

datatype db_handle = WriteHandle | ReadHandle

datatype store_open_error =
    NoSealerGiven | DataDirFailed | DataDirNotNarrowed | HandleFailed db_handle
  | NotConnected connect_error | NotMigrated migrate_error | NoBlobsDir

record 'd open_env =
  oe_sealer :: bool
  oe_mkdir :: bool
  oe_chmod :: bool
  oe_handle :: "db_handle \<Rightarrow> bool"
  oe_pings :: "nat \<Rightarrow> ping"
  oe_migrations :: "('d \<Rightarrow> 'd option) list"
  oe_blobs :: bool
  oe_closes :: "db_handle \<Rightarrow> bool"

definition defaultReadConns :: int where "defaultReadConns = 8"

text \<open>The connections each handle may hold: one that writes, and a pool of readers.\<close>

record opened_store =
  os_write_conns :: int
  os_read_conns :: int

text \<open>\<^verbatim>\<open>Close\<close>, writers first: the handles it failed to close, and what stays open.\<close>

definition store_Close :: "(db_handle \<Rightarrow> bool) \<Rightarrow> db_handle list \<Rightarrow> db_handle list \<times> db_handle list" where
  "store_Close closes hs = (filter (\<lambda>h. \<not> closes h) hs, [])"

definition store_init :: "'d open_env \<Rightarrow> nat \<Rightarrow> 'd database \<Rightarrow> store_open_error option \<times> 'd database" where
  "store_init env target d =
     (case waitForConnection (oe_pings env) of
        Some e \<Rightarrow> (Some (NotConnected e), d)
      | None \<Rightarrow>
          (case migrateTo (oe_migrations env) target d of
             (Some e, d1) \<Rightarrow> (Some (NotMigrated e), d1)
           | (None, d1) \<Rightarrow> if \<not> oe_blobs env then (Some NoBlobsDir, d1) else (None, d1)))"

definition store_open ::
  "'d open_env \<Rightarrow> int \<Rightarrow> nat \<Rightarrow> 'd database \<Rightarrow>
     (store_open_error + opened_store) \<times> db_handle list \<times> 'd database" where
  "store_open env max_read target d =
     (if \<not> oe_sealer env then (Inl NoSealerGiven, [], d)
      else if \<not> oe_mkdir env then (Inl DataDirFailed, [], d)
      else if \<not> oe_chmod env then (Inl DataDirNotNarrowed, [], d)
      else if \<not> oe_handle env WriteHandle then (Inl (HandleFailed WriteHandle), [], d)
      else if \<not> oe_handle env ReadHandle then (Inl (HandleFailed ReadHandle), [], d)
      else case store_init env target d of
        (Some e, d1) \<Rightarrow> (Inl e, snd (store_Close (oe_closes env) [WriteHandle, ReadHandle]), d1)
      | (None, d1) \<Rightarrow>
          (Inr \<lparr>os_write_conns = 1,
                os_read_conns = (if max_read \<le> 0 then defaultReadConns else max_read)\<rparr>,
           [WriteHandle, ReadHandle], d1))"

definition Open_store ::
  "'d open_env \<Rightarrow> int \<Rightarrow> 'd database \<Rightarrow> (store_open_error + opened_store) \<times> db_handle list \<times> 'd database" where
  "Open_store env max_read d = store_open env max_read (length (oe_migrations env)) d"

text \<open>Nothing stays open when opening fails; an open store writes on one connection.\<close>

lemma Open_store_handles:
  assumes "Open_store env max_read d = (r, hs, d')"
  shows "case r of Inl e \<Rightarrow> hs = []
     | Inr os \<Rightarrow> hs = [WriteHandle, ReadHandle] \<and> os_write_conns os = 1 \<and> 0 < os_read_conns os"
  using assms
  by (auto simp: Open_store_def store_open_def store_Close_def defaultReadConns_def
      split: if_splits prod.splits option.splits)

text \<open>An open store is migrated all the way, each script in one transaction on the one before.\<close>

lemma Open_store_migrated:
  assumes "Open_store env max_read d = (Inr os, hs, d')"
  shows "ds_version d' = length (oe_migrations env) \<and>
     upgraded (drop (ds_version d) (oe_migrations env)) (ds_schema d) = Some (ds_schema d')"
proof -
  have "migrate (oe_migrations env) d = (None, d')"
    using assms by (auto simp: Open_store_def store_open_def store_init_def migrate_def
        split: if_splits prod.splits option.splits)
  then show ?thesis using migrate_ok by blast
qed

text \<open>A failed start never takes back a migration that was committed.\<close>

lemma Open_store_forward:
  assumes "Open_store env max_read d = (r, hs, d')" "ds_version d \<le> length (oe_migrations env)"
  shows "ds_version d \<le> ds_version d' \<and>
     upgraded (drop (ds_version d) (take (ds_version d') (oe_migrations env))) (ds_schema d) = Some (ds_schema d')"
proof -
  let ?ms = "oe_migrations env"
  consider "d' = d" | e where "migrate_loop ?ms [ds_version d..<length ?ms] d = (e, d')"
    using assms by (auto simp: Open_store_def store_open_def store_init_def migrateTo_def
        split: if_splits prod.splits option.splits)
  then show ?thesis
  proof cases
    case 2
    then show ?thesis using migrate_loop_spec [OF _ order.refl] by blast
  qed simp
qed

end
