(* ===== verification/Blobs.thy ===== *)
theory Blobs
  imports Addresses
begin

text \<open>
  The files of the blob store: \<^verbatim>\<open>Put\<close> and \<^verbatim>\<open>Refs\<close> of \<^verbatim>\<open>store/blob.go\<close> and
  \<^verbatim>\<open>SyncDir\<close> of \<^verbatim>\<open>fsutil\<close>, one system call at a time, on a disk that can lose power.
  \<^verbatim>\<open>Ingest\<close> has the same operation in one step, over a map from references to containers;
  here that map is what the names of the directory lead to.
\<close>

section \<open>A directory that can lose power\<close>

text \<open>
  What processes see under a name, and what the name may lead to once the power is back; the bytes
  of a file, and whether they are on the disk. A rename is atomic; until the directory is synced
  each name it touched may be found before or after it, on its own.
\<close>

record disk =
  dk_names :: "string \<Rightarrow> nat option"
  dk_after :: "string \<Rightarrow> nat option set"
  dk_data :: "nat \<Rightarrow> string"
  dk_safe :: "nat \<Rightarrow> bool"
  dk_next :: nat

definition link_name :: "string \<Rightarrow> nat option \<Rightarrow> disk \<Rightarrow> disk" where
  "link_name n v d =
     d\<lparr>dk_names := (dk_names d)(n := v), dk_after := (dk_after d)(n := insert v (dk_after d n))\<rparr>"

definition open_temp :: "string \<Rightarrow> disk \<Rightarrow> disk" where
  "open_temp n d =
     (link_name n (Some (dk_next d)) d)\<lparr>dk_data := (dk_data d)(dk_next d := []),
        dk_safe := (dk_safe d)(dk_next d := False), dk_next := Suc (dk_next d)\<rparr>"

definition write_file :: "nat \<Rightarrow> string \<Rightarrow> disk \<Rightarrow> disk" where
  "write_file i x d = d\<lparr>dk_data := (dk_data d)(i := x), dk_safe := (dk_safe d)(i := False)\<rparr>"

definition sync_file :: "nat \<Rightarrow> disk \<Rightarrow> disk" where
  "sync_file i d = d\<lparr>dk_safe := (dk_safe d)(i := True)\<rparr>"

definition remove_file :: "string \<Rightarrow> disk \<Rightarrow> disk" where
  "remove_file n d = link_name n None d"

definition rename_file :: "string \<Rightarrow> string \<Rightarrow> disk \<Rightarrow> disk" where
  "rename_file a b d = link_name a None (link_name b (dk_names d a) d)"

text \<open>\<^verbatim>\<open>SyncDir\<close>: on Windows it does nothing.\<close>

definition SyncDir :: "bool \<Rightarrow> disk \<Rightarrow> disk" where
  "SyncDir posix d = (if posix then d\<lparr>dk_after := (\<lambda>n. {dk_names d n})\<rparr> else d)"

definition crash :: "disk \<Rightarrow> disk \<Rightarrow> bool" where
  "crash d d' \<longleftrightarrow>
     (\<forall>n. dk_names d' n \<in> dk_after d n) \<and> dk_after d' = (\<lambda>n. {dk_names d' n}) \<and>
     (\<forall>i. dk_safe d i \<longrightarrow> dk_data d' i = dk_data d i) \<and> (\<forall>i. dk_safe d' i) \<and>
     dk_next d' = dk_next d"

definition read_name :: "disk \<Rightarrow> string \<Rightarrow> string option" where
  "read_name d n = map_option (dk_data d) (dk_names d n)"

lemmas disk_defs = link_name_def open_temp_def write_file_def sync_file_def remove_file_def
  rename_file_def SyncDir_def

section \<open>Names\<close>

definition blobExt :: string where "blobExt = ''.blob''"

definition blob_path :: "ident \<Rightarrow> string" where "blob_path ref = ref @ blobExt"

definition is_temp :: "string \<Rightarrow> bool" where "is_temp n \<longleftrightarrow> take 5 n = ''.tmp-''"

lemma blob_path_eq [simp]: "blob_path r = blob_path s \<longleftrightarrow> r = s"
  by (simp add: blob_path_def)

lemma blob_path_not_temp: "ValidID ref \<Longrightarrow> \<not> is_temp (blob_path ref)"
  by (cases ref) (auto simp: is_temp_def blob_path_def ValidID_def is_hex_lower_def)

text \<open>\<^verbatim>\<open>Refs\<close> over the entries of the directory, each with whether it is a directory itself.\<close>

definition Refs :: "(string \<times> bool) list \<Rightarrow> ident list" where
  "Refs entries =
     List.map_filter (\<lambda>(n, is_dir).
        if is_dir then None
        else let ref = trim_suffix blobExt n
             in if ref \<noteq> n \<and> ValidID ref then Some ref else None) entries"

lemma trim_blobExt: "trim_suffix blobExt n \<noteq> n \<longleftrightarrow> n = blob_path (trim_suffix blobExt n)"
proof (cases "has_suffix n blobExt")
  case True
  then obtain p where "n = p @ blobExt" by (auto simp: has_suffix_iff)
  then show ?thesis by (simp add: trim_suffix_def has_suffix_iff blob_path_def blobExt_def)
next
  case False
  then show ?thesis by (auto simp: trim_suffix_def has_suffix_iff blob_path_def blobExt_def)
qed

lemma trim_blob_path [simp]: "trim_suffix blobExt (blob_path r) = r"
  by (simp add: trim_suffix_def has_suffix_iff blob_path_def)

text \<open>The references listed are those of the files named after one, and no others.\<close>

lemma Refs_iff: "r \<in> set (Refs entries) \<longleftrightarrow> ValidID r \<and> (blob_path r, False) \<in> set entries"
proof -
  have "r \<in> set (Refs entries) \<longleftrightarrow>
      (\<exists>n. (n, False) \<in> set entries \<and> trim_suffix blobExt n \<noteq> n \<and> ValidID r \<and> r = trim_suffix blobExt n)"
    by (force simp: Refs_def map_filter_def Let_def split: if_splits)
  also have "\<dots> \<longleftrightarrow> ValidID r \<and> (blob_path r, False) \<in> set entries"
    unfolding trim_blobExt by (metis trim_blob_path)
  finally show ?thesis .
qed

section \<open>Put, call by call\<close>

datatype put_pc =
    PutIdle
  | PutSealed ident string
  | PutOpen ident string string nat
  | PutWritten ident string string nat
  | PutSynced ident string string nat
  | PutRenamed ident string
  | PutDone ident
  | PutCleanup string
  | PutFailed

text \<open>
  Every call can fail. A failure before the temporary file is open ends the call, one after it
  removes the temporary name, whether or not something is still under it.
\<close>

inductive put_step :: "bool \<Rightarrow> disk \<times> put_pc \<Rightarrow> disk \<times> put_pc \<Rightarrow> bool" for posix where
  opened: "dk_names d n = None \<Longrightarrow> is_temp n \<Longrightarrow>
     put_step posix (d, PutSealed ref x) (open_temp n d, PutOpen ref x n (dk_next d))"
| unopened: "put_step posix (d, PutSealed ref x) (d, PutFailed)"
| unchmod: "put_step posix (d, PutOpen ref x n i) (d, PutCleanup n)"
| written: "put_step posix (d, PutOpen ref x n i) (write_file i x d, PutWritten ref x n i)"
| torn: "put_step posix (d, PutOpen ref x n i) (write_file i (take k x) d, PutCleanup n)"
| synced: "put_step posix (d, PutWritten ref x n i) (sync_file i d, PutSynced ref x n i)"
| unsynced: "put_step posix (d, PutWritten ref x n i) (d, PutCleanup n)"
| unclosed: "put_step posix (d, PutSynced ref x n i) (d, PutCleanup n)"
| renamed: "put_step posix (d, PutSynced ref x n i)
     (rename_file n (blob_path ref) d, PutRenamed ref n)"
| unrenamed: "put_step posix (d, PutSynced ref x n i) (d, PutCleanup n)"
| published: "put_step posix (d, PutRenamed ref n) (SyncDir posix d, PutDone ref)"
| unpublished: "posix \<Longrightarrow> put_step posix (d, PutRenamed ref n) (d, PutCleanup n)"
| cleaned: "put_step posix (d, PutCleanup n) (remove_file n d, PutFailed)"
| uncleaned: "put_step posix (d, PutCleanup n) (d, PutFailed)"

fun temp_of :: "put_pc \<Rightarrow> string option" where
  "temp_of (PutOpen ref x n i) = Some n"
| "temp_of (PutWritten ref x n i) = Some n"
| "temp_of (PutSynced ref x n i) = Some n"
| "temp_of (PutRenamed ref n) = Some n"
| "temp_of (PutCleanup n) = Some n"
| "temp_of _ = None"

fun ref_of :: "put_pc \<Rightarrow> ident option" where
  "ref_of (PutSealed ref x) = Some ref"
| "ref_of (PutOpen ref x n i) = Some ref"
| "ref_of (PutWritten ref x n i) = Some ref"
| "ref_of (PutSynced ref x n i) = Some ref"
| "ref_of (PutRenamed ref n) = Some ref"
| "ref_of _ = None"

fun done_refs :: "put_pc \<Rightarrow> ident set" where
  "done_refs (PutDone ref) = {ref}"
| "done_refs _ = {}"

text \<open>
  Any number of calls at once, and power losses. \<open>bw_put\<close> records the container each reference
  was drawn for and \<open>bw_done\<close> the references returned, which callers commit in rows. Random
  draws do not meet: a reference is drawn once, and calls in flight have temporary names of their
  own.
\<close>

record blob_world =
  bw_disk :: disk
  bw_pc :: "nat \<Rightarrow> put_pc"
  bw_put :: "ident \<Rightarrow> string option"
  bw_done :: "ident set"

definition empty_disk :: disk where
  "empty_disk = \<lparr>dk_names = (\<lambda>_. None), dk_after = (\<lambda>_. {None}), dk_data = (\<lambda>_. []),
     dk_safe = (\<lambda>_. True), dk_next = 0\<rparr>"

definition fresh_blobs :: blob_world where
  "fresh_blobs = \<lparr>bw_disk = empty_disk, bw_pc = (\<lambda>_. PutIdle), bw_put = (\<lambda>_. None), bw_done = {}\<rparr>"

inductive blob_turn :: "bool \<Rightarrow> blob_world \<Rightarrow> blob_world \<Rightarrow> bool" for posix where
  sealing: "bw_pc w p = PutIdle \<Longrightarrow> ValidID ref \<Longrightarrow> bw_put w ref = None \<Longrightarrow>
     blob_turn posix w
       (w\<lparr>bw_pc := (bw_pc w)(p := PutSealed ref x), bw_put := (bw_put w)(ref := Some x)\<rparr>)"
| calling: "put_step posix (bw_disk w, bw_pc w p) (d, c) \<Longrightarrow>
     (\<And>q. q \<noteq> p \<Longrightarrow> temp_of c = None \<or> temp_of (bw_pc w q) \<noteq> temp_of c) \<Longrightarrow>
     blob_turn posix w
       (w\<lparr>bw_disk := d, bw_pc := (bw_pc w)(p := c), bw_done := bw_done w \<union> done_refs c\<rparr>)"

text \<open>When the process dies the disk stays as it is; when the power is lost it is what was synced.\<close>

inductive blob_reachable :: "bool \<Rightarrow> blob_world \<Rightarrow> bool" for posix where
  fresh: "blob_reachable posix fresh_blobs"
| turn: "blob_reachable posix w \<Longrightarrow> blob_turn posix w w' \<Longrightarrow> blob_reachable posix w'"
| died: "blob_reachable posix w \<Longrightarrow> blob_reachable posix (w\<lparr>bw_pc := (\<lambda>_. PutIdle)\<rparr>)"
| power_loss: "blob_reachable posix w \<Longrightarrow> crash (bw_disk w) d \<Longrightarrow>
     blob_reachable posix (w\<lparr>bw_disk := d, bw_pc := (\<lambda>_. PutIdle)\<rparr>)"

section \<open>What stays on the disk\<close>

text \<open>The values a name has or may have after a power loss.\<close>

definition may_name :: "disk \<Rightarrow> string \<Rightarrow> nat option set" where
  "may_name d n = insert (dk_names d n) (dk_after d n)"

text \<open>
  A file that a call writes is under its temporary name only; whatever may be found under the name
  of a blob is complete and on the disk; and a reference that was returned has its name on the
  disk.
\<close>

definition own_file :: "disk \<Rightarrow> string \<Rightarrow> nat \<Rightarrow> bool" where
  "own_file d n i \<longleftrightarrow> is_temp n \<and> dk_names d n = Some i \<and> (\<forall>m. m \<noteq> n \<longrightarrow> Some i \<notin> may_name d m)"

fun put_ok :: "disk \<Rightarrow> (ident \<Rightarrow> string option) \<Rightarrow> put_pc \<Rightarrow> bool" where
  "put_ok d puts (PutSealed ref x) \<longleftrightarrow> puts ref = Some x"
| "put_ok d puts (PutOpen ref x n i) \<longleftrightarrow> puts ref = Some x \<and> own_file d n i"
| "put_ok d puts (PutWritten ref x n i) \<longleftrightarrow> puts ref = Some x \<and> own_file d n i \<and> dk_data d i = x"
| "put_ok d puts (PutSynced ref x n i) \<longleftrightarrow>
     puts ref = Some x \<and> own_file d n i \<and> dk_data d i = x \<and> dk_safe d i"
| "put_ok d puts (PutRenamed ref n) \<longleftrightarrow> is_temp n \<and> dk_names d (blob_path ref) \<noteq> None"
| "put_ok d puts (PutCleanup n) \<longleftrightarrow> is_temp n"
| "put_ok d puts _ \<longleftrightarrow> True"

definition names_ok :: "disk \<Rightarrow> (ident \<Rightarrow> string option) \<Rightarrow> bool" where
  "names_ok d puts \<longleftrightarrow>
     (\<forall>ref i. ValidID ref \<longrightarrow> Some i \<in> may_name d (blob_path ref) \<longrightarrow>
        puts ref = Some (dk_data d i) \<and> dk_safe d i) \<and>
     (\<forall>n i. Some i \<in> may_name d n \<longrightarrow> i < dk_next d)"

definition done_ok :: "disk \<Rightarrow> ident set \<Rightarrow> bool" where
  "done_ok d refs \<longleftrightarrow>
     (\<forall>ref \<in> refs. dk_names d (blob_path ref) \<noteq> None \<and>
        dk_after d (blob_path ref) = {dk_names d (blob_path ref)})"

definition calls_ok :: "(nat \<Rightarrow> put_pc) \<Rightarrow> (ident \<Rightarrow> string option) \<Rightarrow> ident set \<Rightarrow> bool" where
  "calls_ok pcs puts refs \<longleftrightarrow>
     (\<forall>p q. p \<noteq> q \<longrightarrow> temp_of (pcs p) \<noteq> None \<longrightarrow> temp_of (pcs p) \<noteq> temp_of (pcs q)) \<and>
     (\<forall>p q. p \<noteq> q \<longrightarrow> ref_of (pcs p) \<noteq> None \<longrightarrow> ref_of (pcs p) \<noteq> ref_of (pcs q)) \<and>
     (\<forall>p ref. ref_of (pcs p) = Some ref \<longrightarrow> ref \<notin> refs \<and> ValidID ref \<and> puts ref \<noteq> None) \<and>
     (\<forall>ref \<in> refs. ValidID ref \<and> puts ref \<noteq> None)"

definition blob_inv :: "bool \<Rightarrow> blob_world \<Rightarrow> bool" where
  "blob_inv posix w \<longleftrightarrow>
     names_ok (bw_disk w) (bw_put w) \<and> (posix \<longrightarrow> done_ok (bw_disk w) (bw_done w)) \<and>
     calls_ok (bw_pc w) (bw_put w) (bw_done w) \<and> (\<forall>p. put_ok (bw_disk w) (bw_put w) (bw_pc w p))"

lemma may_name_link:
  "may_name (link_name n v d) m = (if m = n then insert v (dk_after d n) else may_name d m)"
  by (simp add: may_name_def link_name_def)

lemma own_file_may: "own_file d n i \<Longrightarrow> Some i \<in> may_name d n"
  by (simp add: own_file_def may_name_def)

text \<open>
  What one call does to the file of another: nothing, as long as the names and files it touches
  are not those of the other.
\<close>

definition spares :: "disk \<Rightarrow> disk \<Rightarrow> string \<Rightarrow> bool" where
  "spares d d' n \<longleftrightarrow>
     (\<forall>m i. own_file d m i \<longrightarrow> m \<noteq> n \<longrightarrow>
        own_file d' m i \<and> dk_data d' i = dk_data d i \<and> dk_safe d' i = dk_safe d i) \<and>
     (\<forall>ref. ValidID ref \<longrightarrow> dk_names d (blob_path ref) \<noteq> None \<longrightarrow> dk_names d' (blob_path ref) \<noteq> None)"

lemma put_ok_spared:
  assumes "spares d d' n" "put_ok d puts c" "temp_of c \<noteq> Some n" "\<And>r. ref_of c = Some r \<Longrightarrow> ValidID r"
  shows "put_ok d' puts c"
  using assms by (cases c) (auto simp: spares_def)

lemma may_name_open:
  "may_name (open_temp n d) m = (if m = n then insert (Some (dk_next d)) (dk_after d n) else may_name d m)"
  by (simp add: may_name_def open_temp_def link_name_def)

lemma open_temp_simps [simp]:
  "dk_names (open_temp n d) = (dk_names d)(n \<mapsto> dk_next d)"
  "i \<noteq> dk_next d \<Longrightarrow> dk_data (open_temp n d) i = dk_data d i"
  "i \<noteq> dk_next d \<Longrightarrow> dk_safe (open_temp n d) i = dk_safe d i"
  "dk_next (open_temp n d) = Suc (dk_next d)"
  by (simp_all add: open_temp_def link_name_def)

lemma names_ok_next: "names_ok d puts \<Longrightarrow> Some i \<in> may_name d m \<Longrightarrow> i < dk_next d"
  by (auto simp: names_ok_def)

lemma spares_open:
  assumes "names_ok d puts" "is_temp n"
  shows "spares d (open_temp n d) n"
proof -
  have "own_file (open_temp n d) m i \<and> i \<noteq> dk_next d" if m: "own_file d m i" "m \<noteq> n" for m i
  proof -
    have i: "i < dk_next d" by (rule names_ok_next [OF assms(1) own_file_may [OF m(1)]])
    have "Some i \<notin> may_name (open_temp n d) k" if k: "k \<noteq> m" for k
    proof -
      have "Some i \<notin> may_name d k" "Some i \<notin> dk_after d n"
        using m k by (auto simp: own_file_def may_name_def)
      then show ?thesis using i by (simp add: may_name_open)
    qed
    then show ?thesis using m i by (simp add: own_file_def)
  qed
  then show ?thesis by (simp add: spares_def)
qed

lemma own_file_other: "own_file d n i \<Longrightarrow> own_file d m j \<Longrightarrow> m \<noteq> n \<Longrightarrow> j \<noteq> i"
  by (auto simp: own_file_def may_name_def)

lemma may_name_file [simp]:
  "may_name (write_file i x d) = may_name d" "may_name (sync_file i d) = may_name d"
  by (auto simp: may_name_def write_file_def sync_file_def)

lemma dk_names_file [simp]:
  "dk_names (write_file i x d) = dk_names d" "dk_names (sync_file i d) = dk_names d"
  by (simp_all add: write_file_def sync_file_def)

lemma file_simps [simp]:
  "dk_data (write_file i x d) = (dk_data d)(i := x)" "dk_safe (write_file i x d) = (dk_safe d)(i := False)"
  "dk_data (sync_file i d) = dk_data d" "dk_safe (sync_file i d) = (dk_safe d)(i := True)"
  "dk_next (write_file i x d) = dk_next d" "dk_next (sync_file i d) = dk_next d"
  by (simp_all add: write_file_def sync_file_def)

lemma own_file_write [simp]:
  "own_file (write_file i x d) = own_file d" "own_file (sync_file i d) = own_file d"
  by (simp_all add: own_file_def fun_eq_iff)

lemma spares_write: "own_file d n i \<Longrightarrow> spares d (write_file i x d) n"
  by (auto simp: spares_def dest: own_file_other)

lemma spares_sync: "own_file d n i \<Longrightarrow> spares d (sync_file i d) n"
  by (auto simp: spares_def dest: own_file_other)

lemma spares_remove:
  assumes "is_temp n"
  shows "spares d (remove_file n d) n"
  using assms blob_path_not_temp
  by (auto simp: spares_def own_file_def remove_file_def may_name_link) (auto simp: link_name_def may_name_def)

lemma spares_dir: "spares d (SyncDir posix d) n"
  by (auto simp: spares_def SyncDir_def own_file_def may_name_def)

lemma spares_rename:
  assumes "own_file d n i" "ValidID ref"
  shows "spares d (rename_file n (blob_path ref) d) n"
proof -
  have n: "dk_names d n = Some i" "n \<noteq> blob_path ref" "is_temp n"
    using assms blob_path_not_temp by (auto simp: own_file_def)
  have "own_file (rename_file n (blob_path ref) d) m j" if m: "own_file d m j" "m \<noteq> n" for m j
  proof -
    have "m \<noteq> blob_path ref" using m(1) assms(2) blob_path_not_temp by (auto simp: own_file_def)
    moreover have "j \<noteq> i" by (rule own_file_other [OF assms(1) m])
    ultimately show ?thesis
      using m n by (auto simp: own_file_def rename_file_def may_name_link) (auto simp: link_name_def may_name_def)
  qed
  moreover have "blob_path r \<noteq> n" if "ValidID r" for r using n blob_path_not_temp that by blast
  ultimately show ?thesis
    using n unfolding spares_def by (simp add: rename_file_def link_name_def)
qed

text \<open>The names of blobs.\<close>

lemma names_ok_open:
  assumes "names_ok d puts" "is_temp n"
  shows "names_ok (open_temp n d) puts"
proof -
  have b: "i < dk_next d" if "Some i \<in> may_name d m" for m i
    using assms(1) that by (rule names_ok_next)
  have "puts ref = Some (dk_data (open_temp n d) i) \<and> dk_safe (open_temp n d) i"
    if r: "ValidID ref" "Some i \<in> may_name (open_temp n d) (blob_path ref)" for ref i
  proof -
    have "blob_path ref \<noteq> n" using assms(2) blob_path_not_temp r(1) by blast
    then have m: "Some i \<in> may_name d (blob_path ref)" using r(2) by (simp add: may_name_open)
    then have "puts ref = Some (dk_data d i) \<and> dk_safe d i" "i \<noteq> dk_next d"
      using assms(1) r(1) b [OF m] by (auto simp: names_ok_def)
    then show ?thesis by simp
  qed
  moreover have "i < Suc (dk_next d)" if "Some i \<in> may_name (open_temp n d) m" for m i
  proof -
    have "Some i \<in> may_name d m \<or> i = dk_next d"
      using that by (auto simp: may_name_open split: if_splits) (simp add: may_name_def)
    then show ?thesis using b [of i m] by auto
  qed
  ultimately show ?thesis by (simp add: names_ok_def)
qed

lemma own_not_blob:
  assumes "own_file d n i" "ValidID ref"
  shows "Some i \<notin> may_name d (blob_path ref)"
proof -
  have "blob_path ref \<noteq> n" using assms blob_path_not_temp by (auto simp: own_file_def)
  then show ?thesis using assms(1) by (simp add: own_file_def)
qed

lemma names_ok_write: "names_ok d puts \<Longrightarrow> own_file d n i \<Longrightarrow> names_ok (write_file i x d) puts"
  by (auto simp: names_ok_def dest: own_not_blob)

lemma names_ok_sync: "names_ok d puts \<Longrightarrow> names_ok (sync_file i d) puts"
  by (auto simp: names_ok_def)

lemma names_ok_remove: "names_ok d puts \<Longrightarrow> is_temp n \<Longrightarrow> names_ok (remove_file n d) puts"
  unfolding names_ok_def remove_file_def may_name_link
  by (auto simp: may_name_def link_name_def split: if_splits)

lemma names_ok_dir: "names_ok d puts \<Longrightarrow> names_ok (SyncDir posix d) puts"
  by (auto simp: names_ok_def SyncDir_def may_name_def)

lemma names_ok_rename:
  assumes "names_ok d puts" "own_file d n i" "dk_data d i = x" "dk_safe d i" "puts ref = Some x"
    and "ValidID ref"
  shows "names_ok (rename_file n (blob_path ref) d) puts"
proof -
  let ?d = "rename_file n (blob_path ref) d"
  have n: "dk_names d n = Some i" "n \<noteq> blob_path ref" "is_temp n"
    using assms(2,6) blob_path_not_temp by (auto simp: own_file_def)
  have may: "may_name ?d m \<subseteq> insert None (if m = blob_path ref then insert (Some i) (may_name d m) else may_name d m)" for m
    using n by (auto simp: may_name_def rename_file_def link_name_def)
  have "dk_data ?d = dk_data d" "dk_safe ?d = dk_safe d" "dk_next ?d = dk_next d"
    by (simp_all add: rename_file_def link_name_def)
  moreover have "i < dk_next d" using names_ok_next [OF assms(1) own_file_may [OF assms(2)]] .
  moreover have "Some j \<in> may_name ?d m \<Longrightarrow> Some j \<in> may_name d m \<or> m = blob_path ref \<and> j = i" for m j
    using may [of m] by (auto split: if_splits)
  ultimately show ?thesis
    using assms(1,3-5) unfolding names_ok_def by (metis blob_path_eq)
qed

text \<open>The references returned.\<close>

lemma done_ok_temp:
  assumes "done_ok d refs" "\<And>r. r \<in> refs \<Longrightarrow> blob_path r \<noteq> n"
  shows "done_ok (link_name n v d) refs"
  using assms by (auto simp: done_ok_def link_name_def)

lemma done_ok_file [simp]:
  "done_ok (write_file i x d) refs \<longleftrightarrow> done_ok d refs" "done_ok (sync_file i d) refs \<longleftrightarrow> done_ok d refs"
  by (simp_all add: done_ok_def write_file_def sync_file_def)

lemma done_ok_dir:
  "done_ok d refs \<Longrightarrow> (\<And>r. r \<in> new \<Longrightarrow> dk_names d (blob_path r) \<noteq> None) \<Longrightarrow>
     done_ok (SyncDir True d) (refs \<union> new)"
  by (auto simp: done_ok_def SyncDir_def)

section \<open>One call, and all of them\<close>

inductive_cases put_step_E: "put_step posix (d, c) (d', c')"

text \<open>What a call keeps for itself, and that it spares the others.\<close>

lemma put_step_own:
  assumes "put_step posix (d, c) (d', c')" "names_ok d puts" "put_ok d puts c"
    and "\<And>r. ref_of c = Some r \<Longrightarrow> ValidID r"
  shows "names_ok d' puts \<and> put_ok d' puts c' \<and>
     (d' = d \<or> (\<exists>n. spares d d' n \<and> (temp_of c' = Some n \<or> temp_of c = Some n)))"
  using assms(1)
proof cases
  case (opened n ref x)
  have "own_file (open_temp n d) n (dk_next d)"
    using opened assms(2) names_ok_next [OF assms(2), of "dk_next d"]
    by (auto simp: own_file_def may_name_open)
  then show ?thesis
    using opened assms(3) names_ok_open [OF assms(2)] spares_open [OF assms(2)] by auto
next
  case (written ref x n i)
  then show ?thesis using assms(2,3) names_ok_write spares_write by auto
next
  case (torn ref x n i k)
  then show ?thesis using assms(2,3) names_ok_write spares_write by (auto simp: own_file_def)
next
  case (synced ref x n i)
  then show ?thesis using assms(2,3) names_ok_sync spares_sync by auto
next
  case (renamed ref x n i)
  have v: "ValidID ref" "own_file d n i" "puts ref = Some x" "dk_data d i = x" "dk_safe d i"
    using assms(3,4) renamed by auto
  have n: "dk_names d n = Some i" "n \<noteq> blob_path ref" "is_temp n"
    using v(1,2) blob_path_not_temp by (auto simp: own_file_def)
  have "put_ok d' puts c'" using n renamed by (simp add: rename_file_def link_name_def)
  then show ?thesis
    using renamed names_ok_rename [OF assms(2) v(2,4,5,3,1)] spares_rename [OF v(2,1)] by auto
next
  case (published ref n)
  then show ?thesis using assms(2) names_ok_dir spares_dir by auto
next
  case (cleaned n)
  then show ?thesis using assms(2,3) names_ok_remove spares_remove by auto
qed (use assms(2,3) in \<open>auto simp: own_file_def\<close>)

lemma put_step_ids:
  assumes "put_step posix (d, c) (d', c')"
  shows "ref_of c' = None \<or> ref_of c' = ref_of c" and "done_refs c' \<noteq> {} \<Longrightarrow> \<exists>r. ref_of c = Some r \<and> done_refs c' = {r} \<and> ref_of c' = None"
  using assms by (auto elim!: put_step_E)

lemma put_step_done:
  assumes "put_step True (d, c) (d', c')" "done_ok d refs" "put_ok d puts c" "names_ok d puts"
    and "\<And>r. r \<in> refs \<Longrightarrow> ValidID r" "\<And>r. ref_of c = Some r \<Longrightarrow> r \<notin> refs \<and> ValidID r"
  shows "done_ok d' (refs \<union> done_refs c')"
proof -
  have temp: "blob_path r \<noteq> n" if "is_temp n" "r \<in> refs" for n r
    using blob_path_not_temp assms(5) that by blast
  show ?thesis
    using assms(1)
  proof cases
    case (opened n ref x)
    then show ?thesis
      using done_ok_temp [OF assms(2) temp, of n "Some (dk_next d)"]
      by (simp add: open_temp_def done_ok_def)
  next
    case (renamed ref x n i)
    then have n: "is_temp n" and r: "ref \<notin> refs" using assms(3,6) by (auto simp: own_file_def)
    have "done_ok (link_name (blob_path ref) (dk_names d n) d) refs"
      using r by (intro done_ok_temp [OF assms(2)]) auto
    then show ?thesis
      using renamed done_ok_temp [OF _ temp [OF n]] by (simp add: rename_file_def)
  next
    case (published ref n)
    then show ?thesis using assms(2,3) done_ok_dir [of d refs "{ref}"] by simp
  next
    case (cleaned n)
    then show ?thesis
      using assms(3) done_ok_temp [OF assms(2) temp, of n None] by (simp add: remove_file_def)
  qed (use assms(2) in \<open>simp_all\<close>)
qed

lemma calls_ok_ref: "calls_ok pcs puts refs \<Longrightarrow> ref_of (pcs p) = Some r \<Longrightarrow> r \<notin> refs \<and> ValidID r \<and> puts r \<noteq> None"
  by (simp add: calls_ok_def)

lemma calls_ok_turn:
  assumes "calls_ok pcs puts refs" "put_step posix (d, pcs p) (d', c)"
    and "\<And>q. q \<noteq> p \<Longrightarrow> temp_of c = None \<or> temp_of (pcs q) \<noteq> temp_of c"
  shows "calls_ok (pcs(p := c)) puts (refs \<union> done_refs c)"
proof -
  have t: "temp_of (pcs q) \<noteq> temp_of (pcs r)" if "q \<noteq> r" "temp_of (pcs q) \<noteq> None" for q r
    using assms(1) that by (simp add: calls_ok_def)
  have f: "ref_of (pcs q) \<noteq> ref_of (pcs r)" if "q \<noteq> r" "ref_of (pcs q) \<noteq> None" for q r
    using assms(1) that by (simp add: calls_ok_def)
  have new: "ref \<notin> refs \<and> ValidID ref \<and> puts ref \<noteq> None" if "ref_of (pcs q) = Some ref" for q ref
    using calls_ok_ref [OF assms(1) that] .
  have old: "ValidID ref \<and> puts ref \<noteq> None" if "ref \<in> refs" for ref
    using assms(1) that by (simp add: calls_ok_def)
  note ids = put_step_ids [OF assms(2)]
  have temps: "temp_of ((pcs(p := c)) q) \<noteq> temp_of ((pcs(p := c)) r)"
    if n: "q \<noteq> r" "temp_of ((pcs(p := c)) q) \<noteq> None" for q r
  proof (cases "q = p")
    case True
    then show ?thesis using n assms(3) [of r] by auto
  next
    case False
    then show ?thesis using n t [of q r] assms(3) [of q] by (cases "r = p") auto
  qed
  have refs: "ref_of ((pcs(p := c)) q) \<noteq> ref_of ((pcs(p := c)) r)"
    if n: "q \<noteq> r" "ref_of ((pcs(p := c)) q) \<noteq> None" for q r
  proof (cases "q = p")
    case True
    then have c: "ref_of c \<noteq> None" "ref_of c = ref_of (pcs p)" "p \<noteq> r" using n ids(1) by (metis fun_upd_same)+
    then have "ref_of (pcs p) \<noteq> ref_of (pcs r)" using f [of p r] by simp
    then show ?thesis using True c by simp
  next
    case False
    then have q: "ref_of (pcs q) \<noteq> None" using n(2) by simp
    have "ref_of (pcs q) \<noteq> ref_of (pcs p)" by (rule f [OF False q])
    moreover have "ref_of (pcs q) \<noteq> ref_of (pcs r)" by (rule f [OF n(1) q])
    moreover have "ref_of ((pcs(p := c)) q) = ref_of (pcs q)" using False by simp
    moreover have "ref_of ((pcs(p := c)) r) \<in> {None, ref_of (pcs p), ref_of (pcs r)}" using ids(1) by auto
    ultimately show ?thesis using q by fastforce
  qed
  have fin: "done_refs c \<subseteq> {r. ref_of (pcs p) = Some r \<and> ref_of c = None}"
  proof (cases "done_refs c = {}")
    case False
    from ids(2) [OF this] obtain r where "ref_of (pcs p) = Some r" "done_refs c = {r}" "ref_of c = None" by blast
    then show ?thesis by simp
  qed simp
  have own: "ref \<notin> refs \<union> done_refs c \<and> ValidID ref \<and> puts ref \<noteq> None"
    if r: "ref_of ((pcs(p := c)) q) = Some ref" for q ref
  proof (cases "q = p")
    case True
    then have "ref_of c = Some ref" "ref_of (pcs p) = Some ref" using r ids(1) by auto
    then show ?thesis using fin new [of p ref] by auto
  next
    case False
    then have q: "ref_of (pcs q) = Some ref" using r by simp
    then have "ref_of (pcs p) \<noteq> Some ref" using f [of q p] False by auto
    then show ?thesis using fin new [OF q] by blast
  qed
  have done_: "ValidID ref \<and> puts ref \<noteq> None" if "ref \<in> refs \<union> done_refs c" for ref
    using that old fin new [of p ref] by blast
  show ?thesis unfolding calls_ok_def using temps refs own done_ by blast
qed

lemma blob_inv_turn:
  assumes "blob_inv posix w" "put_step posix (bw_disk w, bw_pc w p) (d, c)"
    and "\<And>q. q \<noteq> p \<Longrightarrow> temp_of c = None \<or> temp_of (bw_pc w q) \<noteq> temp_of c"
  shows "blob_inv posix (w\<lparr>bw_disk := d, bw_pc := (bw_pc w)(p := c), bw_done := bw_done w \<union> done_refs c\<rparr>)"
proof -
  let ?d = "bw_disk w"
  note inv = assms(1) [unfolded blob_inv_def]
  have ok: "put_ok ?d (bw_put w) (bw_pc w q)" for q using inv by blast
  have calls: "calls_ok (bw_pc w) (bw_put w) (bw_done w)" using inv by blast
  have valid: "ValidID r" if "ref_of (bw_pc w q) = Some r" for q r
    using calls_ok_ref [OF calls that] by blast
  have "names_ok ?d (bw_put w)" using inv by blast
  note own = put_step_own [OF assms(2) this ok valid [of p], simplified]
  have others: "put_ok d (bw_put w) (bw_pc w q)" if q: "q \<noteq> p" for q
  proof (cases "d = ?d")
    case False
    then obtain n where n: "spares ?d d n" "temp_of c = Some n \<or> temp_of (bw_pc w p) = Some n"
      using own by blast
    have "temp_of (bw_pc w p) \<noteq> Some n \<or> temp_of (bw_pc w q) \<noteq> Some n"
      using calls q unfolding calls_ok_def by (metis option.distinct(1))
    then have "temp_of (bw_pc w q) \<noteq> Some n" using n(2) assms(3) [OF q] by auto
    then show ?thesis using put_ok_spared [OF n(1) ok] valid by blast
  qed (use ok in simp)
  have "done_ok d (bw_done w \<union> done_refs c)" if posix: posix
  proof -
    have "\<And>r. r \<in> bw_done w \<Longrightarrow> ValidID r" using calls by (simp add: calls_ok_def)
    moreover have "done_ok ?d (bw_done w)" "names_ok ?d (bw_put w)" using inv posix by blast+
    ultimately show ?thesis
      using put_step_done [OF assms(2) [unfolded posix [THEN eqTrueI]]] ok calls_ok_ref [OF calls, of p]
      by blast
  qed
  then show ?thesis
    using own others calls_ok_turn [OF calls assms(2,3)] by (simp add: blob_inv_def)
qed

lemma blob_inv_start: "blob_inv posix fresh_blobs"
  by (simp add: fresh_blobs_def blob_inv_def names_ok_def may_name_def empty_disk_def done_ok_def calls_ok_def)

lemma blob_inv_sealing:
  assumes "blob_inv posix w" "bw_pc w p = PutIdle" "ValidID ref" "bw_put w ref = None"
  shows "blob_inv posix (w\<lparr>bw_pc := (bw_pc w)(p := PutSealed ref x), bw_put := (bw_put w)(ref := Some x)\<rparr>)"
proof -
  let ?puts = "(bw_put w)(ref := Some x)"
  note inv = assms(1) [unfolded blob_inv_def]
  have "names_ok (bw_disk w) ?puts"
    using inv assms(4) unfolding names_ok_def by (metis fun_upd_apply option.distinct(1))
  moreover have fresh: "ref_of (bw_pc w q) \<noteq> Some ref" for q
    using inv assms(4) calls_ok_ref by metis
  then have "calls_ok ((bw_pc w)(p := PutSealed ref x)) ?puts (bw_done w)"
    using inv assms(2-4) unfolding calls_ok_def by (auto simp: eq_commute [of "Some ref"])
  moreover have "put_ok (bw_disk w) ?puts (bw_pc w q)" if "q \<noteq> p" for q
  proof -
    have "put_ok (bw_disk w) (bw_put w) (bw_pc w q)" using inv by blast
    then show ?thesis using fresh [of q] by (cases "bw_pc w q") auto
  qed
  ultimately show ?thesis using inv by (simp add: blob_inv_def)
qed

lemma blob_inv_crash:
  assumes "blob_inv posix w" "crash (bw_disk w) d"
  shows "blob_inv posix (w\<lparr>bw_disk := d, bw_pc := (\<lambda>_. PutIdle)\<rparr>)"
proof -
  note inv = assms(1) [unfolded blob_inv_def]
  note c = assms(2) [unfolded crash_def]
  have may: "may_name d n \<subseteq> may_name (bw_disk w) n" for n
    using c by (auto simp: may_name_def)
  have "names_ok d (bw_put w)"
    using inv c may unfolding names_ok_def by (metis subsetD)
  moreover have "posix \<longrightarrow> done_ok d (bw_done w)"
    using inv c unfolding done_ok_def by (metis singletonD)
  moreover have "calls_ok (\<lambda>_. PutIdle) (bw_put w) (bw_done w)" using inv by (simp add: calls_ok_def)
  ultimately show ?thesis by (simp add: blob_inv_def)
qed

lemma blob_inv_died: "blob_inv posix w \<Longrightarrow> blob_inv posix (w\<lparr>bw_pc := (\<lambda>_. PutIdle)\<rparr>)"
  by (simp add: blob_inv_def calls_ok_def)

lemma blob_inv_next: "blob_turn posix w w' \<Longrightarrow> blob_inv posix w \<Longrightarrow> blob_inv posix w'"
proof (induction rule: blob_turn.induct)
  case (sealing w p ref x)
  then show ?case by (intro blob_inv_sealing)
next
  case (calling w p d c)
  show ?case by (rule blob_inv_turn [OF calling.prems calling.hyps])
qed

lemma blob_reachable_inv: "blob_reachable posix w \<Longrightarrow> blob_inv posix w"
  by (induction rule: blob_reachable.induct)
     (auto intro: blob_inv_start blob_inv_next blob_inv_died blob_inv_crash)

text \<open>A name of a blob leads to the whole container or to nothing.\<close>

lemma blob_whole:
  assumes "blob_reachable posix w" "ValidID ref" "read_name (bw_disk w) (blob_path ref) = Some x"
  shows "bw_put w ref = Some x"
  using blob_reachable_inv [OF assms(1)] assms(2,3)
  by (auto simp: blob_inv_def names_ok_def read_name_def may_name_def)

text \<open>What was returned is there, before and after a loss of power.\<close>

lemma blob_durable:
  assumes "blob_reachable True w" "ref \<in> bw_done w"
  shows "bw_put w ref \<noteq> None \<and> read_name (bw_disk w) (blob_path ref) = bw_put w ref"
proof -
  have "blob_inv True w" by (rule blob_reachable_inv [OF assms(1)])
  then have "ValidID ref" "bw_put w ref \<noteq> None" "dk_names (bw_disk w) (blob_path ref) \<noteq> None"
    using assms(2) by (simp_all add: blob_inv_def calls_ok_def done_ok_def)
  then show ?thesis
    using blob_whole [OF assms(1), of ref] by (auto simp: read_name_def)
qed

section \<open>The map of the pipeline\<close>

text \<open>
  The blobs as \<^verbatim>\<open>Get\<close> finds them. Whatever calls do, this map changes only when a call renames
  its file, and then by the container of that call: the update \<^verbatim>\<open>Ingest\<close> makes in one step.
\<close>

definition stored :: "disk \<Rightarrow> ident \<Rightarrow> string option" where
  "stored d ref = (if ValidID ref then read_name d (blob_path ref) else None)"

lemma stored_same:
  assumes "\<And>ref. ValidID ref \<Longrightarrow> dk_names d' (blob_path ref) = dk_names d (blob_path ref)"
    and "\<And>ref i. ValidID ref \<Longrightarrow> dk_names d (blob_path ref) = Some i \<Longrightarrow> dk_data d' i = dk_data d i"
  shows "stored d' = stored d"
proof
  fix ref
  show "stored d' ref = stored d ref"
    using assms [of ref] by (cases "dk_names d (blob_path ref)") (simp_all add: stored_def read_name_def)
qed

lemma put_step_stored:
  assumes "put_step posix (d, c) (d', c')" "names_ok d puts" "put_ok d puts c"
    and "\<And>r. ref_of c = Some r \<Longrightarrow> ValidID r"
  shows "stored d' = (case c' of PutRenamed ref n \<Rightarrow> (stored d)(ref := puts ref) | _ \<Rightarrow> stored d)"
proof -
  have blob: "Some i \<in> may_name d (blob_path ref)" if "dk_names d (blob_path ref) = Some i" for ref i
    using that by (simp add: may_name_def)
  have temp: "blob_path ref \<noteq> n" if "is_temp n" "ValidID ref" for n ref
    using blob_path_not_temp that by blast
  have own: "dk_names d (blob_path ref) \<noteq> Some i" if "own_file d n i" "ValidID ref" for n i ref
    using own_not_blob [OF that] blob by blast
  from assms(1) show ?thesis
  proof cases
    case (opened n ref x)
    have "stored d' = stored d"
      using opened temp names_ok_next [OF assms(2) blob] by (intro stored_same) fastforce+
    then show ?thesis using opened by simp
  next
    case (written ref x n i)
    have "stored d' = stored d"
      using written assms(3) own by (intro stored_same) auto
    then show ?thesis using written by simp
  next
    case (torn ref x n i k)
    have "stored d' = stored d"
      using torn assms(3) own by (intro stored_same) auto
    then show ?thesis using torn by simp
  next
    case (synced ref x n i)
    have "stored d' = stored d" using synced by (intro stored_same) auto
    then show ?thesis using synced by simp
  next
    case (renamed ref x n i)
    have n: "dk_names d n = Some i" "is_temp n" "dk_data d i = x" "puts ref = Some x" "ValidID ref"
      using renamed assms(3,4) by (auto simp: own_file_def)
    have "stored d' r = ((stored d)(ref := puts ref)) r" for r
      using n temp [OF n(2)] renamed by (auto simp: stored_def read_name_def rename_file_def link_name_def)
    then show ?thesis using renamed by (simp add: fun_eq_iff)
  next
    case (published ref n)
    have "stored d' = stored d" using published by (intro stored_same) (simp_all add: SyncDir_def)
    then show ?thesis using published by simp
  next
    case (cleaned n)
    then have "stored d' = stored d"
      using temp assms(3) by (intro stored_same) (auto simp: remove_file_def link_name_def)
    then show ?thesis using cleaned by simp
  qed (simp_all)
qed

lemma put_atomic:
  assumes "blob_reachable posix w" "put_step posix (bw_disk w, bw_pc w p) (d, c)"
  shows "stored d = (case c of PutRenamed ref n \<Rightarrow> (stored (bw_disk w))(ref := bw_put w ref)
                     | _ \<Rightarrow> stored (bw_disk w))"
proof -
  note inv = blob_reachable_inv [OF assms(1), unfolded blob_inv_def]
  show ?thesis
    by (rule put_step_stored [OF assms(2)]) (use inv calls_ok_ref in \<open>blast+\<close>)
qed

text \<open>\<^verbatim>\<open>Refs\<close> over a listing of the directory is what \<^verbatim>\<open>Get\<close> finds, temporary files left out.\<close>

lemma Refs_stored:
  assumes "\<And>n. (n, False) \<in> set entries \<longleftrightarrow> dk_names d n \<noteq> None"
  shows "set (Refs entries) = dom (stored d)"
  using assms by (auto simp: Refs_iff stored_def read_name_def dom_def)

section \<open>A call on its own\<close>

definition put_disk :: "bool \<Rightarrow> ident \<Rightarrow> string \<Rightarrow> string \<Rightarrow> disk" where
  "put_disk posix ref x n =
     SyncDir posix (rename_file n (blob_path ref) (sync_file 0 (write_file 0 x (open_temp n empty_disk))))"

lemma put_alone:
  assumes "ValidID ref" "is_temp n"
  shows "\<exists>w. (blob_turn posix)\<^sup>*\<^sup>* fresh_blobs w \<and> bw_disk w = put_disk posix ref x n \<and>
     ref \<in> bw_done w \<and> bw_put w ref = Some x"
proof -
  define reach where "reach d c R \<longleftrightarrow>
      (\<exists>w. (blob_turn posix)\<^sup>*\<^sup>* fresh_blobs w \<and> bw_disk w = d \<and> bw_pc w = (\<lambda>_. PutIdle)(0 := c) \<and>
        R \<subseteq> bw_done w \<and> bw_put w ref = Some x)" for d c R
  have call: "reach d' c' (R \<union> done_refs c')" if h: "reach d c R" "put_step posix (d, c) (d', c')" for d c d' c' R
  proof -
    obtain w where w: "(blob_turn posix)\<^sup>*\<^sup>* fresh_blobs w" "bw_disk w = d" "bw_pc w = (\<lambda>_. PutIdle)(0 := c)"
      "R \<subseteq> bw_done w" "bw_put w ref = Some x" using h(1) unfolding reach_def by blast
    have "blob_turn posix w
        (w\<lparr>bw_disk := d', bw_pc := (bw_pc w)(0 := c'), bw_done := bw_done w \<union> done_refs c'\<rparr>)"
      using w h(2) by (intro blob_turn.calling) auto
    with w(1) have "(blob_turn posix)\<^sup>*\<^sup>* fresh_blobs
        (w\<lparr>bw_disk := d', bw_pc := (bw_pc w)(0 := c'), bw_done := bw_done w \<union> done_refs c'\<rparr>)" by simp
    then show ?thesis using w unfolding reach_def
      by (intro exI [of _ "w\<lparr>bw_disk := d', bw_pc := (bw_pc w)(0 := c'), bw_done := bw_done w \<union> done_refs c'\<rparr>"]) auto
  qed
  let ?w = fresh_blobs
  have "blob_turn posix ?w (?w\<lparr>bw_pc := (bw_pc ?w)(0 := PutSealed ref x), bw_put := (bw_put ?w)(ref := Some x)\<rparr>)"
    using assms(1) by (intro blob_turn.sealing) (simp_all add: fresh_blobs_def)
  then have "reach empty_disk (PutSealed ref x) {}"
    unfolding reach_def
    by (intro exI [of _ "?w\<lparr>bw_pc := (bw_pc ?w)(0 := PutSealed ref x), bw_put := (bw_put ?w)(ref := Some x)\<rparr>"])
       (auto simp: fresh_blobs_def)
  note 1 = call [OF this put_step.opened [OF _ assms(2)]]
  have "dk_names empty_disk n = None" "dk_next empty_disk = 0" by (simp_all add: empty_disk_def)
  note 2 = call [OF 1 [OF this(1), unfolded this(2)] put_step.written]
  note 3 = call [OF 2 put_step.synced]
  note 4 = call [OF 3 put_step.renamed]
  note 5 = call [OF 4 put_step.published]
  from 5 show ?thesis unfolding reach_def put_disk_def by auto
qed

lemma blob_turns_reachable:
  assumes "(blob_turn posix)\<^sup>*\<^sup>* w w'" "blob_reachable posix w"
  shows "blob_reachable posix w'"
  using assms by (induction rule: rtranclp_induct) (auto intro: blob_reachable.turn)

text \<open>
  Where the directory is not synced, a loss of power right after the call returned can take the
  name away, which is what the comment on \<^verbatim>\<open>SyncDir\<close> says the sync is for.
\<close>

lemma unsynced_name_lost:
  assumes "ValidID ref" "is_temp n"
  shows "\<exists>w. blob_reachable False w \<and> ref \<in> bw_done w \<and> stored (bw_disk w) ref = None"
proof -
  obtain w where w: "blob_reachable False w" "bw_disk w = put_disk False ref x n" "ref \<in> bw_done w"
    using put_alone [OF assms] blob_turns_reachable blob_reachable.fresh by blast
  let ?d = "bw_disk w"
  have lost: "None \<in> dk_after ?d m" for m
    unfolding w(2) by (simp add: put_disk_def disk_defs empty_disk_def)
  let ?e = "?d\<lparr>dk_names := (\<lambda>_. None), dk_after := (\<lambda>_. {None}), dk_safe := (\<lambda>_. True)\<rparr>"
  have "crash ?d ?e" using lost by (simp add: crash_def)
  from blob_reachable.power_loss [OF w(1) this] show ?thesis
    using w(3) by (intro exI [of _ "w\<lparr>bw_disk := ?e, bw_pc := (\<lambda>_. PutIdle)\<rparr>"])
      (simp add: stored_def read_name_def)
qed

end
