(* ===== verification/Acknowledged.thy ===== *)
theory Acknowledged
  imports Blobs Opening
begin

text \<open>
  What a 250 promises: the order of \<^verbatim>\<open>Deliver\<close> in \<^verbatim>\<open>smtp/ingest.go\<close> over a disk and a
  database that can lose what was not synced. The blobs are put, the row that names them commits,
  and only then is the message acknowledged.
\<close>

section \<open>Deliveries over blobs and rows\<close>

text \<open>A row names its raw container and, when the message has an HTML part, that of the part.\<close>

record mail_row =
  mr_message :: ident
  mr_raw :: ident
  mr_html :: ident

definition row_refs :: "mail_row \<Rightarrow> ident set" where
  "row_refs r = {mr_raw r} \<union> (if mr_html r = [] then {} else {mr_html r})"

text \<open>
  The committed rows are in the order of their commits, and the first \<open>aw_flushed\<close> of them are
  on the disk. A commit flushes the log when the database is opened with \<open>SyncFull\<close>, and a
  checkpoint does at any time; a loss of power keeps a beginning of the log that has at least what
  was flushed.
\<close>

record ack_world =
  aw_blobs :: blob_world
  aw_rows :: "mail_row list"
  aw_flushed :: nat
  aw_acked :: "mail_row set"

definition fresh_acks :: ack_world where
  "fresh_acks = \<lparr>aw_blobs = fresh_blobs, aw_rows = [], aw_flushed = 0, aw_acked = {}\<rparr>"

inductive ack_step :: "bool \<Rightarrow> sync_mode \<Rightarrow> ack_world \<Rightarrow> ack_world \<Rightarrow> bool" for posix mode where
  blobs: "blob_turn posix (aw_blobs w) b \<Longrightarrow> ack_step posix mode w (w\<lparr>aw_blobs := b\<rparr>)"
| commit: "mr_raw r \<in> bw_done (aw_blobs w) \<Longrightarrow> mr_html r = [] \<or> mr_html r \<in> bw_done (aw_blobs w) \<Longrightarrow>
     ack_step posix mode w
       (w\<lparr>aw_rows := aw_rows w @ [r],
          aw_flushed := (if mode = SyncFull then Suc (length (aw_rows w)) else aw_flushed w)\<rparr>)"
| checkpoint: "ack_step posix mode w (w\<lparr>aw_flushed := length (aw_rows w)\<rparr>)"
| acknowledge: "r \<in> set (aw_rows w) \<Longrightarrow> ack_step posix mode w (w\<lparr>aw_acked := insert r (aw_acked w)\<rparr>)"

text \<open>What goes wrong: the process dies, or the power is lost.\<close>

inductive ack_reachable :: "bool \<Rightarrow> sync_mode \<Rightarrow> ack_world \<Rightarrow> bool" for posix mode where
  empty: "ack_reachable posix mode fresh_acks"
| step: "ack_reachable posix mode w \<Longrightarrow> ack_step posix mode w w' \<Longrightarrow> ack_reachable posix mode w'"
| process_death: "ack_reachable posix mode w \<Longrightarrow>
     ack_reachable posix mode (w\<lparr>aw_blobs := (aw_blobs w)\<lparr>bw_pc := (\<lambda>_. PutIdle)\<rparr>\<rparr>)"
| blackout: "ack_reachable posix mode w \<Longrightarrow> crash (bw_disk (aw_blobs w)) d \<Longrightarrow>
     aw_flushed w \<le> k \<Longrightarrow> k \<le> length (aw_rows w) \<Longrightarrow>
     ack_reachable posix mode
       (w\<lparr>aw_blobs := (aw_blobs w)\<lparr>bw_disk := d, bw_pc := (\<lambda>_. PutIdle)\<rparr>,
          aw_rows := take k (aw_rows w), aw_flushed := k\<rparr>)"

section \<open>The contract\<close>

definition ack_inv :: "bool \<Rightarrow> sync_mode \<Rightarrow> ack_world \<Rightarrow> bool" where
  "ack_inv posix mode w \<longleftrightarrow>
     blob_reachable posix (aw_blobs w) \<and> aw_flushed w \<le> length (aw_rows w) \<and>
     (\<forall>r \<in> set (aw_rows w). row_refs r \<subseteq> bw_done (aw_blobs w)) \<and>
     (mode = SyncFull \<longrightarrow> aw_flushed w = length (aw_rows w) \<and> aw_acked w \<subseteq> set (aw_rows w))"

lemma blob_turn_done: "blob_turn posix b b' \<Longrightarrow> bw_done b \<subseteq> bw_done b'"
  by (induction rule: blob_turn.induct) auto

lemma ack_inv_step: "ack_step posix mode w w' \<Longrightarrow> ack_inv posix mode w \<Longrightarrow> ack_inv posix mode w'"
proof (induction rule: ack_step.induct)
  case (blobs w b)
  then show ?case
    using blob_turn_done [OF blobs.hyps] by (fastforce simp: ack_inv_def intro: blob_reachable.turn)
qed (auto simp: ack_inv_def row_refs_def)

lemma ack_reachable_inv: "ack_reachable posix mode w \<Longrightarrow> ack_inv posix mode w"
proof (induction rule: ack_reachable.induct)
  case empty
  show ?case by (simp add: ack_inv_def fresh_acks_def blob_reachable.fresh)
next
  case (step w w')
  then show ?case by (blast intro: ack_inv_step)
next
  case (process_death w)
  then show ?case by (simp add: ack_inv_def blob_reachable.died)
next
  case (blackout w d k)
  have "blob_reachable posix ((aw_blobs w)\<lparr>bw_disk := d, bw_pc := (\<lambda>_. PutIdle)\<rparr>)"
    using blackout by (intro blob_reachable.power_loss) (simp_all add: ack_inv_def)
  moreover have "mode = SyncFull \<longrightarrow> k = length (aw_rows w)" using blackout by (auto simp: ack_inv_def)
  ultimately show ?case using blackout by (auto simp: ack_inv_def dest: in_set_takeD)
qed

text \<open>
  A container is never torn, in either mode and whatever happened: its name leads to all of it or
  to nothing.
\<close>

lemma stored_whole:
  assumes "blob_reachable posix b"
  shows "stored (bw_disk b) ref \<in> {None, bw_put b ref}"
  using blob_whole [OF assms, of ref]
  by (cases "read_name (bw_disk b) (blob_path ref)") (auto simp: stored_def)

lemma stored_done:
  assumes "blob_reachable True b" "ref \<in> bw_done b"
  shows "bw_put b ref \<noteq> None \<and> stored (bw_disk b) ref = bw_put b ref"
proof -
  have "ValidID ref"
    using blob_reachable_inv [OF assms(1)] assms(2) by (simp add: blob_inv_def calls_ok_def done_ok_def)
  then show ?thesis using blob_durable [OF assms] by (simp add: stored_def)
qed

lemma ack_turns:
  assumes "(blob_turn posix)\<^sup>*\<^sup>* (aw_blobs w) b" "ack_reachable posix mode w"
  shows "ack_reachable posix mode (w\<lparr>aw_blobs := b\<rparr>)"
  using assms
proof (induction rule: rtranclp_induct)
  case (step b c)
  have "ack_step posix mode (w\<lparr>aw_blobs := b\<rparr>) ((w\<lparr>aw_blobs := b\<rparr>)\<lparr>aw_blobs := c\<rparr>)"
    using step.hyps(2) by (intro ack_step.blobs) simp
  with step.IH [OF step.prems] show ?case by (auto intro: ack_reachable.step)
qed simp

text \<open>A delivery on its own: the raw container, the row, the answer.\<close>

definition plain_row :: "ident \<Rightarrow> ident \<Rightarrow> mail_row" where
  "plain_row m ref = \<lparr>mr_message = m, mr_raw = ref, mr_html = []\<rparr>"

lemma deliver_alone:
  assumes "ValidID ref" "is_temp n"
  shows "\<exists>w. ack_reachable posix mode w \<and> plain_row m ref \<in> aw_acked w \<and>
     bw_put (aw_blobs w) ref = Some x \<and> bw_disk (aw_blobs w) = put_disk posix ref x n \<and>
     aw_rows w = [plain_row m ref] \<and>
     aw_flushed w = (if mode = SyncFull then 1 else 0)"
proof -
  obtain b where b: "(blob_turn posix)\<^sup>*\<^sup>* fresh_blobs b" "ref \<in> bw_done b" "bw_put b ref = Some x"
    "bw_disk b = put_disk posix ref x n"
    using put_alone [OF assms] by blast
  let ?w1 = "fresh_acks\<lparr>aw_blobs := b\<rparr>"
  let ?w2 = "?w1\<lparr>aw_rows := aw_rows ?w1 @ [plain_row m ref],
      aw_flushed := (if mode = SyncFull then Suc (length (aw_rows ?w1)) else aw_flushed ?w1)\<rparr>"
  let ?w3 = "?w2\<lparr>aw_acked := insert (plain_row m ref) (aw_acked ?w2)\<rparr>"
  have 1: "ack_reachable posix mode ?w1"
    using ack_turns [of posix fresh_acks b] b(1) ack_reachable.empty by (simp add: fresh_acks_def)
  have "ack_step posix mode ?w1 ?w2"
    using b(2) by (intro ack_step.commit) (simp_all add: plain_row_def)
  with 1 have 2: "ack_reachable posix mode ?w2" by (rule ack_reachable.step)
  have "ack_step posix mode ?w2 ?w3" by (rule ack_step.acknowledge) simp
  with 2 have "ack_reachable posix mode ?w3" by (rule ack_reachable.step)
  then show ?thesis using b(3,4) by (intro exI [of _ ?w3]) (simp add: fresh_acks_def)
qed

text \<open>What \<open>SyncNormal\<close> gives up: an acknowledged message can be gone after a loss of power.\<close>

lemma crash_exists:
  assumes "\<And>n. dk_after d n \<noteq> {}"
  shows "\<exists>d'. crash d d'"
proof -
  have "\<forall>n. \<exists>v. v \<in> dk_after d n" using assms by blast
  then obtain f where f: "\<forall>n. f n \<in> dk_after d n" by metis
  show ?thesis
    by (intro exI [of _ "d\<lparr>dk_names := f, dk_after := (\<lambda>n. {f n}), dk_safe := (\<lambda>_. True)\<rparr>"])
       (simp add: crash_def f)
qed

lemma normal_loses_acknowledged:
  assumes "ValidID ref" "is_temp n"
  shows "\<exists>w. ack_reachable posix SyncNormal w \<and> plain_row m ref \<in> aw_acked w \<and> aw_rows w = []"
proof -
  obtain w where w: "ack_reachable posix SyncNormal w" "plain_row m ref \<in> aw_acked w" "aw_flushed w = 0"
    "bw_disk (aw_blobs w) = put_disk posix ref x n"
    using deliver_alone [OF assms, of posix SyncNormal m x] by auto
  have "dk_after (put_disk posix ref x n) k \<noteq> {}" for k
    by (simp add: put_disk_def disk_defs empty_disk_def)
  then obtain d where "crash (bw_disk (aw_blobs w)) d" using crash_exists w(4) by metis
  from ack_reachable.blackout [OF w(1) this, of 0] show ?thesis
    using w(2,3) by fastforce
qed

end
