(* ===== verification/Shutdown.thy ===== *)
theory Shutdown
  imports Prelude
begin

text \<open>
  The server while it runs and how it stops: the end of \<^verbatim>\<open>serve\<close> and \<^verbatim>\<open>sweepPeriodically\<close> of
  \<^verbatim>\<open>cmd/authstunt/serve.go\<close>, \<^verbatim>\<open>Serve\<close> and \<^verbatim>\<open>Shutdown\<close> of \<^verbatim>\<open>smtp/server.go\<close>, and
  \<^verbatim>\<open>Start\<close> and \<^verbatim>\<open>Stop\<close> of \<^verbatim>\<open>smtp/ingest.go\<close>. Each goroutine has steps of its own over one
  record, and the server is any interleaving of them.
\<close>

section \<open>The goroutines\<close>

text \<open>
  Where \<^verbatim>\<open>serve\<close> stands, from the call of \<^verbatim>\<open>srv.Serve\<close> on. The last three are the deferred
  calls, in the order they run.
\<close>

datatype main_pc =
    Serving | ShutSMTP | ShutAPI | DrainAPI | AwaitAPI | StopIngest | AwaitWorkers | AwaitSweeper
  | StopBus | CloseStore | Returned

datatype sweeper_pc = Ticking | Sweeping | SweeperGone

datatype api_pc = APIOff | APIServing | APIStopped

text \<open>
  Sessions are counted by where they are: before the end of their data, between it and the commit,
  and committed with a job to hand over; the last three counts are of sessions that handed over,
  that left their message to the next start, and that sent on a closed queue, which panics.
\<close>

record running =
  ru_cancelled :: bool
  ru_main :: main_pc
  ru_failed :: bool
  ru_smtp_open :: bool
  ru_reading :: nat
  ru_storing :: nat
  ru_committed :: nat
  ru_holding :: nat
  ru_handed :: nat
  ru_left :: nat
  ru_panicked :: nat
  ru_queue :: nat
  ru_queue_open :: bool
  ru_idle :: nat
  ru_busy :: nat
  ru_sweeper :: sweeper_pc
  ru_api :: api_pc
  ru_api_open :: bool
  ru_calls :: nat
  ru_bus_open :: bool
  ru_store_open :: bool

text \<open>All is up: the workers wait, the sweeper has its ticker, the API is on unless it was turned off.\<close>

definition running_start :: "nat \<Rightarrow> bool \<Rightarrow> running" where
  "running_start workers api =
     \<lparr>ru_cancelled = False, ru_main = Serving, ru_failed = False, ru_smtp_open = True, ru_reading = 0,
      ru_storing = 0, ru_committed = 0, ru_holding = 0, ru_handed = 0, ru_left = 0, ru_panicked = 0, ru_queue = 0,
      ru_queue_open = True, ru_idle = workers, ru_busy = 0, ru_sweeper = Ticking,
      ru_api = (if api then APIServing else APIOff), ru_api_open = api, ru_calls = 0,
      ru_bus_open = True, ru_store_open = True\<rparr>"

text \<open>
  \<^verbatim>\<open>serve\<close> itself. \<^verbatim>\<open>srv.Serve\<close> returns no error once the server was closed, and one when
  the listener fails. The shutdown of the API ends when its calls have, or when the grace is over.
\<close>

inductive main_step :: "running \<Rightarrow> running \<Rightarrow> bool" where
  served: "ru_main r = Serving \<Longrightarrow> \<not> ru_smtp_open r \<Longrightarrow> main_step r (r\<lparr>ru_main := ShutSMTP\<rparr>)"
| listener: "ru_main r = Serving \<Longrightarrow> ru_smtp_open r \<Longrightarrow>
     main_step r (r\<lparr>ru_main := ShutSMTP, ru_failed := True\<rparr>)"
| shut_smtp: "ru_main r = ShutSMTP \<Longrightarrow>
     main_step r (r\<lparr>ru_smtp_open := False,
       ru_main := (if ru_api r = APIOff then StopIngest else ShutAPI)\<rparr>)"
| shut_api: "ru_main r = ShutAPI \<Longrightarrow> main_step r (r\<lparr>ru_api_open := False, ru_main := DrainAPI\<rparr>)"
| drained: "ru_main r = DrainAPI \<Longrightarrow> ru_calls r = 0 \<Longrightarrow> main_step r (r\<lparr>ru_main := AwaitAPI\<rparr>)"
| grace_over: "ru_main r = DrainAPI \<Longrightarrow> main_step r (r\<lparr>ru_main := AwaitAPI\<rparr>)"
| api_answered: "ru_main r = AwaitAPI \<Longrightarrow> ru_api r = APIStopped \<Longrightarrow>
     main_step r (r\<lparr>ru_main := StopIngest\<rparr>)"
| stop_ingest: "ru_main r = StopIngest \<Longrightarrow>
     main_step r (r\<lparr>ru_queue_open := False, ru_main := AwaitWorkers\<rparr>)"
| workers_gone: "ru_main r = AwaitWorkers \<Longrightarrow> ru_idle r = 0 \<Longrightarrow> ru_busy r = 0 \<Longrightarrow>
     main_step r (r\<lparr>ru_main := AwaitSweeper\<rparr>)"
| sweeper_gone: "ru_main r = AwaitSweeper \<Longrightarrow> ru_sweeper r = SweeperGone \<Longrightarrow>
     main_step r (r\<lparr>ru_main := StopBus\<rparr>)"
| stop_bus: "ru_main r = StopBus \<Longrightarrow> main_step r (r\<lparr>ru_bus_open := False, ru_main := CloseStore\<rparr>)"
| close_store: "ru_main r = CloseStore \<Longrightarrow>
     main_step r (r\<lparr>ru_store_open := False, ru_main := Returned\<rparr>)"

text \<open>The goroutine in \<^verbatim>\<open>Server.Serve\<close> that closes the server, while \<^verbatim>\<open>Serve\<close> has not returned.\<close>

inductive closer_step :: "running \<Rightarrow> running \<Rightarrow> bool" where
  close_smtp: "ru_cancelled r \<Longrightarrow> ru_main r = Serving \<Longrightarrow> ru_smtp_open r \<Longrightarrow>
     closer_step r (r\<lparr>ru_smtp_open := False\<rparr>)"

text \<open>\<^verbatim>\<open>sweepPeriodically\<close>: the context is checked again once a tick was received.\<close>

inductive sweeper_step :: "running \<Rightarrow> running \<Rightarrow> bool" where
  tick: "ru_sweeper r = Ticking \<Longrightarrow> \<not> ru_cancelled r \<Longrightarrow> sweeper_step r (r\<lparr>ru_sweeper := Sweeping\<rparr>)"
| swept: "ru_sweeper r = Sweeping \<Longrightarrow> sweeper_step r (r\<lparr>ru_sweeper := Ticking\<rparr>)"
| sweeper_done: "ru_sweeper r = Ticking \<Longrightarrow> ru_cancelled r \<Longrightarrow>
     sweeper_step r (r\<lparr>ru_sweeper := SweeperGone\<rparr>)"

text \<open>The workers of \<^verbatim>\<open>Start\<close>: a receive on a closed queue drains it first.\<close>

inductive worker_step :: "running \<Rightarrow> running \<Rightarrow> bool" where
  take_job: "ru_idle r = Suc n \<Longrightarrow> ru_queue r = Suc k \<Longrightarrow>
     worker_step r (r\<lparr>ru_idle := n, ru_busy := Suc (ru_busy r), ru_queue := k\<rparr>)"
| settle: "ru_busy r = Suc n \<Longrightarrow> worker_step r (r\<lparr>ru_busy := n, ru_idle := Suc (ru_idle r)\<rparr>)"
| cancelled: "ru_idle r = Suc n \<Longrightarrow> ru_cancelled r \<Longrightarrow> worker_step r (r\<lparr>ru_idle := n\<rparr>)"
| queue_over: "ru_idle r = Suc n \<Longrightarrow> \<not> ru_queue_open r \<Longrightarrow> ru_queue r = 0 \<Longrightarrow>
     worker_step r (r\<lparr>ru_idle := n\<rparr>)"

text \<open>The goroutine that serves the API: it answers once the listener is closed or has failed.\<close>

inductive api_step :: "running \<Rightarrow> running \<Rightarrow> bool" where
  api_stopped: "ru_api r = APIServing \<Longrightarrow> \<not> ru_api_open r \<Longrightarrow> api_step r (r\<lparr>ru_api := APIStopped\<rparr>)"

text \<open>
  The steps that others take: the signal, clients and their sessions, calls of the API. Closing the
  server closes connections, which ends a session that still reads; one that has its data, if only
  in a buffer, goes on, through the commit to the \<^verbatim>\<open>select\<close> of \<^verbatim>\<open>Deliver\<close>, whose cases are the three ways on.
\<close>

inductive client_step :: "nat \<Rightarrow> running \<Rightarrow> running \<Rightarrow> bool" for places where
  signal: "client_step places r (r\<lparr>ru_cancelled := True\<rparr>)"
| accepted: "ru_main r = Serving \<Longrightarrow> ru_smtp_open r \<Longrightarrow>
     client_step places r (r\<lparr>ru_reading := Suc (ru_reading r)\<rparr>)"
| cut_off: "ru_reading r = Suc n \<Longrightarrow> client_step places r (r\<lparr>ru_reading := n\<rparr>)"
| all_read: "ru_reading r = Suc n \<Longrightarrow>
     client_step places r (r\<lparr>ru_reading := n, ru_storing := Suc (ru_storing r)\<rparr>)"
| refused: "ru_storing r = Suc n \<Longrightarrow> client_step places r (r\<lparr>ru_storing := n\<rparr>)"
| committed: "ru_storing r = Suc n \<Longrightarrow> ru_store_open r \<Longrightarrow>
     client_step places r (r\<lparr>ru_storing := n, ru_committed := Suc (ru_committed r),
       ru_holding := Suc (ru_holding r)\<rparr>)"
| handed: "ru_holding r = Suc n \<Longrightarrow> ru_queue_open r \<Longrightarrow> ru_queue r < places \<Longrightarrow>
     client_step places r
       (r\<lparr>ru_holding := n, ru_queue := Suc (ru_queue r), ru_handed := Suc (ru_handed r)\<rparr>)"
| left_pending: "ru_holding r = Suc n \<Longrightarrow> ru_cancelled r \<Longrightarrow>
     client_step places r (r\<lparr>ru_holding := n, ru_left := Suc (ru_left r)\<rparr>)"
| panicked: "ru_holding r = Suc n \<Longrightarrow> \<not> ru_queue_open r \<Longrightarrow>
     client_step places r (r\<lparr>ru_holding := n, ru_panicked := Suc (ru_panicked r)\<rparr>)"
| called: "ru_api_open r \<Longrightarrow> client_step places r (r\<lparr>ru_calls := Suc (ru_calls r)\<rparr>)"
| answered: "ru_calls r = Suc n \<Longrightarrow> client_step places r (r\<lparr>ru_calls := n\<rparr>)"
| api_failed: "ru_api r = APIServing \<Longrightarrow> client_step places r (r\<lparr>ru_api_open := False\<rparr>)"

text \<open>The steps of the server itself, and all steps.\<close>

definition own_step :: "running \<Rightarrow> running \<Rightarrow> bool" where
  "own_step r r' \<longleftrightarrow>
     main_step r r' \<or> closer_step r r' \<or> sweeper_step r r' \<or> worker_step r r' \<or> api_step r r'"

inductive serve_reachable :: "nat \<Rightarrow> nat \<Rightarrow> bool \<Rightarrow> running \<Rightarrow> bool" for workers places api where
  up: "serve_reachable workers places api (running_start workers api)"
| own: "serve_reachable workers places api r \<Longrightarrow> own_step r r' \<Longrightarrow>
     serve_reachable workers places api r'"
| client: "serve_reachable workers places api r \<Longrightarrow> client_step places r r' \<Longrightarrow>
     serve_reachable workers places api r'"

section \<open>What is over at each stage\<close>

fun stage :: "main_pc \<Rightarrow> nat" where
  "stage Serving = 0" | "stage ShutSMTP = 1" | "stage ShutAPI = 2" | "stage DrainAPI = 3"
| "stage AwaitAPI = 4" | "stage StopIngest = 5" | "stage AwaitWorkers = 6" | "stage AwaitSweeper = 7"
| "stage StopBus = 8" | "stage CloseStore = 9" | "stage Returned = 10"

definition stages_ok :: "bool \<Rightarrow> running \<Rightarrow> bool" where
  "stages_ok api r \<longleftrightarrow>
     (ru_api r = APIOff \<longleftrightarrow> \<not> api) \<and>
     (2 \<le> stage (ru_main r) \<longrightarrow> \<not> ru_smtp_open r) \<and>
     (3 \<le> stage (ru_main r) \<longrightarrow> \<not> ru_api_open r) \<and>
     (5 \<le> stage (ru_main r) \<longrightarrow> ru_api r \<noteq> APIServing) \<and>
     (ru_queue_open r \<longleftrightarrow> stage (ru_main r) < 6) \<and>
     (7 \<le> stage (ru_main r) \<longrightarrow> ru_idle r = 0 \<and> ru_busy r = 0) \<and>
     (8 \<le> stage (ru_main r) \<longrightarrow> ru_sweeper r = SweeperGone) \<and>
     (ru_bus_open r \<longleftrightarrow> stage (ru_main r) < 9) \<and>
     (ru_store_open r \<longleftrightarrow> stage (ru_main r) < 10) \<and>
     (ru_sweeper r = SweeperGone \<longrightarrow> ru_cancelled r) \<and>
     (\<not> ru_smtp_open r \<longrightarrow> ru_cancelled r \<or> ru_failed r) \<and>
     (0 < stage (ru_main r) \<longrightarrow> ru_cancelled r \<or> ru_failed r) \<and>
     (ru_api r = APIOff \<longrightarrow> \<not> ru_api_open r \<and> ru_main r \<notin> {ShutAPI, DrainAPI, AwaitAPI}) \<and>
     (ru_api r = APIStopped \<longrightarrow> \<not> ru_api_open r)"

lemma stages_ok_start: "stages_ok api (running_start workers api)"
  by (simp add: stages_ok_def running_start_def)

lemma stages_ok_main: "main_step r r' \<Longrightarrow> stages_ok api r \<Longrightarrow> stages_ok api r'"
  by (induction rule: main_step.induct) (auto simp: stages_ok_def)

lemma stages_ok_closer: "closer_step r r' \<Longrightarrow> stages_ok api r \<Longrightarrow> stages_ok api r'"
  by (induction rule: closer_step.induct) (auto simp: stages_ok_def)

lemma stages_ok_sweeper: "sweeper_step r r' \<Longrightarrow> stages_ok api r \<Longrightarrow> stages_ok api r'"
  by (induction rule: sweeper_step.induct) (auto simp: stages_ok_def)

lemma stages_ok_worker: "worker_step r r' \<Longrightarrow> stages_ok api r \<Longrightarrow> stages_ok api r'"
  by (induction rule: worker_step.induct) (auto simp: stages_ok_def)

lemma stages_ok_api: "api_step r r' \<Longrightarrow> stages_ok api r \<Longrightarrow> stages_ok api r'"
  by (induction rule: api_step.induct) (auto simp: stages_ok_def)

lemma stages_ok_own: "own_step r r' \<Longrightarrow> stages_ok api r \<Longrightarrow> stages_ok api r'"
  unfolding own_step_def
  using stages_ok_main stages_ok_closer stages_ok_sweeper stages_ok_worker stages_ok_api by blast

lemma stages_ok_client: "client_step places r r' \<Longrightarrow> stages_ok api r \<Longrightarrow> stages_ok api r'"
  by (induction rule: client_step.induct) (auto simp: stages_ok_def)

text \<open>Every message committed is held by its session, was handed over, left or lost to a panic.\<close>

lemma client_step_sessions:
  assumes "client_step places r r'"
  shows "ru_committed r' + (ru_holding r + ru_handed r + ru_left r + ru_panicked r) =
      ru_committed r + (ru_holding r' + ru_handed r' + ru_left r' + ru_panicked r')"
    and "ru_panicked r' \<noteq> ru_panicked r \<Longrightarrow> \<not> ru_queue_open r'"
    and "ru_queue_open r' = ru_queue_open r"
  using assms by (induction rule: client_step.induct) auto

lemma serve_reachable_ok: "serve_reachable workers places api r \<Longrightarrow> stages_ok api r"
  by (induction rule: serve_reachable.induct)
     (auto intro: stages_ok_start stages_ok_own stages_ok_client)

section \<open>Progress\<close>

text \<open>
  What the server still has to do. As long as it was cancelled, or waits for something else than
  the signal, one of its own steps brings it closer to its return, whatever clients do.
\<close>

definition ahead :: "(running \<times> running) set" where
  "ahead = measures
     [\<lambda>r. 10 - stage (ru_main r), \<lambda>r. if ru_smtp_open r then 1 else 0,
      \<lambda>r. if ru_api r = APIServing then 1 else 0,
      \<lambda>r. 3 * ru_queue r + 2 * ru_busy r + ru_idle r,
      \<lambda>r. case ru_sweeper r of Sweeping \<Rightarrow> 2 | Ticking \<Rightarrow> 1 | SweeperGone \<Rightarrow> 0]"

lemma wf_ahead: "wf ahead"
  by (simp add: ahead_def)

lemmas own_intros = main_step.intros closer_step.intros sweeper_step.intros worker_step.intros
  api_step.intros

lemma own_main: "main_step r r' \<Longrightarrow> own_step r r'"
  by (simp add: own_step_def)

lemma main_ahead:
  "stage (ru_main r) < stage (ru_main r') \<Longrightarrow> stage (ru_main r') \<le> 10 \<Longrightarrow> (r', r) \<in> ahead"
  by (auto simp: ahead_def)

lemma stage_bound: "stage c \<le> 10"
  by (cases c) auto

lemma progress_main:
  assumes "main_step r r'" "stage (ru_main r) < stage (ru_main r')" "ru_cancelled r' = ru_cancelled r"
  shows "\<exists>r'. own_step r r' \<and> (r', r) \<in> ahead \<and> ru_cancelled r' = ru_cancelled r \<and> stage (ru_main r) \<le> stage (ru_main r')"
  using own_main [OF assms(1)] main_ahead [OF assms(2) stage_bound] assms(2,3) less_imp_le by blast

lemma own_progress:
  assumes "stages_ok api r" "ru_main r \<noteq> Returned" "ru_cancelled r \<or> ru_main r \<notin> {Serving, AwaitSweeper}"
  shows "\<exists>r'. own_step r r' \<and> (r', r) \<in> ahead \<and> ru_cancelled r' = ru_cancelled r \<and> stage (ru_main r) \<le> stage (ru_main r')"
proof (cases "ru_main r")
  case Serving
  show ?thesis
  proof (cases "ru_smtp_open r")
    case True
    then have "own_step r (r\<lparr>ru_smtp_open := False\<rparr>)"
      using Serving assms(3) by (auto simp: own_step_def intro: own_intros)
    then show ?thesis using True by (intro exI) (auto simp: ahead_def)
  next
    case False
    show ?thesis by (rule progress_main [OF main_step.served]) (use Serving False in simp_all)
  qed
next
  case ShutSMTP
  show ?thesis by (rule progress_main [OF main_step.shut_smtp]) (use ShutSMTP in simp_all)
next
  case ShutAPI
  show ?thesis by (rule progress_main [OF main_step.shut_api]) (use ShutAPI in simp_all)
next
  case DrainAPI
  show ?thesis by (rule progress_main [OF main_step.grace_over]) (use DrainAPI in simp_all)
next
  case AwaitAPI
  show ?thesis
  proof (cases "ru_api r")
    case APIServing
    then have "own_step r (r\<lparr>ru_api := APIStopped\<rparr>)"
      using AwaitAPI assms(1) by (auto simp: own_step_def stages_ok_def intro: own_intros)
    then show ?thesis using APIServing by (intro exI) (auto simp: ahead_def)
  next
    case APIStopped
    show ?thesis by (rule progress_main [OF main_step.api_answered]) (use AwaitAPI APIStopped in simp_all)
  next
    case APIOff
    then show ?thesis using AwaitAPI assms(1) by (simp add: stages_ok_def)
  qed
next
  case StopIngest
  show ?thesis by (rule progress_main [OF main_step.stop_ingest]) (use StopIngest in simp_all)
next
  case AwaitWorkers
  then have shut: "\<not> ru_queue_open r" using assms(1) by (simp add: stages_ok_def)
  show ?thesis
  proof (cases "ru_busy r")
    case (Suc n)
    then have "own_step r (r\<lparr>ru_busy := n, ru_idle := Suc (ru_idle r)\<rparr>)"
      by (auto simp: own_step_def intro: own_intros)
    then show ?thesis using Suc by (intro exI) (auto simp: ahead_def)
  next
    case 0
    show ?thesis
    proof (cases "ru_idle r")
      case i: (Suc n)
      show ?thesis
      proof (cases "ru_queue r")
        case (Suc k)
        then have "own_step r (r\<lparr>ru_idle := n, ru_busy := Suc (ru_busy r), ru_queue := k\<rparr>)"
          using i by (auto simp: own_step_def intro: own_intros)
        then show ?thesis using i Suc by (intro exI) (auto simp: ahead_def)
      next
        case 0
        then have "own_step r (r\<lparr>ru_idle := n\<rparr>)"
          using i shut by (auto simp: own_step_def intro: own_intros)
        then show ?thesis using i by (intro exI) (auto simp: ahead_def)
      qed
    next
      case i: 0
      show ?thesis by (rule progress_main [OF main_step.workers_gone]) (use AwaitWorkers 0 i in simp_all)
    qed
  qed
next
  case AwaitSweeper
  then have "ru_cancelled r" using assms(3) by simp
  show ?thesis
  proof (cases "ru_sweeper r")
    case Ticking
    then have "own_step r (r\<lparr>ru_sweeper := SweeperGone\<rparr>)"
      using \<open>ru_cancelled r\<close> by (auto simp: own_step_def intro: own_intros)
    then show ?thesis using Ticking by (intro exI) (auto simp: ahead_def)
  next
    case Sweeping
    then have "own_step r (r\<lparr>ru_sweeper := Ticking\<rparr>)" by (auto simp: own_step_def intro: own_intros)
    then show ?thesis using Sweeping by (intro exI) (auto simp: ahead_def)
  next
    case SweeperGone
    show ?thesis by (rule progress_main [OF main_step.sweeper_gone]) (use AwaitSweeper SweeperGone in simp_all)
  qed
next
  case StopBus
  show ?thesis by (rule progress_main [OF main_step.stop_bus]) (use StopBus in simp_all)
next
  case CloseStore
  show ?thesis by (rule progress_main [OF main_step.close_store]) (use CloseStore in simp_all)
qed (use assms(2) in simp)

text \<open>A cancelled server returns.\<close>

lemma cancelled_returns:
  assumes "stages_ok api r" "ru_cancelled r"
  shows "\<exists>r'. own_step\<^sup>*\<^sup>* r r' \<and> ru_main r' = Returned"
  using wf_ahead assms
proof (induction r rule: wf_induct_rule)
  case (less r)
  show ?case
  proof (cases "ru_main r = Returned")
    case False
    then obtain r1 where r1: "own_step r r1" "(r1, r) \<in> ahead" "ru_cancelled r1 = ru_cancelled r"
      using own_progress [OF less.prems(1)] less.prems(2) by blast
    have "\<exists>r'. own_step\<^sup>*\<^sup>* r1 r' \<and> ru_main r' = Returned"
      using less.IH [OF r1(2) stages_ok_own [OF r1(1) less.prems(1)]] r1(3) less.prems(2) by simp
    then show ?thesis using r1(1) by (meson converse_rtranclp_into_rtranclp)
  qed auto
qed

text \<open>One that was not cancelled gets no further than the wait for the sweeper.\<close>

lemma not_cancelled_stage: "stages_ok api r \<Longrightarrow> \<not> ru_cancelled r \<Longrightarrow> stage (ru_main r) \<le> 7"
  by (cases "8 \<le> stage (ru_main r)") (auto simp: stages_ok_def)

lemma failed_hangs:
  assumes "stages_ok api r" "\<not> ru_cancelled r" "ru_main r \<noteq> Serving"
  shows "\<exists>r'. own_step\<^sup>*\<^sup>* r r' \<and> ru_main r' = AwaitSweeper \<and> \<not> ru_cancelled r' \<and> stages_ok api r'"
  using wf_ahead assms
proof (induction r rule: wf_induct_rule)
  case (less r)
  show ?case
  proof (cases "ru_main r = AwaitSweeper")
    case False
    have "ru_main r \<noteq> Returned" using not_cancelled_stage [OF less.prems(1,2)] by auto
    then obtain r1 where r1: "own_step r r1" "(r1, r) \<in> ahead" "ru_cancelled r1 = ru_cancelled r"
      "stage (ru_main r) \<le> stage (ru_main r1)"
      using own_progress [OF less.prems(1)] less.prems(3) False by blast
    have "0 < stage (ru_main r)" using less.prems(3) by (cases "ru_main r") auto
    then have "ru_main r1 \<noteq> Serving" using r1(4) by auto
    then have "\<exists>r'. own_step\<^sup>*\<^sup>* r1 r' \<and> ru_main r' = AwaitSweeper \<and> \<not> ru_cancelled r' \<and> stages_ok api r'"
      using less.IH [OF r1(2) stages_ok_own [OF r1(1) less.prems(1)]] r1(3) less.prems(2) by simp
    then show ?thesis using r1(1) by (meson converse_rtranclp_into_rtranclp)
  qed (use less.prems in blast)
qed

lemma own_step_cancelled: "own_step r r' \<Longrightarrow> ru_cancelled r' = ru_cancelled r"
  unfolding own_step_def
  by (auto elim: main_step.cases closer_step.cases sweeper_step.cases worker_step.cases api_step.cases)

lemma own_steps_cancelled: "own_step\<^sup>*\<^sup>* r r' \<Longrightarrow> ru_cancelled r' = ru_cancelled r"
  by (induction rule: rtranclp_induct) (simp_all add: own_step_cancelled)

lemma serve_reachable_own:
  assumes "own_step\<^sup>*\<^sup>* r r'" "serve_reachable workers places api r"
  shows "serve_reachable workers places api r'"
  using assms by (induction rule: rtranclp_induct) (auto intro: serve_reachable.own)

text \<open>The server's own steps are none of its sessions.\<close>

definition sessions_of :: "running \<Rightarrow> nat list" where
  "sessions_of r = [ru_reading r, ru_storing r, ru_holding r, ru_handed r, ru_left r, ru_panicked r, ru_committed r]"

lemma own_step_frame:
  assumes "own_step r r'"
  shows "sessions_of r' = sessions_of r" and "ru_cancelled r' = ru_cancelled r"
    and "stage (ru_main r) \<le> 5 \<Longrightarrow> stage (ru_main r') \<le> 6"
  using assms unfolding own_step_def
  by (auto simp: sessions_of_def elim!: main_step.cases closer_step.cases sweeper_step.cases
      worker_step.cases api_step.cases)

lemma own_steps_frame: "own_step\<^sup>*\<^sup>* r r' \<Longrightarrow> sessions_of r' = sessions_of r \<and> ru_cancelled r' = ru_cancelled r"
  by (induction rule: rtranclp_induct) (auto dest: own_step_frame)

lemma cancelled_closes_queue:
  assumes "stages_ok api r" "ru_cancelled r" "stage (ru_main r) \<le> 6"
  shows "\<exists>r'. own_step\<^sup>*\<^sup>* r r' \<and> ru_main r' = AwaitWorkers"
  using wf_ahead assms
proof (induction r rule: wf_induct_rule)
  case (less r)
  show ?case
  proof (cases "ru_main r = AwaitWorkers")
    case False
    then have "stage (ru_main r) \<le> 5" "ru_main r \<noteq> Returned" using less.prems(3) by (cases "ru_main r"; simp)+
    then obtain r1 where r1: "own_step r r1" "(r1, r) \<in> ahead" "ru_cancelled r1 = ru_cancelled r"
      "stage (ru_main r1) \<le> 6"
      using own_progress [OF less.prems(1)] less.prems(2) own_step_frame(3) by blast
    have "\<exists>r'. own_step\<^sup>*\<^sup>* r1 r' \<and> ru_main r' = AwaitWorkers"
      using less.IH [OF r1(2) stages_ok_own [OF r1(1) less.prems(1)]] r1(3,4) less.prems(2) by simp
    then show ?thesis using r1(1) by (meson converse_rtranclp_into_rtranclp)
  qed auto
qed

text \<open>
  A session that commits while the server stops can find the queue closed. It panics, its client is
  told to try again, and the message is there all the same.
\<close>

lemma session_outlives_queue:
  "\<exists>r. serve_reachable workers places api r \<and> ru_cancelled r \<and> ru_store_open r \<and>
     ru_panicked r = 1 \<and> ru_committed r = 1"
proof -
  let ?reach = "serve_reachable workers places api"
  let ?a = "running_start workers api"
  let ?b = "?a\<lparr>ru_reading := Suc (ru_reading ?a)\<rparr>"
  let ?c = "?b\<lparr>ru_reading := 0, ru_storing := Suc (ru_storing ?b)\<rparr>"
  let ?d = "?c\<lparr>ru_cancelled := True\<rparr>"
  have "?reach ?b"
    by (rule serve_reachable.client [OF serve_reachable.up client_step.accepted])
       (simp_all add: running_start_def)
  moreover have "client_step places ?b ?c" by (rule client_step.all_read) (simp add: running_start_def)
  ultimately have "?reach ?c" by (rule serve_reachable.client)
  then have d: "?reach ?d"
    by (rule serve_reachable.client [OF _ client_step.signal])
  have "ru_cancelled ?d" "stage (ru_main ?d) \<le> 6" by (simp_all add: running_start_def)
  from cancelled_closes_queue [OF serve_reachable_ok [OF d] this] obtain e
    where e: "own_step\<^sup>*\<^sup>* ?d e" "ru_main e = AwaitWorkers" by blast
  have re: "?reach e" by (rule serve_reachable_own [OF e(1) d])
  have s: "sessions_of e = sessions_of ?d" "ru_cancelled e" using own_steps_frame [OF e(1)] by simp_all
  have o': "\<not> ru_queue_open e" "ru_store_open e"
    using serve_reachable_ok [OF re] e(2) by (auto simp: stages_ok_def)
  have n: "ru_storing e = Suc 0" "ru_holding e = 0" "ru_panicked e = 0" "ru_committed e = 0"
    using s(1) by (simp_all add: sessions_of_def running_start_def)
  let ?f = "e\<lparr>ru_storing := 0, ru_committed := Suc (ru_committed e), ru_holding := Suc (ru_holding e)\<rparr>"
  have "?reach ?f" by (rule serve_reachable.client [OF re client_step.committed]) (use n o' in simp_all)
  moreover have "client_step places ?f (?f\<lparr>ru_holding := 0, ru_panicked := Suc (ru_panicked ?f)\<rparr>)"
    by (rule client_step.panicked) (use n o' in simp_all)
  ultimately have "?reach (?f\<lparr>ru_holding := 0, ru_panicked := Suc (ru_panicked ?f)\<rparr>)"
    by (rule serve_reachable.client)
  then show ?thesis
    using n o' s(2) by (intro exI [of _ "?f\<lparr>ru_holding := 0, ru_panicked := Suc (ru_panicked ?f)\<rparr>"]) simp
qed

text \<open>When the store is closed, nothing the server runs itself is left to use it.\<close>

lemma store_closed:
  assumes "serve_reachable workers places api r" "\<not> ru_store_open r"
  shows "ru_idle r = 0 \<and> ru_busy r = 0 \<and> ru_sweeper r = SweeperGone \<and> ru_api r \<noteq> APIServing \<and>
     \<not> ru_smtp_open r \<and> \<not> ru_api_open r \<and> \<not> ru_queue_open r \<and> \<not> ru_bus_open r"
  using serve_reachable_ok [OF assms(1)] assms(2) by (auto simp: stages_ok_def)

lemma sessions_accounted:
  "serve_reachable workers places api r \<Longrightarrow>
     ru_committed r = ru_holding r + ru_handed r + ru_left r + ru_panicked r \<and>
     (0 < ru_panicked r \<longrightarrow> \<not> ru_queue_open r)"
proof (induction rule: serve_reachable.induct)
  case up
  show ?case by (simp add: running_start_def)
next
  case (own r r')
  have "ru_queue_open r' \<Longrightarrow> ru_queue_open r"
    using own.hyps(2) unfolding own_step_def
    by (auto elim!: main_step.cases closer_step.cases sweeper_step.cases worker_step.cases api_step.cases)
  then show ?case using own.IH own_step_frame(1) [OF own.hyps(2)] by (auto simp: sessions_of_def)
next
  case (client r r')
  show ?case
    using client.IH client_step_sessions [OF client.hyps(2)] by (cases "ru_panicked r' = ru_panicked r") auto
qed

end
