(* ===== verification/Tools.thy ===== *)
theory Tools
  imports Mcp StoreModel
begin

text \<open>
  What the MCP surface tells its client: the tools of \<^verbatim>\<open>mcp/tools.go\<close> with their texts and
  schemas, and the JSON bodies of the results of \<^verbatim>\<open>mcp/server.go\<close> and \<^verbatim>\<open>wire.go\<close>. A schema
  is a JSON value; \<open>conforms\<close> is the part of JSON Schema that the schemas use.
\<close>

section \<open>Reason codes and their table\<close>

fun reason_code :: "reason \<Rightarrow> string" where
  "reason_code ReasonOK = ''claim_ok''"
| "reason_code ReasonTimeout = ''claim_timeout''"
| "reason_code ReasonNoBinding = ''claim_no_binding''"
| "reason_code ReasonStaleFiltered = ''claim_stale_filtered''"
| "reason_code ReasonSuspectBinding = ''claim_suspect_binding''"
| "reason_code ReasonAlreadyClaimed = ''claim_already_claimed''"
| "reason_code ReasonExpired = ''claim_expired''"
| "reason_code ReasonLeaseNotHeld = ''lease_not_held''"
| "reason_code ReasonLeaseSeedFailed = ''lease_seed_failed''"
| "reason_code ReasonRunNotActive = ''run_not_active''"
| "reason_code ReasonExtractionFail = ''extraction_failed''"

datatype reason_action = ReasonAction (ra_code: string) (ra_action: string)

definition line_break :: char where "line_break = CHR 0x0A"

fun unlines :: "string list \<Rightarrow> string" where
  "unlines [] = []"
| "unlines [l] = l"
| "unlines (l # ls) = l @ line_break # unlines ls"

text \<open>\<^verbatim>\<open>table\<close>: a row pads its code to the width of the longest one.\<close>

definition table_row :: "nat \<Rightarrow> reason_action \<Rightarrow> string" where
  "table_row width r =
     ''  '' @ ra_code r @ replicate (width - length (ra_code r)) CHR '' '' @ ''  '' @ ra_action r"

definition table_width :: "reason_action list \<Rightarrow> nat" where
  "table_width rows = foldl (\<lambda>w r. if w < length (ra_code r) then length (ra_code r) else w) 0 rows"

definition trim_breaks :: "string \<Rightarrow> string" where
  "trim_breaks s = rev (dropWhile (\<lambda>c. c = line_break) (rev s))"

definition table :: "reason_action list \<Rightarrow> string" where
  "table rows = trim_breaks (concat (map (\<lambda>r. table_row (table_width rows) r @ [line_break]) rows))"

section \<open>The tools\<close>

record tool_def =
  td_name :: string
  td_title :: string
  td_description :: string
  td_schema :: json

definition toolOpenRun :: string where "toolOpenRun = ''open_run''"
definition toolLeaseIdentity :: string where "toolLeaseIdentity = ''lease_identity''"
definition toolClaimCode :: string where "toolClaimCode = ''claim_code''"
definition toolReleaseLease :: string where "toolReleaseLease = ''release_lease''"

definition claimReasons :: "reason_action list" where
  "claimReasons =
     [ReasonAction (reason_code ReasonOK)
         ''the secret is in `value`. Type it into the application.'',
      ReasonAction (reason_code ReasonTimeout)
         ''a message bound to this lease but has not settled yet. Call again with the SAME attempt and a larger timeout_ms. Nothing is wrong.'',
      ReasonAction (reason_code ReasonNoBinding)
         ''no message was ever addressed to this lease. Check the application really sent to `addr`, and that the send happened after the lease.'',
      ReasonAction (reason_code ReasonStaleFiltered)
         ''a message exists but predates this run. It belongs to an earlier run and will never become claimable here. Do not wait for it.'',
      ReasonAction (reason_code ReasonSuspectBinding)
         ''a message bound to this lease cannot be proven to be this run's. Stop and report it: this is evidence, not a transient fault.'',
      ReasonAction (reason_code ReasonAlreadyClaimed)
         ''the only candidate was already handed to an earlier claim. Calling again will not produce it. Have the application send a new message and raise `attempt`.'',
      ReasonAction (reason_code ReasonExpired)
         ''this attempt's claim outlived its own TTL. Raise `attempt` and have the application send again.'',
      ReasonAction (reason_code ReasonExtractionFail)
         ''a message arrived but no code or link could be read out of it. The message shape is the problem; retrying will not change it.'',
      ReasonAction (reason_code ReasonLeaseNotHeld)
         ''the lease was released or expired. Call lease_identity for a new one.'',
      ReasonAction (reason_code ReasonRunNotActive)
         ''the run ended or expired. Call open_run, then lease_identity.'']"

definition leaseErrors :: "reason_action list" where
  "leaseErrors =
     [ReasonAction (''not_found'')
         ''no such run, or this server holds no credential for it. Call open_run again.'',
      ReasonAction (reason_code ReasonRunNotActive)
         ''the run ended or expired. Call open_run again.'',
      ReasonAction (reason_code ReasonLeaseSeedFailed)
         ''the application refused to prepare this identity. The seeding endpoint is the problem; retrying will not help.'']"

definition releaseErrors :: "reason_action list" where
  "releaseErrors =
     [ReasonAction (''not_found'')
         ''no such lease, or this server holds no credential for it. If it was never leased in this session there is nothing to release.'']"

definition openRun_description :: string where
  "openRun_description =
      unlines
        [''Open a run. A run is the scope every identity, message and claim belongs to,'',
         ''and it is the first call of a session: lease_identity needs the run_id this'',
         ''returns.'',
         [],
         ''Takes no parameters. Returns run_id, checkpoint_at and expires_at.'',
         ''checkpoint_at is the instant before which mail is not claimable by this run,'',
         ''which is how a leftover message from an earlier run cannot be mistaken for'',
         ''this one's.'',
         [],
         ''The run's credential is held inside this server and never appears in a result.'']"

definition openRun_schema :: json where
  "openRun_schema =
     JObject [(''type'', JString ''object''),
      (''additionalProperties'', JBool False)]"

definition leaseIdentity_description :: string where
  "leaseIdentity_description =
      unlines
        [''Lease one identity for this run and get the email address to type into the'',
         ''application under test.'',
         [],
         ''The address is yours until you release it. No other run is handed the same'',
         ''one, and mail arriving at it is bound to this lease, which is what makes the'',
         ''claim below unambiguous rather than a search of a shared mailbox.'',
         [],
         ''Returns lease_id, addr, identity_id, role, mode, seed_state, pooled_policy and'',
         ''expires_at.'',
         [],
         ''Errors carry the server's code verbatim:'',
         []] @
      table leaseErrors @
      unlines
        [[],
         [],
         ''Identities are always ephemeral. Pooled mode is outside the frozen surface and'',
         ''this tool cannot ask for it.'']"

definition leaseIdentity_schema :: json where
  "leaseIdentity_schema =
     JObject [(''type'', JString ''object''),
      (''properties'', JObject [(''run_id'', JObject [(''type'', JString ''string''),
              (''description'', JString ''The run_id returned by open_run.'')]),
          (''role'', JObject [(''type'', JString ''string''),
              (''description'', JString ''A label for what this identity is for in your test, for example \"signup\" or \"invitee\". Free-form; it appears in the evidence ledger.'')])]),
      (''required'', JArray [JString ''run_id'', JString ''role'']),
      (''additionalProperties'', JBool False)]"

definition claimCode_description :: string where
  "claimCode_description =
      unlines
        [''Claim the secret delivered to a leased identity. It covers BOTH kinds: a one'',
         ''time code (email_otp) and a sign-in link (magic_link).'',
         [],
         ''The call waits. It returns as soon as a message bound to this lease is'',
         ''claimable, or when timeout_ms runs out - so there is never a reason to poll or'',
         ''to sleep between calls.'',
         [],
         ''Every outcome carries a `reason`, including the ones that are not failures.'',
         ''Branch on it:'',
         []] @
      table claimReasons @
      unlines
        [[],
         [],
         ''A reason is a result, not an error. Only a refused request - an unknown lease,'',
         ''a malformed call - comes back as an error.'',
         [],
         ''There is no idempotency_key parameter. The key is derived from the lease, the'',
         ''kind and `attempt`, so calling this tool again with the SAME attempt replays'',
         ''the same answer rather than consuming a second message. That is what makes a'',
         ''retry safe.'',
         [],
         ''Raise `attempt` only when you want a NEW message, after asking the'',
         ''application to send one - the resend case. Raising it without a resend just'',
         ''waits for a message that is not coming.'']"

definition claimCode_schema :: json where
  "claimCode_schema =
     JObject [(''type'', JString ''object''),
      (''properties'', JObject [(''lease_id'', JObject [(''type'', JString ''string''),
              (''description'', JString ''The lease_id returned by lease_identity.'')]),
          (''kind'', JObject [(''type'', JString ''string''),
              (''enum'', JArray [JString ''email_otp'', JString ''magic_link'']),
              (''description'', JString ''What to read out of the message: a one time code, or a sign-in link.'')]),
          (''timeout_ms'', JObject [(''type'', JString ''integer''),
              (''minimum'', JNumber ''0''),
              (''maximum'', JNumber ''120000''),
              (''description'', JString ''How long to wait for a claimable message. Defaults to 30000.'')]),
          (''attempt'', JObject [(''type'', JString ''integer''),
              (''minimum'', JNumber ''1''),
              (''description'', JString ''Which message of this lease and kind you are asking for. Defaults to 1. Raise it only after the application has sent a new message, for example after pressing a resend button.'')])]),
      (''required'', JArray [JString ''lease_id'', JString ''kind'']),
      (''additionalProperties'', JBool False)]"

definition releaseLease_description :: string where
  "releaseLease_description =
      unlines
        [''Give a leased identity back. Call it when you are done with the identity,'',
         ''including when the test failed: a lease nobody released stays held until the'',
         ''run expires.'',
         [],
         ''Returns no content on success. Releasing the same lease twice is not an error.'',
         [],
         ''Errors carry the server's code verbatim:'',
         []] @
      table releaseErrors"

definition releaseLease_schema :: json where
  "releaseLease_schema =
     JObject [(''type'', JString ''object''),
      (''properties'', JObject [(''lease_id'', JObject [(''type'', JString ''string''),
              (''description'', JString ''The lease_id returned by lease_identity.'')])]),
      (''required'', JArray [JString ''lease_id'']),
      (''additionalProperties'', JBool False)]"

definition tools :: "tool_def list" where
  "tools =
     [\<lparr>td_name = toolOpenRun, td_title = ''Open a run'',
        td_description = openRun_description, td_schema = openRun_schema\<rparr>,
      \<lparr>td_name = toolLeaseIdentity, td_title = ''Lease an identity'',
        td_description = leaseIdentity_description, td_schema = leaseIdentity_schema\<rparr>,
      \<lparr>td_name = toolClaimCode, td_title = ''Claim a code or magic link'',
        td_description = claimCode_description, td_schema = claimCode_schema\<rparr>,
      \<lparr>td_name = toolReleaseLease, td_title = ''Release a lease'',
        td_description = releaseLease_description, td_schema = releaseLease_schema\<rparr>]"

definition instructions :: string where
  "instructions =
      unlines
        [''AuthStunt hands out throwaway email identities and the codes sent to them, so a'',
         ''test never has to read a mailbox or guess.'',
         [],
         ''The order is always: open_run, then lease_identity for an address, then'',
         ''claim_code once the application has sent something to that address, then'',
         ''release_lease. Every claim outcome carries a reason code; branch on the code'',
         ''rather than on whether a value came back.'']"

section \<open>The bodies of results\<close>

text \<open>\<^verbatim>\<open>json.Marshal\<close> writes the entries of a map in the order of their keys.\<close>

definition capabilities_json :: json where
  "capabilities_json = JObject [(''tools'', JObject [])]"

definition serverName :: string where "serverName = ''authstunt''"

definition metaServerInfo :: string where
  "metaServerInfo = ''io.modelcontextprotocol/serverInfo''"

definition serverInfo :: "string \<Rightarrow> json" where
  "serverInfo version = JObject [(''name'', JString serverName), (''version'', JString version)]"

definition discoverResult :: "string \<Rightarrow> json" where
  "discoverResult version =
     JObject [(''_meta'', JObject [(metaServerInfo, serverInfo version)]),
       (''capabilities'', capabilities_json), (''instructions'', JString instructions),
       (''resultType'', JString ''complete''),
       (''supportedVersions'', JArray (map JString supportedVersions))]"

definition tool_json :: "tool_def \<Rightarrow> json" where
  "tool_json t =
     JObject ((''name'', JString (td_name t)) #
       (if td_title t = [] then [] else [(''title'', JString (td_title t))]) @
       [(''description'', JString (td_description t)), (''inputSchema'', td_schema t)])"

definition complete_if :: "bool \<Rightarrow> (string \<times> json) list" where
  "complete_if modern = (if modern then [(''resultType'', JString ''complete'')] else [])"

fun result_json :: "string \<Rightarrow> rpc_result \<Rightarrow> json" where
  "result_json version (Initialized v) =
     JObject [(''capabilities'', capabilities_json), (''instructions'', JString instructions),
       (''protocolVersion'', JString v), (''serverInfo'', serverInfo version)]"
| "result_json version Discovered = discoverResult version"
| "result_json version Pong = JObject []"
| "result_json version (ToolList modern) =
     JObject (complete_if modern @ [(''tools'', JArray (map tool_json tools))])"
| "result_json version (ToolResult texts is_error modern) =
     JObject ([(''content'', JArray (map (\<lambda>t. JObject [(''type'', JString ''text''), (''text'', JString t)]) texts)),
       (''isError'', JBool is_error)] @ complete_if modern)"

text \<open>A reader that looks for one key of a result finds what was put there.\<close>

definition entry_of :: "json \<Rightarrow> string \<Rightarrow> json option" where
  "entry_of j k = (case j of JObject kvs \<Rightarrow> map_of kvs k | _ \<Rightarrow> None)"

lemma result_json_type:
  "entry_of (result_json version r) ''resultType'' =
     (case r of Discovered \<Rightarrow> Some (JString ''complete'')
      | ToolList modern \<Rightarrow> (if modern then Some (JString ''complete'') else None)
      | ToolResult ts e modern \<Rightarrow> (if modern then Some (JString ''complete'') else None)
      | _ \<Rightarrow> None)"
  by (cases r) (simp_all add: entry_of_def complete_if_def discoverResult_def)

section \<open>Values that fit a schema\<close>

text \<open>
  An integer of JSON Schema has no bound. Literals with a fraction or an exponent are left out:
  they are no integers here, and the decoder takes none.
\<close>

definition json_integer :: "string \<Rightarrow> int option" where
  "json_integer s =
     (let neg = (take 1 s = ''-''); ds = (if neg then tl s else s);
          n = (if neg then - int (decimal_value ds) else int (decimal_value ds))
      in if ds \<noteq> [] \<and> list_all is_digit ds then Some n else None)"

lemma int64_literal_integer:
  "int64_literal s =
     (case json_integer s of None \<Rightarrow> None
      | Some n \<Rightarrow> if - (2 ^ 63) \<le> n \<and> n \<le> max_int64 then Some n else None)"
  by (auto simp: int64_literal_def json_integer_def Let_def)

definition fits_type :: "string \<Rightarrow> json \<Rightarrow> bool" where
  "fits_type t v =
     (if t = ''string'' then (case v of JString s \<Rightarrow> True | _ \<Rightarrow> False)
      else if t = ''integer'' then (case v of JNumber s \<Rightarrow> json_integer s \<noteq> None | _ \<Rightarrow> False)
      else if t = ''object'' then (case v of JObject kvs \<Rightarrow> True | _ \<Rightarrow> False)
      else False)"

definition has_type :: "json \<Rightarrow> json \<Rightarrow> bool" where
  "has_type sch v = (case entry_of sch ''type'' of Some (JString t) \<Rightarrow> fits_type t v | _ \<Rightarrow> True)"

text \<open>A limit binds integers only.\<close>

definition within_limit :: "(int \<Rightarrow> int \<Rightarrow> bool) \<Rightarrow> json option \<Rightarrow> json \<Rightarrow> bool" where
  "within_limit rel limit v =
     (case (limit, v) of
        (Some (JNumber m), JNumber s) \<Rightarrow>
          (case (json_integer m, json_integer s) of (Some a, Some b) \<Rightarrow> rel a b | _ \<Rightarrow> True)
      | _ \<Rightarrow> True)"

definition fits_value :: "json \<Rightarrow> json \<Rightarrow> bool" where
  "fits_value sch v \<longleftrightarrow>
     has_type sch v \<and> (case entry_of sch ''enum'' of Some (JArray xs) \<Rightarrow> v \<in> set xs | _ \<Rightarrow> True) \<and>
     within_limit (\<le>) (entry_of sch ''minimum'') v \<and> within_limit (\<ge>) (entry_of sch ''maximum'') v"

definition conforms :: "json \<Rightarrow> json \<Rightarrow> bool" where
  "conforms sch v \<longleftrightarrow>
     has_type sch v \<and>
     (case v of JObject kvs \<Rightarrow>
        list_all (\<lambda>(k, w). case Option.bind (entry_of sch ''properties'') (\<lambda>ps. entry_of ps k) of
            Some p \<Rightarrow> fits_value p w
          | None \<Rightarrow> entry_of sch ''additionalProperties'' \<noteq> Some (JBool False)) kvs \<and>
        (case entry_of sch ''required'' of
           Some (JArray rs) \<Rightarrow> list_all (\<lambda>r. \<exists>k \<in> fst ` set kvs. r = JString k) rs
         | _ \<Rightarrow> True)
      | _ \<Rightarrow> True)"

section \<open>The schemas say what the decoder takes\<close>

text \<open>The tool and the arguments a call carries.\<close>

fun tool_of :: "tool_call \<Rightarrow> string" where
  "tool_of OpenRun = toolOpenRun"
| "tool_of (LeaseIdentity r l) = toolLeaseIdentity"
| "tool_of (ClaimCode l k ms n) = toolClaimCode"
| "tool_of (ReleaseLease l) = toolReleaseLease"

definition is_int :: "int \<Rightarrow> json \<Rightarrow> bool" where
  "is_int i v = (case v of JNumber s \<Rightarrow> int64_literal s = Some i | _ \<Rightarrow> False)"

fun call_says :: "tool_call \<Rightarrow> string \<Rightarrow> json \<Rightarrow> bool" where
  "call_says OpenRun k v \<longleftrightarrow> False"
| "call_says (LeaseIdentity r l) k v \<longleftrightarrow> (k, v) \<in> {(''run_id'', JString r), (''role'', JString l)}"
| "call_says (ClaimCode l kd ms n) k v \<longleftrightarrow>
     (k, v) \<in> {(''lease_id'', JString l), (''kind'', JString kd)} \<or>
     k = ''timeout_ms'' \<and> is_int ms v \<or> k = ''attempt'' \<and> is_int n v"
| "call_says (ReleaseLease l) k v \<longleftrightarrow> (k, v) = (''lease_id'', JString l)"

text \<open>What decoding leaves in the struct when each entry has a field and fits it.\<close>

definition text_at :: "(string \<times> json) list \<Rightarrow> string \<Rightarrow> string \<Rightarrow> string" where
  "text_at kvs k old = (case map_of kvs k of Some (JString s) \<Rightarrow> s | _ \<Rightarrow> old)"

definition int_at :: "(string \<times> json) list \<Rightarrow> string \<Rightarrow> int option \<Rightarrow> int option" where
  "int_at kvs k old = (case map_of kvs k of Some (JNumber s) \<Rightarrow> int64_literal s | _ \<Rightarrow> old)"

fun is_text :: "json \<Rightarrow> bool" where
  "is_text (JString s) \<longleftrightarrow> True"
| "is_text _ \<longleftrightarrow> False"

fun is_int64 :: "json \<Rightarrow> bool" where
  "is_int64 (JNumber s) \<longleftrightarrow> int64_literal s \<noteq> None"
| "is_int64 _ \<longleftrightarrow> False"

lemma is_text_cases: "is_text v \<Longrightarrow> \<exists>s. v = JString s"
  by (cases v) auto

lemma is_int64_cases: "is_int64 v \<Longrightarrow> \<exists>s i. v = JNumber s \<and> int64_literal s = Some i"
  by (cases v) auto

lemma decode_release:
  assumes "distinct (map fst kvs)" "\<forall>(k, v) \<in> set kvs. k = ''lease_id'' \<and> is_text v"
  shows "decode_entries True [(''lease_id'', string_field (\<lambda>s _. s))] kvs (b, False) =
     (text_at kvs ''lease_id'' b, False)"
  using assms
proof (induction kvs arbitrary: b)
  case (Cons e kvs)
  obtain s where e: "e = (''lease_id'', JString s)"
    using Cons.prems(2) is_text_cases by (cases e) auto
  have "kvs = []" using Cons.prems e by (cases kvs) auto
  then show ?case by (simp add: e find_field_def string_field_def text_at_def)
qed (simp add: text_at_def)

lemma decode_lease:
  assumes "distinct (map fst kvs)" "\<forall>(k, v) \<in> set kvs. k \<in> {''run_id'', ''role''} \<and> is_text v"
  shows "decode_entries True lease_fields kvs (a, False) =
     (a\<lparr>la_run := text_at kvs ''run_id'' (la_run a), la_role := text_at kvs ''role'' (la_role a)\<rparr>, False)"
  using assms
proof (induction kvs arbitrary: a)
  case (Cons e kvs)
  obtain k s where e: "e = (k, JString s)" "k = ''run_id'' \<or> k = ''role''"
    using Cons.prems(2) is_text_cases by (cases e) fastforce
  have new: "map_of kvs k = None" using Cons.prems(1) e by (simp add: map_of_eq_None_iff)
  show ?case
    using e(2)
  proof
    assume k: "k = ''run_id''"
    show ?thesis
      using Cons.IH [of "a\<lparr>la_run := s\<rparr>"] Cons.prems new
      by (simp add: e(1) k find_field_def lease_fields_def string_field_def text_at_def)
  next
    assume k: "k = ''role''"
    show ?thesis
      using Cons.IH [of "a\<lparr>la_role := s\<rparr>"] Cons.prems new
      by (simp add: e(1) k find_field_def lease_fields_def string_field_def text_at_def)
  qed
qed (simp add: text_at_def)

definition claim_entry :: "string \<times> json \<Rightarrow> bool" where
  "claim_entry e \<longleftrightarrow>
     fst e \<in> {''lease_id'', ''kind''} \<and> is_text (snd e) \<or>
     fst e \<in> {''timeout_ms'', ''attempt''} \<and> is_int64 (snd e)"

lemma decode_claim:
  assumes "distinct (map fst kvs)" "\<forall>e \<in> set kvs. claim_entry e"
  shows "decode_entries True claim_fields kvs (a, False) =
     (a\<lparr>ca_lease := text_at kvs ''lease_id'' (ca_lease a), ca_kind := text_at kvs ''kind'' (ca_kind a),
        ca_timeout := int_at kvs ''timeout_ms'' (ca_timeout a), ca_attempt := int_at kvs ''attempt'' (ca_attempt a)\<rparr>,
      False)"
  using assms
proof (induction kvs arbitrary: a)
  case (Cons e kvs)
  obtain k v where e: "e = (k, v)" by (cases e)
  have new: "map_of kvs k = None" using Cons.prems(1) e by (simp add: map_of_eq_None_iff)
  have rest: "distinct (map fst kvs)" "\<forall>e \<in> set kvs. claim_entry e" using Cons.prems by simp_all
  note IH = Cons.IH [OF rest]
  consider "k = ''lease_id''" "is_text v" | "k = ''kind''" "is_text v"
    | "k = ''timeout_ms''" "is_int64 v" | "k = ''attempt''" "is_int64 v"
    using Cons.prems(2) e by (auto simp: claim_entry_def)
  then show ?case
  proof cases
    case 1
    then obtain s where v: "v = JString s" using is_text_cases by blast
    show ?thesis using IH [of "a\<lparr>ca_lease := s\<rparr>"] new
      by (simp add: e 1(1) v find_field_def claim_fields_def string_field_def text_at_def int_at_def)
  next
    case 2
    then obtain s where v: "v = JString s" using is_text_cases by blast
    show ?thesis using IH [of "a\<lparr>ca_kind := s\<rparr>"] new
      by (simp add: e 2(1) v find_field_def claim_fields_def string_field_def text_at_def int_at_def)
  next
    case 3
    then obtain s i where v: "v = JNumber s" "int64_literal s = Some i" using is_int64_cases by blast
    show ?thesis using IH [of "a\<lparr>ca_timeout := Some i\<rparr>"] new
      by (simp add: e 3(1) v find_field_def claim_fields_def int64_ptr_field_def text_at_def int_at_def)
  next
    case 4
    then obtain s i where v: "v = JNumber s" "int64_literal s = Some i" using is_int64_cases by blast
    show ?thesis using IH [of "a\<lparr>ca_attempt := Some i\<rparr>"] new
      by (simp add: e 4(1) v find_field_def claim_fields_def int64_ptr_field_def text_at_def int_at_def)
  qed
qed (simp add: text_at_def int_at_def)

text \<open>What conforms to the schema of each tool.\<close>

lemmas fits_defs = conforms_def fits_value_def has_type_def fits_type_def entry_of_def within_limit_def

lemma fits_object:
  assumes "conforms sch (JObject kvs)" "entry_of sch ''properties'' = Some (JObject ps)"
    and "entry_of sch ''additionalProperties'' = Some (JBool False)" "(k, v) \<in> set kvs"
  shows "\<exists>p. map_of ps k = Some p \<and> fits_value p v"
  using assms unfolding conforms_def list_all_iff
  by (fastforce simp: entry_of_def [of "JObject ps"] split: option.splits)

lemma fits_required:
  assumes "conforms sch (JObject kvs)" "entry_of sch ''required'' = Some (JArray rs)" "JString k \<in> set rs"
  shows "\<exists>v. (k, v) \<in> set kvs"
  using assms unfolding conforms_def list_all_iff by force

lemma fits_text: "fits_value p v \<Longrightarrow> entry_of p ''type'' = Some (JString ''string'') \<Longrightarrow> is_text v"
  by (cases v) (auto simp: fits_value_def has_type_def fits_type_def)

lemma fits_integer:
  assumes "fits_value p v" "entry_of p ''type'' = Some (JString ''integer'')"
  obtains s n where "v = JNumber s" "json_integer s = Some n"
  using assms by (cases v) (auto simp: fits_value_def has_type_def fits_type_def)

lemma fits_minimum:
  assumes "fits_value p (JNumber s)" "entry_of p ''minimum'' = Some (JNumber m)" "json_integer m = Some a"
    "json_integer s = Some n"
  shows "a \<le> n"
  using assms by (simp add: fits_value_def within_limit_def)

lemma fits_maximum:
  assumes "fits_value p (JNumber s)" "entry_of p ''maximum'' = Some (JNumber m)" "json_integer m = Some a"
    "json_integer s = Some n"
  shows "n \<le> a"
  using assms by (simp add: fits_value_def within_limit_def)

definition props_of :: "json \<Rightarrow> (string \<times> json) list" where
  "props_of sch = (case entry_of sch ''properties'' of Some (JObject ps) \<Rightarrow> ps | _ \<Rightarrow> [])"

definition closed_schema :: "json \<Rightarrow> string list \<Rightarrow> bool" where
  "closed_schema sch req \<longleftrightarrow>
     entry_of sch ''additionalProperties'' = Some (JBool False) \<and>
     (case entry_of sch ''properties'' of None \<Rightarrow> req = [] \<and> entry_of sch ''required'' = None
      | Some (JObject ps) \<Rightarrow> entry_of sch ''required'' = Some (JArray (map JString req))
      | _ \<Rightarrow> False)"

lemma closed_schemas:
  "closed_schema openRun_schema []" "closed_schema leaseIdentity_schema [''run_id'', ''role'']"
  "closed_schema claimCode_schema [''lease_id'', ''kind'']" "closed_schema releaseLease_schema [''lease_id'']"
  by code_simp+

lemma fits_closed:
  assumes "closed_schema sch req" "conforms sch (JObject kvs)"
  shows "(k, v) \<in> set kvs \<Longrightarrow> \<exists>p. map_of (props_of sch) k = Some p \<and> fits_value p v"
    and "k \<in> set req \<Longrightarrow> \<exists>v. (k, v) \<in> set kvs"
proof -
  show "\<exists>p. map_of (props_of sch) k = Some p \<and> fits_value p v" if kv: "(k, v) \<in> set kvs"
  proof (cases "entry_of sch ''properties''")
    case None
    then have "fits_value (JObject []) v \<Longrightarrow> False"
      using assms kv by (force simp: closed_schema_def conforms_def list_all_iff)
    moreover have False
      using None assms kv by (force simp: closed_schema_def conforms_def list_all_iff)
    ultimately show ?thesis by simp
  next
    case (Some j)
    then obtain ps where "j = JObject ps" using assms(1) by (cases j) (auto simp: closed_schema_def)
    then show ?thesis
      using fits_object [OF assms(2) _ _ kv] assms(1) Some by (simp add: closed_schema_def props_of_def)
  qed
  show "\<exists>v. (k, v) \<in> set kvs" if "k \<in> set req"
    using assms that fits_required [OF assms(2), of "map JString req" k]
    by (auto simp: closed_schema_def split: option.splits json.splits)
qed

lemma props_simps:
  "map_of (props_of openRun_schema) = (\<lambda>_. None)"
  "map_of (props_of leaseIdentity_schema) k = Some p \<Longrightarrow> k \<in> {''run_id'', ''role''} \<and>
     entry_of p ''type'' = Some (JString ''string'')"
  "map_of (props_of releaseLease_schema) k = Some p \<Longrightarrow> k = ''lease_id'' \<and>
     entry_of p ''type'' = Some (JString ''string'')"
  "map_of (props_of claimCode_schema) k = Some p \<Longrightarrow>
     k \<in> {''lease_id'', ''kind''} \<and> entry_of p ''type'' = Some (JString ''string'') \<or>
     k \<in> {''timeout_ms'', ''attempt''} \<and> entry_of p ''type'' = Some (JString ''integer'')"
  by (auto simp: props_of_def entry_of_def openRun_schema_def leaseIdentity_schema_def releaseLease_schema_def
      claimCode_schema_def split: if_splits)

lemma claim_limits:
  "map_of (props_of claimCode_schema) ''timeout_ms'' = Some p \<Longrightarrow>
     entry_of p ''minimum'' = Some (JNumber ''0'') \<and> entry_of p ''maximum'' = Some (JNumber ''120000'')"
  "map_of (props_of claimCode_schema) ''attempt'' = Some p \<Longrightarrow> entry_of p ''minimum'' = Some (JNumber ''1'')"
  "json_integer ''0'' = Some 0" "json_integer ''1'' = Some 1" "json_integer ''120000'' = Some 120000"
proof -
  show "map_of (props_of claimCode_schema) ''timeout_ms'' = Some p \<Longrightarrow>
     entry_of p ''minimum'' = Some (JNumber ''0'') \<and> entry_of p ''maximum'' = Some (JNumber ''120000'')"
    by (auto simp: props_of_def entry_of_def claimCode_schema_def)
  show "map_of (props_of claimCode_schema) ''attempt'' = Some p \<Longrightarrow> entry_of p ''minimum'' = Some (JNumber ''1'')"
    by (auto simp: props_of_def entry_of_def claimCode_schema_def)
qed (simp_all add: json_integer_def Let_def decimal_value_def digit_val_def is_digit_def less_eq_char_def)

text \<open>A call whose arguments fit the schema of its tool is decoded to what they say.\<close>

lemma text_at_entry: "distinct (map fst kvs) \<Longrightarrow> (k, JString s) \<in> set kvs \<Longrightarrow> text_at kvs k old = s"
  by (simp add: text_at_def)

lemma int_at_entry: "distinct (map fst kvs) \<Longrightarrow> (k, JNumber s) \<in> set kvs \<Longrightarrow> int_at kvs k old = int64_literal s"
  by (simp add: int_at_def)

lemma int_at_none: "k \<notin> fst ` set kvs \<Longrightarrow> int_at kvs k old = old"
  by (simp add: int_at_def map_of_eq_None_iff [symmetric])

lemma decodeArgs_entries:
  "decode_entries True fs kvs (zero, False) = (b, False) \<Longrightarrow> decodeArgs fs zero (Some (JObject kvs)) = Inr b"
  by (simp add: decodeArgs_def Unmarshal_def decode_struct_def)

definition plain_arguments :: "(string \<times> json) list \<Rightarrow> bool" where
  "plain_arguments kvs \<longleftrightarrow>
     distinct (map fst kvs) \<and>
     list_all (\<lambda>(k, v). case v of JNumber s \<Rightarrow> int64_literal s \<noteq> None | JString s \<Rightarrow> s \<noteq> [] | _ \<Rightarrow> True) kvs"

lemma plain_text: "plain_arguments kvs \<Longrightarrow> (k, JString s) \<in> set kvs \<Longrightarrow> s \<noteq> []"
  by (fastforce simp: plain_arguments_def list_all_iff)

lemma plain_number: "plain_arguments kvs \<Longrightarrow> (k, JNumber s) \<in> set kvs \<Longrightarrow> int64_literal s = json_integer s \<and> json_integer s \<noteq> None"
  by (fastforce simp: plain_arguments_def list_all_iff int64_literal_integer split: option.splits if_splits)

lemma plain_distinct: "plain_arguments kvs \<Longrightarrow> distinct (map fst kvs)"
  by (simp add: plain_arguments_def)

abbreviation call_of :: "string \<Rightarrow> (string \<times> json) list \<Rightarrow> call_params" where
  "call_of name kvs \<equiv> \<lparr>cp_name = name, cp_arguments = Some (JObject kvs)\<rparr>"

lemmas tool_names = toolOpenRun_def toolLeaseIdentity_def toolClaimCode_def toolReleaseLease_def

lemma fits_openRun:
  assumes "conforms openRun_schema (JObject kvs)"
  shows "kvs = []"
  using fits_closed(1) [OF closed_schemas(1) assms] by (cases kvs) (auto simp: props_simps(1))

lemma openRun_decodes:
  assumes "conforms openRun_schema (JObject kvs)"
  shows "tool_args (call_of toolOpenRun kvs) = Inr OpenRun"
  using fits_openRun [OF assms]
  by (simp add: tool_args_def tool_names decodeArgs_def Unmarshal_def decode_struct_def)

lemma release_decodes:
  assumes "conforms releaseLease_schema (JObject kvs)" "plain_arguments kvs"
  shows "\<exists>l. tool_args (call_of toolReleaseLease kvs) = Inr (ReleaseLease l) \<and> set kvs = {(''lease_id'', JString l)}"
proof -
  have all: "k = ''lease_id'' \<and> is_text v" if "(k, v) \<in> set kvs" for k v
    using fits_closed(1) [OF closed_schemas(4) assms(1) that] props_simps(3) fits_text by blast
  obtain v where v: "(''lease_id'', v) \<in> set kvs" using fits_closed(2) [OF closed_schemas(4) assms(1)] by auto
  obtain l where l: "(''lease_id'', JString l) \<in> set kvs" using all [OF v] v is_text_cases by blast
  have "l \<noteq> []" by (rule plain_text [OF assms(2) l])
  have "decodeArgs [(''lease_id'', string_field (\<lambda>s _. s))] [] (Some (JObject kvs)) = Inr l"
    using decodeArgs_entries [OF decode_release [OF plain_distinct [OF assms(2)]]] all
      text_at_entry [OF plain_distinct [OF assms(2)] l] by auto
  then have "tool_args (call_of toolReleaseLease kvs) = Inr (ReleaseLease l)"
    using \<open>l \<noteq> []\<close> by (simp add: tool_args_def tool_names)
  moreover have one: "e = (''lease_id'', JString l)" if e: "e \<in> set kvs" for e
  proof -
    have k: "fst e = ''lease_id''" using all [of "fst e" "snd e"] e by simp
    then have "(''lease_id'', snd e) \<in> set kvs" using e by (metis prod.collapse)
    from eq_key_imp_eq_value [OF plain_distinct [OF assms(2)] this l] k show ?thesis by (metis prod.collapse)
  qed
  have "set kvs = {(''lease_id'', JString l)}" using l one by blast
  ultimately show ?thesis by blast
qed

lemma lease_decodes:
  assumes "conforms leaseIdentity_schema (JObject kvs)" "plain_arguments kvs"
  shows "\<exists>r l. tool_args (call_of toolLeaseIdentity kvs) = Inr (LeaseIdentity r l) \<and>
     set kvs = {(''run_id'', JString r), (''role'', JString l)}"
proof -
  have all: "k \<in> {''run_id'', ''role''} \<and> is_text v" if "(k, v) \<in> set kvs" for k v
    using fits_closed(1) [OF closed_schemas(2) assms(1) that] props_simps(2) fits_text by blast
  obtain v w where v: "(''run_id'', v) \<in> set kvs" "(''role'', w) \<in> set kvs"
    using fits_closed(2) [OF closed_schemas(2) assms(1)] by (metis list.set_intros)
  obtain r l where l: "(''run_id'', JString r) \<in> set kvs" "(''role'', JString l) \<in> set kvs"
    using all [OF v(1)] all [OF v(2)] v is_text_cases by blast
  have ne: "r \<noteq> []" "l \<noteq> []" using plain_text [OF assms(2)] l by blast+
  note d = plain_distinct [OF assms(2)]
  have all': "\<forall>(k, v) \<in> set kvs. k \<in> {''run_id'', ''role''} \<and> is_text v" using all by blast
  have "decodeArgs lease_fields \<lparr>la_run = [], la_role = []\<rparr> (Some (JObject kvs)) = Inr \<lparr>la_run = r, la_role = l\<rparr>"
    using decodeArgs_entries [OF decode_lease [OF d all', of "\<lparr>la_run = [], la_role = []\<rparr>"]]
      text_at_entry [OF d l(1)] text_at_entry [OF d l(2)] by simp
  then have "tool_args (call_of toolLeaseIdentity kvs) = Inr (LeaseIdentity r l)"
    using ne by (simp add: tool_args_def tool_names)
  moreover have "(k, v) \<in> {(''run_id'', JString r), (''role'', JString l)}" if "(k, v) \<in> set kvs" for k v
  proof -
    have "k = ''run_id'' \<or> k = ''role''" using all [OF that] by simp
    then show ?thesis using eq_key_imp_eq_value [OF d that] l by auto
  qed
  ultimately show ?thesis using l by (intro exI [of _ r] exI [of _ l]) auto
qed

lemma claim_decodes:
  assumes "conforms claimCode_schema (JObject kvs)" "plain_arguments kvs"
  shows "\<exists>l kd ms n. tool_args (call_of toolClaimCode kvs) = Inr (ClaimCode l kd ms n) \<and>
     (\<forall>(k, v) \<in> set kvs. call_says (ClaimCode l kd ms n) k v)"
proof -
  note d = plain_distinct [OF assms(2)]
  note closed = fits_closed [OF closed_schemas(3) assms(1)]
  have all: "claim_entry (k, v)" if kv: "(k, v) \<in> set kvs" for k v
  proof -
    obtain p where p: "map_of (props_of claimCode_schema) k = Some p" "fits_value p v"
      using closed(1) [OF kv] by blast
    from props_simps(4) [OF p(1)] show ?thesis
    proof
      assume "k \<in> {''lease_id'', ''kind''} \<and> entry_of p ''type'' = Some (JString ''string'')"
      then show ?thesis using fits_text [OF p(2)] by (simp add: claim_entry_def)
    next
      assume t: "k \<in> {''timeout_ms'', ''attempt''} \<and> entry_of p ''type'' = Some (JString ''integer'')"
      then obtain s n where "v = JNumber s" using fits_integer [OF p(2)] by blast
      then show ?thesis using t plain_number [OF assms(2)] kv by (auto simp: claim_entry_def)
    qed
  qed
  obtain v w where v: "(''lease_id'', v) \<in> set kvs" "(''kind'', w) \<in> set kvs"
    using closed(2) by (metis list.set_intros)
  obtain l kd where l: "(''lease_id'', JString l) \<in> set kvs" "(''kind'', JString kd) \<in> set kvs"
    using all [OF v(1)] all [OF v(2)] v is_text_cases by (auto simp: claim_entry_def) blast
  have ne: "l \<noteq> []" "kd \<noteq> []" using plain_text [OF assms(2)] l by blast+
  let ?ms = "int_at kvs ''timeout_ms'' None" and ?n = "int_at kvs ''attempt'' None"
  have all': "\<forall>e \<in> set kvs. claim_entry e" using all by auto
  have dec: "decodeArgs claim_fields \<lparr>ca_lease = [], ca_kind = [], ca_timeout = None, ca_attempt = None\<rparr>
      (Some (JObject kvs)) = Inr \<lparr>ca_lease = l, ca_kind = kd, ca_timeout = ?ms, ca_attempt = ?n\<rparr>"
    using decodeArgs_entries [OF decode_claim [OF d all',
          of "\<lparr>ca_lease = [], ca_kind = [], ca_timeout = None, ca_attempt = None\<rparr>"]]
      text_at_entry [OF d l(1)] text_at_entry [OF d l(2)] by simp
  have num: "\<exists>i p. int_at kvs k None = Some i \<and> json_integer s = Some i \<and> int64_literal s = Some i \<and>
      map_of (props_of claimCode_schema) k = Some p \<and> fits_value p (JNumber s)"
    if "(k, JNumber s) \<in> set kvs" for k s
    using plain_number [OF assms(2) that] int_at_entry [OF d that] closed(1) [OF that] by fastforce
  have some: "\<exists>s. (k, JNumber s) \<in> set kvs" if k: "k \<in> {''timeout_ms'', ''attempt''}" "int_at kvs k None \<noteq> None" for k
  proof -
    have "k \<in> fst ` set kvs" using k(2) int_at_none [of k kvs None] by metis
    then obtain v where kv: "(k, v) \<in> set kvs" by auto
    then have "is_int64 v" using all [OF kv] k(1) by (auto simp: claim_entry_def)
    then show ?thesis using kv is_int64_cases by blast
  qed
  have ms: "0 \<le> i \<and> i \<le> 120000" if i: "?ms = Some i" for i
  proof -
    obtain s where s: "(''timeout_ms'', JNumber s) \<in> set kvs" using some [of "''timeout_ms''"] i by auto
    then obtain p where p: "json_integer s = Some i" "map_of (props_of claimCode_schema) ''timeout_ms'' = Some p"
      "fits_value p (JNumber s)" using num [OF s] i by auto
    note lim = claim_limits(1) [OF p(2)]
    show ?thesis
      using fits_minimum [OF p(3) _ claim_limits(3) p(1)] fits_maximum [OF p(3) _ claim_limits(5) p(1)] lim by blast
  qed
  have n: "1 \<le> i" if i: "?n = Some i" for i
  proof -
    obtain s where s: "(''attempt'', JNumber s) \<in> set kvs" using some [of "''attempt''"] i by auto
    then obtain p where p: "json_integer s = Some i" "map_of (props_of claimCode_schema) ''attempt'' = Some p"
      "fits_value p (JNumber s)" using num [OF s] i by auto
    show ?thesis
      using fits_minimum [OF p(3) claim_limits(2) [OF p(2)] claim_limits(4) p(1)] .
  qed
  let ?tc = "ClaimCode l kd (case ?ms of None \<Rightarrow> defaultClaimTimeoutMS | Some i \<Rightarrow> i) (case ?n of None \<Rightarrow> 1 | Some i \<Rightarrow> i)"
  have "tool_args (call_of toolClaimCode kvs) = Inr ?tc"
    using dec ne ms n
    by (cases ?ms; cases ?n)
       (fastforce simp: tool_args_def tool_names Let_def defaultClaimTimeoutMS_def maxClaimTimeoutMS_def)+
  moreover have "call_says ?tc k v" if kv: "(k, v) \<in> set kvs" for k v
  proof -
    consider "k = ''lease_id''" "is_text v" | "k = ''kind''" "is_text v"
      | "k = ''timeout_ms''" "is_int64 v" | "k = ''attempt''" "is_int64 v"
      using all [OF kv] by (auto simp: claim_entry_def)
    then show ?thesis
    proof cases
      case 1
      then show ?thesis using kv l(1) d by (simp add: eq_key_imp_eq_value)
    next
      case 2
      then show ?thesis using kv l(2) d by (simp add: eq_key_imp_eq_value)
    next
      case 3
      then obtain s where v: "v = JNumber s" using is_int64_cases by blast
      then show ?thesis using num [of k s] kv 3 by (auto simp: is_int_def)
    next
      case 4
      then obtain s where v: "v = JNumber s" using is_int64_cases by blast
      then show ?thesis using num [of k s] kv 4 by (auto simp: is_int_def)
    qed
  qed
  ultimately show ?thesis by blast
qed

text \<open>
  The schema of an attempt has no upper bound; beyond 64 bits an integer that fits it is answered
  as one that does not.
\<close>

lemma attempt_too_large:
  "conforms claimCode_schema (JObject [(''lease_id'', JString ''l''), (''kind'', JString ''email_otp''),
       (''attempt'', JNumber ''9223372036854775808'')]) \<and>
   tool_args (call_of toolClaimCode [(''lease_id'', JString ''l''), (''kind'', JString ''email_otp''),
       (''attempt'', JNumber ''9223372036854775808'')]) =
     Inl (invalid_params ''the arguments do not match this tool's schema'')"
proof -
  have n: "json_integer ''9223372036854775808'' = Some 9223372036854775808"
    by (simp add: json_integer_def Let_def decimal_value_def digit_val_def is_digit_def less_eq_char_def)
  then have "int64_literal ''9223372036854775808'' = None"
    by (simp add: int64_literal_integer max_int64_def)
  then show ?thesis
    using n claim_limits(4)
    by (simp add: claimCode_schema_def fits_defs tool_args_def tool_names decodeArgs_def Unmarshal_def
        decode_struct_def find_field_def claim_fields_def string_field_def int64_ptr_field_def)
qed

text \<open>The rows of the table of \<^verbatim>\<open>claim_code\<close>: all reasons but one.\<close>

lemma claimReasons_codes:
  "ra_code ` set claimReasons = reason_code ` {r. r \<noteq> ReasonLeaseSeedFailed}"
proof -
  have "{r. r \<noteq> ReasonLeaseSeedFailed} = {ReasonOK, ReasonTimeout, ReasonNoBinding, ReasonStaleFiltered,
      ReasonSuspectBinding, ReasonAlreadyClaimed, ReasonExpired, ReasonLeaseNotHeld, ReasonRunNotActive,
      ReasonExtractionFail}" (is "?l = ?r")
  proof (rule set_eqI)
    show "r \<in> ?l \<longleftrightarrow> r \<in> ?r" for r by (cases r) simp_all
  qed
  then show ?thesis by (auto simp: claimReasons_def)
qed

lemma reason_code_inject: "reason_code r = reason_code q \<longleftrightarrow> r = q"
  by (cases r; cases q) simp_all

lemma seed_failed_not_in_table: "reason_code ReasonLeaseSeedFailed \<notin> ra_code ` set claimReasons"
  unfolding claimReasons_codes by (auto simp: reason_code_inject simp del: reason_code.simps)

end
