(* ===== verification/Listing.thy ===== *)
theory Listing
  imports Messages
begin

text \<open>
  How a listing gets its recipients: \<^verbatim>\<open>attachRecipients\<close> of \<^verbatim>\<open>store/messages.go\<close>, which asks
  for them in batches and fills the page in place. \<^verbatim>\<open>Messages\<close> lets the recipients travel with
  their row; here that is what the batches come to.
\<close>

section \<open>The table and the query\<close>

type_synonym recipient_row = "ident \<times> string \<times> recipient_kind"

fun kind_text :: "recipient_kind \<Rightarrow> string" where
  "kind_text RecipientTo = ''to''"
| "kind_text RecipientCC = ''cc''"
| "kind_text RecipientBCC = ''bcc''"
| "kind_text RecipientEnvelope = ''envelope''"

text \<open>\<^verbatim>\<open>ORDER BY message_id, kind, addr\<close>; the column of addresses compares without case.\<close>

definition recipient_key :: "recipient_row \<Rightarrow> ident \<times> string \<times> string" where
  "recipient_key r = (fst r, kind_text (snd (snd r)), asciiLower (fst (snd r)))"

definition batch_rows :: "recipient_row list \<Rightarrow> ident list \<Rightarrow> recipient_row list" where
  "batch_rows table args = sort_key recipient_key (filter (\<lambda>r. fst r \<in> set args) table)"

text \<open>A page: the ids of its messages, each with the recipients found so far.\<close>

type_synonym page = "(ident \<times> (string \<times> recipient_kind) list) list"

definition byID :: "page \<Rightarrow> ident \<Rightarrow> nat option" where
  "byID page = map_of (rev (zip (map fst page) [0..<length page]))"

definition attach_row :: "(ident \<Rightarrow> nat option) \<Rightarrow> recipient_row \<Rightarrow> page \<Rightarrow> page" where
  "attach_row index r page =
     (case index (fst r) of
        None \<Rightarrow> page
      | Some i \<Rightarrow> page[i := (fst (page ! i), snd (page ! i) @ [snd r])])"

definition attachRecipientBatch ::
  "recipient_row list \<Rightarrow> ident list \<Rightarrow> (ident \<Rightarrow> nat option) \<Rightarrow> page \<Rightarrow> page" where
  "attachRecipientBatch table args index page = fold (attach_row index) (batch_rows table args) page"

definition recipientBatch :: nat where "recipientBatch = 500"

function attach_loop ::
  "nat \<Rightarrow> recipient_row list \<Rightarrow> (ident \<Rightarrow> nat option) \<Rightarrow> nat \<Rightarrow> page \<Rightarrow> page" where
  "attach_loop batch table index start page =
     (if start < length page \<and> 0 < batch then
        attach_loop batch table index (start + batch)
          (attachRecipientBatch table (map fst (take batch (drop start page))) index page)
      else page)"
  by pat_completeness auto

lemma length_attach_row [simp]: "length (attach_row index r page) = length page"
  by (simp add: attach_row_def split: option.split)

lemma length_attachRecipientBatch [simp]: "length (attachRecipientBatch table args index page) = length page"
proof -
  have "length (fold (attach_row index) rs page) = length page" for rs
    by (induction rs arbitrary: page) simp_all
  then show ?thesis by (simp add: attachRecipientBatch_def)
qed

termination attach_loop
  by (relation "measure (\<lambda>(batch, table, index, start, page). length page - start)") auto

declare attach_loop.simps [simp del]

definition attachRecipients :: "recipient_row list \<Rightarrow> page \<Rightarrow> page" where
  "attachRecipients table page = attach_loop recipientBatch table (byID page) 0 page"

section \<open>What the batches come to\<close>

text \<open>The recipients of one message, asked for alone.\<close>

definition recipients_of :: "recipient_row list \<Rightarrow> ident \<Rightarrow> (string \<times> recipient_kind) list" where
  "recipients_of table m = map snd (sort_key recipient_key (filter (\<lambda>r. fst r = m) table))"

lemma byID_nth:
  assumes "distinct (map fst page)" "i < length page"
  shows "byID page (fst (page ! i)) = Some i"
proof -
  let ?kvs = "zip (map fst page) [0..<length page]"
  have "distinct (map fst (rev ?kvs))" using assms(1) by (simp add: rev_map [symmetric])
  moreover have "(fst (page ! i), i) \<in> set (rev ?kvs)"
    using assms(2) by (force simp: in_set_zip)
  ultimately show ?thesis unfolding byID_def by (rule map_of_is_SomeI)
qed

lemma byID_Some: "byID page m = Some i \<Longrightarrow> i < length page \<and> fst (page ! i) = m"
  unfolding byID_def by (auto dest!: map_of_SomeD simp: in_set_zip)

text \<open>Filling in rows appends, to each message, those that are its own.\<close>

lemma attach_rows:
  assumes "distinct (map fst page)"
  shows "fold (attach_row (byID page)) rs page =
     map (\<lambda>(m, found). (m, found @ map snd (filter (\<lambda>r. fst r = m) rs))) page"
proof -
  have "fold (attach_row index) rs p = map (\<lambda>(m, found). (m, found @ map snd (filter (\<lambda>r. fst r = m) rs))) p"
    if "distinct (map fst p)" "\<And>m i. index m = Some i \<longleftrightarrow> i < length p \<and> fst (p ! i) = m" for index p
    using that
  proof (induction rs arbitrary: p)
    case Nil
    show ?case by (induction p) auto
  next
    case (Cons r rs)
    let ?q = "attach_row index r p"
    have step: "?q = map (\<lambda>(m, found). (m, found @ (if fst r = m then [snd r] else []))) p"
    proof (cases "index (fst r)")
      case None
      have "fst e \<noteq> fst r" if "e \<in> set p" for e
        using that None Cons.prems(2) by (metis in_set_conv_nth option.distinct(1))
      then have "map (\<lambda>(m, found). (m, found @ (if fst r = m then [snd r] else []))) p = p"
        by (intro map_idI) fastforce
      then show ?thesis by (simp add: attach_row_def None)
    next
      case (Some i)
      then have i: "i < length p" "fst (p ! i) = fst r" using Cons.prems(2) by auto
      have other: "fst (p ! j) \<noteq> fst r" if "j < length p" "j \<noteq> i" for j
        using that i Cons.prems(1) by (metis length_map nth_eq_iff_index_eq nth_map)
      have "p[i := (fst (p ! i), snd (p ! i) @ [snd r])] ! j =
          (case p ! j of (m, found) \<Rightarrow> (m, found @ (if fst r = m then [snd r] else [])))" if j: "j < length p" for j
      proof (cases "j = i")
        case True
        then show ?thesis using i by (simp add: case_prod_beta)
      next
        case False
        then have "fst r \<noteq> fst (p ! j)" using other [OF j] by simp
        then show ?thesis using False j by (simp add: case_prod_beta)
      qed
      then show ?thesis
        by (intro nth_equalityI) (simp_all add: attach_row_def Some)
    qed
    have ids: "map fst ?q = map fst p" unfolding step by (simp add: comp_def case_prod_beta)
    have nth: "fst (?q ! j) = fst (p ! j)" if "j < length p" for j
      using ids that by (metis length_attach_row nth_map)
    have "fold (attach_row index) rs ?q =
        map (\<lambda>(m, found). (m, found @ map snd (filter (\<lambda>r. fst r = m) rs))) ?q"
      using Cons.prems nth by (intro Cons.IH) (auto simp: ids)
    also have "\<dots> = map (\<lambda>(m, found). (m, found @ map snd (filter (\<lambda>s. fst s = m) (r # rs)))) p"
      unfolding step by (auto simp: comp_def)
    finally show ?case by simp
  qed
  moreover have "byID page m = Some i \<longleftrightarrow> i < length page \<and> fst (page ! i) = m" for m i
    using byID_nth [OF assms, of i] byID_Some [of page m i] by auto
  ultimately show ?thesis using assms by blast
qed

lemma filter_batch:
  "filter (\<lambda>r. fst r = m) (batch_rows table args) =
     (if m \<in> set args then sort_key recipient_key (filter (\<lambda>r. fst r = m) table) else [])"
proof -
  have "filter (\<lambda>r. fst r = m) (filter (\<lambda>r. fst r \<in> set args) table) =
      (if m \<in> set args then filter (\<lambda>r. fst r = m) table else [])"
    by (induction table) auto
  then show ?thesis by (simp add: batch_rows_def filter_sort)
qed

lemma attachRecipientBatch_spec:
  assumes "distinct (map fst page)"
  shows "attachRecipientBatch table args (byID page) page =
     map (\<lambda>(m, found). (m, found @ (if m \<in> set args then recipients_of table m else []))) page"
  unfolding attachRecipientBatch_def attach_rows [OF assms] filter_batch
  by (simp add: recipients_of_def if_distrib cong: if_cong)

lemma byID_ids: "map fst page = map fst page' \<Longrightarrow> byID page = byID page'"
  unfolding byID_def by (metis length_map)

lemma attach_loop_spec:
  assumes "distinct (map fst page)" "0 < batch"
  shows "attach_loop batch table (byID page) start page =
     map (\<lambda>(i, m, found). (m, found @ (if start \<le> i then recipients_of table m else [])))
       (zip [0..<length page] page)"
  using assms
proof (induction "length page - start" arbitrary: start page rule: less_induct)
  case less
  show ?case
  proof (cases "start < length page")
    case False
    then have "attach_loop batch table (byID page) start page = page"
      by (simp add: attach_loop.simps [of batch])
    then show ?thesis using False by (intro nth_equalityI) (auto split: prod.split)
  next
    case True
    let ?args = "map fst (take batch (drop start page))"
    let ?q = "attachRecipientBatch table ?args (byID page) page"
    have q: "?q = map (\<lambda>(m, found). (m, found @ (if m \<in> set ?args then recipients_of table m else []))) page"
      by (rule attachRecipientBatch_spec [OF less.prems(1)])
    have ids: "map fst ?q = map fst page" unfolding q by (simp add: comp_def case_prod_beta)
    have mem: "fst (page ! i) \<in> set ?args \<longleftrightarrow> start \<le> i \<and> i < start + batch" if i: "i < length page" for i
    proof
      assume "fst (page ! i) \<in> set ?args"
      then obtain k where k: "k < length (take batch (drop start page))"
        "fst (take batch (drop start page) ! k) = fst (page ! i)" by (auto simp: in_set_conv_nth)
      then have "fst (page ! (start + k)) = fst (page ! i)" using less_imp_le [OF True] by simp
      moreover have "start + k < length page" using k(1) by (simp, arith)
      ultimately have "start + k = i"
        using nth_eq_iff_index_eq [OF less.prems(1), of "start + k" i] i by simp
      then show "start \<le> i \<and> i < start + batch" using k by auto
    next
      assume s: "start \<le> i \<and> i < start + batch"
      then have "take batch (drop start page) ! (i - start) = page ! i" "i - start < length (take batch (drop start page))"
        using i by auto
      then show "fst (page ! i) \<in> set ?args" by (metis image_eqI nth_mem set_map)
    qed
    have "attach_loop batch table (byID page) start page = attach_loop batch table (byID ?q) (start + batch) ?q"
      using True less.prems(2) byID_ids [OF ids] by (simp add: attach_loop.simps [of batch _ _ start])
    also have "\<dots> = map (\<lambda>(i, m, found). (m, found @ (if start + batch \<le> i then recipients_of table m else [])))
        (zip [0..<length ?q] ?q)"
      by (rule less.hyps) (use True less.prems ids in auto)
    also have "\<dots> = map (\<lambda>(i, m, found). (m, found @ (if start \<le> i then recipients_of table m else [])))
        (zip [0..<length page] page)" (is "?l = ?r")
    proof (rule nth_equalityI)
      fix i assume "i < length ?l"
      then have i: "i < length page" by simp
      have "?q ! i = (fst (page ! i), snd (page ! i) @ (if start \<le> i \<and> i < start + batch then recipients_of table (fst (page ! i)) else []))"
        unfolding q using mem [OF i] i by (simp add: case_prod_beta)
      then show "?l ! i = ?r ! i" using i by (cases "page ! i") auto
    qed simp
    finally show ?thesis .
  qed
qed

text \<open>Whatever the size of the page, each message gets its own recipients, in order.\<close>

lemma attachRecipients_spec:
  assumes "distinct ms"
  shows "attachRecipients table (map (\<lambda>m. (m, [])) ms) = map (\<lambda>m. (m, recipients_of table m)) ms"
proof -
  let ?page = "map (\<lambda>m. (m, [])) ms :: page"
  have "distinct (map fst ?page)" using assms by (simp add: comp_def)
  from attach_loop_spec [OF this, of recipientBatch table 0] show ?thesis
    by (intro nth_equalityI) (simp_all add: attachRecipients_def recipientBatch_def)
qed

text \<open>The table that the rows of the model stand for.\<close>

definition recipient_table :: "message list \<Rightarrow> recipient_row list" where
  "recipient_table ms = concat (map (\<lambda>m. map (Pair (msg_id m)) (msg_recipients m)) ms)"

lemma recipient_table_filter:
  assumes "distinct (map msg_id ms)" "m \<in> set ms"
  shows "filter (\<lambda>r. fst r = msg_id m) (recipient_table ms) = map (Pair (msg_id m)) (msg_recipients m)"
  using assms
proof (induction ms)
  case (Cons n ms)
  have none: "filter (\<lambda>r. fst r = msg_id n) (recipient_table ms) = []"
    using Cons.prems(1) by (auto simp: recipient_table_def filter_empty_conv) (metis image_eqI)
  show ?case
  proof (cases "m = n")
    case True
    then show ?thesis using none by (simp add: recipient_table_def)
  next
    case False
    then have "m \<in> set ms" "msg_id n \<noteq> msg_id m" using Cons.prems by auto
    then show ?thesis using Cons by (simp add: recipient_table_def filter_map comp_def)
  qed
qed simp

definition recipient_order :: "string \<times> recipient_kind \<Rightarrow> string \<times> string" where
  "recipient_order r = (kind_text (snd r), asciiLower (fst r))"

lemma recipient_key_Pair: "recipient_key (i, x) \<le> recipient_key (i, y) \<longleftrightarrow> recipient_order x \<le> recipient_order y"
  by (simp add: recipient_key_def recipient_order_def)

lemma sort_recipients:
  "sort_key recipient_key (map (Pair i) xs) = map (Pair i) (sort_key recipient_order xs)"
proof -
  have "insort_key recipient_key (i, x) (map (Pair i) ys) = map (Pair i) (insort_key recipient_order x ys)" for x ys
    by (induction ys) (simp_all add: recipient_key_Pair)
  then show ?thesis by (induction xs) (simp_all add: sort_key_def)
qed

lemma recipients_of_row:
  assumes "distinct (map msg_id ms)" "m \<in> set ms"
  shows "recipients_of (recipient_table ms) (msg_id m) = sort_key recipient_order (msg_recipients m)"
  by (simp add: recipients_of_def recipient_table_filter [OF assms] sort_recipients comp_def)

text \<open>A listing: the rows it selects, filled in from the table.\<close>

lemma listing_recipients:
  assumes "message_inv (messages s)"
  shows "attachRecipients (recipient_table (messages s))
       (map (\<lambda>v. (msg_id (mv_row v), [])) (ListMessages to_ascii s f)) =
     map (\<lambda>v. (msg_id (mv_row v), sort_key recipient_order (msg_recipients (mv_row v)))) (ListMessages to_ascii s f)"
proof -
  let ?P = "\<lambda>m. message_selected to_ascii f m \<and> (cursor_is_zero (mf_cursor f) \<or> CursorFor m < mf_cursor f)"
  let ?rows = "newest_first (rows_where ?P (messages s))"
  let ?page = "if 0 < mf_limit f then take (mf_limit f) ?rows else ?rows"
  have ids: "distinct (map msg_id (messages s))" using assms by (simp add: message_inv_def)
  have row: "mv_row (scan_message s m) = m" for m by (simp add: scan_message_def Let_def split: option.split)
  have list: "map mv_row (ListMessages to_ascii s f) = ?page"
    by (simp add: ListMessages_def Let_def row comp_def)
  have "distinct (map msg_id ?rows)"
    using ids by (simp add: newest_first_def rev_map [symmetric] distinct_map inj_on_def)
  then have d: "distinct (map msg_id ?page)" by (simp add: take_map [symmetric])
  have sub: "set ?page \<subseteq> set (messages s)" by (auto simp: newest_first_def dest: in_set_takeD)
  have "attachRecipients (recipient_table (messages s)) (map (\<lambda>m. (m, [])) (map msg_id ?page)) =
      map (\<lambda>m. (m, recipients_of (recipient_table (messages s)) m)) (map msg_id ?page)"
    by (rule attachRecipients_spec [OF d])
  also have "\<dots> = map (\<lambda>m. (msg_id m, sort_key recipient_order (msg_recipients m))) ?page"
    using recipients_of_row [OF ids] sub by (auto simp: comp_def)
  finally show ?thesis unfolding list [symmetric] by (simp add: comp_def)
qed

end
