(* ===== verification/KeyDir.thy ===== *)
theory KeyDir
  imports Secrets "HOL-Library.Word"
begin

text \<open>
  Who can reach the key file: the mode bits of \<^verbatim>\<open>secrets/keys.go\<close> and
  \<^verbatim>\<open>secrets/keys_unix.go\<close>, and the access control list of \<^verbatim>\<open>secrets/keys_windows.go\<close>.
  \<^verbatim>\<open>Secrets\<close> takes from here whether a file is private.
\<close>

unbundle bit_operations_syntax

section \<open>Mode bits\<close>

type_synonym file_mode = "32 word"

text \<open>The bits of group and others, \<^verbatim>\<open>0o077\<close>, and the mode a directory gets, \<^verbatim>\<open>0o700\<close>.\<close>

definition others_bits :: file_mode where "others_bits = 63"
definition perm_bits :: file_mode where "perm_bits = 511"
definition owner_only :: file_mode where "owner_only = 448"

definition perm :: "file_mode \<Rightarrow> file_mode" where "perm m = m AND perm_bits"

text \<open>What stands at the path of the keys directory.\<close>

datatype dir_entry = LinkEntry | OtherEntry | DirEntry file_mode

datatype keys_dir_error = KeysDirFailed | KeysDirLink | KeysDirNoDirectory | KeysDirNotNarrowed

text \<open>
  \<^verbatim>\<open>narrowDir\<close>: nothing to do on Windows, and a \<^verbatim>\<open>chmod\<close> that can fail elsewhere.
\<close>

definition narrowDir :: "bool \<Rightarrow> bool \<Rightarrow> file_mode \<Rightarrow> keys_dir_error + file_mode" where
  "narrowDir posix chmod_ok m =
     (if \<not> posix \<or> perm m AND others_bits = 0 then Inr m
      else if chmod_ok then Inr owner_only else Inl KeysDirNotNarrowed)"

text \<open>
  \<^verbatim>\<open>prepareKeysDir\<close>: \<open>entry\<close> is what \<^verbatim>\<open>Lstat\<close> sees once \<^verbatim>\<open>MkdirAll\<close> has made the
  directory, if there was none, or \<open>None\<close> when one of the two failed.
\<close>

definition prepareKeysDir :: "bool \<Rightarrow> bool \<Rightarrow> dir_entry option \<Rightarrow> keys_dir_error + file_mode" where
  "prepareKeysDir posix chmod_ok entry =
     (case entry of
        None \<Rightarrow> Inl KeysDirFailed
      | Some LinkEntry \<Rightarrow> Inl KeysDirLink
      | Some OtherEntry \<Rightarrow> Inl KeysDirNoDirectory
      | Some (DirEntry m) \<Rightarrow> narrowDir posix chmod_ok m)"

text \<open>\<^verbatim>\<open>checkKeyFileAccess\<close> of the two platforms: it refuses, it never repairs.\<close>

definition checkKeyFileAccess_unix :: "file_mode \<Rightarrow> bool" where
  "checkKeyFileAccess_unix m \<longleftrightarrow> perm m AND others_bits = 0"

text \<open>
  An entry of the list is a type byte and a security identifier. Only the plain allow entry is
  looked at; \<open>None\<close> stands for what the system could not read.
\<close>

record ace =
  ace_type :: "8 word"
  ace_sid :: string

definition ACCESS_ALLOWED_ACE_TYPE :: "8 word" where "ACCESS_ALLOWED_ACE_TYPE = 0"

datatype access_error = AccessUnknown | UnsafeKeyFile

fun check_aces :: "string \<Rightarrow> ace option list \<Rightarrow> access_error option" where
  "check_aces user [] = None"
| "check_aces user (None # as) = Some AccessUnknown"
| "check_aces user (Some a # as) =
     (if ace_type a \<noteq> ACCESS_ALLOWED_ACE_TYPE then check_aces user as
      else if ace_sid a \<noteq> user then Some UnsafeKeyFile
      else check_aces user as)"

definition checkKeyFileAccess_windows ::
  "string option \<Rightarrow> ace option list option option \<Rightarrow> access_error option" where
  "checkKeyFileAccess_windows user security =
     (case user of
        None \<Rightarrow> Some AccessUnknown
      | Some u \<Rightarrow>
          (case security of
             None \<Rightarrow> Some AccessUnknown
           | Some None \<Rightarrow> Some UnsafeKeyFile
           | Some (Some aces) \<Rightarrow> check_aces u aces))"

text \<open>\<^verbatim>\<open>restrictToOwner\<close>: a list of one entry, which allows the user everything.\<close>

definition restrictToOwner_windows :: "string \<Rightarrow> ace list" where
  "restrictToOwner_windows user = [\<lparr>ace_type = ACCESS_ALLOWED_ACE_TYPE, ace_sid = user\<rparr>]"

text \<open>
  \<^verbatim>\<open>LoadOrCreateKey\<close>: the two checks before the file is looked at; \<open>outcome\<close> is where the
  steps of \<open>key_step\<close> end that start at \<open>Loading\<close>.
\<close>

datatype load_error = UnsafeProjectID string | LoadKeysDir keys_dir_error | NoKey

definition LoadOrCreateKey ::
  "bool \<Rightarrow> bool \<Rightarrow> dir_entry option \<Rightarrow> string \<Rightarrow> key_pc \<Rightarrow> load_error + string" where
  "LoadOrCreateKey posix chmod_ok entry project outcome =
     (if \<not> safeProjectID project then Inl (UnsafeProjectID project)
      else case prepareKeysDir posix chmod_ok entry of
        Inl e \<Rightarrow> Inl (LoadKeysDir e)
      | Inr m \<Rightarrow> (case outcome of HasKey k \<Rightarrow> Inr k | _ \<Rightarrow> Inl NoKey))"

section \<open>What the checks let through\<close>

lemma others_bits_iff: "perm m AND others_bits = 0 \<longleftrightarrow> (\<forall>i < 6. \<not> bit m i)"
proof -
  have o': "others_bits = mask 6" and p: "perm_bits = mask 9"
    by (simp_all add: others_bits_def perm_bits_def mask_eq_exp_minus_1)
  have "perm m AND others_bits = take_bit 6 m"
    by (simp add: perm_def o' p and.assoc take_bit_eq_mask [symmetric] min_def flip: take_bit_and)
  also have "take_bit 6 m = 0 \<longleftrightarrow> (\<forall>i < 6. \<not> bit m i)"
    by (auto simp: bit_eq_iff bit_take_bit_iff)
  finally show ?thesis .
qed

text \<open>A file that passes has no bit of group or others, so no one else reads, writes or runs it.\<close>

lemma checkKeyFileAccess_unix_iff: "checkKeyFileAccess_unix m \<longleftrightarrow> (\<forall>i < 6. \<not> bit m i)"
  by (simp add: checkKeyFileAccess_unix_def others_bits_iff)

text \<open>A keys directory that is used is a directory and closed to others, whatever it was before.\<close>

lemma prepareKeysDir_closed:
  assumes "prepareKeysDir True chmod_ok entry = Inr m"
  shows "(\<exists>m0. entry = Some (DirEntry m0)) \<and> (\<forall>i < 6. \<not> bit m i)"
proof -
  have "perm owner_only AND others_bits = 0" by (simp add: perm_def owner_only_def perm_bits_def others_bits_def)
  then have own: "\<forall>i < 6. \<not> bit owner_only i" by (simp add: others_bits_iff)
  show ?thesis
    using assms own
    by (auto simp: prepareKeysDir_def narrowDir_def others_bits_iff [symmetric]
        split: option.splits dir_entry.splits if_splits)
qed

lemma prepareKeysDir_link: "prepareKeysDir posix chmod_ok (Some LinkEntry) = Inl KeysDirLink"
  by (simp add: prepareKeysDir_def)

text \<open>On Windows no plain allow entry of a list that passes names anyone but the user.\<close>

lemma check_aces_iff:
  "check_aces user as = None \<longleftrightarrow>
     (\<forall>a \<in> set as. \<exists>x. a = Some x \<and> (ace_type x = ACCESS_ALLOWED_ACE_TYPE \<longrightarrow> ace_sid x = user))"
  by (induction user as rule: check_aces.induct) auto

lemma restrictToOwner_passes:
  "checkKeyFileAccess_windows (Some user) (Some (Some (map Some (restrictToOwner_windows owner)))) = None
     \<longleftrightarrow> user = owner"
  by (auto simp: checkKeyFileAccess_windows_def restrictToOwner_windows_def)

lemma no_list_refused: "checkKeyFileAccess_windows user (Some None) \<noteq> None"
  by (simp add: checkKeyFileAccess_windows_def split: option.split)

text \<open>
  An entry of any other type is passed over as if it denied, so the list may still grant access
  through an allow entry of another type, such as the conditional one (type 9).
\<close>

lemma other_allow_types_pass:
  "checkKeyFileAccess_windows (Some user) (Some (Some
     [Some \<lparr>ace_type = ACCESS_ALLOWED_ACE_TYPE, ace_sid = user\<rparr>, Some \<lparr>ace_type = 9, ace_sid = other\<rparr>])) = None"
  by (simp add: checkKeyFileAccess_windows_def ACCESS_ALLOWED_ACE_TYPE_def)

section \<open>Reading through the checks\<close>

text \<open>
  \<^verbatim>\<open>readKeyFile\<close> over modes: the private flag of \<^verbatim>\<open>Secrets\<close> is the check of the mode.
\<close>

definition modes_of :: "(nat \<Rightarrow> file_mode) \<Rightarrow> key_fs \<Rightarrow> key_fs" where
  "modes_of modes f = f\<lparr>kfs_private := (\<lambda>i. checkKeyFileAccess_unix (modes i))\<rparr>"

lemma readKeyFile_private:
  assumes "readKeyFile (modes_of modes f) = KeyBytes m"
  obtains i where "kfs_path f = Some (FileNode i)" "\<forall>j < 6. \<not> bit (modes i) j"
    "m = take (keySize + 1) (kfs_data f i)"
  using assms that
  by (auto simp: readKeyFile_def modes_of_def checkKeyFileAccess_unix_iff
      split: option.splits key_node.splits if_splits)

end
