(* ===== verification/CommandLine.thy ===== *)
theory CommandLine
  imports BearerCli Opening Mcp KeyDir
begin

text \<open>
  The command line: \<^verbatim>\<open>main.go\<close>, \<^verbatim>\<open>mcp.go\<close> and the flags of \<^verbatim>\<open>serve.go\<close> and
  \<^verbatim>\<open>bearer.go\<close> in \<^verbatim>\<open>cmd/authstunt\<close>, over the parser of the standard library's \<^verbatim>\<open>flag\<close>.
\<close>

section \<open>Commands\<close>

datatype command =
    ShowUsage | ShowVersion | ServeCommand "string list" | ProjectCommand "string list"
  | MCPCommand "string list" | UnknownCommand string

definition run_command :: "string list \<Rightarrow> command" where
  "run_command args =
     (case args of
        [] \<Rightarrow> ShowUsage
      | c # rest \<Rightarrow>
          if c = ''version'' then ShowVersion
          else if c = ''serve'' then ServeCommand rest
          else if c = ''project'' then ProjectCommand rest
          else if c = ''mcp'' then MCPCommand rest
          else if c = ''help'' \<or> c = ''-h'' \<or> c = ''--help'' then ShowUsage
          else UnknownCommand c)"

section \<open>The flag package\<close>

text \<open>A flag takes a truth value or a text, which it may refuse.\<close>

datatype 'o flag = BoolFlag "bool \<Rightarrow> 'o \<Rightarrow> 'o" | ValueFlag "string \<Rightarrow> 'o \<Rightarrow> 'o option"

datatype flag_error =
    BadSyntax string | NotDefined string | HelpAsked | NeedsArgument string | InvalidValue string

definition ParseBool :: "string \<Rightarrow> bool option" where
  "ParseBool s =
     (if s \<in> {''1'', ''t'', ''T'', ''true'', ''TRUE'', ''True''} then Some True
      else if s \<in> {''0'', ''f'', ''F'', ''false'', ''FALSE'', ''False''} then Some False
      else None)"

text \<open>The name and the value after the first \<^verbatim>\<open>=\<close> that is not the first character.\<close>

definition split_name :: "string \<Rightarrow> string \<times> string option" where
  "split_name s =
     (case s of
        [] \<Rightarrow> ([], None)
      | c # cs \<Rightarrow>
          (let n = takeWhile (\<lambda>d. d \<noteq> CHR ''='') cs; v = dropWhile (\<lambda>d. d \<noteq> CHR ''='') cs
           in (c # n, if v = [] then None else Some (tl v))))"

text \<open>
  \<^verbatim>\<open>parseOne\<close>: whether a flag was read, the settings after it and the arguments left.
  \<open>setFlag\<close> is its part for a name that is well formed.
\<close>

definition flag_name :: "string \<Rightarrow> string" where
  "flag_name a = (if a ! 1 = CHR ''-'' then drop 2 a else drop 1 a)"

definition setFlag ::
  "(string \<Rightarrow> 'o flag option) \<Rightarrow> string \<Rightarrow> string option \<Rightarrow> string list \<Rightarrow> 'o \<Rightarrow>
     flag_error + bool \<times> 'o \<times> string list" where
  "setFlag flags n value args b =
     (case flags n of
        None \<Rightarrow> Inl (if n = ''help'' \<or> n = ''h'' then HelpAsked else NotDefined n)
      | Some (BoolFlag f) \<Rightarrow>
          (case value of
             None \<Rightarrow> Inr (True, f True b, args)
           | Some v \<Rightarrow>
               (case ParseBool v of
                  None \<Rightarrow> Inl (InvalidValue n)
                | Some x \<Rightarrow> Inr (True, f x b, args)))
      | Some (ValueFlag f) \<Rightarrow>
          (case (case value of Some v \<Rightarrow> v # args | None \<Rightarrow> args) of
             [] \<Rightarrow> Inl (NeedsArgument n)
           | v # rest \<Rightarrow>
               (case f v b of
                  None \<Rightarrow> Inl (InvalidValue n)
                | Some b1 \<Rightarrow> Inr (True, b1, rest))))"

fun parseOne ::
  "(string \<Rightarrow> 'o flag option) \<Rightarrow> string list \<Rightarrow> 'o \<Rightarrow> flag_error + bool \<times> 'o \<times> string list" where
  "parseOne flags [] b = Inr (False, b, [])"
| "parseOne flags (a # args) b =
     (if length a < 2 \<or> hd a \<noteq> CHR ''-'' then Inr (False, b, a # args)
      else if a = ''--'' then Inr (False, b, args)
      else if hd (flag_name a) = CHR ''-'' \<or> hd (flag_name a) = CHR ''='' then Inl (BadSyntax a)
      else case split_name (flag_name a) of (n, value) \<Rightarrow> setFlag flags n value args b)"

lemma setFlag_more:
  "setFlag flags n value args b = Inr (seen, b1, rest) \<Longrightarrow>
     seen \<and> length rest \<le> length args \<and>
     setFlag flags n value (args @ ys) b = Inr (True, b1, rest @ ys)"
  by (auto simp: setFlag_def split: option.splits flag.splits list.splits)

lemma parseOne_seen:
  assumes "parseOne flags xs b = Inr (True, b1, rest)"
  shows "length rest < length xs \<and> parseOne flags (xs @ ys) b = Inr (True, b1, rest @ ys)"
proof (cases xs)
  case (Cons a args)
  obtain n v where sp: "split_name (flag_name a) = (n, v)" by (cases "split_name (flag_name a)")
  have "setFlag flags n v args b = Inr (True, b1, rest)"
    using assms Cons sp by (simp split: if_splits)
  from setFlag_more [OF this, of ys] show ?thesis using assms Cons sp by (auto split: if_splits)
qed (use assms in simp)

lemma parseOne_done:
  assumes "parseOne flags xs b = Inr (False, b1, [])"
  shows "b1 = b \<and> (xs = [] \<or> xs = [''--''])"
proof (cases xs)
  case (Cons a args)
  obtain n v where sp: "split_name (flag_name a) = (n, v)" by (cases "split_name (flag_name a)")
  show ?thesis
    using assms Cons sp setFlag_more [of flags n v args b False b1 "[]"] by (auto split: if_splits)
qed (use assms in simp)

function parse_flags ::
  "(string \<Rightarrow> 'o flag option) \<Rightarrow> string list \<Rightarrow> 'o \<Rightarrow> flag_error + 'o \<times> string list" where
  "parse_flags flags args b =
     (case parseOne flags args b of
        Inl e \<Rightarrow> Inl e
      | Inr (seen, b1, rest) \<Rightarrow> if seen then parse_flags flags rest b1 else Inr (b1, rest))"
  by pat_completeness auto

termination parse_flags
  by (relation "measure (\<lambda>(flags, args, b). length args)") (auto dest: parseOne_seen)

declare parse_flags.simps [simp del] parseOne.simps [simp del]

text \<open>Parsing stops at the first argument that is no flag; what follows it is not looked at.\<close>

definition positional :: "string \<Rightarrow> bool" where
  "positional a \<longleftrightarrow> length a < 2 \<or> hd a \<noteq> CHR ''-''"

lemma parseOne_positional: "positional a \<Longrightarrow> parseOne flags (a # args) b = Inr (False, b, a # args)"
  by (simp add: positional_def parseOne.simps)

lemma parse_flags_positional: "positional a \<Longrightarrow> parse_flags flags (a # args) b = Inr (b, a # args)"
  by (simp add: parse_flags.simps parseOne_positional)

lemma parse_flags_stops:
  assumes "parse_flags flags xs b = Inr (b', [])" "positional a"
  shows "parse_flags flags (xs @ a # rest) b = Inr (b', a # rest)"
  using assms(1)
proof (induction flags xs b rule: parse_flags.induct)
  case (1 flags xs b)
  obtain seen b1 xs1 where one: "parseOne flags xs b = Inr (seen, b1, xs1)"
    using "1.prems" by (auto simp: parse_flags.simps [of flags xs] split: sum.splits)
  show ?case
  proof (cases seen)
    case True
    then have "parse_flags flags xs1 b1 = Inr (b', [])"
      using one "1.prems" by (simp add: parse_flags.simps [of flags xs])
    then have "parse_flags flags (xs1 @ a # rest) b1 = Inr (b', a # rest)"
      using "1.IH" [OF one refl refl True] by simp
    then show ?thesis
      using parseOne_seen [of flags xs b b1 xs1 "a # rest"] one True
      by (simp add: parse_flags.simps [of flags "xs @ a # rest"])
  next
    case False
    then have "b1 = b'" "xs1 = []"
      using one "1.prems" by (simp_all add: parse_flags.simps [of flags xs])
    then show ?thesis
      using parseOne_done [of flags xs b b'] one False
      by (auto simp: parse_flags_positional [OF assms(2)] parse_flags.simps [of _ "''--'' # _"]
            parse_flags.simps [of _ "[]"] parseOne.simps)
  qed
qed

section \<open>serve\<close>

text \<open>\<^verbatim>\<open>domainList.Set\<close>: a domain is kept without the space around it.\<close>

definition domainList_Set :: "string \<Rightarrow> string list \<Rightarrow> string list option" where
  "domainList_Set v d = (let t = trim_space v in if t = [] then None else Some (d @ [t]))"

definition domainList_String :: "string list \<Rightarrow> string" where
  "domainList_String d = concat (map (\<lambda>(i, x). (if i = 0 then [] else '','') @ x) (zip [0..<length d] d))"

record serve_flags =
  sf_options :: serve_options
  sf_data_dir :: string
  sf_smtp_listen :: string
  sf_rotate :: bool
  sf_sync :: string

definition DefaultAddr :: string where "DefaultAddr = ''127.0.0.1:8925''"

definition serve_defaults :: serve_flags where
  "serve_defaults =
     \<lparr>sf_options = \<lparr>so_project = [], so_domains = [], so_api_listen = DefaultAddr, so_api_hosts = [],
        so_seed_url = [], so_cooldown = DefaultPoolCooldown, so_pooled_latency = 0\<rparr>,
      sf_data_dir = [], sf_smtp_listen = ''127.0.0.1:1025'', sf_rotate = False,
      sf_sync = sync_String SyncFull\<rparr>"

definition on_options :: "(serve_options \<Rightarrow> serve_options) \<Rightarrow> serve_flags \<Rightarrow> serve_flags" where
  "on_options f o' = o'\<lparr>sf_options := f (sf_options o')\<rparr>"

text \<open>The flags of \<^verbatim>\<open>runServe\<close>; reading a duration is an argument.\<close>

definition serve_flag :: "(string \<Rightarrow> duration option) \<Rightarrow> string \<Rightarrow> serve_flags flag option" where
  "serve_flag ParseDuration n =
     (if n = ''project'' then Some (ValueFlag (\<lambda>v o'. Some (on_options (\<lambda>s. s\<lparr>so_project := v\<rparr>) o')))
      else if n = ''domain'' then Some (ValueFlag (\<lambda>v o'.
        case domainList_Set v (so_domains (sf_options o')) of None \<Rightarrow> None
        | Some ds \<Rightarrow> Some (on_options (\<lambda>s. s\<lparr>so_domains := ds\<rparr>) o')))
      else if n = ''data-dir'' then Some (ValueFlag (\<lambda>v o'. Some (o'\<lparr>sf_data_dir := v\<rparr>)))
      else if n = ''smtp-listen'' then Some (ValueFlag (\<lambda>v o'. Some (o'\<lparr>sf_smtp_listen := v\<rparr>)))
      else if n = ''api-listen'' then Some (ValueFlag (\<lambda>v o'. Some (on_options (\<lambda>s. s\<lparr>so_api_listen := v\<rparr>) o')))
      else if n = ''api-host'' then Some (ValueFlag (\<lambda>v o'.
        case domainList_Set v (so_api_hosts (sf_options o')) of None \<Rightarrow> None
        | Some hs \<Rightarrow> Some (on_options (\<lambda>s. s\<lparr>so_api_hosts := hs\<rparr>) o')))
      else if n = ''pooled-max-delivery-latency'' then Some (ValueFlag (\<lambda>v o'.
        map_option (\<lambda>d. on_options (\<lambda>s. s\<lparr>so_pooled_latency := d\<rparr>) o') (ParseDuration v)))
      else if n = ''rotate-bearer'' then Some (BoolFlag (\<lambda>x o'. o'\<lparr>sf_rotate := x\<rparr>))
      else if n = ''seed-url'' then Some (ValueFlag (\<lambda>v o'. Some (on_options (\<lambda>s. s\<lparr>so_seed_url := v\<rparr>) o')))
      else if n = ''pool-cooldown'' then Some (ValueFlag (\<lambda>v o'.
        map_option (\<lambda>d. on_options (\<lambda>s. s\<lparr>so_cooldown := d\<rparr>) o') (ParseDuration v)))
      else if n = ''sync-mode'' then Some (ValueFlag (\<lambda>v o'. Some (o'\<lparr>sf_sync := v\<rparr>)))
      else None)"

datatype serve_flag_error =
    ServeFlags flag_error | RotateBearerRemoved | UnknownSyncMode string | ServeDataDir cli_error

text \<open>\<^verbatim>\<open>runServe\<close> up to the call of \<^verbatim>\<open>serve\<close>. What is left of the arguments is dropped.\<close>

definition runServe ::
  "(string \<Rightarrow> duration option) \<Rightarrow> string option \<Rightarrow> string list \<Rightarrow>
     serve_flag_error + serve_flags \<times> sync_mode \<times> string list" where
  "runServe ParseDuration home args =
     (case parse_flags (serve_flag ParseDuration) args serve_defaults of
        Inl e \<Rightarrow> Inl (ServeFlags e)
      | Inr (o', rest) \<Rightarrow>
          if sf_rotate o' then Inl RotateBearerRemoved
          else case ParseSyncMode (sf_sync o') of
            None \<Rightarrow> Inl (UnknownSyncMode (sf_sync o'))
          | Some sync \<Rightarrow>
              (case resolveDataDir home (so_project (sf_options o')) (sf_data_dir o') of
                 Inl e \<Rightarrow> Inl (ServeDataDir e)
               | Inr dir \<Rightarrow> Inr (o', sync, dir)))"

text \<open>
  An argument that is no flag hides every flag behind it, the ones that say how much to trust the
  disk and whom to answer included, and nothing reports it.
\<close>

lemma runServe_positional:
  assumes "parse_flags (serve_flag pd) xs serve_defaults = Inr (o', [])" "positional a"
  shows "runServe pd home (xs @ a # rest) = runServe pd home xs"
  using assms by (simp add: runServe_def parse_flags_stops)

lemma serve_ignores_sync_mode:
  "runServe pd home [''--project'', ''p'', ''now'', ''--sync-mode'', ''normal''] =
   runServe pd home [''--project'', ''p'']"
  by (simp add: runServe_def parse_flags.simps parseOne.simps setFlag_def flag_name_def serve_flag_def split_name_def)

text \<open>No durability but the two named ones is ever served.\<close>

lemma runServe_sync:
  "runServe pd home args = Inr (o', sync, dir) \<Longrightarrow> sf_sync o' = sync_String sync \<and> \<not> sf_rotate o'"
  by (auto simp: runServe_def ParseSyncMode_only split: sum.splits prod.splits if_splits option.splits)

text \<open>
  \<^verbatim>\<open>openDataDir\<close>: the key before the store, the store with the key and the default number of
  readers.
\<close>

definition keyName :: string where "keyName = ''project''"

definition openDataDir ::
  "bool \<Rightarrow> bool \<Rightarrow> dir_entry option \<Rightarrow> key_pc \<Rightarrow> 'd open_env \<Rightarrow> 'd database \<Rightarrow>
     ((load_error + store_open_error) + string \<times> opened_store) \<times> db_handle list \<times> 'd database" where
  "openDataDir posix chmod_ok entry outcome env d =
     (case LoadOrCreateKey posix chmod_ok entry keyName outcome of
        Inl e \<Rightarrow> (Inl (Inl e), [], d)
      | Inr k \<Rightarrow>
          (case Open_store (env\<lparr>oe_sealer := True\<rparr>) 0 d of
             (Inl e, hs, d1) \<Rightarrow> (Inl (Inr e), hs, d1)
           | (Inr os, hs, d1) \<Rightarrow> (Inr (k, os), hs, d1)))"

lemma openDataDir_without_key:
  "LoadOrCreateKey posix chmod_ok entry keyName outcome = Inl e \<Longrightarrow>
     openDataDir posix chmod_ok entry outcome env d = (Inl (Inl e), [], d)"
  by (simp add: openDataDir_def)

lemma openDataDir_opens:
  assumes "openDataDir posix chmod_ok entry outcome env d = (Inr (k, os), hs, d')"
  shows "outcome = HasKey k \<and> ds_version d' = length (oe_migrations env) \<and>
     hs = [WriteHandle, ReadHandle] \<and> os_write_conns os = 1 \<and> os_read_conns os = 8"
proof -
  have o': "Open_store (env\<lparr>oe_sealer := True\<rparr>) 0 d = (Inr os, hs, d')" and k: "outcome = HasKey k"
    using assms by (auto simp: openDataDir_def LoadOrCreateKey_def
        split: sum.splits prod.splits if_splits key_pc.splits)
  have "os_read_conns os = 8"
    using o' by (auto simp: Open_store_def store_open_def defaultReadConns_def
        split: if_splits prod.splits option.splits)
  then show ?thesis
    using Open_store_handles [OF o'] Open_store_migrated [OF o'] k by simp
qed

text \<open>\<^verbatim>\<open>onOff\<close> and the line a start prints last.\<close>

definition onOff :: "bool \<Rightarrow> string" where "onOff enabled = (if enabled then ''on'' else ''off'')"

definition ready_line ::
  "string \<Rightarrow> string option \<Rightarrow> capabilities \<Rightarrow> sync_mode \<Rightarrow> string \<Rightarrow> string" where
  "ready_line project api caps sync smtp =
     ''authstunt serving project '' @ project @ '', api '' @ (case api of None \<Rightarrow> ''off'' | Some a \<Rightarrow> a) @
     '', long-poll '' @ onOff (cap_long_poll caps) @ '', pooled '' @ onOff (cap_pooled caps) @
     '', seeder '' @ onOff (cap_seeder caps) @ '', '' @
     (if sync \<noteq> SyncFull then ''sync '' @ sync_String sync @ '', '' else []) @
     ''smtp '' @ smtp @ [newline_char]"

section \<open>mcp\<close>

text \<open>\<^verbatim>\<open>runMCP\<close> up to the session: \<open>getenv\<close> gives the empty text for what is not set.\<close>

datatype mcp_flag_error = MCPFlags flag_error | MCPRefused string

definition runMCP :: "(string \<Rightarrow> string) \<Rightarrow> string list \<Rightarrow> mcp_flag_error + proxy" where
  "runMCP getenv args =
     (case parse_flags (\<lambda>_. None) args () of
        Inl e \<Rightarrow> Inl (MCPFlags e)
      | Inr _ \<Rightarrow>
          (let base = (if getenv ''AUTHSTUNT_URL'' = [] then ''http://'' @ DefaultAddr
                       else getenv ''AUTHSTUNT_URL'')
           in case mcp_New base (getenv ''AUTHSTUNT_BEARER'') of
                Inl e \<Rightarrow> Inl (MCPRefused e)
              | Inr p \<Rightarrow> Inr p))"

lemma runMCP_needs_bearer:
  "runMCP getenv args = Inr p \<Longrightarrow> trim_space (getenv ''AUTHSTUNT_BEARER'') \<noteq> [] \<and>
     px_bearer p = getenv ''AUTHSTUNT_BEARER'' \<and> px_runs p = Map.empty"
  by (auto simp: runMCP_def mcp_New_def newProxy_def Let_def split: sum.splits if_splits)

section \<open>project bearer\<close>

definition bearer_flag :: "string \<Rightarrow> bearer_options flag option" where
  "bearer_flag n =
     (if n = ''data-dir'' then Some (ValueFlag (\<lambda>v o'. Some (o'\<lparr>bo_data_dir := v\<rparr>)))
      else if n = ''project'' then Some (ValueFlag (\<lambda>v o'. Some (o'\<lparr>bo_project := v\<rparr>)))
      else if n = ''domain'' then Some (ValueFlag (\<lambda>v o'.
        map_option (\<lambda>ds. o'\<lparr>bo_domains := ds\<rparr>) (domainList_Set v (bo_domains o'))))
      else if n = ''allow-non-tty-reveal'' then Some (BoolFlag (\<lambda>x o'. o'\<lparr>bo_allow_non_tty := x\<rparr>))
      else if n = ''out'' then Some (ValueFlag (\<lambda>v o'. Some (o'\<lparr>bo_out := v\<rparr>)))
      else None)"

datatype project_error =
    ProjectUsage | ProjectOperation string | ProjectFlags flag_error | ProjectFailed cli_error

definition bearer_defaults :: bearer_options where
  "bearer_defaults =
     \<lparr>bo_project = [], bo_domains = [], bo_data_dir = [], bo_allow_non_tty = False, bo_out = []\<rparr>"

text \<open>\<^verbatim>\<open>runProject\<close> with its flags; what is left of the arguments is dropped.\<close>

definition project_command ::
  "cli_env \<Rightarrow> string list \<Rightarrow> cli_world \<Rightarrow> (project_error + unit) \<times> cli_world" where
  "project_command env args w =
     (if length args < 2 \<or> hd args \<noteq> ''bearer'' then (Inl ProjectUsage, w)
      else if parse_operation (args ! 1) = None then (Inl (ProjectOperation (args ! 1)), w)
      else case parse_flags bearer_flag (drop 2 args) bearer_defaults of
        Inl e \<Rightarrow> (Inl (ProjectFlags e), w)
      | Inr (o', rest) \<Rightarrow>
          (case runProject env (args ! 1) o' w of
             (Inl e, w1) \<Rightarrow> (Inl (ProjectFailed e), w1)
           | (Inr _, w1) \<Rightarrow> (Inr (), w1)))"

text \<open>
  An argument before \<^verbatim>\<open>--out\<close> makes the parser miss it: the command is the one without a
  file, whose value goes to the terminal.
\<close>

lemma bearer_out_missed:
  assumes "positional a"
  shows "project_command env (''bearer'' # operation # a # rest) w =
     project_command env [''bearer'', operation] w"
  using assms by (simp add: project_command_def parse_flags_positional parse_flags.simps [of _ "[]"] parseOne.simps(1) del: One_nat_def)

text \<open>Only the three operations change anything, and only when their flags are read.\<close>

lemma project_command_refused:
  assumes "project_command env args w = (Inl e, w')" "\<And>e'. e \<noteq> ProjectFailed e'"
  shows "w' = w"
  using assms
  by (auto simp: project_command_def split: if_splits sum.splits prod.splits)

end
