(* ===== verification/Rows.thy ===== *)
theory Rows
  imports Claims Messages Accounts Timestamps Seeding
begin

text \<open>
  Rows as SQLite holds them: the values each \<^verbatim>\<open>INSERT\<close> of \<^verbatim>\<open>internal/store\<close> binds, and the
  \<^verbatim>\<open>scan\<close> functions that read a row back. Instants are texts, absent values are \<^verbatim>\<open>NULL\<close>,
  states are the constants of \<^verbatim>\<open>models.go\<close>. The other theories work on the records this one
  writes and reads.
\<close>

section \<open>Cells\<close>

datatype cell = NullCell | TextCell string | BlobCell string | FlagCell bool

datatype scan_error = NotScanned | BadTimestamp string

definition nullString :: "string \<Rightarrow> cell" where
  "nullString s = (if s = [] then NullCell else TextCell s)"

definition nullTime :: "time \<Rightarrow> cell" where
  "nullTime t = (if is_zero_time t then NullCell else TextCell (timestamp t))"

definition optTime :: "time option \<Rightarrow> cell" where
  "optTime t = (case t of None \<Rightarrow> NullCell | Some u \<Rightarrow> TextCell (timestamp u))"

text \<open>
  Reading a cell of a kind, and going on with its value. A \<^verbatim>\<open>sql.NullString\<close> takes
  \<^verbatim>\<open>NULL\<close>, a \<^verbatim>\<open>string\<close> does not.
\<close>

definition read_text :: "cell \<Rightarrow> (string \<Rightarrow> scan_error + 'a) \<Rightarrow> scan_error + 'a" where
  "read_text c k = (case c of TextCell s \<Rightarrow> k s | _ \<Rightarrow> Inl NotScanned)"

definition read_null :: "cell \<Rightarrow> (string option \<Rightarrow> scan_error + 'a) \<Rightarrow> scan_error + 'a" where
  "read_null c k = (case c of NullCell \<Rightarrow> k None | TextCell s \<Rightarrow> k (Some s) | _ \<Rightarrow> Inl NotScanned)"

definition read_flag :: "cell \<Rightarrow> (bool \<Rightarrow> scan_error + 'a) \<Rightarrow> scan_error + 'a" where
  "read_flag c k = (case c of FlagCell b \<Rightarrow> k b | _ \<Rightarrow> Inl NotScanned)"

definition read_blob :: "cell \<Rightarrow> (string \<Rightarrow> scan_error + 'a) \<Rightarrow> scan_error + 'a" where
  "read_blob c k = (case c of BlobCell b \<Rightarrow> k b | _ \<Rightarrow> Inl NotScanned)"

definition read_null_blob :: "cell \<Rightarrow> (string option \<Rightarrow> scan_error + 'a) \<Rightarrow> scan_error + 'a" where
  "read_null_blob c k = (case c of NullCell \<Rightarrow> k None | BlobCell b \<Rightarrow> k (Some b) | _ \<Rightarrow> Inl NotScanned)"

definition as_time ::
  "(string \<Rightarrow> time option) \<Rightarrow> string \<Rightarrow> (time \<Rightarrow> scan_error + 'a) \<Rightarrow> scan_error + 'a" where
  "as_time general s k = (case parseTimestamp general s of None \<Rightarrow> Inl (BadTimestamp s) | Some t \<Rightarrow> k t)"

definition as_opt_time ::
  "(string \<Rightarrow> time option) \<Rightarrow> string option \<Rightarrow> (time option \<Rightarrow> scan_error + 'a) \<Rightarrow> scan_error + 'a" where
  "as_opt_time general s k =
     (case s of None \<Rightarrow> k None | Some x \<Rightarrow> as_time general x (\<lambda>t. k (Some t)))"

definition scanString :: "string option \<Rightarrow> string" where
  "scanString s = (case s of None \<Rightarrow> [] | Some x \<Rightarrow> x)"

text \<open>\<^verbatim>\<open>scanTime\<close>: an absent instant is the zero time.\<close>

definition scanTime ::
  "(string \<Rightarrow> time option) \<Rightarrow> string option \<Rightarrow> (time \<Rightarrow> scan_error + 'a) \<Rightarrow> scan_error + 'a" where
  "scanTime general s k = (case s of None \<Rightarrow> k 0 | Some x \<Rightarrow> as_time general x k)"

lemmas cell_defs = read_text_def read_null_def read_flag_def read_blob_def read_null_blob_def
  as_opt_time_def scanString_def scanTime_def nullString_def nullTime_def optTime_def is_zero_time_def

lemma as_time_timestamp [simp]: "storable t \<Longrightarrow> as_time general (timestamp t) k = k t"
  by (simp add: as_time_def parse_timestamp)

section \<open>Constants\<close>

text \<open>
  The texts of the states. The schema admits no other text in these columns, so one that is no
  state counts as a row that cannot be scanned.
\<close>

fun run_state_text :: "run_state \<Rightarrow> string" where
  "run_state_text RunActive = ''active''"
| "run_state_text RunComplete = ''complete''"
| "run_state_text RunFailed = ''failed''"
| "run_state_text RunExpired = ''expired''"

fun lease_state_text :: "lease_state \<Rightarrow> string" where
  "lease_state_text LeaseHeld = ''held''"
| "lease_state_text LeaseReleased = ''released''"
| "lease_state_text LeaseExpired = ''expired''"
| "lease_state_text LeaseFailed = ''failed''"

fun seed_state_text :: "seed_state \<Rightarrow> string" where
  "seed_state_text SeedPending = ''pending''"
| "seed_state_text SeedSeeded = ''seeded''"
| "seed_state_text SeedFailed = ''failed''"
| "seed_state_text SeedSkipped = ''skipped''"

fun suspect_text :: "suspect \<Rightarrow> string" where
  "suspect_text SuspectNone = []"
| "suspect_text SuspectCooldown = ''cooldown''"
| "suspect_text SuspectAfterRelease = ''after_release''"
| "suspect_text SuspectPredatesLease = ''predates_lease''"
| "suspect_text SuspectOriginUnknown = ''origin_unknown''"

fun extraction_state_text :: "extraction_state \<Rightarrow> string" where
  "extraction_state_text ExtractionPending = ''pending''"
| "extraction_state_text ExtractionSuccess = ''success''"
| "extraction_state_text ExtractionFailed = ''failed''"

fun claim_kind_text :: "claim_kind \<Rightarrow> string" where
  "claim_kind_text ClaimEmailOTP = ''email_otp''"
| "claim_kind_text ClaimMagicLink = ''magic_link''"
| "claim_kind_text ClaimTOTP = ''totp''"
| "claim_kind_text (ClaimOther k) = k"

definition read_state :: "('a \<Rightarrow> string) \<Rightarrow> 'a list \<Rightarrow> string \<Rightarrow> ('a \<Rightarrow> scan_error + 'b) \<Rightarrow> scan_error + 'b" where
  "read_state text_of xs s k =
     (case find (\<lambda>x. text_of x = s) xs of None \<Rightarrow> Inl NotScanned | Some x \<Rightarrow> k x)"

lemma read_state_text:
  assumes "x \<in> set xs" "inj_on text_of (set xs)"
  shows "read_state text_of xs (text_of x) k = k x"
proof -
  have "find (\<lambda>y. text_of y = text_of x) xs = Some x"
    using assms by (induction xs) (auto simp: inj_on_def)
  then show ?thesis by (simp add: read_state_def)
qed

definition run_states :: "run_state list" where
  "run_states = [RunActive, RunComplete, RunFailed, RunExpired]"

definition lease_states :: "lease_state list" where
  "lease_states = [LeaseHeld, LeaseReleased, LeaseExpired, LeaseFailed]"

definition seed_states :: "seed_state list" where
  "seed_states = [SeedPending, SeedSeeded, SeedFailed, SeedSkipped]"

definition suspects :: "suspect list" where
  "suspects = [SuspectNone, SuspectCooldown, SuspectAfterRelease, SuspectPredatesLease, SuspectOriginUnknown]"

definition extraction_states :: "extraction_state list" where
  "extraction_states = [ExtractionPending, ExtractionSuccess, ExtractionFailed]"

definition modes :: "mode list" where "modes = [ModeEphemeral, ModePooled]"

definition claim_kinds :: "claim_kind list" where
  "claim_kinds = [ClaimEmailOTP, ClaimMagicLink, ClaimTOTP]"

lemma read_states [simp]:
  "read_state run_state_text run_states (run_state_text x1) k1 = k1 x1"
  "read_state lease_state_text lease_states (lease_state_text x2) k2 = k2 x2"
  "read_state seed_state_text seed_states (seed_state_text x3) k3 = k3 x3"
  "read_state suspect_text suspects (suspect_text x4) k4 = k4 x4"
  "read_state extraction_state_text extraction_states (extraction_state_text x5) k5 = k5 x5"
  "x6 \<in> set modes \<Longrightarrow> read_state mode_text modes (mode_text x6) k6 = k6 x6"
  "x7 \<in> set claim_kinds \<Longrightarrow> read_state claim_kind_text claim_kinds (claim_kind_text x7) k7 = k7 x7"
proof -
  show "read_state run_state_text run_states (run_state_text x1) k1 = k1 x1"
    by (rule read_state_text) (cases x1, auto simp: run_states_def)
  show "read_state lease_state_text lease_states (lease_state_text x2) k2 = k2 x2"
    by (rule read_state_text) (cases x2, auto simp: lease_states_def)
  show "read_state seed_state_text seed_states (seed_state_text x3) k3 = k3 x3"
    by (rule read_state_text) (cases x3, auto simp: seed_states_def)
  show "read_state suspect_text suspects (suspect_text x4) k4 = k4 x4"
    by (rule read_state_text) (cases x4, auto simp: suspects_def)
  show "read_state extraction_state_text extraction_states (extraction_state_text x5) k5 = k5 x5"
    by (rule read_state_text) (cases x5, auto simp: extraction_states_def)
  show "x6 \<in> set modes \<Longrightarrow> read_state mode_text modes (mode_text x6) k6 = k6 x6"
    by (rule read_state_text) (auto simp: modes_def mode_text_def)
  show "x7 \<in> set claim_kinds \<Longrightarrow> read_state claim_kind_text claim_kinds (claim_kind_text x7) k7 = k7 x7"
    by (rule read_state_text) (auto simp: claim_kinds_def)
qed

section \<open>Runs\<close>

text \<open>The columns \<^verbatim>\<open>runColumns\<close> of a row; the digest of the token is never selected.\<close>

definition run_cells :: "run \<Rightarrow> cell list" where
  "run_cells r =
     [TextCell (run_id r), TextCell (run_project r), TextCell (run_state_text (run_state r)),
      TextCell (run_fail_reason r), TextCell (timestamp (run_checkpoint_at r)),
      TextCell (timestamp (run_started_at r)), TextCell (timestamp (run_expires_at r)),
      optTime (run_ended_at r)]"

definition scanRun :: "(string \<Rightarrow> time option) \<Rightarrow> cell list \<Rightarrow> scan_error + run" where
  "scanRun general cells =
     (case cells of
        [c1, c2, c3, c4, c5, c6, c7, c8] \<Rightarrow>
          read_text c1 (\<lambda>i. read_text c2 (\<lambda>p. read_text c3 (\<lambda>st. read_text c4 (\<lambda>fr.
          read_text c5 (\<lambda>checkpoint. read_text c6 (\<lambda>started. read_text c7 (\<lambda>expires.
          read_null c8 (\<lambda>ended. read_state run_state_text run_states st (\<lambda>state.
          as_time general checkpoint (\<lambda>ct. as_time general started (\<lambda>sa.
          as_time general expires (\<lambda>ea. as_opt_time general ended (\<lambda>en.
            Inr \<lparr>run_id = i, run_project = p, run_token_hash = [], run_state = state,
              run_fail_reason = fr, run_checkpoint_at = ct, run_started_at = sa,
              run_expires_at = ea, run_ended_at = en\<rparr>)))))))))))))
      | _ \<Rightarrow> Inl NotScanned)"

definition opt_storable :: "time option \<Rightarrow> bool" where
  "opt_storable t \<longleftrightarrow> (case t of None \<Rightarrow> True | Some u \<Rightarrow> storable u)"

lemma scan_run_cells:
  assumes "storable (run_checkpoint_at r)" "storable (run_started_at r)" "storable (run_expires_at r)"
    "opt_storable (run_ended_at r)"
  shows "scanRun general (run_cells r) = Inr (r\<lparr>run_token_hash := []\<rparr>)"
  using assms by (simp add: scanRun_def run_cells_def cell_defs opt_storable_def split: option.splits)

section \<open>Identities\<close>

definition identity_cells :: "identity \<Rightarrow> cell list" where
  "identity_cells i =
     [TextCell (idn_id i), TextCell (idn_project i), nullString (idn_persona i), TextCell (idn_addr i),
      TextCell (idn_role i), TextCell (mode_text (idn_mode i)), optTime (idn_cooldown_until i),
      TextCell (timestamp (idn_created_at i))]"

definition scanIdentityRow :: "(string \<Rightarrow> time option) \<Rightarrow> cell list \<Rightarrow> scan_error + identity" where
  "scanIdentityRow general cells =
     (case cells of
        [c1, c2, c3, c4, c5, c6, c7, c8] \<Rightarrow>
          read_text c1 (\<lambda>i. read_text c2 (\<lambda>p. read_null c3 (\<lambda>persona. read_text c4 (\<lambda>addr.
          read_text c5 (\<lambda>role. read_text c6 (\<lambda>m. read_null c7 (\<lambda>cooldown. read_text c8 (\<lambda>created.
          read_state mode_text modes m (\<lambda>md. as_opt_time general cooldown (\<lambda>cu.
          as_time general created (\<lambda>ca.
            Inr \<lparr>idn_id = i, idn_project = p, idn_persona = scanString persona, idn_addr = addr,
              idn_role = role, idn_mode = md, idn_cooldown_until = cu, idn_created_at = ca\<rparr>)))))))))))
      | _ \<Rightarrow> Inl NotScanned)"

lemma scan_identity_cells:
  assumes "idn_mode i \<in> set modes" "opt_storable (idn_cooldown_until i)" "storable (idn_created_at i)"
  shows "scanIdentityRow general (identity_cells i) = Inr i"
  using assms by (simp add: scanIdentityRow_def identity_cells_def cell_defs opt_storable_def split: option.splits)

section \<open>Leases\<close>

definition lease_cells :: "lease \<Rightarrow> cell list" where
  "lease_cells l =
     [TextCell (ls_id l), TextCell (ls_run l), TextCell (ls_identity l), TextCell (ls_role l),
      TextCell (lease_state_text (ls_state l)), TextCell (seed_state_text (ls_seed_state l)),
      TextCell (ls_fingerprint l), TextCell (timestamp (ls_acquired_at l)),
      TextCell (timestamp (ls_expires_at l)), optTime (ls_released_at l), FlagCell (ls_in_cooldown l)]"

definition scanLeaseRow :: "(string \<Rightarrow> time option) \<Rightarrow> cell list \<Rightarrow> scan_error + lease" where
  "scanLeaseRow general cells =
     (case cells of
        [c1, c2, c3, c4, c5, c6, c7, c8, c9, c10, c11] \<Rightarrow>
          read_text c1 (\<lambda>i. read_text c2 (\<lambda>r. read_text c3 (\<lambda>idn. read_text c4 (\<lambda>role.
          read_text c5 (\<lambda>st. read_text c6 (\<lambda>sd. read_text c7 (\<lambda>fp. read_text c8 (\<lambda>acquired.
          read_text c9 (\<lambda>expires. read_null c10 (\<lambda>released. read_flag c11 (\<lambda>cooling.
          read_state lease_state_text lease_states st (\<lambda>state.
          read_state seed_state_text seed_states sd (\<lambda>seed.
          as_time general acquired (\<lambda>aa. as_time general expires (\<lambda>ea.
          as_opt_time general released (\<lambda>ra.
            Inr \<lparr>ls_id = i, ls_run = r, ls_identity = idn, ls_role = role, ls_state = state,
              ls_seed_state = seed, ls_fingerprint = fp, ls_acquired_at = aa, ls_expires_at = ea,
              ls_released_at = ra, ls_in_cooldown = cooling\<rparr>))))))))))))))))
      | _ \<Rightarrow> Inl NotScanned)"

lemma scan_lease_cells:
  assumes "storable (ls_acquired_at l)" "storable (ls_expires_at l)" "opt_storable (ls_released_at l)"
  shows "scanLeaseRow general (lease_cells l) = Inr l"
  using assms by (simp add: scanLeaseRow_def lease_cells_def cell_defs opt_storable_def split: option.splits)

section \<open>Claims\<close>

definition claim_cells :: "claim \<Rightarrow> cell list" where
  "claim_cells c =
     [TextCell (cl_id c), TextCell (cl_lease c), TextCell (cl_run c), TextCell (claim_kind_text (cl_kind c)),
      nullString (scanString (cl_message c)), TextCell (cl_key c),
      TextCell (timestamp (cl_claimed_at c)), TextCell (timestamp (cl_expires_at c))]"

text \<open>The message of a claim read back is absent where its text is empty, as \<open>null_string\<close> has it.\<close>

definition scanClaimRow :: "(string \<Rightarrow> time option) \<Rightarrow> cell list \<Rightarrow> scan_error + claim" where
  "scanClaimRow general cells =
     (case cells of
        [c1, c2, c3, c4, c5, c6, c7, c8] \<Rightarrow>
          read_text c1 (\<lambda>i. read_text c2 (\<lambda>l. read_text c3 (\<lambda>r. read_text c4 (\<lambda>kd.
          read_null c5 (\<lambda>message. read_text c6 (\<lambda>key. read_text c7 (\<lambda>claimed.
          read_text c8 (\<lambda>expires. read_state claim_kind_text claim_kinds kd (\<lambda>kind.
          as_time general claimed (\<lambda>ca. as_time general expires (\<lambda>ea.
            Inr \<lparr>cl_id = i, cl_lease = l, cl_run = r, cl_kind = kind,
              cl_message = null_string (scanString message), cl_key = key, cl_claimed_at = ca,
              cl_expires_at = ea\<rparr>)))))))))))
      | _ \<Rightarrow> Inl NotScanned)"

lemma scan_claim_cells:
  assumes "cl_kind c \<in> set claim_kinds" "cl_message c \<noteq> Some []"
    "storable (cl_claimed_at c)" "storable (cl_expires_at c)"
  shows "scanClaimRow general (claim_cells c) = Inr c"
  using assms by (cases "cl_message c") (simp_all add: scanClaimRow_def claim_cells_def cell_defs null_string_def)

section \<open>Bindings\<close>

definition binding_cells :: "binding \<Rightarrow> cell list" where
  "binding_cells b =
     [TextCell (bd_message b), TextCell (bd_lease b), TextCell (bd_run b), TextCell (bd_identity b),
      TextCell (bd_addr b), TextCell (timestamp (bd_bound_at b)), TextCell (suspect_text (bd_suspect b))]"

definition scanBinding :: "(string \<Rightarrow> time option) \<Rightarrow> cell list \<Rightarrow> scan_error + binding" where
  "scanBinding general cells =
     (case cells of
        [c1, c2, c3, c4, c5, c6, c7] \<Rightarrow>
          read_text c1 (\<lambda>m. read_text c2 (\<lambda>l. read_text c3 (\<lambda>r. read_text c4 (\<lambda>i.
          read_text c5 (\<lambda>a. read_text c6 (\<lambda>bound. read_text c7 (\<lambda>sp.
          read_state suspect_text suspects sp (\<lambda>suspicion. as_time general bound (\<lambda>ba.
            Inr \<lparr>bd_message = m, bd_lease = l, bd_run = r, bd_identity = i, bd_addr = a,
              bd_bound_at = ba, bd_suspect = suspicion\<rparr>)))))))))
      | _ \<Rightarrow> Inl NotScanned)"

lemma scan_binding_cells:
  assumes "storable (bd_bound_at b)"
  shows "scanBinding general (binding_cells b) = Inr b"
  using assms by (simp add: scanBinding_def binding_cells_def cell_defs)

section \<open>Messages\<close>

text \<open>The recipients are rows of their own; the payloads stay sealed here.\<close>

definition message_cells :: "message \<Rightarrow> cell list" where
  "message_cells m =
     [TextCell (msg_id m), TextCell (msg_project m), TextCell (msg_from m), TextCell (msg_subject m),
      TextCell (msg_channel m), nullString (msg_raw_ref m), nullString (msg_html_ref m),
      BlobCell (msg_body m), (case msg_extracted m of None \<Rightarrow> NullCell | Some x \<Rightarrow> BlobCell x),
      FlagCell (msg_quarantined m), TextCell (timestamp (msg_received_at m)),
      TextCell (extraction_state_text (msg_extraction_state m))]"

definition message_of_cells :: "(string \<Rightarrow> time option) \<Rightarrow> cell list \<Rightarrow> scan_error + message" where
  "message_of_cells general cells =
     (case cells of
        [c1, c2, c3, c4, c5, c6, c7, c8, c9, c10, c11, c12] \<Rightarrow>
          read_text c1 (\<lambda>i. read_text c2 (\<lambda>p. read_text c3 (\<lambda>from. read_text c4 (\<lambda>subject.
          read_text c5 (\<lambda>channel. read_null c6 (\<lambda>raw. read_null c7 (\<lambda>html. read_blob c8 (\<lambda>body.
          read_null_blob c9 (\<lambda>extraction. read_flag c10 (\<lambda>quarantined. read_text c11 (\<lambda>received.
          read_text c12 (\<lambda>st. read_state extraction_state_text extraction_states st (\<lambda>state.
          as_time general received (\<lambda>ra.
            Inr \<lparr>msg_id = i, msg_project = p, msg_from = from, msg_subject = subject,
              msg_channel = channel, msg_raw_ref = scanString raw, msg_html_ref = scanString html,
              msg_body = body, msg_extracted = extraction, msg_quarantined = quarantined,
              msg_received_at = ra, msg_extraction_state = state, msg_recipients = []\<rparr>))))))))))))))
      | _ \<Rightarrow> Inl NotScanned)"

text \<open>\<^verbatim>\<open>scanMessageRow\<close>: the row, then its payloads opened as \<open>scan_message\<close> does.\<close>

definition scanMessageRow ::
  "(string \<Rightarrow> time option) \<Rightarrow> store \<Rightarrow> cell list \<Rightarrow> scan_error + message_view" where
  "scanMessageRow general s cells =
     (case message_of_cells general cells of Inl e \<Rightarrow> Inl e | Inr m \<Rightarrow> Inr (scan_message s m))"

lemma scan_message_cells:
  assumes "storable (msg_received_at m)"
  shows "scanMessageRow general s (message_cells m) = Inr (scan_message s (m\<lparr>msg_recipients := []\<rparr>))"
proof -
  have "message_of_cells general (message_cells m) = Inr (m\<lparr>msg_recipients := []\<rparr>)"
    using assms by (simp add: message_of_cells_def message_cells_def cell_defs split: option.splits)
  then show ?thesis by (simp add: scanMessageRow_def)
qed

section \<open>Personas and sessions\<close>

definition persona_cells :: "persona \<Rightarrow> cell list" where
  "persona_cells p =
     [TextCell (pe_id p), TextCell (pe_project p), TextCell (pe_name p), TextCell (pe_email p),
      BlobCell (pe_password_enc p), TextCell (pe_role p), TextCell (pe_traits p),
      TextCell (pe_seed_state p), nullString (pe_seed_output p), TextCell (timestamp (pe_created_at p)),
      TextCell (timestamp (pe_updated_at p))]"

definition scanPersonaRow :: "(string \<Rightarrow> time option) \<Rightarrow> cell list \<Rightarrow> scan_error + persona" where
  "scanPersonaRow general cells =
     (case cells of
        [c1, c2, c3, c4, c5, c6, c7, c8, c9, c10, c11] \<Rightarrow>
          read_text c1 (\<lambda>i. read_text c2 (\<lambda>p. read_text c3 (\<lambda>name. read_text c4 (\<lambda>email.
          read_blob c5 (\<lambda>password. read_text c6 (\<lambda>role. read_text c7 (\<lambda>traits. read_text c8 (\<lambda>state.
          read_null c9 (\<lambda>output. read_text c10 (\<lambda>created. read_text c11 (\<lambda>updated.
          as_time general created (\<lambda>ca. as_time general updated (\<lambda>ua.
            Inr \<lparr>pe_id = i, pe_project = p, pe_name = name, pe_email = email, pe_password_enc = password,
              pe_role = role, pe_traits = traits, pe_seed_state = state, pe_seed_output = scanString output,
              pe_created_at = ca, pe_updated_at = ua\<rparr>)))))))))))))
      | _ \<Rightarrow> Inl NotScanned)"

lemma scan_persona_cells:
  assumes "storable (pe_created_at p)" "storable (pe_updated_at p)"
  shows "scanPersonaRow general (persona_cells p) = Inr p"
  using assms by (simp add: scanPersonaRow_def persona_cells_def cell_defs)

definition session_cells :: "saved_session \<Rightarrow> cell list" where
  "session_cells x =
     [TextCell (ss_blob_ref x), TextCell (timestamp (ss_saved_at x)), nullTime (ss_hint_expires_at x)]"

definition scan_session ::
  "(string \<Rightarrow> time option) \<Rightarrow> ident \<Rightarrow> string \<Rightarrow> cell list \<Rightarrow> scan_error + saved_session" where
  "scan_session general persona name cells =
     (case cells of
        [c1, c2, c3] \<Rightarrow>
          read_text c1 (\<lambda>blob. read_text c2 (\<lambda>saved. read_null c3 (\<lambda>hint.
          as_time general saved (\<lambda>sa. scanTime general hint (\<lambda>he.
            Inr \<lparr>ss_persona = persona, ss_name = name, ss_blob_ref = blob, ss_saved_at = sa,
              ss_hint_expires_at = he\<rparr>)))))
      | _ \<Rightarrow> Inl NotScanned)"

lemma scan_session_cells:
  assumes "storable (ss_saved_at x)" "storable (ss_hint_expires_at x)"
  shows "scan_session general (ss_persona x) (ss_name x) (session_cells x) = Inr x"
  using assms by (simp add: scan_session_def session_cells_def cell_defs)

text \<open>
  A column that must not be empty is never read as if it were: where an instant that is not
  optional is \<^verbatim>\<open>NULL\<close>, the row is refused.
\<close>

lemma null_instant_refused:
  "length cells = 8 \<Longrightarrow> cells ! 4 = NullCell \<Longrightarrow> \<exists>e. scanRun general cells = Inl e"
  by (auto simp: scanRun_def numeral_eq_Suc length_Suc_conv cell_defs split: cell.splits)

end
