(* ===== verification/Samples.thy ===== *)
theory Samples
  imports Machine RelayConf BearerCli Mcp Wire Cursors Secrets Pipeline Opening Acknowledged Shutdown Tools Listing
    KeyDir CommandLine Rows
begin

text \<open>
  Concrete states the witnesses evaluate: a store holding one run with one held ephemeral lease
  and one extracted message bound to it, a service, a pipeline and a codec small enough to
  compute with.
\<close>

definition demo_ascii :: "string \<Rightarrow> string option" where
  "demo_ascii h = Some (asciiLower h)"

definition demo_id :: "nat \<Rightarrow> ident" where
  "demo_id n = hex_encode [CHR ''a'', CHR ''b'', CHR ''c'', CHR ''d'', CHR ''e'',
     char_of (n mod 256)]"

definition demo_run :: run where
  "demo_run = \<lparr>run_id = ''r1'', run_project = ''p'', run_token_hash = ''h1'',
     run_state = RunActive, run_fail_reason = [], run_checkpoint_at = 10, run_started_at = 10,
     run_expires_at = 1000000000000, run_ended_at = None\<rparr>"

definition demo_identity :: identity where
  "demo_identity = \<lparr>idn_id = ''i1'', idn_project = ''p'', idn_persona = [],
     idn_addr = ''user-01@a.co'', idn_role = ''user'', idn_mode = ModeEphemeral,
     idn_cooldown_until = None, idn_created_at = 11\<rparr>"

definition demo_lease :: lease where
  "demo_lease = \<lparr>ls_id = ''l1'', ls_run = ''r1'', ls_identity = ''i1'', ls_role = ''user'',
     ls_state = LeaseHeld, ls_seed_state = SeedSeeded, ls_fingerprint = [],
     ls_acquired_at = 12, ls_expires_at = 900000000000, ls_released_at = None,
     ls_in_cooldown = False\<rparr>"

definition demo_message :: message where
  "demo_message = \<lparr>msg_id = ''m1'', msg_project = ''p'', msg_from = ''app@x.co'',
     msg_subject = ''code'', msg_channel = ''email'', msg_raw_ref = [], msg_html_ref = [],
     msg_body = ''body'', msg_extracted = Some ''otp'', msg_quarantined = False,
     msg_received_at = 20, msg_extraction_state = ExtractionSuccess,
     msg_recipients = [(''user-01@a.co'', RecipientEnvelope)]\<rparr>"

definition demo_binding :: binding where
  "demo_binding = \<lparr>bd_message = ''m1'', bd_lease = ''l1'', bd_run = ''r1'', bd_identity = ''i1'',
     bd_addr = ''user-01@a.co'', bd_bound_at = 21, bd_suspect = SuspectNone\<rparr>"

definition demo_project :: project where
  "demo_project = \<lparr>pj_id = ''p1'', pj_name = ''demo'', pj_created_at = 1\<rparr>"

definition demo_accounts :: accounts where
  "demo_accounts = \<lparr>ac_projects = [\<lparr>pw_project = demo_project, pw_bearer_hash = Some ''pb_old''\<rparr>],
     ac_allowlist = [\<lparr>al_project = ''p1'', al_pattern = ''a.co'', al_ord = 0\<rparr>],
     ac_personas = [], ac_relations = [], ac_secrets = [], ac_sessions = []\<rparr>"

definition demo_db :: db where
  "demo_db = \<lparr>db_runs = [demo_run], db_identities = [demo_identity], db_leases = [demo_lease],
     db_messages = [demo_message], db_bindings = [demo_binding], db_claims = [],
     db_ledger = [], db_generation = 1, db_accounts = demo_accounts\<rparr>"

definition with_tables :: "db \<Rightarrow> store" where
  "with_tables d = \<lparr>tables = d, last_now = 100, now_src = (\<lambda>n. 5000000), now_calls = 0,
     wall_src = (\<lambda>n. 6000000), wall_calls = 0, id_src = demo_id, id_calls = 0,
     seal = Some, unseal = Some\<rparr>"

definition demo_store :: store where "demo_store = with_tables demo_db"
definition blank_store :: store where "blank_store = with_tables empty_db"

definition demo_service :: service where
  "demo_service = \<lparr>sv_project = ''p'', sv_domain = ''a.co'', sv_seeder = None, sv_bus = False,
     sv_pooled = None, sv_run_ttl = 1800 * second, sv_lease_ttl = 1800 * second,
     sv_cooldown = 60 * second, sv_claim_ttl = 120 * second, sv_to_ascii = demo_ascii\<rparr>"

definition demo_decode :: "string \<Rightarrow> result option" where
  "demo_decode x = Some \<lparr>rs_otp_best = (if x = ''otp'' then ''4711'' else []),
     rs_otp_candidates = [], rs_links = [],
     rs_verify_link_best = (if x = ''otp'' then ''https://a.co/v'' else [])\<rparr>"

definition demo_env :: surroundings where
  "demo_env = \<lparr>env_race = (\<lambda>s. s), env_wait = (\<lambda>s. s), env_wakes = 0, env_bus_running = True\<rparr>"

definition demo_claim :: "claim_kind \<Rightarrow> claim_request" where
  "demo_claim k = \<lparr>cr_lease = ''l1'', cr_kind = k, cr_key = ''k1'', cr_timeout = 0\<rparr>"

definition demo_ingest :: ingest where
  "demo_ingest = \<lparr>ig_project = ''p'', ig_allowlist = [''a.co''],
     ig_extract = (\<lambda>i. None), ig_encode = (\<lambda>r. Some ''otp''), ig_to_ascii = demo_ascii,
     ig_read_mail = (\<lambda>raw. None)\<rparr>"

definition demo_world :: world where
  "demo_world = \<lparr>w_store = demo_store, w_blobs = (\<lambda>r. None), w_io = (\<lambda>n. None), w_io_calls = 0,
     w_bus = NewBus 1, w_stopping = False\<rparr>"

definition demo_delivery :: "string list \<Rightarrow> delivery" where
  "demo_delivery rs = \<lparr>dl_from = ''app@x.co'', dl_recipients = rs, dl_raw = ''raw'',
     dl_received_at = 30\<rparr>"

lemmas demo_defs = demo_run_def demo_identity_def demo_lease_def demo_message_def demo_binding_def
  demo_db_def with_tables_def demo_store_def blank_store_def demo_service_def demo_decode_def
  demo_env_def demo_claim_def demo_ingest_def demo_world_def demo_delivery_def

text \<open>A claim on the sample store takes the code of its message.\<close>

definition demo_outcome :: "claim_kind \<Rightarrow> store \<Rightarrow> (reason \<times> string \<times> nat) option" where
  "demo_outcome k s =
     (case Claim demo_service demo_decode demo_env (demo_claim k) s of
        (Inl e, s') \<Rightarrow> None
      | (Inr c, s') \<Rightarrow> Some (cm_reason c, cm_value c, length (claims s')))"

lemma demo_claim_taken: "demo_outcome ClaimEmailOTP demo_store = Some (ReasonOK, ''4711'', 1)"
  by code_simp


section \<open>A history from the empty store\<close>

text \<open>
  A run is created, an ephemeral address leased and settled, a message to it delivered and
  extracted, and its code claimed.
\<close>

definition trace_run_id :: ident where "trace_run_id = ''616263646500''"
definition trace_identity_id :: ident where "trace_identity_id = ''616263646501''"
definition trace_lease_id :: ident where "trace_lease_id = ''616263646502''"
definition trace_addr :: string where "trace_addr = ''user-78@a.co''"

definition trace_run :: store where
  "trace_run = snd (ServiceCreateRun demo_service (\<lambda>t. t) ''token'' blank_store)"

definition trace_reserved :: store where
  "trace_reserved =
     snd (reserve demo_service [CHR ''x''] trace_run_id ''user'' ModeEphemeral trace_run)"

definition trace_settled :: store where
  "trace_settled =
     snd (settle demo_service trace_run_id (demo_lease\<lparr>ls_id := trace_lease_id\<rparr>)
       (demo_identity\<lparr>idn_id := trace_identity_id, idn_addr := trace_addr\<rparr>)
       \<lparr>sr_status = SeedSkipped, sr_fingerprint = []\<rparr> False trace_reserved)"

definition trace_mail :: new_message where
  "trace_mail = \<lparr>nm_id = ''m1'', nm_project = ''p'', nm_from = ''app@x.co'', nm_subject = ''code'',
     nm_channel = ''email'', nm_raw_ref = [], nm_html_ref = [], nm_text = ''body'',
     nm_extracted = [], nm_quarantined = False, nm_received_at = 7000000,
     nm_recipients = [(trace_addr, RecipientEnvelope)]\<rparr>"

definition trace_delivered :: store where
  "trace_delivered =
     snd (tx (deliver_tx demo_ingest trace_mail ''app@x.co'' False [] [trace_addr] 0)
       trace_settled)"

definition trace_extracted :: store where
  "trace_extracted = snd (tx (SetExtraction ''m1'' ''otp'') trace_delivered)"

definition trace_new_claim :: new_claim where
  "trace_new_claim = \<lparr>nc_lease = trace_lease_id, nc_run = trace_run_id,
     nc_kind = ClaimEmailOTP, nc_message = ''m1'', nc_key = ''k1'', nc_ttl = 120 * second,
     nc_not_after = 0\<rparr>"

definition trace_claimed :: store where
  "trace_claimed = snd (RecordClaim trace_new_claim trace_extracted)"

definition trace_ended :: store where
  "trace_ended = snd (ServiceEndRun trace_run_id RunComplete [] trace_claimed)"

lemma step_of:
  assumes "\<And>r s'. f s = (r, s') \<Longrightarrow> step sv ig s s'"
  shows "step sv ig s (snd (f s))"
  using assms by (metis prod.collapse)

lemma trace_step:
  "step demo_service demo_ingest blank_store trace_run"
  "step demo_service demo_ingest trace_run trace_reserved"
  "step demo_service demo_ingest trace_reserved trace_settled"
  "step demo_service demo_ingest trace_settled trace_delivered"
  "step demo_service demo_ingest trace_delivered trace_extracted"
  "step demo_service demo_ingest trace_extracted trace_claimed"
  "step demo_service demo_ingest trace_claimed trace_ended"
  unfolding trace_run_def trace_reserved_def trace_settled_def trace_delivered_def
    trace_extracted_def trace_claimed_def trace_ended_def
  by (rule step_of, rule step.start_run, assumption)
     (rule step_of, rule step.reserving step.settling step.delivering step.extracting
        step.claiming step.ending, assumption)+

lemma trace_steps:
  "(step demo_service demo_ingest)\<^sup>*\<^sup>* blank_store trace_claimed"
  using trace_step by (meson rtranclp.rtrancl_into_rtrancl rtranclp.rtrancl_refl)

lemma trace_start: "reachable demo_service demo_ingest blank_store"
  by (rule reachable.fresh) (simp add: blank_store_def with_tables_def)

lemma trace_reachable: "reachable demo_service demo_ingest trace_claimed"
  by (rule reachable_steps [OF trace_steps trace_start])

lemma trace_settled_reachable: "reachable demo_service demo_ingest trace_settled"
  using trace_start trace_step(1-3) by (blast intro: reachable.next_step)

text \<open>What the history holds at its end.\<close>

lemma trace_claims:
  "map (\<lambda>c. (cl_message c, cl_kind c)) (claims trace_claimed) = [(Some ''m1'', ClaimEmailOTP)]"
  by code_simp

lemma trace_end_leases:
  "map (\<lambda>l. (ls_state l, ls_run l)) (leases trace_ended) = [(LeaseReleased, trace_run_id)]"
  by code_simp

lemma trace_end_ok: "fst (ServiceEndRun trace_run_id RunComplete [] trace_claimed) = Inr ()"
  by code_simp

lemma trace_lease_held:
  "map (\<lambda>l. (ls_state l, ls_run l)) (leases trace_settled) = [(LeaseHeld, trace_run_id)]"
  by code_simp

section \<open>Results of the samples\<close>

lemma outcome_Some:
  assumes "demo_outcome k s = Some (rs, v, n)"
  obtains c s' where "Claim demo_service demo_decode demo_env (demo_claim k) s = (Inr c, s')"
    and "cm_reason c = rs" and "cm_value c = v" and "length (claims s') = n"
  using assms by (auto simp: demo_outcome_def split: prod.splits sum.splits)

definition demo_pending :: store where
  "demo_pending = with_tables (demo_db\<lparr>db_leases := [demo_lease\<lparr>ls_seed_state := SeedPending\<rparr>]\<rparr>)"

lemma demo_claim_pending:
  "demo_outcome ClaimEmailOTP demo_pending = Some (ReasonLeaseSeedFailed, [], 0)"
  by code_simp

text \<open>The sample store after its code was claimed under the key of the sample request.\<close>

definition demo_first_claim :: claim where
  "demo_first_claim = \<lparr>cl_id = ''c1'', cl_lease = ''l1'', cl_run = ''r1'', cl_kind = ClaimEmailOTP,
     cl_message = Some ''m1'', cl_key = ''k1'', cl_claimed_at = 22, cl_expires_at = 120000000000\<rparr>"

definition demo_claimed :: store where
  "demo_claimed = with_tables (demo_db\<lparr>db_claims := [demo_first_claim]\<rparr>)"

lemma demo_claimed_replays:
  "demo_outcome ClaimEmailOTP demo_claimed = Some (ReasonOK, ''4711'', 1)"
  by code_simp

lemma demo_claimed_other_kind:
  "demo_outcome ClaimMagicLink demo_claimed = Some (ReasonOK, ''https://a.co/v'', 1)"
  by code_simp


text \<open>
  Two deliveries to the sample store: one to the leased address and to one outside the
  allowlist, and one to two spellings of the leased address.
\<close>

lemma demo_deliver_ok:
  "\<not> isl (fst (Deliver demo_ingest (demo_delivery [''user-01@a.co'', ''boss@corp.co'']) demo_world))"
  by code_simp

lemma demo_deliver_variants:
  "fst (Deliver demo_ingest (demo_delivery [''user-01@a.co'', ''USER-01@a.co'']) demo_world) =
     Inl Temporary"
  by code_simp


section \<open>Reading a message\<close>

text \<open>
  Unicode tables for messages in ASCII, a tokenizer that takes its text as it is, and URLs that
  parse when they begin with the one scheme.
\<close>

definition demo_unicode :: unicode where
  "demo_unicode = \<lparr>uc_word = (\<lambda>r. False), uc_mark = (\<lambda>r. False), uc_lower = asciiLower,
     uc_nfd = (\<lambda>s. s), uc_nfc = (\<lambda>s. s)\<rparr>"

definition demo_html :: html_and_urls where
  "demo_html = \<lparr>hu_tokens = (\<lambda>s. [TextToken s]),
     hu_parse = (\<lambda>url. if prefix ''https://'' url then Some (''https'', ''h'') else None)\<rparr>"

definition demo_text :: extract_input where
  "demo_text = \<lparr>in_subject = ''Hi'', in_text = ''Your code: 482913 https://a.co/verify/123456 (2026)'',
     in_html = []\<rparr>"

section \<open>Two buses\<close>

text \<open>One with two published events, and one with a waiter an event has reached.\<close>

definition demo_bus :: bus where
  "demo_bus = publish_event \<lparr>pb_name = ''m'', pb_data = ''2'', pb_message = None\<rparr>
     (publish_event \<lparr>pb_name = ''m'', pb_data = ''1'', pb_message = None\<rparr> (NewBus 1))"

lemma demo_bus_reachable: "bus_reachable 1 demo_bus"
  unfolding demo_bus_def
  by (intro published_reachable bus_reachable.start)
     (simp_all add: NewBus_def publish_event_def Let_def)

definition waiting_bus :: bus where
  "waiting_bus = publish_event \<lparr>pb_name = ''m'', pb_data = ''1'', pb_message = None\<rparr>
     (snd (SubscribeMatch (\<lambda>e. ev_name e = ''m'') (NewBus 1)))"

lemma waiting_bus_reachable: "bus_reachable 1 waiting_bus"
  unfolding waiting_bus_def
proof (rule published_reachable)
  show "bus_reachable 1 (snd (SubscribeMatch (\<lambda>e. ev_name e = ''m'') (NewBus 1)))"
    by (metis bus_reachable.start bus_reachable.step bus_step.match prod.collapse)
qed (simp_all add: SubscribeMatch_def NewBus_def Let_def)

section \<open>Requests over HTTP\<close>

text \<open>
  A server of the sample project, whose requests carry the body of one claim, and a store with a
  second run beside the sample one.
\<close>

definition demo_api :: api_world where
  "demo_api = \<lparr>wd_digest = (\<lambda>t. if t = ''rt_a'' then ''h1'' else t), wd_lower = asciiLower,
     wd_origin_host = (\<lambda>h. None), wd_end = (\<lambda>b. NothingToDecode), wd_acquire = (\<lambda>b. NothingToDecode),
     wd_claim = (\<lambda>b. Decoded \<lparr>cq_kind = ''email_otp'', cq_key = ''k1'', cq_timeout_ms = 0\<rparr>),
     wd_random = ''x'', wd_suffix = ''x'', wd_meanwhile = (\<lambda>s. s), wd_decode = demo_decode,
     wd_surroundings = demo_env\<rparr>"

definition demo_server :: server where
  "demo_server = \<lparr>sr_service = demo_service, sr_project = ''p'', sr_hosts = [''localhost''],
     sr_version = ''v''\<rparr>"

definition demo_request :: "string \<Rightarrow> string \<Rightarrow> string list \<Rightarrow> request" where
  "demo_request token verb path = \<lparr>rq_host = ''localhost:8025'', rq_origin = [],
     rq_authorization = ''Bearer '' @ token, rq_method = verb, rq_path = path, rq_body = []\<rparr>"

definition demo_principal :: principal where
  "demo_principal = \<lparr>pr_kind = principalRun, pr_project = ''p'', pr_run = ''r1''\<rparr>"

definition other_run_store :: store where
  "other_run_store = with_tables (demo_db\<lparr>db_runs := [demo_run,
     demo_run\<lparr>run_id := ''r2'', run_token_hash := ''h2''\<rparr>]\<rparr>)"

definition claim_request_of :: "string \<Rightarrow> request" where
  "claim_request_of token = demo_request token ''POST'' [''api'', ''v1'', ''leases'', ''l1'', ''claims'']"

definition evidence_request_of :: "ident \<Rightarrow> request" where
  "evidence_request_of i = demo_request ''rt_a'' ''GET'' [''api'', ''v1'', ''runs'', i, ''evidence'']"

definition answered_value :: "response \<Rightarrow> string" where
  "answered_value resp = (case rp_body resp of ClaimAnswered a \<Rightarrow> cb_value a | _ \<Rightarrow> [])"

lemma demo_claim_over_http:
  "answered_value (fst (routes demo_api demo_server (claim_request_of ''rt_a'') demo_store)) = ''4711''"
  by code_simp

lemma demo_authenticated:
  "authenticate demo_api demo_server demo_store (evidence_request_of ''r2'') = Inr demo_principal"
  "authenticate demo_api demo_server other_run_store (evidence_request_of ''r2'') = Inr demo_principal"
  by code_simp+

lemma demo_foreign:
  "target_run demo_store (rq_path (evidence_request_of ''r2'')) \<noteq> Some (pr_run demo_principal)"
  "target_run other_run_store (rq_path (evidence_request_of ''r2'')) \<noteq> Some (pr_run demo_principal)"
  by code_simp+

lemma demo_no_credential: "\<not> live_credential demo_api demo_server demo_store ''rt_b''"
  by code_simp

lemma demo_token: "bearerToken (claim_request_of ''rt_b'') = ''rt_b''"
  by code_simp

section \<open>A command\<close>

definition demo_cli :: cli_env where
  "demo_cli = \<lparr>ce_tty = True, ce_ci = [], ce_home = None, ce_unopenable = (\<lambda>f. False),
     ce_file_fails = False, ce_stdout_fails = False, ce_digest = (\<lambda>t. t), ce_random = ''new'',
     ce_to_ascii = demo_ascii\<rparr>"

definition demo_bearer_options :: bearer_options where
  "demo_bearer_options = \<lparr>bo_project = ''demo'', bo_domains = [], bo_data_dir = ''d'',
     bo_allow_non_tty = False, bo_out = []\<rparr>"

definition demo_cli_world :: cli_world where
  "demo_cli_world = \<lparr>cw_store = demo_store, cw_files = Map.empty, cw_stdout = [], cw_notes = []\<rparr>"

lemma demo_rotates:
  "fst (mintBearer demo_cli OpRotate demo_bearer_options demo_project demo_cli_world) = Inr ()"
  by code_simp

lemma demo_old_bearer:
  "ProjectByBearer (ce_digest demo_cli) (cw_store demo_cli_world) ''pb_old'' = Inr demo_project"
  by code_simp

lemma demo_project_inv: "project_inv (ac_projects (accounts_of (cw_store demo_cli_world)))"
  by (simp add: project_inv_def demo_cli_world_def demo_defs demo_accounts_def)

text \<open>A first start with a domain the profile refuses.\<close>

definition refused_start :: "(setup_error + project \<times> string list) \<times> store" where
  "refused_start = bootstrap (\<lambda>h. None) ''demo'' [''a.co''] blank_store"

lemma refused_start_half:
  "(case fst refused_start of Inl e \<Rightarrow> True | _ \<Rightarrow> False) \<and> ListProjects blank_store = [] \<and>
     ac_allowlist (accounts_of blank_store) = [] \<and> map pj_name (ListProjects (snd refused_start)) = [''demo'']"
  by code_simp

section \<open>A session of the MCP surface\<close>

definition demo_parse :: "string \<Rightarrow> json option" where
  "demo_parse line =
     (if line = ''ping'' then
        Some (JObject [(''jsonrpc'', JString ''2.0''), (''id'', JNumber ''1''), (''method'', JString ''ping'')])
      else if line = ''open'' then
        Some (JObject [(''jsonrpc'', JString ''2.0''), (''id'', JNumber ''2''),
          (''method'', JString ''tools/call''), (''params'', JObject [(''name'', JString ''open_run'')])])
      else None)"

definition demo_print :: "json \<Rightarrow> string" where "demo_print j = []"

definition demo_proxy :: proxy where "demo_proxy = newProxy ''http://h'' ''pb_x''"

definition demo_open :: mcp_session where
  "demo_open = receive demo_parse ''open'' (mcp_start demo_proxy)"

definition demo_sent :: mcp_session where
  "demo_sent = demo_open\<lparr>sn_tasks := [Waiting (JNumber ''2'') OpenRun False (run_call demo_proxy)],
     sn_calls := [run_call demo_proxy]\<rparr>"

lemma demo_open_tasks:
  "sn_tasks demo_open = [Call (JNumber ''2'') OpenRun False] \<and> sn_calls demo_open = [] \<and>
     sn_lines demo_open = [''open''] \<and> sn_out demo_open = []"
  by code_simp

lemma demo_sent_reachable: "mcp_reachable demo_parse demo_print demo_proxy demo_sent"
proof -
  have "mcp_reachable demo_parse demo_print demo_proxy demo_open"
    unfolding demo_open_def by (rule mcp_reachable.step [OF mcp_reachable.start mcp_step.reading])
  moreover have "sn_proxy demo_open = demo_proxy"
    by (simp add: demo_open_def receive_frame mcp_start_def)
  then have "mcp_step demo_parse demo_print demo_open demo_sent"
    using mcp_step.sending [of demo_open "[]" "JNumber ''2''" OpenRun False "[]" demo_print
        "run_call demo_proxy" demo_parse] demo_open_tasks
    by (simp add: demo_sent_def prepare_def)
  ultimately show ?thesis by (rule mcp_reachable.step)
qed

section \<open>A cipher and keys\<close>

text \<open>A cipher that only tags, and two keys.\<close>

definition toy_tag :: string where "toy_tag = replicate tagSize (CHR ''t'')"

definition toy_gcm :: gcm where
  "toy_gcm = \<lparr>gcm_seal = (\<lambda>m n p a. p @ toy_tag),
     gcm_open = (\<lambda>m n c a. if suffix toy_tag c then Some (take (length c - tagSize) c) else None)\<rparr>"

definition toy_key :: "char \<Rightarrow> aes_key" where
  "toy_key c = \<lparr>sk_id = replicate keyIDSize c, sk_material = replicate keySize c\<rparr>"

lemma toy_gcm_laws: "gcm_laws toy_gcm"
  by (auto simp: gcm_laws_def toy_gcm_def toy_tag_def suffix_def)

lemma toy_key_ok: "well_formed_key (toy_key c)"
  by (simp add: well_formed_key_def toy_key_def)

section \<open>Pages\<close>

definition paged_mail :: "ident \<Rightarrow> store \<Rightarrow> store" where
  "paged_mail i s = snd (tx (deliver_tx demo_ingest (trace_mail\<lparr>nm_id := i\<rparr>) ''app@x.co'' False []
     [trace_addr] 0) s)"

definition demo_pages :: store where
  "demo_pages = paged_mail (demo_id 8) (paged_mail (demo_id 7) trace_settled)"

lemma paged_mail_reachable: "reachable demo_service demo_ingest s \<Longrightarrow> reachable demo_service demo_ingest (paged_mail i s)"
  unfolding paged_mail_def
  by (rule reachable.next_step, assumption, rule step_of, rule step.delivering, assumption)

lemma demo_pages_reachable: "reachable demo_service demo_ingest demo_pages"
  unfolding demo_pages_def by (intro paged_mail_reachable trace_settled_reachable)

definition demo_filter :: message_filter where
  "demo_filter = \<lparr>mf_project = ''p'', mf_to = [], mf_since = 0, mf_cursor = (0, []), mf_limit = 1,
     mf_quarantined = False\<rparr>"

lemma demo_pages_rows:
  "map (\<lambda>m. (msg_id m, msg_received_at m)) (messages demo_pages) = [(demo_id 7, 7000000), (demo_id 8, 7000000)]"
  by code_simp

lemma demo_ids_valid: "ValidID (demo_id 7) \<and> ValidID (demo_id 8)"
  by code_simp

lemma demo_listing:
  "length (ListMessages demo_ascii demo_pages (demo_filter\<lparr>mf_limit := 0\<rparr>)) = 2 \<and>
     cursor_is_zero (mf_cursor demo_filter) \<and> 0 < mf_limit demo_filter"
  by code_simp

lemma demo_times: "storable 7000000" "storable 999999999" "storable 1000000000"
  by (simp_all add: storable_def last_instant_def days_before_year_def nanos_per_day_def second_def)

text \<open>
  Mail to another spelling of a leased address is bound to the lease, but the event it
  publishes does not wake the claim that waits for that address: the matcher compares bytes.
\<close>

lemma bound_mail_wakes_nobody:
  "owner_at demo_store (NormalizeAddress demo_ascii ''USER-01@a.co'') 20 \<noteq> None \<and>
   \<not> matchAddr demo_ascii (idn_addr demo_identity) (Some [''USER-01@a.co''])"
proof
  show "owner_at demo_store (NormalizeAddress demo_ascii ''USER-01@a.co'') 20 \<noteq> None" by code_simp
  show "\<not> matchAddr demo_ascii (idn_addr demo_identity) (Some [''USER-01@a.co''])" by code_simp
qed

section \<open>A pipeline\<close>

text \<open>An empty server that has taken one delivery, and a store with one message that is pending.\<close>

definition fresh_world :: world where
  "fresh_world = demo_world\<lparr>w_store := blank_store\<rparr>"

definition fresh_pipeline :: pipeline where
  "fresh_pipeline = \<lparr>pl_world = fresh_world, pl_sessions = [], pl_queue = [], pl_running = [],
     pl_recovery = [], pl_left = {}, pl_before = {}\<rparr>"

definition demo_taken :: "(deliver_error + job option) \<times> world" where
  "demo_taken = Deliver demo_ingest (demo_delivery [''user-01@a.co'']) (fresh_world\<lparr>w_stopping := False\<rparr>)"

lemma demo_taken_ok:
  "(case fst demo_taken of Inr (Some j) \<Rightarrow> True | _ \<Rightarrow> False) \<and>
     map msg_extraction_state (messages (w_store (snd demo_taken))) = [ExtractionPending]"
  by code_simp

lemma demo_pipeline:
  "\<exists>p. pipe_reachable demo_ingest (\<lambda>j. []) 1 p \<and> pl_world p = (snd demo_taken)\<lparr>w_stopping := False\<rparr>"
proof -
  obtain j where "fst demo_taken = Inr (Some j)"
    using demo_taken_ok by (auto split: sum.splits option.splits)
  then have j: "demo_taken = (Inr (Some j), snd demo_taken)" by (metis prod.collapse)
  have "pipe_reachable demo_ingest (\<lambda>j. []) 1 fresh_pipeline"
    unfolding fresh_pipeline_def
    by (rule pipe_reachable.started [of _ 1])
       (simp_all add: fresh_world_def blank_store_def with_tables_def empty_db_def demo_world_def)
  moreover have "w_stopping fresh_world = False" by (simp add: fresh_world_def demo_world_def)
  ultimately show ?thesis
    using pipe_reachable.stepped [OF _ pipe_step.accepted [of demo_ingest "demo_delivery [''user-01@a.co'']" fresh_pipeline]]
      j unfolding demo_taken_def by (fastforce simp: fresh_pipeline_def)
qed

definition crashed_world :: world where
  "crashed_world = demo_world\<lparr>w_store := with_tables (demo_db\<lparr>db_messages :=
     [demo_message\<lparr>msg_extracted := None, msg_extraction_state := ExtractionPending\<rparr>]\<rparr>)\<rparr>"

end
