(* ===== verification/Spec2Isabelle.thy ===== *)
theory Spec2Isabelle
  imports Samples
begin

text \<open>
  AuthStunt is a local service that captures the mail an application under test sends, works out
  which test run each message belongs to and hands the code or link in it to that run once. This
  library models that core and proves what makes it trustworthy: a secret reaches only the run
  whose lease owned the address when the message arrived, at most once, and every answer is on
  the record. Around that core it models the surfaces that lead to it: the HTTP API, the tools of
  the MCP proxy, the credentials of projects, the start of the server and the key that seals what
  is stored.

  The parts and the theories that model them (sources under \<^verbatim>\<open>src/internal\<close>):

  \<^item> \<^verbatim>\<open>Prelude\<close>: times, errors and the list lemmas that stand for SQL statements.
  \<^item> \<^verbatim>\<open>StoreModel\<close> (\<^verbatim>\<open>store/models.go\<close>, \<^verbatim>\<open>store.go\<close>, \<^verbatim>\<open>ids.go\<close>,
    \<^verbatim>\<open>tx.go\<close>): the rows, the store record with its clock and random source, transactions.
  \<^item> \<^verbatim>\<open>Addresses\<close> (\<^verbatim>\<open>store/domain.go\<close>, \<^verbatim>\<open>address.go\<close>): domains, allowlist patterns,
    address keys and the minting of ephemeral addresses.
  \<^item> \<^verbatim>\<open>Leases\<close>, \<^verbatim>\<open>Runs\<close>, \<^verbatim>\<open>LedgerEvents\<close>, \<^verbatim>\<open>Messages\<close>, \<^verbatim>\<open>Bindings\<close>,
    \<^verbatim>\<open>Claims\<close>: the tables and the statements of \<^verbatim>\<open>internal/store\<close>, each operation a
    function on the store that returns an error or a value with the next store.
  \<^item> \<^verbatim>\<open>Service\<close> (\<^verbatim>\<open>personas/lease.go\<close>): the lease service over the store.
  \<^item> \<^verbatim>\<open>ExtractModel\<close>, \<^verbatim>\<open>TextScan\<close>, \<^verbatim>\<open>PlainUrls\<close>, \<^verbatim>\<open>Otp\<close>,
    \<^verbatim>\<open>Links\<close>, \<^verbatim>\<open>Extractor\<close> (\<^verbatim>\<open>extract/extract.go\<close>, \<^verbatim>\<open>otp.go\<close>,
    \<^verbatim>\<open>links.go\<close>): spans, runes and whole words, URLs written out in text, the ranking of
    codes, links and the HTML scan, and the extraction of a message.
  \<^item> \<^verbatim>\<open>ClaimPath\<close> (\<^verbatim>\<open>personas/claim.go\<close>): claiming a secret, replay included.
  \<^item> \<^verbatim>\<open>EventIds\<close>, \<^verbatim>\<open>Ring\<close>, \<^verbatim>\<open>Bus\<close>, \<^verbatim>\<open>Hub\<close> (\<^verbatim>\<open>internal/sse\<close>): event
    identifiers, the replay ring, the bus as a step relation and the stream of frames.
  \<^item> \<^verbatim>\<open>Ingest\<close> (\<^verbatim>\<open>smtp/ingest.go\<close>, \<^verbatim>\<open>smtp/server.go\<close>, \<^verbatim>\<open>store/blob.go\<close>):
    capture of a delivery, extraction jobs and recovery after a crash.
  \<^item> \<^verbatim>\<open>Pipeline\<close> (\<^verbatim>\<open>smtp/ingest.go\<close>, \<^verbatim>\<open>smtp/server.go\<close>): the configuration of the listener, and
    the queue and the workers between an acknowledgement and its announcement, with shutdowns,
    crashes and restarts, as a step relation.
  \<^item> \<^verbatim>\<open>Blobs\<close> (\<^verbatim>\<open>store/blob.go\<close>, \<^verbatim>\<open>fsutil\<close>): putting a blob call by call, over a disk that
    keeps what was synced and may keep anything else when the power is lost; the map \<^verbatim>\<open>Ingest\<close>
    works on is what the names of this disk lead to.
  \<^item> \<^verbatim>\<open>Acknowledged\<close> (\<^verbatim>\<open>smtp/ingest.go\<close>): the order of a delivery over that disk and a log
    that can lose what was not flushed, which is the contract of a 250.
  \<^item> \<^verbatim>\<open>Shutdown\<close> (\<^verbatim>\<open>cmd/authstunt/serve.go\<close>, \<^verbatim>\<open>smtp/server.go\<close>, \<^verbatim>\<open>smtp/ingest.go\<close>): the
    goroutines of a running server and the order in which they end, as step relations.
  \<^item> \<^verbatim>\<open>Opening\<close> (\<^verbatim>\<open>store/store.go\<close>, \<^verbatim>\<open>migrate.go\<close>): the durability setting, the wait for the
    first connection, the migrations, and opening and closing the handles.
  \<^item> \<^verbatim>\<open>Rows\<close> (\<^verbatim>\<open>internal/store\<close>): the cells each row is stored in and the functions that scan
    them back, each with the lemma that it gives back the row.
  \<^item> \<^verbatim>\<open>Listing\<close> (\<^verbatim>\<open>store/messages.go\<close>): filling in the recipients of a page in batches.
  \<^item> \<^verbatim>\<open>Accounts\<close> (\<^verbatim>\<open>store/projects.go\<close>, \<^verbatim>\<open>personas.go\<close>, \<^verbatim>\<open>events.go\<close>): projects and their
    bearers, allowlists, personas with relations, secrets and sessions, and the event generation.
  \<^item> \<^verbatim>\<open>Timestamps\<close>, \<^verbatim>\<open>Cursors\<close> (\<^verbatim>\<open>store/store.go\<close>, \<^verbatim>\<open>cursor.go\<close>): the text of a stored
    time, the tokens that continue a listing, and the pages a caller reads with them.
  \<^item> \<^verbatim>\<open>Api\<close> (\<^verbatim>\<open>internal/api\<close>): hosts and origins, principals, the handlers and the routes, a
    function from a request and a store to a response and a store.
  \<^item> \<^verbatim>\<open>Json\<close>, \<^verbatim>\<open>Wire\<close>, \<^verbatim>\<open>Mcp\<close> (\<^verbatim>\<open>internal/mcp\<close>): JSON values and the decoding of
    structs, the line protocol, and sessions of the MCP surface as a step relation.
  \<^item> \<^verbatim>\<open>Tools\<close> (\<^verbatim>\<open>mcp/tools.go\<close>, \<^verbatim>\<open>server.go\<close>): the tools as they are advertised, their texts and
    schemas, what it means that arguments fit a schema, and the results of the methods as JSON.
  \<^item> \<^verbatim>\<open>RelayConf\<close> (\<^verbatim>\<open>internal/relayconf\<close>): the comparison of a message before and after a relay.
  \<^item> \<^verbatim>\<open>Secrets\<close> (\<^verbatim>\<open>internal/secrets\<close>): sealed containers, and the race for the key file as a
    step relation of system calls.
  \<^item> \<^verbatim>\<open>KeyDir\<close> (\<^verbatim>\<open>secrets/keys.go\<close>, \<^verbatim>\<open>keys_unix.go\<close>, \<^verbatim>\<open>keys_windows.go\<close>): the key directory and
    who may reach a key file, mode bits as 32-bit words and access control lists.
  \<^item> \<^verbatim>\<open>Seeding\<close>, \<^verbatim>\<open>Setup\<close>, \<^verbatim>\<open>BearerCli\<close> (\<^verbatim>\<open>personas/seed.go\<close>,
    \<^verbatim>\<open>cmd/authstunt/serve.go\<close>, \<^verbatim>\<open>bearer.go\<close>): the seeder over HTTP, the start of the server up
    to the moment it accepts connections, and the command that issues and revokes bearers.
  \<^item> \<^verbatim>\<open>CommandLine\<close> (\<^verbatim>\<open>cmd/authstunt\<close>): the commands and their flags, read as the package
    \<^verbatim>\<open>flag\<close> reads them, the opening of a data directory and the line a start prints.
  \<^item> \<^verbatim>\<open>StoreInv\<close>, \<^verbatim>\<open>SideViews\<close>, \<^verbatim>\<open>AuditTrail\<close>, \<^verbatim>\<open>Machine\<close>: the invariant of the whole store, the
    tables an operation leaves alone, the append-only redacted ledger, and the transition system whose steps are the requests.
  \<^item> \<^verbatim>\<open>Samples\<close>: concrete stores and a run of the whole system, used by the witnesses.

  How they interact: an acquire reserves an identity and a lease in one transaction, calls the
  seeder outside it and settles the lease in a second one; a delivery stores its message and binds
  its recipients to the leases that owned them at the arrival instant in one transaction, then a
  job extracts and publishes on the bus; a claim checks its gates, replays a recorded key, and
  otherwise takes the oldest candidate or waits for the bus until its deadline.

  A request over HTTP passes the host check, its credential becomes a principal, and the handler
  calls the lease service or the claim path. The MCP proxy turns tool calls into such requests and
  keeps the run tokens to itself. The start of the server reads or creates the project, takes a new
  event generation, sweeps what expired, recovers unfinished extractions and opens the API last.

  Interfaces are locales: \<^verbatim>\<open>interval_history\<close> (rows that occupy a key for an interval),
  \<^verbatim>\<open>replay_buffer\<close> (a buffer that keeps the last n items), \<^verbatim>\<open>serving_contract\<close> (a property of
  the store that every statement keeps, from which every operation of the service, every delivery
  and every step keeps it), \<^verbatim>\<open>store_contract\<close> (one that administration keeps as well) and
  \<^verbatim>\<open>side_view\<close> with its extensions (a part of the tables that statements leave alone). They are
  interpreted on the model's own definitions: the lease table, the ring of the bus, the store
  invariant, the audit trail, the end of a run, and the runs, the ledger and the accounts as views.

  What the program reads from outside is an argument: the wall clocks and the random source are
  functions of the number of calls made, so nothing is assumed about them; the sealer of message
  bodies, the IDNA profile, the MIME reader, the JSON codec of the stored extraction and the text
  syntax of JSON, the Unicode tables and normal forms, the HTML tokenizer and \<^verbatim>\<open>url.Parse\<close>, the
  extractor that ingest runs, the seeder and its HTTP client, the digest of tokens, the layouts of a
  time other than the one the store writes, what an HTTP server answers the proxy, and, for a claim,
  what other requests do to the store between its steps and how often the bus wakes it. The number
  of wakeups bounds the claim loop: it ends when they are used up or the deadline passes, as the
  loop of the code does. The cipher is an argument with three named laws, \<^verbatim>\<open>gcm_laws\<close>: it opens
  what it sealed, nothing else, and adds a tag of fixed length. \<^verbatim>\<open>list_pages\<close> takes the number of
  pages to ask for; one more than the number of messages is enough, as the property about it says.

  What the lemmas show. Each table has an invariant, the composite \<^verbatim>\<open>store_inv\<close> holds in every
  reachable store, and from it come the properties of ownership, claims and the clock. The capture
  and binding of mail, the answer of a claim and the routes of the API are characterised branch by
  branch. The bus, the ingest pipeline, the MCP session, the key file, the blob
  directory and the running server have invariants over every interleaving of their steps. The extraction of codes and links is compared with a declarative account of what
  stands in a message. The pipeline of ingest keeps its books balanced: what was acknowledged is
  pending and waits somewhere, or settled and announced once. A schema
  of a tool is shown to be the type of its arguments, and the shutdown to end exactly when a signal
  came. Round trips cover event identifiers, frames, timestamps, cursors, rows, sealed containers and
  the line protocol.

  Not modelled: the sockets and the SMTP library beyond the closing of its server, the cancellation
  of an MCP session and of a parked claim by a signal, the driver of the database, the recovery of a
  panicking handler and the redirects of the HTTP multiplexer, SQL errors other than the constraints
  of the schema, what the scripts of the migrations do, the cipher and the digest themselves, and
  the usage and log texts. They are calls into the operating system or into packages the repository
  only uses; for each the manifest gives the reason.
\<close>

section \<open>Claims\<close>



text \<open>
  C2: in every store the server can reach, a message has been claimed at most once for each
  kind, whatever requests ran and however they interleaved.
\<close>

theorem one_claim_per_message_and_kind:
  assumes "reachable sv ig s"
  shows "distinct (map (\<lambda>c. (cl_message c, cl_kind c)) (filter (\<lambda>c. cl_message c \<noteq> None) (claims s)))"
proof -
  have "claim_inv (claims s)" using reachable_inv [OF assms] by (simp add: store_inv_def)
  then have "sorted_wrt (\<lambda>c d. \<not> claims_clash c d) (filter (\<lambda>c. cl_message c \<noteq> None) (claims s))"
    by (auto simp: claim_inv_def intro: sorted_wrt_filterI)
  then have "sorted_wrt (\<lambda>c d. (cl_message c, cl_kind c) \<noteq> (cl_message d, cl_kind d))
      (filter (\<lambda>c. cl_message c \<noteq> None) (claims s))"
    by (rule sorted_wrt_mono_rel [rotated]) (auto simp: claims_clash_def)
  then show ?thesis by (rule sorted_wrt_distinct)
qed

theorem one_claim_per_message_and_kind_witness:
  "distinct (map (\<lambda>c. (cl_message c, cl_kind c))
     (filter (\<lambda>c. cl_message c \<noteq> None) (claims trace_claimed))) \<and> claims trace_claimed \<noteq> []"
  using one_claim_per_message_and_kind [OF trace_reachable] trace_claims by auto

text \<open>
  C6: a key that is already recorded for the lease never consumes anything: whatever the retry
  answers, the claims, messages and bindings are what they were.
\<close>

theorem retry_consumes_nothing:
  assumes "ClaimByKey s (cr_lease req) (cr_key req) = Some cl"
    and "Claim sv dec env req s = (Inr c, s')"
  shows "claims s' = claims s \<and> messages s' = messages s \<and> bindings s' = bindings s"
  using Claim_known_key [OF assms] .

theorem retry_consumes_nothing_witness:
  "\<exists>c s'. Claim demo_service demo_decode demo_env (demo_claim ClaimEmailOTP) demo_claimed = (Inr c, s') \<and>
     cm_value c = ''4711'' \<and> claims s' = claims demo_claimed"
proof -
  obtain c s' where r: "Claim demo_service demo_decode demo_env (demo_claim ClaimEmailOTP) demo_claimed =
      (Inr c, s')" "cm_value c = ''4711''"
    by (rule outcome_Some [OF demo_claimed_replays])
  have "ClaimByKey demo_claimed (cr_lease (demo_claim ClaimEmailOTP)) (cr_key (demo_claim ClaimEmailOTP)) =
      Some demo_first_claim"
    by (simp add: ClaimByKey_def find_row_def demo_claimed_def with_tables_def demo_first_claim_def
        demo_claim_def)
  from retry_consumes_nothing [OF this r(1)] r show ?thesis by blast
qed

text \<open>
  C7: a claim on a lease that is not held and seeded, or whose run has ended, is refused: no
  secret, nothing recorded, and the reason names the first gate that failed.
\<close>

theorem closed_gate_refuses:
  assumes "Lease s (cr_lease req) = Some l" and "Run s (ls_run l) = Some r"
    and "\<not> (run_active r \<and> lease_claimable l)" and "Claim sv dec env req s = (Inr c, s')"
  shows "Some (cm_reason c) = gate r l \<and> \<not> claim_OK c \<and> cm_value c = [] \<and> claims s' = claims s"
proof -
  have gate: "gate r l \<noteq> None"
    using assms(3) by (auto simp: gate_def)
  from assms(4) show ?thesis
  proof (cases rule: Claim_cases)
    case (gated st s1 l' i r' reason)
    then have same: "l' = l" "r' = r" using assms(1,2) by simp_all
    obtain w where "c = (refusal reason)\<lparr>cm_waited := w\<rparr>"
      using settleClaim_result [OF gated(7)] by blast
    then show ?thesis
      using gated(4,5) gate_not_OK [OF gated(4)] settleClaim_frame(4) [OF gated(7)]
      unfolding same by (simp add: refusal_def claim_OK_def)
  next
    case (replayed st s1 l' i r' c0 t)
    then show ?thesis using assms(1,2) gate by simp
  next
    case (looped st s1 l' i r' c0 t t1 waits deadline u)
    then show ?thesis using assms(1,2) gate by simp
  qed
qed

theorem closed_gate_refuses_witness:
  "\<exists>c s'. Claim demo_service demo_decode demo_env (demo_claim ClaimEmailOTP) demo_pending = (Inr c, s') \<and>
     Some (cm_reason c) = gate demo_run (demo_lease\<lparr>ls_seed_state := SeedPending\<rparr>) \<and> \<not> claim_OK c"
proof -
  obtain c s' where r: "Claim demo_service demo_decode demo_env (demo_claim ClaimEmailOTP) demo_pending =
      (Inr c, s')"
    by (rule outcome_Some [OF demo_claim_pending])
  have l: "Lease demo_pending (cr_lease (demo_claim ClaimEmailOTP)) =
      Some (demo_lease\<lparr>ls_seed_state := SeedPending\<rparr>)"
    by (simp add: Lease_def find_row_def demo_pending_def demo_defs)
  have q: "Run demo_pending (ls_run (demo_lease\<lparr>ls_seed_state := SeedPending\<rparr>)) = Some demo_run"
    by (simp add: Run_def find_row_def demo_pending_def demo_defs)
  have "\<not> (run_active demo_run \<and> lease_claimable (demo_lease\<lparr>ls_seed_state := SeedPending\<rparr>))"
    by (simp add: lease_claimable_def demo_lease_def)
  from closed_gate_refuses [OF l q this r] r show ?thesis by blast
qed

text \<open>
  C8: every answer of a claim is on the record: the last ledger entry names the lease, the claim,
  the kind, the message and the reason of exactly this answer, with the address redacted.
\<close>

theorem answer_is_recorded:
  assumes "Claim sv dec env req s = (Inr c, s')"
  shows "\<exists>l i. Lease s (cr_lease req) = Some l \<and> Identity s (ls_identity l) = Some i \<and>
     ledger s' \<noteq> [] \<and> le_run (last (ledger s')) = ls_run l \<and>
     le_event (last (ledger s')) = ClaimSettled (ls_id l) (cm_claim c) (cr_kind req) (cm_message c)
       (cm_reason c) (Redacted (idn_addr i))"
proof -
  from assms obtain l i st c0 t where l: "Lease s (cr_lease req) = Some l"
    "Identity s (ls_identity l) = Some i" and st: "settleClaim sv l i req st c0 t = (Inr c, s')"
    by (cases rule: Claim_cases) blast+
  obtain w where c: "c = c0\<lparr>cm_waited := w\<rparr>" using settleClaim_result [OF st] by blast
  from settleClaim_frame(9) [OF st] show ?thesis
    using l by (auto simp: c)
qed

theorem answer_is_recorded_witness:
  "\<exists>c s'. Claim demo_service demo_decode demo_env (demo_claim ClaimEmailOTP) demo_store = (Inr c, s') \<and>
     ledger s' \<noteq> []"
proof -
  obtain c s' where r: "Claim demo_service demo_decode demo_env (demo_claim ClaimEmailOTP) demo_store =
      (Inr c, s')"
    by (rule outcome_Some [OF demo_claim_taken])
  with answer_is_recorded [OF r] show ?thesis by blast
qed


section \<open>Leases, runs and the clock\<close>

text \<open>
  C3: at any instant an address belongs to at most one lease, over the whole history of the
  store: this is what lets a message be attributed by its recipient and its arrival time.
\<close>

theorem one_owner_at_any_time:
  assumes "reachable sv ig s"
  shows "length (filter (owns_addr_at (identities s) a t) (leases s)) \<le> 1"
proof (rule distinct_at_most_one)
  have inv: "lease_inv (leases s)" "identity_inv (identities s)"
    using reachable_inv [OF assms] by (simp_all add: store_inv_def)
  then show "distinct (filter (owns_addr_at (identities s) a t) (leases s))"
    by (auto simp: lease_inv_def dest: distinct_of_key)
  show "x = y" if "x \<in> set (filter (owns_addr_at (identities s) a t) (leases s))"
    "y \<in> set (filter (owns_addr_at (identities s) a t) (leases s))" for x y
    using that owner_unique [OF inv, of x y a t] by simp
qed

theorem one_owner_at_any_time_witness:
  "length (filter (owns_addr_at (identities trace_claimed) trace_addr 7000000) (leases trace_claimed)) \<le> 1"
  by (rule one_owner_at_any_time [OF trace_reachable])

text \<open>
  C12: in every reachable store a held lease belongs to an active run, and no other held lease
  has its identity.
\<close>

theorem held_lease_has_active_run:
  assumes "reachable sv ig s" and "l \<in> set (leases s)" and "ls_state l = LeaseHeld"
  shows "(\<exists>r\<in>set (runs s). run_id r = ls_run l \<and> run_active r) \<and>
     filter (\<lambda>m. ls_state m = LeaseHeld \<and> ls_identity m = ls_identity l) (leases s) = [l]"
proof
  have inv: "lease_inv (leases s)" "held_active s"
    using reachable_inv [OF assms(1)] by (simp_all add: store_inv_def)
  then show "\<exists>r\<in>set (runs s). run_id r = ls_run l \<and> run_active r"
    using assms(2,3) by (auto simp: held_active_def run_active_def)
  have open_: "ls_released_at m = None" if "m \<in> set (leases s)" "ls_state m = LeaseHeld" for m
    using inv(1) that by (auto simp: lease_inv_def list_all_iff lease_row_ok_def)
  have same: "m = l" if "m \<in> set (leases s)" "ls_state m = LeaseHeld" "ls_identity m = ls_identity l" for m
    by (rule lease_rows.one_open [OF inv(1) that(1) assms(2) that(3)])
       (simp_all add: open_ that assms(2,3))
  show "filter (\<lambda>m. ls_state m = LeaseHeld \<and> ls_identity m = ls_identity l) (leases s) = [l]"
  proof (rule distinct_exactly_one)
    show "distinct (filter (\<lambda>m. ls_state m = LeaseHeld \<and> ls_identity m = ls_identity l) (leases s))"
      using inv(1) by (auto simp: lease_inv_def dest: distinct_of_key)
    show "set (filter (\<lambda>m. ls_state m = LeaseHeld \<and> ls_identity m = ls_identity l) (leases s)) = {l}"
      using same assms(2,3) by auto
  qed
qed

theorem held_lease_has_active_run_witness:
  "\<exists>l\<in>set (leases trace_settled). \<exists>r\<in>set (runs trace_settled). run_id r = ls_run l \<and> run_active r"
proof -
  obtain l where l: "leases trace_settled = [l]" "ls_state l = LeaseHeld"
    using trace_lease_held by (cases "leases trace_settled") auto
  then show ?thesis using held_lease_has_active_run [OF trace_settled_reachable, of l] by auto
qed

text \<open>
  C11: ending a run is final. Once \<^verbatim>\<open>EndRun\<close> has answered without an error, no lease of the run is
  held in that store or in any store reached from it.
\<close>

theorem ended_run_never_holds_again:
  assumes "reachable sv ig s" and "ServiceEndRun i st reason s = (Inr (), s1)"
    and "(step sv ig)\<^sup>*\<^sup>* s1 s2" and "l \<in> set (leases s2)" and "ls_run l = i"
  shows "ls_state l \<noteq> LeaseHeld"
proof (rule ended_holds_nothing [OF _ _ assms(4,5)])
  have "step sv ig s s1" using assms(2) by (rule step.ending)
  then have "reachable sv ig s2"
    using assms(1,3) by (blast intro: reachable_steps reachable.next_step)
  then show "store_inv s2" by (rule reachable_inv)
  have "ended i s1"
    using assms(2) EndRun_ends by (simp add: ServiceEndRun_def tx_Inr)
  then show "ended i s2" by (rule ended_rows.steps_keep [OF assms(3)])
qed

theorem ended_run_never_holds_again_witness:
  "\<exists>l\<in>set (leases trace_ended). ls_run l = trace_run_id \<and> ls_state l \<noteq> LeaseHeld"
proof -
  obtain l where l: "leases trace_ended = [l]" "ls_run l = trace_run_id"
    using trace_end_leases by (cases "leases trace_ended") auto
  have "ServiceEndRun trace_run_id RunComplete [] trace_claimed = (Inr (), trace_ended)"
    using trace_end_ok unfolding trace_ended_def by (metis prod.collapse)
  from ended_run_never_holds_again [OF trace_reachable this rtranclp.rtrancl_refl, of l] l
  show ?thesis by simp
qed

section \<open>Capture and correlation\<close>

text \<open>
  C13: a delivery that is acknowledged is stored: the row is new, its raw bytes read back
  unchanged, and it is quarantined exactly when some recipient is outside the allowlist. The
  hypotheses are that the random source yields well-formed identifiers, two different ones in a
  row, and that the sealer opens what it sealed.
\<close>

theorem acknowledged_mail_is_captured:
  assumes "Deliver ig d w = (Inr j, w')"
    and "ValidID (id_src (w_store w) (id_calls (w_store w)))"
    and "id_src (w_store w) (id_calls (w_store w)) \<noteq> id_src (w_store w) (Suc (id_calls (w_store w)))"
    and "\<forall>x y. seal (w_store w) x = Some y \<longrightarrow> unseal (w_store w) y = Some x"
  shows "captured ig d w w'"
  using Deliver_captures [OF assms(1,3,2,4)] .

theorem acknowledged_mail_is_captured_witness:
  "\<exists>j w'. Deliver demo_ingest (demo_delivery [''user-01@a.co'', ''boss@corp.co'']) demo_world = (Inr j, w') \<and>
     captured demo_ingest (demo_delivery [''user-01@a.co'', ''boss@corp.co'']) demo_world w'"
proof -
  obtain j w' where r: "Deliver demo_ingest (demo_delivery [''user-01@a.co'', ''boss@corp.co'']) demo_world =
      (Inr j, w')"
    using demo_deliver_ok by (metis sum.collapse(2) prod.collapse isl_def)
  have "ValidID (id_src (w_store demo_world) (id_calls (w_store demo_world)))"
    "id_src (w_store demo_world) (id_calls (w_store demo_world)) \<noteq>
       id_src (w_store demo_world) (Suc (id_calls (w_store demo_world)))"
    by code_simp+
  moreover have "\<forall>x y. seal (w_store demo_world) x = Some y \<longrightarrow> unseal (w_store demo_world) y = Some x"
    by (simp add: demo_defs)
  ultimately show ?thesis using acknowledged_mail_is_captured [OF r] r by blast
qed





text \<open>
  C18: binding a stored message that is bound nowhere yet cannot fail unless two of its
  recipients are spellings of one address: in a well-formed store two different addresses never
  resolve to one lease, so the primary key cannot be violated.
\<close>

theorem binding_is_total:
  assumes "lease_inv (leases s)" and "identity_inv (identities s)"
    and "list_ex (\<lambda>r. msg_id r = m) (messages s)"
    and "list_all (\<lambda>b. bd_message b \<noteq> m) (bindings s)"
    and "\<forall>a\<in>addrs_of ta raw. \<forall>b\<in>addrs_of ta raw. nocase_eq a b \<longrightarrow> a = b"
  shows "\<exists>bound unbound s'. BindRecipients ta m raw rt ot s = (Inr (bound, unbound), s') \<and>
     set (map bd_addr bound) \<union> set unbound = addrs_of ta raw"
proof -
  have "\<exists>x. fst (BindRecipients ta m raw rt ot s) = Inr x"
    by (rule BindRecipients_total [OF assms(1-3)])
       (use assms(4,5) in \<open>auto simp: list_all_iff\<close>)
  then obtain bound unbound s' where r: "BindRecipients ta m raw rt ot s = (Inr (bound, unbound), s')"
    by (metis prod.collapse)
  with BindRecipients_spec(4) [OF r] show ?thesis by blast
qed

theorem binding_is_total_witness:
  "\<exists>bound unbound s'. BindRecipients demo_ascii ''m1'' [''user-01@a.co'', ''boss@corp.co''] 20 0
       (with_tables (demo_db\<lparr>db_bindings := []\<rparr>)) = (Inr (bound, unbound), s') \<and>
     set (map bd_addr bound) \<union> set unbound = {''user-01@a.co'', ''boss@corp.co''}"
proof -
  let ?s = "with_tables (demo_db\<lparr>db_bindings := []\<rparr>)"
  have n: "NormalizeAddress demo_ascii ''user-01@a.co'' = ''user-01@a.co''"
    "NormalizeAddress demo_ascii ''boss@corp.co'' = ''boss@corp.co''"
    by code_simp+
  then have a: "addrs_of demo_ascii [''user-01@a.co'', ''boss@corp.co''] =
      {''user-01@a.co'', ''boss@corp.co''}" by (auto simp: addrs_of_def)
  have "\<not> nocase_eq ''user-01@a.co'' ''boss@corp.co''" by code_simp
  then have "\<forall>a\<in>addrs_of demo_ascii [''user-01@a.co'', ''boss@corp.co''].
      \<forall>b\<in>addrs_of demo_ascii [''user-01@a.co'', ''boss@corp.co'']. nocase_eq a b \<longrightarrow> a = b"
    unfolding a by (auto simp: nocase_eq_def)
  moreover have "lease_inv (leases ?s)" "identity_inv (identities ?s)"
    by (simp_all add: lease_inv_def lease_row_ok_def identity_inv_def demo_defs)
  moreover have "list_ex (\<lambda>r. msg_id r = ''m1'') (messages ?s)"
    "list_all (\<lambda>b. bd_message b \<noteq> ''m1'') (bindings ?s)"
    by (simp_all add: demo_defs)
  ultimately show ?thesis
    using binding_is_total [of ?s "''m1''" demo_ascii "[''user-01@a.co'', ''boss@corp.co'']" 20 0]
    unfolding a by blast
qed

text \<open>
  C38: two recipients that are spellings of one owned address make the transaction fail: the
  check for repeated recipients compares bytes while the address column does not, so the second
  insert violates the primary key of the bindings and the whole delivery is refused.
\<close>

theorem case_variants_refuse_mail:
  assumes "NormalizeAddress ta r1 \<noteq> []" and "NormalizeAddress ta r1 \<noteq> NormalizeAddress ta r2"
    and "nocase_eq (NormalizeAddress ta r1) (NormalizeAddress ta r2)"
    and "owner_at s (NormalizeAddress ta r1) rt \<noteq> None"
  shows "fst (BindRecipients ta m [r1, r2] rt ot s) = Inl ErrConstraint"
  using bind_case_variants [OF assms] .

theorem case_variants_refuse_mail_witness:
  "fst (BindRecipients demo_ascii ''m9'' [''user-01@a.co'', ''USER-01@a.co''] 20 0 demo_store) =
     Inl ErrConstraint"
proof (rule case_variants_refuse_mail)
  show "NormalizeAddress demo_ascii ''user-01@a.co'' \<noteq> []" by code_simp
  show "NormalizeAddress demo_ascii ''user-01@a.co'' \<noteq> NormalizeAddress demo_ascii ''USER-01@a.co''"
    by code_simp
  show "nocase_eq (NormalizeAddress demo_ascii ''user-01@a.co'')
      (NormalizeAddress demo_ascii ''USER-01@a.co'')" by code_simp
  show "owner_at demo_store (NormalizeAddress demo_ascii ''user-01@a.co'') 20 \<noteq> None" by code_simp
qed



text \<open>
  C17: the recovery of a start leaves nothing pending, whatever the crash before it interrupted,
  and announces exactly the messages it found pending, the oldest first.
\<close>

theorem recovery_settles_everything:
  assumes "message_inv (messages (w_store w))" and "w_bus w = NewBus g"
  shows "ListPendingExtractions (w_store (Recover ig detail w)) 0 = [] \<and>
     announced (w_bus (Recover ig detail w)) =
       map (msg_id \<circ> mv_row) (ListPendingExtractions (w_store w) 0)"
proof -
  have ids: "distinct (map msg_id (messages (w_store w)))" using assms(1) by (simp add: message_inv_def)
  have bus: "bus_reachable g (w_bus w)" "\<not> bus_stopped (w_bus w)"
    using bus_reachable.start by (simp_all add: assms(2) NewBus_def)
  show ?thesis using Recover_settles [OF ids bus] by (simp add: assms(2))
qed

theorem recovery_settles_everything_witness:
  "announced (w_bus (Recover demo_ingest (\<lambda>j. []) crashed_world)) = [''m1'']"
proof -
  have "message_inv (messages (w_store crashed_world))" "w_bus crashed_world = NewBus 1"
    by (simp_all add: message_inv_def crashed_world_def demo_defs)
  from recovery_settles_everything [OF this, of demo_ingest "\<lambda>j. []"]
  show ?thesis
    by (simp add: ListPendingExtractions_def crashed_world_def demo_defs scan_message_def)
qed

text \<open>
  C14: an acknowledgement survives. At any moment of any interleaving of deliveries, deaths of the
  process and losses of power a reference names nothing or the whole container of the call that
  put it; where directories are synced every committed row finds its containers complete; and a
  store opened for full durability still has the row of every message it acknowledged.
\<close>

theorem acknowledged_mail_survives:
  assumes "ack_reachable posix mode w"
  shows "stored (bw_disk (aw_blobs w)) ref \<in> {None, bw_put (aw_blobs w) ref} \<and>
     (posix \<longrightarrow> (\<forall>r \<in> set (aw_rows w). \<forall>i \<in> row_refs r.
        bw_put (aw_blobs w) i \<noteq> None \<and> stored (bw_disk (aw_blobs w)) i = bw_put (aw_blobs w) i)) \<and>
     (mode = SyncFull \<longrightarrow> aw_acked w \<subseteq> set (aw_rows w))"
proof -
  have inv: "ack_inv posix mode w" by (rule ack_reachable_inv [OF assms])
  then have b: "blob_reachable posix (aw_blobs w)" by (simp add: ack_inv_def)
  have "bw_put (aw_blobs w) i \<noteq> None \<and> stored (bw_disk (aw_blobs w)) i = bw_put (aw_blobs w) i"
    if h: posix "r \<in> set (aw_rows w)" "i \<in> row_refs r" for r i
    using stored_done [of "aw_blobs w" i] inv b h by (auto simp: ack_inv_def)
  then show ?thesis using stored_whole [OF b] inv by (auto simp: ack_inv_def)
qed

theorem acknowledged_mail_survives_witness:
  "\<exists>w. ack_reachable True SyncFull w \<and> plain_row ''m1'' (demo_id 7) \<in> aw_acked w \<inter> set (aw_rows w) \<and>
     stored (bw_disk (aw_blobs w)) (demo_id 7) = Some ''sealed''"
proof -
  have "is_temp ''.tmp-1''" by (simp add: is_temp_def)
  then obtain w where w: "ack_reachable True SyncFull w" "plain_row ''m1'' (demo_id 7) \<in> aw_acked w"
    "bw_put (aw_blobs w) (demo_id 7) = Some ''sealed''" "aw_rows w = [plain_row ''m1'' (demo_id 7)]"
    using deliver_alone [of "demo_id 7" "''.tmp-1''" True SyncFull "''m1''" "''sealed''"] demo_ids_valid by blast
  have "demo_id 7 \<in> row_refs (plain_row ''m1'' (demo_id 7))" by (simp add: row_refs_def plain_row_def)
  then show ?thesis
    using acknowledged_mail_survives [OF w(1), of "demo_id 7"] w by (intro exI [of _ w]) auto
qed

section \<open>The evidence ledger\<close>



section \<open>The HTTP surface\<close>

text \<open>
  C4: a secret leaves the server in one place, the answer to a claim: whatever the request, an
  answer with a value was asked for on the claim route with a credential that stands in the store
  of this server's project and owns the run of the lease.
\<close>

theorem secrets_leave_by_the_claim_route:
  assumes "routes w sv rq s = (resp, s')" and "rp_body resp = ClaimAnswered a" and "cb_value a \<noteq> []"
  shows "\<exists>p i l r. rq_path rq = [''api'', ''v1'', ''leases'', i, ''claims''] \<and>
     authenticate w sv s rq = Inr p \<and> live_credential w sv s (bearerToken rq) \<and>
     Lease s i = Some l \<and> Run s (ls_run l) = Some r \<and> ownsRun p r \<and> cb_reason a = ReasonOK"
  by (rule value_route [OF assms])

theorem secrets_leave_by_the_claim_route_witness:
  "\<exists>resp s' a. routes demo_api demo_server (claim_request_of ''rt_a'') demo_store = (resp, s') \<and>
     rp_body resp = ClaimAnswered a \<and> cb_value a = ''4711'' \<and>
     live_credential demo_api demo_server demo_store (bearerToken (claim_request_of ''rt_a''))"
proof -
  obtain resp s' where r: "routes demo_api demo_server (claim_request_of ''rt_a'') demo_store = (resp, s')"
    by (cases "routes demo_api demo_server (claim_request_of ''rt_a'') demo_store")
  then obtain a where a: "rp_body resp = ClaimAnswered a" "cb_value a = ''4711''"
    using demo_claim_over_http by (auto simp: answered_value_def split: body.splits)
  from secrets_leave_by_the_claim_route [OF r a(1)] a r show ?thesis by auto
qed

text \<open>
  C9: a run token sees its own run only. A request about another run, or a lease of another run,
  gets the same answer from every store in which the target is not the caller's, so whether it
  exists cannot be told, and changes nothing.
\<close>

theorem foreign_runs_are_invisible:
  assumes "authenticate w sv s rq = Inr p" and "authenticate w sv t rq = Inr p"
    and "pr_kind p = principalRun" and "rq_path rq \<noteq> [''healthz'']"
    and "target_run s (rq_path rq) \<noteq> Some (pr_run p)" and "target_run t (rq_path rq) \<noteq> Some (pr_run p)"
  shows "\<exists>resp. 400 \<le> rp_status resp \<and> routes w sv rq s = (resp, s) \<and> routes w sv rq t = (resp, t)"
  by (rule foreign_run_invisible [OF assms])

theorem foreign_runs_are_invisible_witness:
  "\<exists>resp. 400 \<le> rp_status resp \<and>
     routes demo_api demo_server (evidence_request_of ''r2'') demo_store = (resp, demo_store) \<and>
     routes demo_api demo_server (evidence_request_of ''r2'') other_run_store = (resp, other_run_store) \<and>
     Run demo_store ''r2'' = None \<and> Run other_run_store ''r2'' \<noteq> None"
proof -
  have "pr_kind demo_principal = principalRun" "rq_path (evidence_request_of ''r2'') \<noteq> [''healthz'']"
    by (simp_all add: demo_principal_def evidence_request_of_def demo_request_def)
  from foreign_runs_are_invisible [OF demo_authenticated this demo_foreign]
  have "\<exists>resp. 400 \<le> rp_status resp \<and>
     routes demo_api demo_server (evidence_request_of ''r2'') demo_store = (resp, demo_store) \<and>
     routes demo_api demo_server (evidence_request_of ''r2'') other_run_store = (resp, other_run_store)" .
  moreover have "Run demo_store ''r2'' = None" "Run other_run_store ''r2'' \<noteq> None"
    by (simp_all add: Run_def find_row_def other_run_store_def demo_defs)
  ultimately show ?thesis by blast
qed

text \<open>
  C10: without a credential of this project, or from a host or an origin that is not allowed, every
  route but the health check is refused and leaves the store as it was.
\<close>

theorem nothing_without_a_credential:
  assumes "checkHostAndOrigin w sv rq \<noteq> None \<or> \<not> live_credential w sv s (bearerToken rq)"
    and "rq_path rq \<noteq> [''healthz'']"
  shows "\<exists>resp. routes w sv rq s = (resp, s) \<and> 400 \<le> rp_status resp"
  by (rule routes_closed [OF assms])

theorem nothing_without_a_credential_witness:
  "\<exists>resp. routes demo_api demo_server (claim_request_of ''rt_b'') demo_store = (resp, demo_store) \<and>
     400 \<le> rp_status resp"
  by (rule nothing_without_a_credential)
     (simp_all add: demo_token demo_no_credential, simp add: claim_request_of_def demo_request_def)

text \<open>
  C40: a timeout in milliseconds is taken as it is when it lies between 0 and 120000 and refused
  otherwise, as long as its product with a million fits 64 bits; beyond that the product wraps,
  and a timeout of five centuries is taken as less than a millisecond.
\<close>

theorem claim_timeout_wraps_around:
  "(\<forall>ms :: 64 word. \<bar>sint ms\<bar> \<le> 9223372036854 \<longrightarrow>
      claim_timeout ms = (if 0 \<le> sint ms \<and> sint ms \<le> 120000 then Some (sint ms * 1000000) else None)) \<and>
   claim_timeout 18446744073710 = Some 448384"
  using claim_timeout_small claim_timeout_wraps by blast

theorem claim_timeout_wraps_around_witness:
  "claim_timeout 120000 = Some 120000000000 \<and> claim_timeout 18446744073710 = Some 448384"
  using claim_timeout_wraps_around by (auto dest: spec [where x = "120000 :: 64 word"])

section \<open>Projects and the command line\<close>



text \<open>
  C33: setting an allowlist is an update of one entry of the map from projects to lists. On
  success the list of the project is the canonical form of what was given, with no two spellings
  of one pattern, and every other list stays; on an error every list stays.
\<close>

theorem allowlist_is_replaced_whole:
  assumes "SetAllowlist to_ascii i patterns s = (r, s')"
  shows "case r of
     Inl e \<Rightarrow> Allowlist s' = Allowlist s
   | Inr u \<Rightarrow> \<exists>cs. canonical_patterns to_ascii patterns = Inr cs \<and> distinct (map asciiLower cs) \<and>
       Allowlist s' = (Allowlist s)(i := cs)"
proof (cases r)
  case (Inl e)
  then have "tables s' = tables s" using SetAllowlist_failed assms by simp
  then show ?thesis using Inl by (simp add: Allowlist_def fun_eq_iff)
next
  case (Inr u)
  then show ?thesis using SetAllowlist_ok [of to_ascii i patterns s s'] assms by (auto simp: fun_eq_iff)
qed

theorem allowlist_is_replaced_whole_witness:
  "\<exists>s'. SetAllowlist demo_ascii ''p1'' [''A.co'', ''b.co''] demo_store = (Inr (), s') \<and>
     Allowlist s' = (Allowlist demo_store)(''p1'' := [''a.co'', ''b.co''])"
proof -
  have ok: "fst (SetAllowlist demo_ascii ''p1'' [''A.co'', ''b.co''] demo_store) = Inr ()"
    "canonical_patterns demo_ascii [''A.co'', ''b.co''] = Inr [''a.co'', ''b.co'']"
    by code_simp+
  then obtain s' where r: "SetAllowlist demo_ascii ''p1'' [''A.co'', ''b.co''] demo_store = (Inr (), s')"
    by (metis prod.collapse)
  from allowlist_is_replaced_whole [OF r] r ok(2) show ?thesis by auto
qed

text \<open>
  C39: a first start whose domains are refused leaves a project with no allowlist, and from then
  on the directory cannot be served: whatever flags the server is started with and however often,
  it answers with an error, and the directory stays as it is.
\<close>

theorem half_initialised_never_serves:
  assumes "bootstrap to_ascii name domains s = (Inl e, s')" and "ListProjects s = []"
    and "ListProjects s' \<noteq> []" and "ac_allowlist (accounts_of s) = []"
  shows "half_initialised s' \<and>
     (\<forall>env o' w. half_initialised (w_store w) \<longrightarrow>
        (\<exists>e w'. serve_boot env o' w = (Inl e, w') \<and> half_initialised (w_store w')))"
  using bootstrap_half [OF assms] serve_stuck by (auto simp: half_initialised_def)

theorem half_initialised_never_serves_witness:
  "half_initialised (snd refused_start)"
proof -
  obtain e where "refused_start = (Inl e, snd refused_start)"
    using refused_start_half by (cases "fst refused_start") (metis prod.collapse, simp)
  then have b: "bootstrap (\<lambda>h. None) ''demo'' [''a.co''] blank_store = (Inl e, snd refused_start)"
    by (simp add: refused_start_def)
  show ?thesis
    using half_initialised_never_serves [OF b] refused_start_half by fastforce
qed

text \<open>
  C26: a running server can return by steps of its own exactly when it was cancelled; one whose
  listener failed closes everything down to the wait for the sweeper and stays there. The store
  is closed only when no worker, sweeper, listener or queue is left to use it.
\<close>

theorem server_returns_iff_cancelled:
  assumes "serve_reachable workers places api r"
  shows "((\<exists>r'. own_step\<^sup>*\<^sup>* r r' \<and> ru_main r' = Returned) \<longleftrightarrow> ru_cancelled r) \<and>
     (\<not> ru_cancelled r \<and> ru_main r \<noteq> Serving \<longrightarrow> (\<exists>r'. own_step\<^sup>*\<^sup>* r r' \<and> ru_main r' = AwaitSweeper)) \<and>
     (\<not> ru_store_open r \<longrightarrow>
        ru_idle r = 0 \<and> ru_busy r = 0 \<and> ru_sweeper r = SweeperGone \<and> ru_api r \<noteq> APIServing \<and>
        \<not> ru_smtp_open r \<and> \<not> ru_api_open r \<and> \<not> ru_queue_open r \<and> \<not> ru_bus_open r)"
proof -
  note ok = serve_reachable_ok [OF assms]
  have "ru_cancelled r" if h: "own_step\<^sup>*\<^sup>* r r'" "ru_main r' = Returned" for r'
    using not_cancelled_stage [OF serve_reachable_ok [OF serve_reachable_own [OF h(1) assms]]]
      own_steps_cancelled [OF h(1)] h(2) by auto
  then show ?thesis
    using cancelled_returns [OF ok] failed_hangs [OF ok] store_closed [OF assms] by blast
qed

theorem server_returns_iff_cancelled_witness:
  "\<exists>r. serve_reachable 2 8 True r \<and> ru_cancelled r \<and> (\<exists>r'. own_step\<^sup>*\<^sup>* r r' \<and> ru_main r' = Returned)"
proof -
  let ?r = "(running_start 2 True)\<lparr>ru_cancelled := True\<rparr>"
  have "serve_reachable 2 8 True ?r"
    by (intro serve_reachable.client [OF serve_reachable.up] client_step.signal)
  then show ?thesis using server_returns_iff_cancelled [of 2 8 True ?r] by auto
qed

section \<open>The MCP surface\<close>

text \<open>
  C22: in every state of a session, however its requests overlap, the responses written and the
  requests still in progress are together exactly the answers the lines call for: one per
  request under its id, one under null for a line that does not decode, none for a notification.
\<close>

theorem every_request_is_answered_once:
  assumes "mcp_reachable parse print p s"
  shows "mset (map rr_id (sn_out s)) + mset (map task_id (sn_tasks s)) =
     mset (concat (map (due parse) (sn_lines s)))"
  using mcp_accounted [OF assms] by (simp add: accounted_def)

theorem every_request_is_answered_once_witness:
  "mset (map task_id (sn_tasks demo_sent)) = mset (concat (map (due demo_parse) [''open'']))"
  using every_request_is_answered_once [OF demo_sent_reachable] demo_open_tasks
  by (simp add: demo_sent_def)

text \<open>
  C23: the proxy sends the project bearer to open runs and for nothing else. Every other call
  carries a run token that an answer to such a call had minted for the run it addresses, directly
  or through a lease granted in that run.
\<close>

theorem mcp_calls_are_licensed:
  assumes "mcp_reachable parse print (newProxy base bearer) s" and "c \<in> set (sn_calls s)"
  shows "licensed parse s c \<and> px_bearer (sn_proxy s) = bearer"
  using mcp_inv_reachable [OF assms(1)] mcp_bearer_fixed [OF assms(1)] assms(2)
  by (simp add: mcp_inv_def newProxy_def)

theorem mcp_calls_are_licensed_witness:
  "licensed demo_parse demo_sent (run_call demo_proxy)"
  using mcp_calls_are_licensed [OF demo_sent_reachable [unfolded demo_proxy_def], of "run_call demo_proxy"]
  by (simp add: demo_sent_def)



section \<open>Relay conformance\<close>

text \<open>
  C32: the report lists its nine rules in order and passes exactly when the relay carried the
  message: the same codes, links and verify link are extracted, the identity headers agree up to
  white space, each part that was there reads the same and both parts are still there.
\<close>

theorem relay_report_is_exact:
  "map fd_rule (Compare u hu url_path before after) = nine_rules \<and>
   (report_OK (Compare u hu url_path before after) \<longleftrightarrow> carried u hu before after)"
  using Compare_rules Compare_OK by blast

section \<open>Listings\<close>

text \<open>
  C34: following the continuation tokens page by page lists exactly what one listing without a
  limit does, every message once and in its order, however small the pages are, and ends after at
  most as many pages as there are messages.
\<close>

theorem pages_are_the_listing:
  assumes "reachable sv ig s"
    and "\<forall>m\<in>set (messages s). storable (msg_received_at m) \<and> ValidID (msg_id m)"
    and "0 < mf_limit f" and "cursor_is_zero (mf_cursor f)" and "length (messages s) < n"
  shows "concat (list_pages to_ascii general s f n) = ListMessages to_ascii s (f\<lparr>mf_limit := 0\<rparr>) \<and>
     (\<forall>page\<in>set (list_pages to_ascii general s f n). page \<noteq> [] \<and> length page \<le> mf_limit f)"
proof -
  have "distinct (map msg_id (messages s))"
    using reachable_inv [OF assms(1)] by (simp add: store_inv_def message_inv_def)
  from list_pages_whole [OF this assms(2-5)] show ?thesis by blast
qed

theorem pages_are_the_listing_witness:
  "concat (list_pages demo_ascii (\<lambda>s. None) demo_pages demo_filter 3) =
     ListMessages demo_ascii demo_pages (demo_filter\<lparr>mf_limit := 0\<rparr>) \<and>
   length (concat (list_pages demo_ascii (\<lambda>s. None) demo_pages demo_filter 3)) = 2"
proof -
  have rows: "msg_id m \<in> {demo_id 7, demo_id 8} \<and> msg_received_at m = 7000000"
    if "m \<in> set (messages demo_pages)" for m
    using imageI [OF that, of "\<lambda>m. (msg_id m, msg_received_at m)"]
    unfolding set_map [symmetric] demo_pages_rows by auto
  have "\<forall>m\<in>set (messages demo_pages). storable (msg_received_at m) \<and> ValidID (msg_id m)"
    using rows demo_ids_valid demo_times(1) by fastforce
  moreover have "length (messages demo_pages) < 3"
    using arg_cong [OF demo_pages_rows, of length] by simp
  ultimately show ?thesis
    using pages_are_the_listing [OF demo_pages_reachable, of demo_filter 3 demo_ascii "\<lambda>s. None"] demo_listing
    by simp
qed

text \<open>
  C35: filling in the recipients of a page, batch after batch of ids, gives every message of a
  listing of a reachable store its own recipients, by kind and address, and leaves the page as it is.
\<close>

theorem listings_carry_recipients:
  assumes "reachable sv ig s"
  shows "attachRecipients (recipient_table (messages s))
       (map (\<lambda>v. (msg_id (mv_row v), [])) (ListMessages to_ascii s f)) =
     map (\<lambda>v. (msg_id (mv_row v), sort_key recipient_order (msg_recipients (mv_row v)))) (ListMessages to_ascii s f)"
  using listing_recipients reachable_inv [OF assms] by (simp add: store_inv_def)

theorem listings_carry_recipients_witness:
  "map snd (attachRecipients (recipient_table (messages demo_pages))
       (map (\<lambda>v. (msg_id (mv_row v), [])) (ListMessages demo_ascii demo_pages demo_filter))) =
     map (\<lambda>v. sort_key recipient_order (msg_recipients (mv_row v))) (ListMessages demo_ascii demo_pages demo_filter) \<and>
   length (ListMessages demo_ascii demo_pages demo_filter) = 1"
proof -
  have "length (ListMessages demo_ascii demo_pages demo_filter) = 1"
    by code_simp
  then show ?thesis
    using listings_carry_recipients [OF demo_pages_reachable, of demo_ascii demo_filter] by simp
qed

section \<open>Secrets\<close>

text \<open>
  C29: a sealed container opens under its own key to what was sealed; another key tells that it is
  not the one before it tries; and whatever opens under a key is, byte for byte, a container that
  key sealed. The cipher is one that obeys its documented laws.
\<close>

theorem containers_are_sealed:
  assumes "gcm_laws g" and "well_formed_key k" and "length nonce = nonceSize"
  shows "Open g k (Seal g nonce k p) = Inr p \<and>
     (\<forall>j. sk_id j \<noteq> sk_id k \<longrightarrow> Open g j (Seal g nonce k p) = Inl ErrKeyMismatch) \<and>
     (\<forall>c q. Open g k c = Inr q \<longrightarrow> (\<exists>n. length n = nonceSize \<and> c = Seal g n k q))"
  using Open_Seal [OF assms] Open_other_key [OF assms] Open_genuine [OF assms(1,2)] by metis

theorem containers_are_sealed_witness:
  "Open toy_gcm (toy_key (CHR ''a'')) (Seal toy_gcm (replicate nonceSize (CHR ''n'')) (toy_key (CHR ''a'')) ''s'') =
     Inr ''s''"
  using containers_are_sealed [OF toy_gcm_laws toy_key_ok, of "replicate nonceSize (CHR ''n'')"] by simp

text \<open>
  C27: processes that race to create the key file of a project end with one key: while no system
  call fails, any two that have a key have the same one, and it is the one in the file.
\<close>

theorem one_key_per_directory:
  assumes "key_reachable False f0 w" and "kw_pc w p = HasKey k" and "kw_pc w q = HasKey l"
  shows "k = l \<and> readKeyFile (kw_fs w) = KeyBytes k"
  using keys_agree [OF assms] by simp

theorem one_key_per_directory_witness:
  "\<exists>w. key_reachable False empty_keys w \<and> kw_pc w 0 = HasKey (replicate keySize (CHR ''a'')) \<and>
     readKeyFile (kw_fs w) = KeyBytes (replicate keySize (CHR ''a''))"
proof -
  obtain w where w: "key_reachable False empty_keys w" "kw_pc w 0 = HasKey (replicate keySize (CHR ''a''))"
    using one_process_creates [of "replicate keySize (CHR ''a'')"] by auto
  with one_key_per_directory [OF w w(2)] show ?thesis by auto
qed

text \<open>
  C28: loading the key ends: whatever the other processes do to the file in between, a process
  makes at most fifteen steps, and the only states it stops in are to have a key or to have given
  up.
\<close>

theorem key_loading_ends:
  "(\<forall>n c. key_run faults n Loading c \<longrightarrow> n \<le> 15) \<and>
   (\<forall>f c. (\<forall>f' c'. \<not> key_step faults (f, c) (f', c')) \<longrightarrow> c = GaveUp \<or> (\<exists>m. c = HasKey m))"
  using key_run_bound [of faults _ Loading] key_stuck by (fastforce simp: awaitAttempts_def)

theorem key_loading_ends_witness:
  "key_run False 1 Loading (first_read empty_keys) \<and> (1::nat) \<le> 15"
proof -
  have "key_run False 1 Loading (first_read empty_keys)"
    using key_run.more [OF key_step.load key_run.none] by simp
  with key_loading_ends [of False] show ?thesis by blast
qed

section \<open>The event bus\<close>

text \<open>
  C20: a client that reconnects with an identifier of this boot either is told to refetch or
  receives every event published after that identifier, once and in order: what it is replayed,
  what it has read and what is buffered for it are exactly those events, however the bus was
  scheduled in between; a client that was dropped has an initial part of them.
\<close>

theorem replay_joins_live:
  assumes "bus_reachable g b" and "SubscribeFrom from b = (Inr s, b1)"
    and "\<not> id_IsZero from" and "Generation from = g" and "bus_step\<^sup>*\<^sup>* b1 b2"
    and "t = bus_subs b2 ! length (bus_subs b)"
  shows "sb_reset s \<or>
     (let seen = sb_replay t @ sb_taken t @ sb_buffer t; due = drop (nat (Seq from)) (bus_log b2)
      in prefix seen due \<and> (sb_closed t \<or> seen = due))"
proof -
  have "bus_step b b1" using assms(2) by (rule bus_step.subscribe)
  then have b1: "bus_reachable g b1" using assms(1) by (rule bus_reachable.step [rotated])
  have "bus_inv b" "bus_inv b2" "Generation from = bus_generation b"
    using bus_reachable_inv [OF assms(1)] bus_reachable_inv [OF bus_steps_reachable [OF assms(5) b1]]
      bus_generation_reachable [OF assms(1)] assms(4) by simp_all
  then show ?thesis
    using replay_then_live [OF _ assms(2,3) _ _ bus_steps_frame [OF assms(5)] _ assms(6)]
    unfolding Let_def by blast
qed

theorem replay_joins_live_witness:
  "\<exists>s b1. SubscribeFrom (EventID 1 1) demo_bus = (Inr s, b1) \<and> \<not> sb_reset s \<and>
     prefix (sb_replay s) (drop 1 (bus_log b1)) \<and> length (sb_replay s) = 1"
proof -
  obtain s b1 where r: "SubscribeFrom (EventID 1 1) demo_bus = (Inr s, b1)"
    "\<not> sb_reset s" "length (sb_replay s) = 1"
    "bus_subs b1 = [s]" "bus_subs demo_bus = []" "sb_taken s = []" "sb_buffer s = []"
  proof -
    have "case SubscribeFrom (EventID 1 1) demo_bus of
        (Inr s, b1) \<Rightarrow> \<not> sb_reset s \<and> length (sb_replay s) = 1 \<and> sb_taken s = [] \<and> sb_buffer s = []
          \<and> bus_subs demo_bus = []
      | _ \<Rightarrow> False" by code_simp
    then show ?thesis
      using that by (auto simp: SubscribeFrom_def Let_def split: if_splits)
  qed
  have "\<not> id_IsZero (EventID 1 1)" by (simp add: id_IsZero_def zero_id_def)
  from replay_joins_live [OF demo_bus_reachable r(1) this _ rtranclp.rtrancl_refl, of s] r
  show ?thesis by (simp add: Let_def)
qed

text \<open>
  C21: a waiter cannot miss its message: while it is open, once an event it matches has been
  published since it last came away with one, the next wait returns at once with a published
  event that matches, whatever else happened to the bus.
\<close>

theorem published_match_wakes_waiter:
  assumes "bus_reachable g b" and "w \<in> set (bus_waiters b)" and "\<not> wt_closed w"
    and "e \<in> set (drop (wt_mark w) (bus_log b))" and "wt_match w e"
  shows "\<exists>e' w'. Wait n w = Some (Some e', w') \<and> wt_match w e' \<and> e' \<in> set (bus_log b)"
proof -
  have "waiter_ok (bus_log b) w"
    using bus_reachable_inv [OF assms(1)] assms(2) by (simp add: bus_inv_def list_all_iff)
  from Wait_wakes [OF this assms(3-5)] show ?thesis by metis
qed

theorem published_match_wakes_waiter_witness:
  "\<exists>w\<in>set (bus_waiters waiting_bus). \<exists>e' w'. Wait 1 w = Some (Some e', w') \<and> ev_name e' = ''m''"
proof -
  let ?b = "snd (SubscribeMatch (\<lambda>e. ev_name e = ''m'') (NewBus 1))"
  obtain w where w: "bus_waiters waiting_bus = [w]" "\<not> wt_closed w" "wt_mark w = 0"
    "wt_match w = (\<lambda>e. ev_name e = ''m'')"
    by (simp add: waiting_bus_def publish_event_def SubscribeMatch_def NewBus_def Let_def
        waiter_deliver_def)
  obtain e where e: "bus_log waiting_bus = [e]" "ev_name e = ''m''"
    by (simp add: waiting_bus_def publish_event_def SubscribeMatch_def NewBus_def Let_def)
  from published_match_wakes_waiter [OF waiting_bus_reachable, of w e 1] w e show ?thesis by auto
qed

section \<open>The event stream\<close>



section \<open>Codes and links\<close>

text \<open>
  C30: the code extraction chooses is the best one there is: a run of four to eight digits that
  stands alone and outside every URL, with a positive score no other such run exceeds; it chooses
  none only when no run scores above zero.
\<close>

theorem best_code_is_best:
  "(rs_otp_best (Extract u hu i) = [] \<and>
      {(a, b). code_in u hu i a b \<and> 0 < code_score u hu i a b} = {}) \<or>
   (\<exists>a b. code_in u hu i a b \<and> rs_otp_best (Extract u hu i) = PlainUrls.slice (message_text u hu i) a b \<and>
      0 < code_score u hu i a b \<and>
      (\<nexists>a' b'. code_in u hu i a' b' \<and> code_score u hu i a b < code_score u hu i a' b'))"
proof (cases "rs_otp_best (Extract u hu i) = []")
  case True
  have "\<not> 0 < code_score u hu i a b" if "code_in u hu i a b" for a b
    using best_code(1) [OF True that] by simp
  then show ?thesis using True by blast
next
  case False
  from best_code(2) [OF this] obtain a b where ab: "code_in u hu i a b"
    "rs_otp_best (Extract u hu i) = PlainUrls.slice (message_text u hu i) a b" "0 < code_score u hu i a b"
    and top: "\<forall>a' b'. code_in u hu i a' b' \<longrightarrow> code_score u hu i a' b' \<le> code_score u hu i a b" by blast
  have "\<nexists>a' b'. code_in u hu i a' b' \<and> code_score u hu i a b < code_score u hu i a' b'"
    using top by (auto simp: not_less)
  with ab show ?thesis by blast
qed

text \<open>
  C31: every URL of a message is listed once, its kind that of the first of its occurrences that
  says anything, and marked actionable exactly when its scheme and host allow it.
\<close>

theorem each_link_once:
  "links_ok u (hu_parse hu)
     (fst (scanHTML (hu_tokens hu) (uc_nfc u (in_html i))) @
      plain_links u (plain_text u i (snd (scanHTML (hu_tokens hu) (uc_nfc u (in_html i))))))
     (rs_links (Extract u hu i))"
  unfolding Extract_links(1) by (rule collectLinks_ok)

end
